(* ===== verification/Prelude.thy ===== *)
theory Prelude
  imports Main "HOL-Library.Word" "HOL-Library.Sublist" "HOL-Library.Multiset"
begin

text \<open>
  What every component of the development shares: the Rust machine types as the model writes
  them, the standard-library operations the sources use on them, generic lemmas on lists and
  options, and the interface locale for state machines (\<open>invariant_machine\<close>).

  \<^item> \<open>usize\<close> and \<open>u64\<close> are both 64 bits wide on the platforms SCV supports; their
    values are \<open>nat\<close>. Saturating operations write the bound \<open>usize_max\<close> out;
    \<open>saturating_sub\<close> is subtraction of \<open>nat\<close>.
  \<^item> A Rust \<open>String\<close> whose characters the code never inspects is a HOL \<open>string\<close>, its
    UTF-8 bytes, so that \<open>len\<close> is \<open>length\<close>. Where the code iterates over \<open>chars\<close>
    the text is a \<open>ustr\<close>, a list of Unicode scalar values, and \<open>len\<close> is \<open>ulen\<close>.
  \<^item> \<open>Result\<close> is a sum with \<open>Inl\<close> the error.
\<close>

section \<open>Collections of facts\<close>

named_theorems rust_simps \<open>definitions of standard-library operations\<close>
named_theorems step_simps \<open>unfolding of the components' operations\<close>
named_theorems inv_intros \<open>preservation of the components' invariants\<close>

section \<open>Machine integers\<close>

definition usize_max :: nat where
  "usize_max = 2 ^ 64 - 1"

definition sat_add :: "nat \<Rightarrow> nat \<Rightarrow> nat" where
  [rust_simps]: "sat_add a b = min (a + b) usize_max"

definition sat_mul :: "nat \<Rightarrow> nat \<Rightarrow> nat" where
  [rust_simps]: "sat_mul a b = min (a * b) usize_max"

text \<open>\<open>usize::div_ceil\<close>; a zero divisor panics in Rust, and every caller excludes it.\<close>

definition div_ceil :: "nat \<Rightarrow> nat \<Rightarrow> nat" where
  [rust_simps]: "div_ceil a b = (if a mod b > 0 then a div b + 1 else a div b)"

lemma sat_add_le_max [simp]: "sat_add a b \<le> usize_max"
  by (simp add: sat_add_def)

lemma sat_add_le [simp]: "sat_add a b \<le> a + b"
  by (simp add: sat_add_def)

lemma sat_add_exact: "a + b \<le> usize_max \<Longrightarrow> sat_add a b = a + b"
  by (simp add: sat_add_def)

lemma sat_add_mono: "a \<le> a' \<Longrightarrow> b \<le> b' \<Longrightarrow> sat_add a b \<le> sat_add a' b'"
  by (simp add: sat_add_def)

lemma sat_add_bound: "sat_add a b \<le> c \<Longrightarrow> c < usize_max \<Longrightarrow> a + b \<le> c"
  by (simp add: sat_add_def min_def split: if_splits)

lemma sat_add_gt_iff: "l < usize_max \<Longrightarrow> l < sat_add a b \<longleftrightarrow> l < a + b"
  by (auto simp: sat_add_def)

lemma div_ceil_mono: "a \<le> b \<Longrightarrow> div_ceil a k \<le> div_ceil b k"
proof -
  assume le: "a \<le> b"
  have "a div k \<le> b div k" using le by (rule div_le_mono)
  moreover have "a div k = b div k \<Longrightarrow> a mod k \<le> b mod k"
    using le by (metis div_mult_mod_eq nat_add_left_cancel_le)
  ultimately show ?thesis
    by (cases "a div k = b div k") (auto simp: div_ceil_def)
qed

section \<open>Text\<close>

type_synonym uchar = nat
type_synonym ustr = "uchar list"

text \<open>An ASCII literal of the source as text.\<close>

definition lit :: "string \<Rightarrow> ustr" where
  "lit s = map of_char s"

definition utf8_len :: "uchar \<Rightarrow> nat" where
  "utf8_len c = (if c < 128 then 1 else if c < 2048 then 2 else if c < 65536 then 3 else 4)"

definition ulen :: "ustr \<Rightarrow> nat" where
  "ulen s = sum_list (map utf8_len s)"

text \<open>\<open>char::is_whitespace\<close> is Unicode's \<open>White_Space\<close>, \<open>char::is_control\<close> its category \<open>Cc\<close>.\<close>

definition is_whitespace :: "uchar \<Rightarrow> bool" where
  "is_whitespace c \<longleftrightarrow> (9 \<le> c \<and> c \<le> 13) \<or> c = 32 \<or> c = 133 \<or> c = 160 \<or> c = 5760 \<or>
     (8192 \<le> c \<and> c \<le> 8202) \<or> c = 8232 \<or> c = 8233 \<or> c = 8239 \<or> c = 8287 \<or> c = 12288"

definition is_control :: "uchar \<Rightarrow> bool" where
  "is_control c \<longleftrightarrow> c < 32 \<or> (127 \<le> c \<and> c \<le> 159)"

definition trim :: "ustr \<Rightarrow> ustr" where
  "trim s = rev (dropWhile is_whitespace (rev (dropWhile is_whitespace s)))"

lemma utf8_len_pos [simp]: "0 < utf8_len c"
  by (simp add: utf8_len_def)

lemma utf8_len_le: "utf8_len c \<le> 4"
  by (simp add: utf8_len_def)

lemma ulen_simps [simp]:
  "ulen [] = 0" "ulen (c # s) = utf8_len c + ulen s" "ulen (s @ t) = ulen s + ulen t"
  by (simp_all add: ulen_def)

lemma ulen_eq_0 [simp]: "ulen s = 0 \<longleftrightarrow> s = []"
  by (cases s) (auto simp: less_not_refl2)

lemma length_le_ulen: "length s \<le> ulen s"
proof (induction s)
  case (Cons c s)
  have "Suc 0 \<le> utf8_len c" using utf8_len_pos[of c] by linarith
  with Cons show ?case by simp
qed simp

lemma ulen_take_le: "ulen (take n s) \<le> ulen s"
  by (metis append_take_drop_id le_add1 ulen_simps(3))

lemma ulen_take_mono: "m \<le> n \<Longrightarrow> ulen (take m s) \<le> ulen (take n s)"
  by (metis min.absorb1 take_take ulen_take_le)

text \<open>
  The same on the UTF-8 bytes of a string. \<open>whitespace_bytes\<close> lists the encodings of the
  \<open>White_Space\<close> characters; \<open>is_char_boundary\<close> is false exactly at a continuation byte.
\<close>

definition whitespace_bytes :: "string list" where
  "whitespace_bytes =
     [[CHR 0x09], [CHR 0x0A], [CHR 0x0B], [CHR 0x0C], [CHR 0x0D], [CHR 0x20],
      [CHR 0xC2, CHR 0x85], [CHR 0xC2, CHR 0xA0], [CHR 0xE1, CHR 0x9A, CHR 0x80],
      [CHR 0xE2, CHR 0x80, CHR 0x80], [CHR 0xE2, CHR 0x80, CHR 0x81], [CHR 0xE2, CHR 0x80, CHR 0x82],
      [CHR 0xE2, CHR 0x80, CHR 0x83], [CHR 0xE2, CHR 0x80, CHR 0x84], [CHR 0xE2, CHR 0x80, CHR 0x85],
      [CHR 0xE2, CHR 0x80, CHR 0x86], [CHR 0xE2, CHR 0x80, CHR 0x87], [CHR 0xE2, CHR 0x80, CHR 0x88],
      [CHR 0xE2, CHR 0x80, CHR 0x89], [CHR 0xE2, CHR 0x80, CHR 0x8A], [CHR 0xE2, CHR 0x80, CHR 0xA8],
      [CHR 0xE2, CHR 0x80, CHR 0xA9], [CHR 0xE2, CHR 0x80, CHR 0xAF], [CHR 0xE2, CHR 0x81, CHR 0x9F],
      [CHR 0xE3, CHR 0x80, CHR 0x80]]"

fun strip_fuel :: "nat \<Rightarrow> string list \<Rightarrow> string \<Rightarrow> string" where
  "strip_fuel 0 ws s = s"
| "strip_fuel (Suc n) ws s =
     (case List.find (\<lambda>w. prefix w s) ws of
        Some w \<Rightarrow> strip_fuel n ws (drop (length w) s)
      | None \<Rightarrow> s)"

definition trim_bytes :: "string \<Rightarrow> string" where
  "trim_bytes s =
     (let front = strip_fuel (length s) whitespace_bytes s
      in rev (strip_fuel (length front) (map rev whitespace_bytes) (rev front)))"

definition is_char_boundary :: "string \<Rightarrow> nat \<Rightarrow> bool" where
  "is_char_boundary s i \<longleftrightarrow>
     i = 0 \<or> i = length s \<or>
     (i < length s \<and> \<not> (128 \<le> (of_char (s ! i) :: nat) \<and> (of_char (s ! i) :: nat) < 192))"

fun char_floor :: "string \<Rightarrow> nat \<Rightarrow> nat" where
  "char_floor s 0 = 0"
| "char_floor s (Suc i) = (if is_char_boundary s (Suc i) then Suc i else char_floor s i)"

text \<open>Decimal digits, as \<open>format!\<close> prints an unsigned integer.\<close>

fun show_nat :: "nat \<Rightarrow> string" where
  "show_nat n = (if n < 10 then [char_of (48 + n)] else show_nat (n div 10) @ [char_of (48 + n mod 10)])"

declare show_nat.simps [simp del]

lemma char_floor_le: "char_floor s i \<le> i"
  by (induction s i rule: char_floor.induct) auto

text \<open>Every stripped piece is at least one byte, so \<open>length s\<close> rounds strip all there is.\<close>

lemma whitespace_bytes_nonempty: "[] \<notin> set whitespace_bytes"
  by (simp add: whitespace_bytes_def)

lemma strip_fuel_done:
  assumes "[] \<notin> set ws" and "length s \<le> n"
  shows "\<forall>w \<in> set ws. \<not> prefix w (strip_fuel n ws s)"
  using assms
proof (induction n arbitrary: s)
  case 0
  then show ?case by auto
next
  case (Suc n)
  show ?case
  proof (cases "List.find (\<lambda>w. prefix w s) ws")
    case None
    then have "strip_fuel (Suc n) ws s = s" by simp
    then show ?thesis using None by (simp add: find_None_iff del: strip_fuel.simps)
  next
    case (Some w)
    then have w: "w \<in> set ws" "prefix w s" by (auto simp: find_Some_iff)
    then have "w \<noteq> []" using Suc.prems(1) by metis
    then have "length (drop (length w) s) \<le> n" using Suc.prems(2) by (cases w) simp_all
    then show ?thesis using Suc.IH Suc.prems(1) Some by simp
  qed
qed

section \<open>Lists\<close>

text \<open>\<open>Iterator::position\<close>: the index of the first element that satisfies \<open>p\<close>.\<close>

fun position :: "('a \<Rightarrow> bool) \<Rightarrow> 'a list \<Rightarrow> nat option" where
  "position p [] = None"
| "position p (x # xs) = (if p x then Some 0 else map_option Suc (position p xs))"

lemma position_None_iff: "position p xs = None \<longleftrightarrow> (\<forall>x \<in> set xs. \<not> p x)"
  by (induction xs) auto

lemma position_Some_iff:
  "position p xs = Some i \<longleftrightarrow> i < length xs \<and> p (xs ! i) \<and> (\<forall>j < i. \<not> p (xs ! j))"
proof (induction xs arbitrary: i)
  case (Cons x xs)
  show ?case
  proof (cases i)
    case 0
    then show ?thesis by (auto simp: map_option_case split: option.splits)
  next
    case (Suc k)
    have "(\<forall>j < Suc k. \<not> p ((x # xs) ! j)) \<longleftrightarrow> \<not> p x \<and> (\<forall>j < k. \<not> p (xs ! j))"
      by (auto simp: All_less_Suc2)
    then show ?thesis using Cons.IH[of k] Suc by auto
  qed
qed simp

lemma position_Some_D:
  "position p xs = Some i \<Longrightarrow> i < length xs \<and> p (xs ! i)"
  by (simp add: position_Some_iff)

lemma position_append:
  "position p (xs @ ys) =
     (case position p xs of Some i \<Rightarrow> Some i
      | None \<Rightarrow> map_option ((+) (length xs)) (position p ys))"
proof (induction xs)
  case Nil
  then show ?case by (cases "position p ys") auto
next
  case (Cons x xs)
  then show ?case
    by (auto simp: option.map_comp comp_def map_option_case split: option.splits)
qed

text \<open>\<open>Iterator::rposition\<close>: the index of the last such element.\<close>

definition rposition :: "('a \<Rightarrow> bool) \<Rightarrow> 'a list \<Rightarrow> nat option" where
  "rposition p xs = map_option (\<lambda>i. length xs - 1 - i) (position p (rev xs))"

lemma rposition_None_iff: "rposition p xs = None \<longleftrightarrow> (\<forall>x \<in> set xs. \<not> p x)"
  by (simp add: rposition_def position_None_iff)

lemma rposition_Some_D:
  assumes "rposition p xs = Some i"
  shows "i < length xs" and "p (xs ! i)" and "\<And>j. i < j \<Longrightarrow> j < length xs \<Longrightarrow> \<not> p (xs ! j)"
proof -
  obtain k where k: "position p (rev xs) = Some k" and i: "i = length xs - 1 - k"
    using assms by (auto simp: rposition_def)
  from k have k_len: "k < length xs" and pk: "p (rev xs ! k)"
    and before: "\<And>j. j < k \<Longrightarrow> \<not> p (rev xs ! j)"
    by (simp_all add: position_Some_iff)
  show "i < length xs" using i k_len by linarith
  show "p (xs ! i)" using pk i k_len by (simp add: rev_nth)
  show "\<not> p (xs ! j)" if "i < j" "j < length xs" for j
  proof -
    have "length xs - 1 - j < k" using that i by linarith
    then have "\<not> p (rev xs ! (length xs - 1 - j))" by (rule before)
    then show ?thesis using that by (simp add: rev_nth)
  qed
qed

text \<open>\<open>rsplit_once\<close>: the text before and after the last occurrence of a character.\<close>

definition rsplit_once :: "char \<Rightarrow> string \<Rightarrow> (string \<times> string) option" where
  "rsplit_once c s =
     (case rposition (\<lambda>x. x = c) s of
        None \<Rightarrow> None | Some i \<Rightarrow> Some (take i s, drop (Suc i) s))"

text \<open>\<open>split_once\<close>: before and after its first occurrence.\<close>

definition split_once :: "char \<Rightarrow> string \<Rightarrow> (string \<times> string) option" where
  "split_once c s =
     (case position (\<lambda>x. x = c) s of
        None \<Rightarrow> None | Some i \<Rightarrow> Some (take i s, drop (Suc i) s))"

text \<open>
  \<open>str::parse\<close> for integers: an optional \<open>+\<close> (and, for a signed type, \<open>-\<close>), then at least
  one digit, and a value the type holds.
\<close>

definition is_ascii_digit :: "char \<Rightarrow> bool" where
  "is_ascii_digit c \<longleftrightarrow> 48 \<le> (of_char c :: nat) \<and> (of_char c :: nat) \<le> 57"

definition is_ascii_alphanumeric :: "char \<Rightarrow> bool" where
  "is_ascii_alphanumeric c \<longleftrightarrow>
     is_ascii_digit c \<or> (65 \<le> (of_char c :: nat) \<and> (of_char c :: nat) \<le> 90) \<or>
     (97 \<le> (of_char c :: nat) \<and> (of_char c :: nat) \<le> 122)"

definition parse_digits :: "string \<Rightarrow> nat option" where
  "parse_digits s =
     (if s \<noteq> [] \<and> list_all is_ascii_digit s
      then Some (foldl (\<lambda>n c. n * 10 + (of_char c - 48)) 0 s) else None)"

definition parse_unsigned :: "nat \<Rightarrow> string \<Rightarrow> nat option" where
  "parse_unsigned maxv s =
     (case parse_digits (case s of c # r \<Rightarrow> if c = CHR ''+'' then r else s | [] \<Rightarrow> s) of
        None \<Rightarrow> None | Some v \<Rightarrow> if v \<le> maxv then Some v else None)"

definition parse_signed :: "nat \<Rightarrow> string \<Rightarrow> int option" where
  "parse_signed bits s =
     (case s of
        c # r \<Rightarrow>
          if c = CHR ''-''
          then (case parse_digits r of
                  None \<Rightarrow> None
                | Some v \<Rightarrow> if v \<le> 2 ^ (bits - 1) then Some (- int v) else None)
          else map_option int (parse_unsigned (2 ^ (bits - 1) - 1) s)
      | [] \<Rightarrow> None)"

text \<open>\<open>split\<close> at a character: always at least one piece.\<close>

fun split_at_char :: "char \<Rightarrow> string \<Rightarrow> string list" where
  "split_at_char c [] = [[]]"
| "split_at_char c (x # xs) =
     (if x = c then [] # split_at_char c xs
      else case split_at_char c xs of
             [] \<Rightarrow> [[x]]
           | p # ps \<Rightarrow> (x # p) # ps)"

text \<open>\<open>join\<close> with a separator, and \<open>Vec::dedup\<close>: consecutive repeats removed.\<close>

fun join :: "string \<Rightarrow> string list \<Rightarrow> string" where
  "join sep [] = []"
| "join sep [x] = x"
| "join sep (x # y # xs) = x @ sep @ join sep (y # xs)"

fun dedup :: "'a list \<Rightarrow> 'a list" where
  "dedup (x # y # xs) = (if x = y then dedup (x # xs) else x # dedup (y # xs))"
| "dedup xs = xs"

definition strip_suffix :: "string \<Rightarrow> string \<Rightarrow> string option" where
  "strip_suffix t s = (if suffix t s then Some (take (length s - length t) s) else None)"

definition strip_prefix :: "'a list \<Rightarrow> 'a list \<Rightarrow> 'a list option" where
  "strip_prefix t s = (if prefix t s then Some (drop (length t) s) else None)"

lemma sum_list_update_nat:
  fixes f :: "'a \<Rightarrow> nat"
  shows "i < length xs \<Longrightarrow> sum_list (map f (xs[i := y])) + f (xs ! i) = sum_list (map f xs) + f y"
  by (induction xs arbitrary: i) (auto split: nat.splits)

lemma sum_list_nth_le:
  fixes f :: "'a \<Rightarrow> nat"
  shows "i < length xs \<Longrightarrow> f (xs ! i) \<le> sum_list (map f xs)"
  by (induction xs arbitrary: i) (auto simp: nth_Cons' intro: trans_le_add2)

text \<open>\<open>Vec::remove\<close> and \<open>Vec::insert\<close> at an index in range.\<close>

definition remove_at :: "nat \<Rightarrow> 'a list \<Rightarrow> 'a list" where
  "remove_at i xs = take i xs @ drop (Suc i) xs"

definition insert_at :: "nat \<Rightarrow> 'a \<Rightarrow> 'a list \<Rightarrow> 'a list" where
  "insert_at i x xs = take i xs @ x # drop i xs"

lemma length_remove_at [simp]: "i < length xs \<Longrightarrow> length (remove_at i xs) = length xs - 1"
  by (simp add: remove_at_def)

lemma length_insert_at [simp]: "length (insert_at i x xs) = Suc (length xs)"
  by (simp add: insert_at_def min_def)

lemma mset_remove_at: "i < length xs \<Longrightarrow> add_mset (xs ! i) (mset (remove_at i xs)) = mset xs"
proof -
  assume i: "i < length xs"
  have "mset (take i xs @ xs ! i # drop (Suc i) xs) = mset xs"
    using i by (simp only: id_take_nth_drop[symmetric])
  then show ?thesis by (simp add: remove_at_def)
qed

lemma mset_insert_at: "mset (insert_at i x xs) = add_mset x (mset xs)"
proof -
  have "mset xs = mset (take i xs) + mset (drop i xs)"
    by (metis append_take_drop_id mset_append)
  then show ?thesis by (simp add: insert_at_def)
qed

section \<open>Results\<close>

text \<open>Rust's \<open>?\<close> operator on a \<open>Result\<close> and on an \<open>Option\<close>.\<close>

definition res_bind :: "'e + 'a \<Rightarrow> ('a \<Rightarrow> 'e + 'b) \<Rightarrow> 'e + 'b" where
  [rust_simps]: "res_bind r f = (case r of Inl e \<Rightarrow> Inl e | Inr a \<Rightarrow> f a)"

lemma res_bind_simps [simp]:
  "res_bind (Inl e) f = Inl e" "res_bind (Inr a) f = f a"
  by (simp_all add: res_bind_def)

lemma res_bind_Inr_iff: "res_bind r f = Inr b \<longleftrightarrow> (\<exists>a. r = Inr a \<and> f a = Inr b)"
  by (cases r) auto

section \<open>State machines\<close>

text \<open>
  The contract every stateful component meets: a step per operation and an invariant each
  operation keeps. Its conclusion is proved once: the invariant holds after any sequence of
  operations, and a quantity no operation changes is the same after it.
\<close>

locale invariant_machine =
  fixes step :: "'op \<Rightarrow> 's \<Rightarrow> 's"
    and inv :: "'s \<Rightarrow> bool"
  assumes inv_step: "inv s \<Longrightarrow> inv (step op s)"
begin

lemma inv_run: "inv s \<Longrightarrow> inv (fold step ops s)"
  by (induction ops arbitrary: s) (auto intro: inv_step)

lemma frame_run:
  assumes "\<And>op s. inv s \<Longrightarrow> f (step op s) = f s"
  shows "inv s \<Longrightarrow> f (fold step ops s) = f s"
  by (induction ops arbitrary: s) (simp_all add: assms inv_step)

end

text \<open>
  The same for a step relation: from an initial state that has the invariant every state it
  reaches has it, and a property that each step keeps under the invariant stays true.
\<close>

locale step_machine =
  fixes step :: "'s \<Rightarrow> 's \<Rightarrow> bool"
    and init :: "'s \<Rightarrow> bool"
    and inv :: "'s \<Rightarrow> bool"
  assumes init_inv: "init s \<Longrightarrow> inv s"
    and step_inv: "step s t \<Longrightarrow> inv s \<Longrightarrow> inv t"
begin

lemma inv_steps: "step\<^sup>*\<^sup>* s t \<Longrightarrow> inv s \<Longrightarrow> inv t"
  by (induction rule: rtranclp_induct) (auto intro: step_inv)

lemma inv_reach: "init s \<Longrightarrow> step\<^sup>*\<^sup>* s t \<Longrightarrow> inv t"
  by (blast intro: inv_steps init_inv)

lemma stable_steps:
  assumes "\<And>s t. inv s \<Longrightarrow> step s t \<Longrightarrow> P s \<Longrightarrow> P t"
  shows "step\<^sup>*\<^sup>* s t \<Longrightarrow> inv s \<Longrightarrow> P s \<Longrightarrow> P t"
proof (induction rule: rtranclp_induct)
  case (step t u)
  then show ?case using assms inv_steps by blast
qed

end

end
