(* ===== verification/Framing.thy ===== *)
theory Framing
  imports Prelude
begin

text \<open>
  The newline framing every SCV connection uses: \<open>FrameDecoder\<close> of
  \<^verbatim>\<open>crates/scv-protocol/src/frame.rs\<close> and the reading loop \<open>read_frame\<close> of
  \<^verbatim>\<open>crates/scv-client/src/connection.rs\<close>.

  A reader is the list of buffers \<open>fill_buf\<close> will hand over, none of them empty (an empty buffer
  is the end of input). The specification \<open>next_frame\<close> reads the first line off the whole byte
  stream; the loop computes it whatever the buffers are.
\<close>

section \<open>The decoder\<close>

type_synonym byte = "8 word"

abbreviation newline :: byte where
  "newline \<equiv> 10"

abbreviation carriage_return :: byte where
  "carriage_return \<equiv> 13"

datatype overflow = Stop | Skip

datatype frame = Line "byte list" | TooLarge | End | Truncated "byte list"

record feed_step =
  consumed :: nat
  step_frame :: "frame option"

record decoder =
  limit :: nat
  on_overflow :: overflow
  partial :: "byte list"
  discarding :: bool

definition new_decoder :: "nat \<Rightarrow> overflow \<Rightarrow> decoder" where
  "new_decoder l ov = \<lparr>limit = l, on_overflow = ov, partial = [], discarding = False\<rparr>"

definition set_limit :: "nat \<Rightarrow> decoder \<Rightarrow> decoder" where
  "set_limit l d = d\<lparr>limit := l\<rparr>"

text \<open>\<open>finish_line\<close> is the tail of \<open>feed\<close>: what a newline completes.\<close>

definition finish_line :: "decoder \<Rightarrow> decoder \<times> frame" where
  "finish_line d =
     (if discarding d then (d\<lparr>discarding := False\<rparr>, TooLarge)
      else (d\<lparr>partial := []\<rparr>, Line (butlast (partial d))))"

definition feed :: "decoder \<Rightarrow> byte list \<Rightarrow> decoder \<times> feed_step" where
  "feed d available =
     (let nl = position (\<lambda>b. b = newline) available;
          n = (case nl of None \<Rightarrow> length available | Some i \<Rightarrow> i + 1);
          over = \<not> discarding d \<and> sat_add (length (partial d)) n > limit d
      in if over \<and> on_overflow d = Stop
         then (d, \<lparr>consumed = 0, step_frame = Some TooLarge\<rparr>)
         else let d1 = (if discarding d then d
                        else if over then d\<lparr>discarding := True, partial := []\<rparr>
                        else d\<lparr>partial := partial d @ take n available\<rparr>)
              in case nl of
                   None \<Rightarrow> (d1, \<lparr>consumed = n, step_frame = None\<rparr>)
                 | Some _ \<Rightarrow> (let (d2, f) = finish_line d1
                             in (d2, \<lparr>consumed = n, step_frame = Some f\<rparr>)))"

definition finish :: "decoder \<Rightarrow> decoder \<times> frame" where
  "finish d =
     (if discarding d then (d\<lparr>discarding := False\<rparr>, TooLarge)
      else if partial d = [] then (d, End)
      else (d\<lparr>partial := []\<rparr>, Truncated (partial d)))"

fun trim_rev :: "byte list \<Rightarrow> byte list" where
  "trim_rev [] = []"
| "trim_rev (b # bs) = (if b = newline \<or> b = carriage_return then trim_rev bs else b # bs)"

definition trim_line :: "byte list \<Rightarrow> nat \<Rightarrow> byte list option" where
  "trim_line line max_bytes =
     (let t = rev (trim_rev (rev line)) in if length t \<le> max_bytes then Some t else None)"

text \<open>\<open>encode_frame\<close> over the JSON \<open>serde_json\<close> wrote.\<close>

definition encode_frame :: "('e + byte list) \<Rightarrow> 'e + byte list" where
  "encode_frame json = res_bind json (\<lambda>bytes. Inr (bytes @ [newline]))"

section \<open>The reading loop\<close>

type_synonym reader = "byte list list"

fun fill_buf :: "reader \<Rightarrow> byte list" where
  "fill_buf [] = []"
| "fill_buf (b # bs) = b"

fun consume :: "nat \<Rightarrow> reader \<Rightarrow> reader" where
  "consume n [] = []"
| "consume n (b # bs) = (if length b \<le> n then bs else drop n b # bs)"

lemma feed_None_consumed:
  "step_frame (snd (feed d bs)) = None \<Longrightarrow> consumed (snd (feed d bs)) = length bs"
  by (auto simp: feed_def Let_def split: option.splits if_splits prod.splits)

function read_frame :: "reader \<Rightarrow> decoder \<Rightarrow> reader \<times> decoder \<times> frame" where
  "read_frame r d =
     (let available = fill_buf r in
      if available = [] then (let (d', f) = finish d in (r, d', f))
      else let (d', st) = feed d available;
               r' = consume (consumed st) r
           in case step_frame st of
                Some f \<Rightarrow> (r', d', f)
              | None \<Rightarrow> read_frame r' d')"
  by pat_completeness auto
termination
proof (relation "measure (\<lambda>(r, d). sum_list (map length r) + length r)", goal_cases)
  case (2 r d available p d' st r')
  then have none: "step_frame (snd (feed d (fill_buf r))) = None" and
    st: "st = snd (feed d (fill_buf r))" by (auto dest: sym)
  then have c: "consumed st = length (fill_buf r)" by (simp add: feed_None_consumed)
  show ?case using 2 c by (cases r) auto
qed simp

declare read_frame.simps [simp del]

section \<open>The specification: the first line of a byte stream\<close>

definition next_frame :: "nat \<Rightarrow> byte list \<Rightarrow> frame" where
  "next_frame l s =
     (case position (\<lambda>b. b = newline) s of
        Some i \<Rightarrow> if i + 1 \<le> l then Line (take i s) else TooLarge
      | None \<Rightarrow> if s = [] then End else if length s \<le> l then Truncated s else TooLarge)"

definition after_line :: "byte list \<Rightarrow> byte list" where
  "after_line s = (case position (\<lambda>b. b = newline) s of Some i \<Rightarrow> drop (Suc i) s | None \<Rightarrow> [])"

text \<open>
  The decoder's invariant: what is buffered is a prefix of one line within the limit, and nothing
  is buffered while a line is being discarded. \<open>limit\<close> is a \<open>usize\<close>.
\<close>

definition wf_decoder :: "decoder \<Rightarrow> bool" where
  "wf_decoder d \<longleftrightarrow> length (partial d) \<le> limit d \<and> newline \<notin> set (partial d) \<and>
     (discarding d \<longrightarrow> partial d = [] \<and> on_overflow d = Skip) \<and> limit d < usize_max"


section \<open>What one feed does\<close>

lemma next_frame_skip_prefix:
  assumes "newline \<notin> set p"
  shows "position (\<lambda>b. b = newline) (p @ s) =
           map_option ((+) (length p)) (position (\<lambda>b. b = newline) s)"
proof -
  have "position (\<lambda>b. b = newline) p = None"
    using assms by (auto simp: position_None_iff)
  then show ?thesis by (simp add: position_append)
qed

lemma next_frame_too_long:
  assumes "newline \<notin> set p" and "l < length p"
  shows "next_frame l (p @ s) = TooLarge"
  using assms
  by (auto simp: next_frame_def next_frame_skip_prefix split: option.splits)

text \<open>One feed, by cases on the newline and the limit; the four outcomes the proofs below use.\<close>

lemma feed_fits_partial:
  assumes "wf_decoder d" "\<not> discarding d" "newline \<notin> set bs" "length (partial d) + length bs \<le> limit d"
  shows "feed d bs = (d\<lparr>partial := partial d @ bs\<rparr>, \<lparr>consumed = length bs, step_frame = None\<rparr>)"
proof -
  have "position (\<lambda>b. b = newline) bs = None" using assms(3) by (auto simp: position_None_iff)
  then show ?thesis using assms
    by (simp add: feed_def Let_def wf_decoder_def sat_add_gt_iff)
qed

lemma feed_fits_line:
  assumes "wf_decoder d" "\<not> discarding d" "position (\<lambda>b. b = newline) bs = Some i"
    "length (partial d) + i + 1 \<le> limit d"
  shows "feed d bs = (d\<lparr>partial := []\<rparr>,
           \<lparr>consumed = i + 1, step_frame = Some (Line (partial d @ take i bs))\<rparr>)"
proof -
  have i: "i < length bs" using assms(3) by (simp add: position_Some_iff)
  then have "take (Suc i) bs = take i bs @ [bs ! i]" by (rule take_Suc_conv_app_nth)
  then show ?thesis using assms
    by (simp add: feed_def Let_def wf_decoder_def sat_add_gt_iff finish_line_def butlast_append)
qed

lemma feed_overflow_stop:
  assumes "wf_decoder d" "\<not> discarding d" "on_overflow d = Stop"
    "length (partial d) + (case position (\<lambda>b. b = newline) bs of None \<Rightarrow> length bs | Some i \<Rightarrow> i + 1)
       > limit d"
  shows "feed d bs = (d, \<lparr>consumed = 0, step_frame = Some TooLarge\<rparr>)"
  using assms by (simp add: feed_def Let_def wf_decoder_def sat_add_gt_iff)

lemma feed_overflow_skip:
  assumes "wf_decoder d" "discarding d \<or> on_overflow d = Skip"
    "discarding d \<or> length (partial d) +
       (case position (\<lambda>b. b = newline) bs of None \<Rightarrow> length bs | Some i \<Rightarrow> i + 1) > limit d"
  shows "feed d bs =
    (case position (\<lambda>b. b = newline) bs of
       None \<Rightarrow> (d\<lparr>discarding := True, partial := []\<rparr>, \<lparr>consumed = length bs, step_frame = None\<rparr>)
     | Some i \<Rightarrow> (d\<lparr>discarding := False, partial := []\<rparr>,
                 \<lparr>consumed = i + 1, step_frame = Some TooLarge\<rparr>))"
  using assms
  by (auto simp: feed_def Let_def wf_decoder_def sat_add_gt_iff finish_line_def split: option.splits)

section \<open>Correctness of the reading loop\<close>

definition wf_reader :: "reader \<Rightarrow> bool" where
  "wf_reader r \<longleftrightarrow> [] \<notin> set r"

lemma consume_concat: "n \<le> length b \<Longrightarrow> concat (consume n (b # bs)) = drop n b @ concat bs"
  by simp

lemma wf_consume: "wf_reader r \<Longrightarrow> wf_reader (consume n r)"
  by (cases r) (auto simp: wf_reader_def)

text \<open>The whole line, as the decoder has it: what is buffered, then what the reader still holds.\<close>

definition pending_frame :: "decoder \<Rightarrow> reader \<Rightarrow> frame" where
  "pending_frame d r = (if discarding d then TooLarge else next_frame (limit d) (partial d @ concat r))"

definition read_ok :: "reader \<Rightarrow> decoder \<Rightarrow> bool" where
  "read_ok r d \<longleftrightarrow>
     (case read_frame r d of (r', d', f) \<Rightarrow>
        f = pending_frame d r \<and> wf_reader r' \<and> wf_decoder d' \<and> limit d' = limit d \<and>
        on_overflow d' = on_overflow d \<and>
        (on_overflow d = Skip \<longrightarrow>
           concat r' = after_line (concat r) \<and> partial d' = [] \<and> \<not> discarding d'))"

lemma read_ok_line_boundary:
  assumes "wf_decoder d" "wf_reader (b # bs)" "position (\<lambda>x. x = newline) b = Some i"
    and "on_overflow d = Skip"
  shows "after_line (concat (b # bs)) = drop (Suc i) b @ concat bs"
proof -
  have "i < length b" using assms(3) by (simp add: position_Some_iff)
  then show ?thesis using assms(3) by (simp add: after_line_def position_append)
qed

lemma after_line_skip:
  "newline \<notin> set b \<Longrightarrow> after_line (b @ s) = after_line s"
  by (auto simp: after_line_def next_frame_skip_prefix split: option.splits)

lemma next_frame_no_newline:
  "newline \<notin> set s \<Longrightarrow> next_frame l s =
     (if s = [] then End else if length s \<le> l then Truncated s else TooLarge)"
  using next_frame_skip_prefix[of s "[]"] by (simp add: next_frame_def)

lemma read_ok_end: "wf_decoder d \<Longrightarrow> read_ok [] d"
  by (auto simp: read_ok_def read_frame.simps[of "[]"] finish_def pending_frame_def
      next_frame_no_newline wf_reader_def wf_decoder_def after_line_def)

lemma read_frame_unfold:
  "b \<noteq> [] \<Longrightarrow> read_frame (b # bs) d =
     (case feed d b of (d', st) \<Rightarrow>
        (case step_frame st of
           Some f \<Rightarrow> (consume (consumed st) (b # bs), d', f)
         | None \<Rightarrow> read_frame (consume (consumed st) (b # bs)) d'))"
  by (subst read_frame.simps) (simp add: Let_def del: consume.simps)

lemma read_ok_no_newline:
  assumes wf: "wf_decoder d" "wf_reader (b # bs)" and nl: "newline \<notin> set b"
    and IH: "\<And>d'. wf_decoder d' \<Longrightarrow> read_ok bs d'"
  shows "read_ok (b # bs) d"
proof -
  have b: "b \<noteq> []" "wf_reader bs" using wf(2) by (auto simp: wf_reader_def)
  have pos: "position (\<lambda>x. x = newline) b = None" using nl by (auto simp: position_None_iff)
  consider (fits) "\<not> discarding d" "length (partial d) + length b \<le> limit d"
    | (stop) "\<not> discarding d" "on_overflow d = Stop" "limit d < length (partial d) + length b"
    | (skip) "discarding d \<or> on_overflow d = Skip"
        "discarding d \<or> limit d < length (partial d) + length b"
    by (metis (full_types) not_le overflow.exhaust)
  then show ?thesis
  proof cases
    case fits
    let ?d = "d\<lparr>partial := partial d @ b\<rparr>"
    have "wf_decoder ?d" using wf(1) fits nl by (auto simp: wf_decoder_def)
    then have "read_ok bs ?d" by (rule IH)
    then show ?thesis using fits b nl feed_fits_partial[OF wf(1) fits(1) nl fits(2)]
      by (auto simp: read_ok_def read_frame_unfold pending_frame_def after_line_skip)
  next
    case stop
    have "next_frame (limit d) ((partial d @ b) @ concat bs) = TooLarge"
      using stop nl wf(1) by (intro next_frame_too_long) (auto simp: wf_decoder_def)
    then show ?thesis using stop b pos wf feed_overflow_stop[OF wf(1) stop(1,2)]
      by (auto simp: read_ok_def read_frame_unfold pending_frame_def wf_reader_def)
  next
    case skip
    let ?d = "d\<lparr>discarding := True, partial := []\<rparr>"
    have sk: "on_overflow d = Skip" using skip(1) wf(1) by (auto simp: wf_decoder_def)
    then have "wf_decoder ?d" using wf(1) by (auto simp: wf_decoder_def)
    then have ok: "read_ok bs ?d" by (rule IH)
    have "next_frame (limit d) ((partial d @ b) @ concat bs) = TooLarge" if "\<not> discarding d"
      using that skip nl wf(1) by (intro next_frame_too_long) (auto simp: wf_decoder_def)
    then show ?thesis using ok b pos nl sk feed_overflow_skip[OF wf(1) skip(1), of b] skip(2)
      by (auto simp: read_ok_def read_frame_unfold pending_frame_def after_line_skip)
  qed
qed

lemma read_ok_newline:
  assumes wf: "wf_decoder d" "wf_reader (b # bs)"
    and pos: "position (\<lambda>x. x = newline) b = Some i"
  shows "read_ok (b # bs) d"
proof -
  have b: "b \<noteq> []" "wf_reader bs" using wf(2) by (auto simp: wf_reader_def)
  have i: "i < length b" using pos by (simp add: position_Some_iff)
  have p: "newline \<notin> set (partial d)" using wf(1) by (simp add: wf_decoder_def)
  have wfc: "wf_reader (consume n (b # bs))" for n by (rule wf_consume[OF wf(2)])
  have aft: "on_overflow d = Skip \<Longrightarrow> concat (consume (i + 1) (b # bs)) = after_line (concat (b # bs))"
    using i read_ok_line_boundary[OF wf pos] by simp
  have spec: "\<not> discarding d \<Longrightarrow> pending_frame d (b # bs) =
      (if length (partial d) + i + 1 \<le> limit d then Line (partial d @ take i b) else TooLarge)"
    using pos next_frame_skip_prefix[OF p] i
    by (simp add: pending_frame_def next_frame_def position_append[of _ b])
  have clean: "wf_decoder (d\<lparr>partial := []\<rparr>)" "wf_decoder (d\<lparr>discarding := False, partial := []\<rparr>)"
    using wf(1) by (auto simp: wf_decoder_def)
  consider (fits) "\<not> discarding d" "length (partial d) + i + 1 \<le> limit d"
    | (stop) "\<not> discarding d" "on_overflow d = Stop" "limit d < length (partial d) + (i + 1)"
    | (skip) "discarding d \<or> on_overflow d = Skip"
        "discarding d \<or> limit d < length (partial d) + (i + 1)"
    by (metis (full_types) add.assoc not_le overflow.exhaust)
  then show ?thesis
  proof cases
    case fits
    then show ?thesis using b(1) wfc aft spec clean feed_fits_line[OF wf(1) fits(1) pos fits(2)]
      by (auto simp: read_ok_def read_frame_unfold simp del: consume.simps)
  next
    case stop
    then show ?thesis using b(1) wfc spec wf feed_overflow_stop[OF wf(1) stop(1,2), of b] pos
      by (auto simp: read_ok_def read_frame_unfold simp del: consume.simps)
  next
    case skip
    have sk: "on_overflow d = Skip" using skip(1) wf(1) by (auto simp: wf_decoder_def)
    have "pending_frame d (b # bs) = TooLarge"
      using spec skip(2) by (cases "discarding d") (auto simp: pending_frame_def)
    then show ?thesis using b(1) wfc aft clean sk feed_overflow_skip[OF wf(1) skip(1), of b] pos skip(2)
      by (auto simp: read_ok_def read_frame_unfold simp del: consume.simps)
  qed
qed

lemma read_frame_read_ok: "wf_decoder d \<Longrightarrow> wf_reader r \<Longrightarrow> read_ok r d"
proof (induction r arbitrary: d)
  case Nil
  then show ?case by (simp add: read_ok_end)
next
  case (Cons b bs)
  have "wf_reader bs" using Cons.prems(2) by (simp add: wf_reader_def)
  then show ?case
    using Cons read_ok_no_newline[OF Cons.prems] read_ok_newline[OF Cons.prems]
    by (cases "position (\<lambda>x. x = newline) b") (auto simp: position_None_iff)
qed

text \<open>Feeding any buffer keeps the invariant: a partial line never grows past the limit.\<close>

lemma feed_wf [inv_intros]: "wf_decoder d \<Longrightarrow> wf_decoder (fst (feed d bs))"
proof -
  assume wf: "wf_decoder d"
  show ?thesis
  proof (cases "position (\<lambda>b. b = newline) bs")
    case None
    then have "newline \<notin> set bs" by (auto simp: position_None_iff)
    then show ?thesis using wf None
      by (cases "on_overflow d") (auto simp: feed_def Let_def wf_decoder_def sat_add_gt_iff)
  next
    case (Some i)
    then show ?thesis using wf
      by (cases "on_overflow d")
        (auto simp: feed_def Let_def wf_decoder_def sat_add_gt_iff finish_line_def)
  qed
qed

lemma feed_limit [simp]: "limit (fst (feed d bs)) = limit d"
  by (auto simp: feed_def Let_def finish_line_def split: option.splits)

interpretation dec: invariant_machine "\<lambda>bs d. fst (feed d bs)" wf_decoder
  by unfold_locales (rule feed_wf)

lemma wf_new_decoder: "l < usize_max \<Longrightarrow> wf_decoder (new_decoder l ov)"
  by (simp add: wf_decoder_def new_decoder_def)

lemma read_frame_next_frame:
  assumes "wf_reader r" and "l < usize_max"
  shows "snd (snd (read_frame r (new_decoder l ov))) = next_frame l (concat r)"
proof -
  have "read_ok r (new_decoder l ov)"
    using wf_new_decoder[OF assms(2)] assms(1) by (rule read_frame_read_ok)
  then show ?thesis
    by (auto simp: read_ok_def pending_frame_def new_decoder_def split: prod.splits)
qed

section \<open>Properties\<close>

text \<open>
  C39. A connection decodes the first line of its byte stream, whatever buffers the reader hands
  over and in both overflow modes: a line that fits the limit (counting its newline) comes out
  whole, a longer one is reported as too large, and input that ends early as truncated.
\<close>

theorem read_frame_any_chunking:
  assumes "wf_reader r" and "l < usize_max"
  shows "snd (snd (read_frame r (new_decoder l ov))) = next_frame l (concat r)"
  using assms by (rule read_frame_next_frame)

theorem read_frame_any_chunking_witness:
  "snd (snd (read_frame [[1, 2], [3, 10, 4], [5]] (new_decoder 8 Skip))) = Line [1, 2, 3]"
proof -
  have "wf_reader [[1, 2], [3, 10, 4], [5 :: byte]]" by (simp add: wf_reader_def)
  moreover have "(8 :: nat) < usize_max" by (simp add: usize_max_def)
  ultimately have "snd (snd (read_frame [[1, 2], [3, 10, 4], [5]] (new_decoder 8 Skip))) =
      next_frame 8 (concat [[1, 2], [3, 10, 4], [5]])"
    by (rule read_frame_any_chunking)
  then show ?thesis by (simp add: next_frame_def)
qed

text \<open>
  After a line, a skipping connection carries on at the next one: the reader holds exactly the
  bytes after the newline, the decoder is empty again, and reading on decodes the next line, also
  after a line that was too large.
\<close>

theorem read_frame_resumes:
  assumes "wf_reader r" and "l < usize_max" and "read_frame r (new_decoder l Skip) = (r', d', f)"
  shows "concat r' = after_line (concat r) \<and> d' = new_decoder l Skip \<and>
         snd (snd (read_frame r' d')) = next_frame l (after_line (concat r))"
proof -
  have "read_ok r (new_decoder l Skip)"
    using wf_new_decoder[OF assms(2)] assms(1) by (rule read_frame_read_ok)
  then have r': "concat r' = after_line (concat r)" "wf_reader r'"
    and d': "d' = new_decoder l Skip"
    using assms(3) by (auto simp: read_ok_def new_decoder_def)
  then show ?thesis using read_frame_next_frame[OF r'(2) assms(2)] by simp
qed

theorem read_frame_resumes_witness:
  "\<exists>r' d' f. read_frame [[1, 2, 3], [4, 10, 7, 10]] (new_decoder 3 Skip) = (r', d', f) \<and>
     snd (snd (read_frame r' d')) = Line [7]"
proof -
  let ?r = "[[1, 2, 3], [4, 10, 7, 10 :: byte]]"
  obtain r' d' f where run: "read_frame ?r (new_decoder 3 Skip) = (r', d', f)"
    by (metis prod_cases3)
  have "wf_reader ?r" and "(3 :: nat) < usize_max" by (simp_all add: wf_reader_def usize_max_def)
  then have "snd (snd (read_frame r' d')) = next_frame 3 (after_line (concat ?r))"
    using read_frame_resumes[OF _ _ run] by blast
  then show ?thesis using run by (auto simp: next_frame_def after_line_def)
qed

text \<open>
  C40. What one peer encodes the other decodes: an encoded message that fits the receiver's limit
  comes out unchanged, however the transport splits it and whatever follows it. JSON text that
  \<open>serde_json\<close> writes on one line holds no newline byte.
\<close>

theorem encode_read_roundtrip:
  assumes "encode_frame (Inr body) = Inr bytes" and "newline \<notin> set body"
    and "length bytes \<le> l" and "l < usize_max" and "wf_reader r" and "concat r = bytes @ rest"
  shows "snd (snd (read_frame r (new_decoder l ov))) = Line body"
proof -
  have b: "bytes = body @ [newline]" using assms(1) by (simp add: encode_frame_def)
  have "position (\<lambda>x. x = newline) (body @ newline # rest) = Some (length body)"
    using assms(2) by (simp add: next_frame_skip_prefix)
  then have "next_frame l (bytes @ rest) = Line body"
    using b assms(3) by (simp add: next_frame_def)
  then show ?thesis using read_frame_next_frame[OF assms(5,4)] assms(6) by simp
qed

theorem encode_read_roundtrip_witness:
  "encode_frame (Inr [123, 125] :: unit + byte list) = Inr [123, 125, 10] \<and>
   snd (snd (read_frame [[123], [125, 10, 9]] (new_decoder 3 Stop))) = Line [123, 125]"
proof -
  have e: "encode_frame (Inr [123, 125] :: unit + byte list) = Inr [123, 125, 10]"
    by (simp add: encode_frame_def)
  have "snd (snd (read_frame [[123], [125, 10, 9]] (new_decoder 3 Stop))) = Line [123, 125]"
    by (rule encode_read_roundtrip[OF e, where rest = "[9]"])
      (simp_all add: wf_reader_def usize_max_def)
  with e show ?thesis by simp
qed

text \<open>
  A peer cannot make the other side buffer without bound: after any buffers, in any order, the
  partial line a decoder keeps is within the limit it was made with.
\<close>

theorem decoder_memory_bounded:
  assumes "l < usize_max"
  shows "length (partial (fold (\<lambda>bs d. fst (feed d bs)) inputs (new_decoder l ov))) \<le> l"
proof -
  let ?d = "fold (\<lambda>bs d. fst (feed d bs)) inputs (new_decoder l ov)"
  have wf: "wf_decoder (new_decoder l ov)" using assms by (rule wf_new_decoder)
  have "wf_decoder ?d" using wf by (rule dec.inv_run)
  moreover have "limit ?d = limit (new_decoder l ov)"
    using wf by (rule dec.frame_run[rotated]) simp
  ultimately show ?thesis by (simp add: wf_decoder_def new_decoder_def)
qed

theorem decoder_memory_bounded_witness:
  "length (partial (fold (\<lambda>bs d. fst (feed d bs)) [[1, 2, 3], [4, 5]] (new_decoder 4 Skip))) \<le> 4"
  by (rule decoder_memory_bounded) (simp add: usize_max_def)

end
