(* ===== verification/Mail_Types.thy ===== *)
theory Mail_Types
  imports Prelude
begin

text \<open>
  The data of the mail actions: what one proposed action would do
  (\<^verbatim>\<open>crates/scv-channels/src/email/content.rs\<close>), the account's durable state
  (\<^verbatim>\<open>email/ledger.rs\<close>, \<open>MailState\<close>), the records of its actions
  (\<^verbatim>\<open>email/ledger/actions.rs\<close>), and the settings they follow
  (\<^verbatim>\<open>email/settings.rs\<close>). Every string is its UTF-8 bytes.
\<close>

section \<open>The content of an action\<close>

datatype action_kind = Draft | Send | Archive | MarkRead | Trash | Spam

datatype limit_class = Drafts | Sends | Moves | Flags

datatype form = Reply | Forward | Compose

datatype folder_role = RoleDrafts | RoleSent | RoleTrash | RoleJunk | RoleArchive

datatype sent_copy_mode = CopyProvider | CopyAppend

datatype source_ref = Imap string nat nat | Gmail string | Graph string

datatype provider_kind = ProviderImap | ProviderGmail | ProviderGraph

record cursor =
  cu_provider :: provider_kind
  cu_value :: string

datatype origin = Triage string | Owner string string

record folder =
  fo_role :: folder_role
  fo_name :: string

record mail_source =
  so_reference :: source_ref
  so_identity :: string
  so_locator :: string
  so_message_id :: "string option"

record display =
  di_handle :: string
  di_from_address :: string
  di_from_name :: string
  di_subject :: string

record mailbox =
  mb_name :: string
  mb_address :: string

record outgoing =
  og_form :: form
  og_from :: mailbox
  og_to :: "string list"
  og_cc :: "string list"
  og_subject :: string
  og_body :: string
  og_in_reply_to :: "string option"
  og_references :: "string list"
  og_message_id :: string
  og_sent_copy :: sent_copy_mode
  og_notes :: "string list"

record action_content =
  co_v :: nat
  co_id :: string
  co_account :: string
  co_fingerprint :: string
  co_kind :: action_kind
  co_group :: "string option"
  co_origin :: origin
  co_source :: "mail_source option"
  co_display :: "display option"
  co_folder :: "folder option"
  co_message :: "outgoing option"
  co_created_at :: nat
  co_hard_expiry :: nat
  co_digest :: string

primrec kind_name :: "action_kind \<Rightarrow> string" where
  "kind_name Draft = ''draft''"
| "kind_name Send = ''send''"
| "kind_name Archive = ''archive''"
| "kind_name MarkRead = ''mark_read''"
| "kind_name Trash = ''trash''"
| "kind_name Spam = ''spam''"

primrec kind_moves :: "action_kind \<Rightarrow> bool" where
  "kind_moves Draft = False"
| "kind_moves Send = False"
| "kind_moves Archive = True"
| "kind_moves MarkRead = False"
| "kind_moves Trash = True"
| "kind_moves Spam = True"

primrec kind_class :: "action_kind \<Rightarrow> limit_class" where
  "kind_class Draft = Drafts"
| "kind_class Send = Sends"
| "kind_class Archive = Moves"
| "kind_class MarkRead = Flags"
| "kind_class Trash = Moves"
| "kind_class Spam = Moves"

primrec form_name :: "form \<Rightarrow> string" where
  "form_name Reply = ''reply''"
| "form_name Forward = ''forward''"
| "form_name Compose = ''compose''"

primrec role_name :: "folder_role \<Rightarrow> string" where
  "role_name RoleDrafts = ''drafts''"
| "role_name RoleSent = ''sent''"
| "role_name RoleTrash = ''trash''"
| "role_name RoleJunk = ''junk''"
| "role_name RoleArchive = ''archive''"

definition recipients :: "action_content \<Rightarrow> string list" where
  "recipients c = (case co_message c of None \<Rightarrow> [] | Some m \<Rightarrow> og_to m @ og_cc m)"

section \<open>Settings\<close>

datatype action_mode = Off | ModeApprove

datatype suggestion = SuggestArchive | SuggestTrash | SuggestSpam

datatype reply_to = Honor | Ignore

record action_settings =
  se_draft :: action_mode
  se_send :: action_mode
  se_forward :: action_mode
  se_archive :: action_mode
  se_mark_read :: action_mode
  se_trash :: action_mode
  se_spam :: action_mode
  se_propose :: "suggestion list"
  se_reply_instructions :: string
  se_compose_model :: string
  se_max_compose_per_day :: nat
  se_reply_to :: reply_to
  se_reply_all :: bool
  se_recipient_domains :: "string list"
  se_max_recipients :: nat
  se_approval_hours :: nat
  se_max_pending_hours :: nat
  se_execute_minutes :: nat
  se_max_open :: nat
  se_max_sends_per_day :: nat
  se_max_drafts_per_day :: nat
  se_max_moves_per_day :: nat
  se_max_flags_per_day :: nat
  se_drafts_folder :: string
  se_sent_folder :: string
  se_trash_folder :: string
  se_spam_folder :: string
  se_archive_folder :: string
  se_sent_copy :: sent_copy_mode
  se_from_name :: string
  se_handle_days :: nat

section \<open>Items, batches and the rest of the mail state\<close>

datatype item_class = Report | System | Response

datatype send_class = Digest | Urgent | SendResponse

record logged =
  lg_at :: nat
  lg_class :: send_class

record mail_claim =
  cl_source :: source_ref
  cl_attempts :: nat
  cl_at :: nat

record stamped =
  st_key :: string
  st_at :: nat

record known =
  kn_key :: string
  kn_message_id :: "string option"
  kn_at :: nat

record item =
  it_seq :: nat
  it_created_at :: nat
  it_key :: string
  it_class :: item_class
  it_urgent :: bool
  it_text :: string
  it_actions :: "string list"

record counts =
  ct_skipped :: nat
  ct_undelivered :: nat
  ct_unlisted :: nat
  ct_unlisted_since :: "nat option"
  ct_unreadable :: nat
  ct_expired :: nat

record batch =
  ba_key :: string
  ba_class :: send_class
  ba_seqs :: "nat list"
  ba_text :: string
  ba_counts :: counts
  ba_attempts :: nat
  ba_next_attempt_at :: nat
  ba_created_at :: nat

record watched =
  wa_key :: string
  wa_route :: string
  wa_at :: nat

record day =
  dy_date :: string
  dy_seen :: nat
  dy_triaged :: nat
  dy_reported :: nat
  dy_tokens :: nat
  dy_composed :: nat

section \<open>Action records\<close>

datatype action_state =
    Proposed | Previewing | Open | Approved | Executing
  | Done | Failed | Unknown | Denied | Expired | Superseded | Cancelled | Invalid

datatype outcome_code =
    Applied | AlreadyDone | Gone | Stale | PolicyOff | Mismatch | Refused | AuthFailed
  | Unreachable | Unsupported | Ambiguous | AuthUncertain | Internal

datatype sent_copy_state = CopyPending | CopySaved | CopyFailed

datatype resume = AfterCopy | Expunge

record preview =
  pv_key :: "string option"
  pv_route :: "string option"
  pv_peer :: "string option"
  pv_stored_at :: "nat option"
  pv_delivered_ms :: "nat option"
  pv_reissues :: nat

record approval =
  ap_route :: string
  ap_peer :: string
  ap_message_id :: string
  ap_sent_ms :: nat
  ap_recorded_at :: nat
  ap_digest :: string

record action_outcome =
  oc_at :: nat
  oc_code :: outcome_code
  oc_sent_copy :: "sent_copy_state option"

record action_entry =
  ae_id :: string
  ae_kind :: action_kind
  ae_group :: "string option"
  ae_form :: "form option"
  ae_handle :: "string option"
  ae_digest :: string
  ae_origin_key :: string
  ae_state :: action_state
  ae_code :: string
  ae_generation :: nat
  ae_old_codes :: "string list"
  ae_preview :: preview
  ae_created_at :: nat
  ae_hard_expiry :: nat
  ae_expires_at :: nat
  ae_approval :: "approval option"
  ae_execute_by :: "nat option"
  ae_attempts :: nat
  ae_not_before :: nat
  ae_probe_after :: "nat option"
  ae_uncertain :: bool
  ae_resume :: "resume option"
  ae_outcome :: "action_outcome option"
  ae_terminal_at :: "nat option"

record tombstone =
  tb_id :: string
  tb_codes :: "string list"
  tb_kind :: action_kind
  tb_state :: action_state
  tb_at :: nat

record handle =
  ha_handle :: string
  ha_source :: source_ref
  ha_identity :: string
  ha_at :: nat

datatype request_work =
    WorkReply string string
  | WorkForward string "string list" string
  | WorkCompose "string list" string
  | WorkRevise string string
  | WorkMessage string action_kind

record request =
  rq_key :: string
  rq_work :: request_work
  rq_route :: string
  rq_attempts :: nat
  rq_at :: nat

record reservation =
  rs_id :: string
  rs_limit :: limit_class
  rs_at :: nat

record mail_state =
  ms_v :: nat
  ms_fingerprint :: "string option"
  ms_epoch :: string
  ms_cursor :: "cursor option"
  ms_claims :: "mail_claim list"
  ms_identities :: "known list"
  ms_queue :: "item list"
  ms_next_seq :: nat
  ms_batch :: "batch option"
  ms_log :: "logged list"
  ms_sent_keys :: "stamped list"
  ms_watched :: "watched list"
  ms_counts :: counts
  ms_day :: day
  ms_turns :: "nat list"
  ms_handles :: "handle list"
  ms_actions :: "action_entry list"
  ms_tombstones :: "tombstone list"
  ms_requests :: "request list"
  ms_approvals :: "stamped list"
  ms_reservations :: "reservation list"

text \<open>Over: nothing more happens to it.\<close>

definition terminal :: "action_state \<Rightarrow> bool" where
  "terminal s \<longleftrightarrow> s \<notin> {Proposed, Previewing, Open, Approved, Executing}"

text \<open>Waiting for the owner.\<close>

definition waiting :: "action_state \<Rightarrow> bool" where
  "waiting s \<longleftrightarrow> s \<in> {Proposed, Previewing, Open}"

lemma terminal_simps [simp]:
  "\<not> terminal Proposed" "\<not> terminal Previewing" "\<not> terminal Open" "\<not> terminal Approved"
  "\<not> terminal Executing" "terminal Done" "terminal Failed" "terminal Unknown" "terminal Denied"
  "terminal Expired" "terminal Superseded" "terminal Cancelled" "terminal Invalid"
  by (simp_all add: terminal_def)

lemma waiting_simps [simp]:
  "waiting Proposed" "waiting Previewing" "waiting Open" "\<not> waiting Approved"
  "\<not> waiting Executing" "\<not> waiting Done" "\<not> waiting Failed" "\<not> waiting Unknown" "\<not> waiting Denied"
  "\<not> waiting Expired" "\<not> waiting Superseded" "\<not> waiting Cancelled" "\<not> waiting Invalid"
  by (simp_all add: waiting_def)

lemma waiting_not_terminal: "waiting s \<Longrightarrow> \<not> terminal s"
  by (cases s) simp_all

end
