(* ===== verification/Mail_Content.thy ===== *)
theory Mail_Content
  imports Mail_Types
begin

text \<open>
  The canonical encoding an action's digest is computed over
  (\<^verbatim>\<open>crates/scv-channels/src/email/content.rs\<close>: \<open>Canon\<close>, \<open>encode\<close>,
  \<open>canonical\<close>, \<open>compute_digest\<close>), and the address check of
  \<^verbatim>\<open>email/render.rs\<close>. SHA-256 (the \<open>sha2\<close> crate) is the parameter \<open>sha\<close>. The
  encoding is uniquely decodable, so two contents with the same encoding are the same content.
\<close>

section \<open>The encoding\<close>

datatype canon =
    CNull
  | CInt nat
  | CStr string
  | CList "canon list"
  | CObject "(string \<times> canon) list"

definition be_bytes :: "nat \<Rightarrow> string" where
  "be_bytes v = map (\<lambda>i. char_of (v div 256 ^ (7 - i))) [0..<8]"

fun encode :: "canon \<Rightarrow> string" where
  "encode CNull = [CHR 0x00]"
| "encode (CInt v) = CHR 0x02 # be_bytes v"
| "encode (CStr t) = CHR 0x03 # be_bytes (length t) @ t"
| "encode (CList xs) = CHR 0x04 # be_bytes (length xs) @ concat (map encode xs)"
| "encode (CObject fs) =
     CHR 0x05 # be_bytes (length fs) @
       concat (map (\<lambda>f. fst f @ CHR 0x00 # encode (snd f)) fs)"

definition encode_field :: "string \<Rightarrow> canon \<Rightarrow> string" where
  "encode_field name value = name @ CHR 0x00 # encode value"

definition canon_option :: "('a \<Rightarrow> canon) \<Rightarrow> 'a option \<Rightarrow> canon" where
  "canon_option f v = (case v of None \<Rightarrow> CNull | Some x \<Rightarrow> f x)"

definition canon_strings :: "string list \<Rightarrow> canon" where
  "canon_strings xs = CList (map CStr xs)"

primrec canon_source_ref :: "source_ref \<Rightarrow> canon" where
  "canon_source_ref (Imap mailbox uidvalidity uid) =
     CObject [(''provider'', CStr ''imap''), (''mailbox'', CStr mailbox),
              (''uidvalidity'', CInt uidvalidity), (''uid'', CInt uid)]"
| "canon_source_ref (Gmail i) = CObject [(''provider'', CStr ''gmail''), (''id'', CStr i)]"
| "canon_source_ref (Graph i) = CObject [(''provider'', CStr ''graph''), (''id'', CStr i)]"

primrec canon_sent_copy :: "sent_copy_mode \<Rightarrow> canon" where
  "canon_sent_copy CopyProvider = CStr ''provider''"
| "canon_sent_copy CopyAppend = CStr ''append''"

primrec canon_origin :: "origin \<Rightarrow> canon" where
  "canon_origin (Triage source) = CObject [(''type'', CStr ''triage''), (''source'', CStr source)]"
| "canon_origin (Owner route message_id) =
     CObject [(''type'', CStr ''owner''), (''route'', CStr route), (''message_id'', CStr message_id)]"

definition canon_source :: "mail_source \<Rightarrow> canon" where
  "canon_source s =
     CObject [(''reference'', canon_source_ref (so_reference s)), (''identity'', CStr (so_identity s)),
              (''locator'', CStr (so_locator s)),
              (''message_id'', canon_option CStr (so_message_id s))]"

definition canon_display :: "display \<Rightarrow> canon" where
  "canon_display d =
     CObject [(''handle'', CStr (di_handle d)), (''from_address'', CStr (di_from_address d)),
              (''from_name'', CStr (di_from_name d)), (''subject'', CStr (di_subject d))]"

definition canon_folder :: "folder \<Rightarrow> canon" where
  "canon_folder f = CObject [(''role'', CStr (role_name (fo_role f))), (''name'', CStr (fo_name f))]"

definition canon_mailbox :: "mailbox \<Rightarrow> canon" where
  "canon_mailbox b = CObject [(''name'', CStr (mb_name b)), (''address'', CStr (mb_address b))]"

definition canon_message :: "outgoing \<Rightarrow> canon" where
  "canon_message m =
     CObject [(''form'', CStr (form_name (og_form m))), (''from'', canon_mailbox (og_from m)),
              (''to'', canon_strings (og_to m)), (''cc'', canon_strings (og_cc m)),
              (''subject'', CStr (og_subject m)), (''body'', CStr (og_body m)),
              (''in_reply_to'', canon_option CStr (og_in_reply_to m)),
              (''references'', canon_strings (og_references m)),
              (''message_id'', CStr (og_message_id m)),
              (''sent_copy'', canon_sent_copy (og_sent_copy m)),
              (''notes'', canon_strings (og_notes m))]"

text \<open>Every field but \<open>digest\<close>, in their fixed order.\<close>

definition canonical :: "action_content \<Rightarrow> (string \<times> canon) list" where
  "canonical c =
     [(''v'', CInt (co_v c)), (''id'', CStr (co_id c)), (''account'', CStr (co_account c)),
      (''fingerprint'', CStr (co_fingerprint c)), (''kind'', CStr (kind_name (co_kind c))),
      (''group'', canon_option CStr (co_group c)), (''origin'', canon_origin (co_origin c)),
      (''source'', canon_option canon_source (co_source c)),
      (''display'', canon_option canon_display (co_display c)),
      (''folder'', canon_option canon_folder (co_folder c)),
      (''message'', canon_option canon_message (co_message c)),
      (''created_at'', CInt (co_created_at c)), (''hard_expiry'', CInt (co_hard_expiry c))]"

definition digest_domain :: string where
  "digest_domain = ''scv-mail-action'' @ [CHR 0x00] @ ''v1'' @ [CHR 0x00]"

text \<open>The bytes the digest is computed over, and the digest as lowercase hex (\<open>hex\<close>).\<close>

definition digest_input :: "action_content \<Rightarrow> string" where
  "digest_input c = digest_domain @ concat (map (\<lambda>(name, value). encode_field name value) (canonical c))"

definition hex_digit :: "nat \<Rightarrow> char" where
  "hex_digit n = (if n < 10 then char_of (48 + n) else char_of (87 + n))"

definition hex :: "string \<Rightarrow> string" where
  "hex bs = concat (map (\<lambda>b. [hex_digit (of_char b div 16), hex_digit (of_char b mod 16)]) bs)"

definition compute_digest :: "(string \<Rightarrow> string) \<Rightarrow> action_content \<Rightarrow> string" where
  "compute_digest sha c = hex (sha (digest_input c))"

definition seal_digest :: "(string \<Rightarrow> string) \<Rightarrow> action_content \<Rightarrow> action_content" where
  "seal_digest sha c = c\<lparr>co_digest := compute_digest sha c\<rparr>"

text \<open>\<open>valid_id\<close>: an action ID, safe as a file name.\<close>

definition valid_id :: "string \<Rightarrow> bool" where
  "valid_id i \<longleftrightarrow> length i = 33 \<and> prefix ''a'' i \<and>
     list_all (\<lambda>b. (48 \<le> (of_char b :: nat) \<and> (of_char b :: nat) \<le> 57) \<or>
                   (97 \<le> (of_char b :: nat) \<and> (of_char b :: nat) \<le> 102)) (drop 1 i)"

section \<open>Plain addresses\<close>

definition ascii_alnum :: "char \<Rightarrow> bool" where
  "ascii_alnum b = (let n = (of_char b :: nat) in
     (48 \<le> n \<and> n \<le> 57) \<or> (65 \<le> n \<and> n \<le> 90) \<or> (97 \<le> n \<and> n \<le> 122))"

definition ascii_lower :: "char \<Rightarrow> char" where
  "ascii_lower b = (let n = (of_char b :: nat) in if 65 \<le> n \<and> n \<le> 90 then char_of (n + 32) else b)"

definition atext :: "char \<Rightarrow> bool" where
  "atext b \<longleftrightarrow> ascii_alnum b \<or> b \<in> set (''!#$%&'' @ [CHR 0x27] @ ''*+-/=?^_`{|}~'')"

definition local_ok :: "string \<Rightarrow> bool" where
  "local_ok l \<longleftrightarrow> l \<noteq> [] \<and> length l \<le> 64 \<and> \<not> prefix ''.'' l \<and> \<not> suffix ''.'' l \<and>
     \<not> sublist ''..'' l \<and> list_all (\<lambda>b. atext b \<or> b = CHR ''.'') l"

definition domain_ok :: "string \<Rightarrow> bool" where
  "domain_ok d = (let labels = split_at_char (CHR ''.'') d in
     2 \<le> length labels \<and>
     list_all (\<lambda>l. l \<noteq> [] \<and> length l \<le> 63 \<and> \<not> prefix ''-'' l \<and> \<not> suffix ''-'' l \<and>
                   list_all (\<lambda>b. ascii_alnum b \<or> b = CHR ''-'') l) labels)"

definition valid_address :: "string \<Rightarrow> string option" where
  "valid_address addr =
     (let a = trim_bytes addr in
      if 254 < length a then None
      else case rsplit_once (CHR ''@'') a of
             None \<Rightarrow> None
           | Some (l, d) \<Rightarrow>
               if local_ok l \<and> domain_ok d then Some (l @ ''@'' @ map ascii_lower d) else None)"

section \<open>Unique decoding\<close>

text \<open>
  Sizes as the Rust types bound them: integers are \<open>u64\<close>, and lengths fit a \<open>usize\<close>. Field names
  hold no NUL.
\<close>

fun sized :: "canon \<Rightarrow> bool" where
  "sized CNull = True"
| "sized (CInt v) = (v < 2 ^ 64)"
| "sized (CStr t) = (length t < 2 ^ 64)"
| "sized (CList xs) = (length xs < 2 ^ 64 \<and> (\<forall>x \<in> set xs. sized x))"
| "sized (CObject fs) = (length fs < 2 ^ 64 \<and>
     (\<forall>f \<in> set fs. CHR 0x00 \<notin> set (fst f) \<and> sized (snd f)))"

lemma length_be_bytes [simp]: "length (be_bytes v) = 8"
  by (simp add: be_bytes_def)

lemma char_of_div_mod: "char_of (n :: nat) = (char_of m :: char) \<longleftrightarrow> n mod 256 = m mod 256"
  by (metis char_of_mod_256 of_char_of)

lemma be_bytes_inj:
  assumes "be_bytes v = be_bytes w" and "v < 2 ^ 64" and "w < 2 ^ 64"
  shows "v = w"
proof -
  have nth: "v div 256 ^ (7 - i) mod 256 = w div 256 ^ (7 - i) mod 256" if "i < 8" for i
  proof -
    have "be_bytes v ! i = be_bytes w ! i" using assms(1) by simp
    then show ?thesis using that by (simp add: be_bytes_def char_of_div_mod)
  qed
  have step: "v div 256 ^ k = w div 256 ^ k" if "k \<le> 8" for k
    using that
  proof (induction "8 - k" arbitrary: k)
    case 0
    then have "k = 8" by simp
    moreover have "v div 256 ^ 8 = 0" "w div 256 ^ 8 = 0" using assms(2,3) by simp_all
    ultimately show ?case by simp
  next
    case (Suc n)
    then have k: "k < 8" by simp
    have hi: "v div 256 ^ Suc k = w div 256 ^ Suc k"
      using Suc.hyps(1)[of "Suc k"] Suc.hyps(2) k by simp
    have lo: "v div 256 ^ k mod 256 = w div 256 ^ k mod 256"
      using nth[of "7 - k"] k by simp
    have split: "x div 256 ^ k = 256 * (x div 256 ^ Suc k) + x div 256 ^ k mod 256" for x :: nat
    proof -
      have "x div 256 ^ Suc k = x div 256 ^ k div 256" by (simp add: div_mult2_eq[symmetric] mult.commute)
      then show ?thesis by (metis add.commute mod_mult_div_eq)
    qed
    show ?case using split[of v] split[of w] hi lo by simp
  qed
  show ?thesis using step[of 0] by simp
qed

lemma be_bytes_append_inj:
  assumes "be_bytes v @ r = be_bytes w @ s" "v < 2 ^ 64" "w < 2 ^ 64"
  shows "v = w \<and> r = s"
proof -
  have "be_bytes v = be_bytes w \<and> r = s" using assms(1) by simp
  then show ?thesis using be_bytes_inj assms(2,3) by blast
qed

lemma name_append_inj:
  assumes "n @ CHR 0x00 # r = m @ CHR 0x00 # s" "CHR 0x00 \<notin> set n" "CHR 0x00 \<notin> set m"
  shows "n = m \<and> r = s"
  using assms
proof (induction n arbitrary: m)
  case Nil
  then show ?case by (cases m) auto
next
  case (Cons a n)
  then show ?case by (cases m) auto
qed

text \<open>A list of values decodes one by one when each value does.\<close>

lemma concat_map_inj:
  assumes "length xs = length ys" and "concat (map f xs) @ r = concat (map f ys) @ s"
    and "\<And>x y r s. x \<in> set xs \<Longrightarrow> y \<in> set ys \<Longrightarrow> f x @ r = f y @ s \<Longrightarrow> x = y \<and> r = s"
  shows "xs = ys \<and> r = s"
  using assms
proof (induction xs ys arbitrary: r s rule: list_induct2)
  case Nil
  then show ?case by simp
next
  case (Cons x xs y ys)
  have "f x @ concat (map f xs) @ r = f y @ concat (map f ys) @ s" using Cons.prems(1) by simp
  then have "x = y" and rest: "concat (map f xs) @ r = concat (map f ys) @ s"
    using Cons.prems(2) by (force+)
  moreover have "xs = ys \<and> r = s"
    using rest Cons.prems(2) by (intro Cons.IH) auto
  ultimately show ?case by simp
qed

lemma encode_append_inj:
  "sized c \<Longrightarrow> sized d \<Longrightarrow> encode c @ r = encode d @ s \<Longrightarrow> c = d \<and> r = s"
proof (induction c arbitrary: d r s)
  case CNull
  then show ?case by (cases d) auto
next
  case (CInt v)
  then show ?case using be_bytes_inj[of v] by (cases d) auto
next
  case (CStr t)
  then show ?case
  proof (cases d)
    case (CStr u)
    have "be_bytes (length t) @ t @ r = be_bytes (length u) @ u @ s"
      using CStr.prems(3) CStr by simp
    then have "length t = length u \<and> t @ r = u @ s"
      using CStr.prems(1,2) CStr by (intro be_bytes_append_inj) auto
    then have "t = u \<and> r = s" by auto
    then show ?thesis using CStr by simp
  qed auto
next
  case (CList xs)
  then show ?case
  proof (cases d)
    case (CList ys)
    have "be_bytes (length xs) @ concat (map encode xs) @ r =
        be_bytes (length ys) @ concat (map encode ys) @ s"
      using CList.prems(3) CList by simp
    then have "length xs = length ys \<and> concat (map encode xs) @ r = concat (map encode ys) @ s"
      using CList.prems(1,2) CList by (intro be_bytes_append_inj) auto
    then have "xs = ys \<and> r = s"
      using CList.prems(1,2) CList.IH CList
      by (intro concat_map_inj[of xs ys encode]) auto
    then show ?thesis using CList by simp
  qed auto
next
  case (CObject fs)
  then show ?case
  proof (cases d)
    case (CObject gs)
    let ?e = "\<lambda>f. fst f @ CHR 0x00 # encode (snd f)"
    have "be_bytes (length fs) @ concat (map ?e fs) @ r = be_bytes (length gs) @ concat (map ?e gs) @ s"
      using CObject.prems(3) CObject by simp
    then have len: "length fs = length gs \<and> concat (map ?e fs) @ r = concat (map ?e gs) @ s"
      using CObject.prems(1,2) CObject by (intro be_bytes_append_inj) auto
    have "fs = gs \<and> r = s"
    proof (rule concat_map_inj[of fs gs ?e])
      fix f g r s
      assume mem: "f \<in> set fs" "g \<in> set gs" and eq: "?e f @ r = ?e g @ s"
      then have n: "fst f = fst g \<and> encode (snd f) @ r = encode (snd g) @ s"
        using CObject.prems(1,2) CObject by (intro name_append_inj) auto
      have "snd f \<in> Basic_BNFs.snds f" by (cases f) simp
      then have "snd f = snd g \<and> r = s"
        using n mem CObject.prems(1,2) CObject CObject.IH[of f "snd f"] by auto
      then show "f = g \<and> r = s" using n by (simp add: prod_eq_iff)
    qed (use len in auto)
    then show ?thesis using CObject by simp
  qed auto
qed

lemma CStr_inj: "inj CStr"
  by (simp add: inj_def)

lemma canon_strings_inj [simp]: "canon_strings xs = canon_strings ys \<longleftrightarrow> xs = ys"
  by (simp add: canon_strings_def inj_map_eq_map[OF CStr_inj])

lemma canon_option_inj:
  assumes "\<And>x y. f x = f y \<Longrightarrow> x = y" and "\<And>x. f x \<noteq> CNull"
  shows "canon_option f a = canon_option f b \<Longrightarrow> a = b"
  using assms by (auto simp: canon_option_def split: option.splits) metis+

lemma kind_name_inj: "kind_name k = kind_name k' \<Longrightarrow> k = k'"
  by (cases k; cases k') simp_all

lemma form_name_inj: "form_name k = form_name k' \<Longrightarrow> k = k'"
  by (cases k; cases k') simp_all

lemma role_name_inj: "role_name k = role_name k' \<Longrightarrow> k = k'"
  by (cases k; cases k') simp_all

lemma canon_sent_copy_inj: "canon_sent_copy k = canon_sent_copy k' \<Longrightarrow> k = k'"
  by (cases k; cases k') simp_all

lemma canon_source_ref_inj: "canon_source_ref k = canon_source_ref k' \<Longrightarrow> k = k'"
  by (cases k; cases k') simp_all

lemma canon_origin_inj: "canon_origin k = canon_origin k' \<Longrightarrow> k = k'"
  by (cases k; cases k') simp_all

lemma canon_str_option_inj: "canon_option CStr a = canon_option CStr b \<Longrightarrow> a = b"
  by (rule canon_option_inj) simp_all

lemma canon_source_inj: "canon_source a = canon_source b \<Longrightarrow> a = b"
  by (rule mail_source.equality)
    (auto simp: canon_source_def dest: canon_source_ref_inj canon_str_option_inj)

lemma canon_display_inj: "canon_display a = canon_display b \<Longrightarrow> a = b"
  by (rule display.equality) (auto simp: canon_display_def)

lemma canon_folder_inj: "canon_folder a = canon_folder b \<Longrightarrow> a = b"
  by (rule folder.equality) (auto simp: canon_folder_def dest: role_name_inj)

lemma canon_mailbox_inj: "canon_mailbox a = canon_mailbox b \<Longrightarrow> a = b"
  by (rule mailbox.equality) (auto simp: canon_mailbox_def)

lemma canon_message_inj: "canon_message a = canon_message b \<Longrightarrow> a = b"
  by (rule outgoing.equality)
    (auto simp: canon_message_def dest: form_name_inj canon_mailbox_inj canon_str_option_inj
      canon_sent_copy_inj)

lemmas canon_injs = kind_name_inj canon_str_option_inj canon_origin_inj
  canon_option_inj[OF canon_source_inj] canon_option_inj[OF canon_display_inj]
  canon_option_inj[OF canon_folder_inj] canon_option_inj[OF canon_message_inj]

lemma canonical_inj:
  assumes "canonical c = canonical d"
  shows "c\<lparr>co_digest := x\<rparr> = d\<lparr>co_digest := x\<rparr>"
proof -
  have "co_source c = co_source d" "co_display c = co_display d" "co_folder c = co_folder d"
    "co_message c = co_message d"
    using assms
    by (auto simp: canonical_def canon_source_def canon_display_def canon_folder_def canon_message_def
        intro: canon_injs)
  then show ?thesis using assms
    by (intro action_content.equality)
      (auto simp: canonical_def dest: canon_injs(1,2,3))
qed

definition sized_content :: "action_content \<Rightarrow> bool" where
  "sized_content c \<longleftrightarrow> list_all (\<lambda>f. sized (snd f)) (canonical c)"

lemma canonical_names: "f \<in> set (canonical c) \<Longrightarrow> CHR 0x00 \<notin> set (fst f)"
  by (auto simp: canonical_def)

section \<open>Properties\<close>

text \<open>
  C12. The digest binds every field an approval covers: two action contents whose digest inputs are
  the same bytes agree in every field but the recorded digest itself, so no change to a recipient,
  a header, the body, the folder or the target can keep the input of the hash.
\<close>

theorem digest_input_binds_content:
  assumes "digest_input c = digest_input d" and "sized_content c" and "sized_content d"
  shows "c\<lparr>co_digest := x\<rparr> = d\<lparr>co_digest := x\<rparr>"
proof -
  let ?e = "\<lambda>f. fst f @ CHR 0x00 # encode (snd f)"
  have e: "concat (map ?e (canonical c)) @ [] = concat (map ?e (canonical d)) @ []"
    using assms(1) by (simp add: digest_input_def encode_field_def case_prod_unfold)
  have "canonical c = canonical d \<and> ([] :: string) = []"
  proof (rule concat_map_inj[OF _ e])
    show "length (canonical c) = length (canonical d)" by (simp add: canonical_def)
    fix f g r s
    assume mem: "f \<in> set (canonical c)" "g \<in> set (canonical d)" and eq: "?e f @ r = ?e g @ s"
    then have n: "fst f = fst g \<and> encode (snd f) @ r = encode (snd g) @ s"
      by (intro name_append_inj) (auto dest: canonical_names)
    have "sized (snd f)" "sized (snd g)"
      using mem assms(2,3) by (auto simp: sized_content_def list_all_iff)
    then have "snd f = snd g \<and> r = s" using n encode_append_inj by blast
    then show "f = g \<and> r = s" using n by (simp add: prod_eq_iff)
  qed
  then show ?thesis by (intro canonical_inj) simp
qed

text \<open>Two contents that differ in a recipient have different digest inputs.\<close>

definition sample_content :: "string \<Rightarrow> action_content" where
  "sample_content addr =
     \<lparr>co_v = 1, co_id = ''a1'', co_account = ''mail'', co_fingerprint = ''f'', co_kind = Send,
      co_group = None, co_origin = Owner ''slack:me'' ''m1'', co_source = None, co_display = None,
      co_folder = None,
      co_message = Some \<lparr>og_form = Compose, og_from = \<lparr>mb_name = [], mb_address = ''me@x.org''\<rparr>,
        og_to = [addr], og_cc = [], og_subject = ''hi'', og_body = ''hello'', og_in_reply_to = None,
        og_references = [], og_message_id = ''<u@x.org>'', og_sent_copy = CopyProvider, og_notes = []\<rparr>,
      co_created_at = 100, co_hard_expiry = 200, co_digest = []\<rparr>"

theorem digest_input_binds_content_witness:
  "digest_input (sample_content ''a@x.org'') \<noteq> digest_input (sample_content ''b@x.org'')"
proof
  assume eq: "digest_input (sample_content ''a@x.org'') = digest_input (sample_content ''b@x.org'')"
  have sz: "sized_content (sample_content ''a@x.org'')" "sized_content (sample_content ''b@x.org'')"
    by (simp_all add: sized_content_def sample_content_def canonical_def canon_option_def
        canon_message_def canon_mailbox_def canon_strings_def)
  have "(sample_content ''a@x.org'')\<lparr>co_digest := []\<rparr> = (sample_content ''b@x.org'')\<lparr>co_digest := []\<rparr>"
    by (rule digest_input_binds_content[OF eq sz])
  then show False by (simp add: sample_content_def)
qed

end
