(* ===== verification/Mail_Queue.thy ===== *)
theory Mail_Queue
  imports Mail_Types "HOL-Library.Product_Lexorder"
begin

text \<open>
  The queue of items for the mail chat and the write of the whole state
  (\<^verbatim>\<open>crates/scv-channels/src/email/ledger.rs\<close>: \<open>push_item_with\<close>, \<open>collapse\<close>,
  \<open>prune\<close>, \<open>fit\<close>, \<open>Ledger::commit\<close>). \<open>serde_json::to_string\<close> is the parameter
  \<open>json\<close>, and whether the file was saved is the parameter \<open>save\<close>; serializing a
  \<open>MailState\<close> cannot fail, since it holds no map with keys other than strings.
\<close>

section \<open>Constants\<close>

definition MAX_CLAIMS :: nat where "MAX_CLAIMS = 64"
definition MAX_ITEM_BYTES :: nat where "MAX_ITEM_BYTES = 1536"
definition MAX_PREVIEW_BYTES :: nat where "MAX_PREVIEW_BYTES = 11 * 1024"
definition HOUR :: nat where "HOUR = 3600"
definition DAY :: nat where "DAY = 86400"
definition MAX_IDENTITIES :: nat where "MAX_IDENTITIES = 1024"
definition IDENTITY_SECONDS :: nat where "IDENTITY_SECONDS = 7 * DAY"
definition MAX_SENT_KEYS :: nat where "MAX_SENT_KEYS = 1024"
definition SENT_KEY_SECONDS :: nat where "SENT_KEY_SECONDS = 7 * DAY"
definition MAX_WATCHED :: nat where "MAX_WATCHED = 256"
definition WATCH_SECONDS :: nat where "WATCH_SECONDS = 7 * DAY"
definition MAX_APPROVALS :: nat where "MAX_APPROVALS = 256"
definition APPROVAL_SECONDS :: nat where "APPROVAL_SECONDS = 7 * DAY"
definition REQUEST_SECONDS :: nat where "REQUEST_SECONDS = DAY"

lemmas ledger_consts = MAX_CLAIMS_def MAX_ITEM_BYTES_def MAX_PREVIEW_BYTES_def HOUR_def DAY_def
  MAX_IDENTITIES_def IDENTITY_SECONDS_def MAX_SENT_KEYS_def SENT_KEY_SECONDS_def MAX_WATCHED_def
  WATCH_SECONDS_def MAX_APPROVALS_def APPROVAL_SECONDS_def REQUEST_SECONDS_def

section \<open>Queueing an item\<close>

text \<open>\<open>scv_client::text::utf8_prefix\<close>: the longest prefix that fits without splitting a character.\<close>

definition utf8_prefix :: "string \<Rightarrow> nat \<Rightarrow> string" where
  "utf8_prefix v max_bytes =
     (if length v \<le> max_bytes then v else take (char_floor v max_bytes) v)"

text \<open>The UTF-8 bytes of a line break and an ellipsis in brackets.\<close>

definition CUT :: string where
  "CUT = [CHR 0x0A, CHR 0x5B, CHR 0xE2, CHR 0x80, CHR 0xA6, CHR 0x5D]"

definition item_max :: "string list \<Rightarrow> nat" where
  "item_max actions = (if actions = [] then MAX_ITEM_BYTES else MAX_PREVIEW_BYTES)"

definition cut_text :: "nat \<Rightarrow> string \<Rightarrow> string" where
  "cut_text max_len text =
     (if length text > max_len then utf8_prefix text (max_len - length CUT) @ CUT else text)"

definition key_taken :: "mail_state \<Rightarrow> string \<Rightarrow> bool" where
  "key_taken s key \<longleftrightarrow>
     (\<exists>i \<in> set (ms_queue s). it_key i = key) \<or> (\<exists>k \<in> set (ms_sent_keys s). st_key k = key)"

definition push_item_with ::
  "mail_state \<Rightarrow> string \<Rightarrow> item_class \<Rightarrow> bool \<Rightarrow> string \<Rightarrow> string list \<Rightarrow> nat \<Rightarrow> mail_state" where
  "push_item_with s key cls urg text actions now =
     (if key_taken s key then s
      else s\<lparr>ms_queue := ms_queue s @
               [\<lparr>it_seq = ms_next_seq s, it_created_at = now, it_key = key, it_class = cls,
                 it_urgent = urg, it_text = cut_text (item_max actions) text,
                 it_actions = actions\<rparr>],
             ms_next_seq := ms_next_seq s + 1\<rparr>)"

definition push_item ::
  "mail_state \<Rightarrow> string \<Rightarrow> item_class \<Rightarrow> bool \<Rightarrow> string \<Rightarrow> nat \<Rightarrow> mail_state" where
  "push_item s key cls urg text now = push_item_with s key cls urg text [] now"

section \<open>Collapsing the queue\<close>

text \<open>Whether \<open>i\<close> previews an action that is not over.\<close>

definition offers_live :: "mail_state \<Rightarrow> item \<Rightarrow> bool" where
  "offers_live s i \<longleftrightarrow>
     (\<exists>id \<in> set (it_actions i). \<exists>e \<in> set (ms_actions s). ae_id e = id \<and> \<not> terminal (ae_state e))"

definition in_batch :: "mail_state \<Rightarrow> nat list" where
  "in_batch s = (case ms_batch s of None \<Rightarrow> [] | Some b \<Rightarrow> ba_seqs b)"

definition droppable :: "mail_state \<Rightarrow> item \<Rightarrow> bool" where
  "droppable s i \<longleftrightarrow>
     it_class i = Report \<and> it_seq i \<notin> set (in_batch s) \<and> \<not> offers_live s i"

definition dropped :: "mail_state \<Rightarrow> nat \<Rightarrow> item list" where
  "dropped s excess =
     take excess (sort_key (\<lambda>i. (it_created_at i, it_seq i)) (filter (droppable s) (ms_queue s)))"

definition collapse :: "mail_state \<Rightarrow> nat \<Rightarrow> nat \<Rightarrow> mail_state" where
  "collapse s max_queue now =
     (let excess = length (ms_queue s) - max_queue;
          gone = dropped s excess;
          oldest = (if gone = [] then now else min_list (map it_created_at gone));
          c = ms_counts s;
          since = (case ct_unlisted_since c of None \<Rightarrow> oldest | Some at \<Rightarrow> at)
      in if excess = 0 \<or> gone = [] then s
         else s\<lparr>ms_queue := filter (\<lambda>i. it_seq i \<notin> it_seq ` set gone) (ms_queue s),
                ms_counts := c\<lparr>ct_unlisted := ct_unlisted c + length gone,
                                ct_unlisted_since := Some (min since oldest)\<rparr>\<rparr>)"

section \<open>Pruning\<close>

definition ring :: "'a list \<Rightarrow> ('a \<Rightarrow> nat) \<Rightarrow> nat \<Rightarrow> nat \<Rightarrow> nat \<Rightarrow> 'a list" where
  "ring entries at now max_age max_len =
     (let kept = filter (\<lambda>e. now - at e < max_age) entries
      in drop (length kept - max_len) kept)"

text \<open>\<open>actions::prune\<close>: the approval ring, old reservations, stale requests.\<close>

definition prune_actions :: "mail_state \<Rightarrow> nat \<Rightarrow> mail_state" where
  "prune_actions s now =
     s\<lparr>ms_approvals := ring (ms_approvals s) st_at now APPROVAL_SECONDS MAX_APPROVALS,
       ms_reservations := filter (\<lambda>r. now - rs_at r < DAY) (ms_reservations s),
       ms_requests := filter (\<lambda>r. now - rq_at r < REQUEST_SECONDS) (ms_requests s)\<rparr>"

definition prune :: "mail_state \<Rightarrow> nat \<Rightarrow> mail_state" where
  "prune s now =
     prune_actions
       (s\<lparr>ms_identities := ring (ms_identities s) kn_at now IDENTITY_SECONDS MAX_IDENTITIES,
          ms_sent_keys := ring (ms_sent_keys s) st_at now SENT_KEY_SECONDS MAX_SENT_KEYS,
          ms_log := filter (\<lambda>l. now - lg_at l < DAY) (ms_log s),
          ms_watched := ring (ms_watched s) wa_at now WATCH_SECONDS MAX_WATCHED,
          ms_turns := filter (\<lambda>at. now - at < 3600) (ms_turns s)\<rparr>) now"

section \<open>Fitting and saving the state\<close>

datatype commit_error = Full | NotSaved

definition newest :: "mail_state \<Rightarrow> nat" where
  "newest s = fold max (map it_created_at (ms_queue s)) 0"

lemma collapse_shrinks: "length (ms_queue (collapse s max_queue now)) \<le> length (ms_queue s)"
  by (simp add: collapse_def Let_def)

function (sequential) fit_loop ::
  "(mail_state \<Rightarrow> string) \<Rightarrow> nat \<Rightarrow> mail_state \<Rightarrow> commit_error + mail_state" where
  "fit_loop json max_bytes s =
     (if length (json s) \<le> max_bytes then Inr s
      else let before = length (ms_queue s);
               s' = collapse s (before - 1) (newest s)
           in if length (ms_queue s') = before then Inl Full else fit_loop json max_bytes s')"
  by pat_completeness auto
termination
  by (relation "measure (\<lambda>(json, max_bytes, s). length (ms_queue s))")
    (auto simp: order.strict_iff_order collapse_shrinks)

declare fit_loop.simps [simp del]

definition fit :: "(mail_state \<Rightarrow> string) \<Rightarrow> nat \<Rightarrow> mail_state \<Rightarrow> commit_error + mail_state" where
  "fit json max_bytes s =
     (if length (json s) \<le> max_bytes then Inr s
      else fit_loop json max_bytes
             (s\<lparr>ms_identities := drop (length (ms_identities s) div 2) (ms_identities s)\<rparr>))"

record disk =
  dk_json :: "mail_state \<Rightarrow> string"
  dk_max_bytes :: nat
  dk_save :: "string \<Rightarrow> bool"

definition commit ::
  "disk \<Rightarrow> (mail_state \<Rightarrow> 'v \<times> mail_state) \<Rightarrow> mail_state \<Rightarrow> (commit_error + 'v) \<times> mail_state" where
  "commit d change s =
     (let (v, nxt) = change s
      in case fit (dk_json d) (dk_max_bytes d) nxt of
           Inl e \<Rightarrow> (Inl e, s)
         | Inr fitted \<Rightarrow>
             if dk_save d (dk_json d fitted) then (Inr v, fitted) else (Inl NotSaved, s))"

section \<open>What the queue keeps\<close>

text \<open>
  The queue's invariant: sequence numbers are distinct and below the next one, keys are distinct,
  and every text is within its bound.
\<close>

definition item_bounded :: "item \<Rightarrow> bool" where
  "item_bounded i \<longleftrightarrow> length (it_text i) \<le> item_max (it_actions i)"

definition queue_ok :: "mail_state \<Rightarrow> bool" where
  "queue_ok s \<longleftrightarrow>
     distinct (map it_seq (ms_queue s)) \<and> distinct (map it_key (ms_queue s)) \<and>
     (\<forall>i \<in> set (ms_queue s). it_seq i < ms_next_seq s \<and> item_bounded i)"

lemma queue_ok_cong:
  "ms_queue s' = ms_queue s \<Longrightarrow> ms_next_seq s' = ms_next_seq s \<Longrightarrow> queue_ok s' = queue_ok s"
  by (simp add: queue_ok_def)

lemma queue_ok_identities [simp]: "queue_ok (s\<lparr>ms_identities := ks\<rparr>) = queue_ok s"
  by (simp add: queue_ok_def)

lemma queue_ok_filter:
  "queue_ok s \<Longrightarrow> ms_queue s' = filter p (ms_queue s) \<Longrightarrow> ms_next_seq s' = ms_next_seq s
     \<Longrightarrow> queue_ok s'"
  by (auto simp: queue_ok_def distinct_map_filter)

lemma length_CUT_eq [simp]: "length CUT = 6"
  by (simp add: CUT_def)

lemma utf8_prefix_le: "length (utf8_prefix v n) \<le> n"
  using char_floor_le[of v n] by (simp add: utf8_prefix_def min.coboundedI2)

lemma cut_text_le: "6 \<le> n \<Longrightarrow> length (cut_text n t) \<le> n"
  using utf8_prefix_le[of t "n - 6"] by (auto simp: cut_text_def)

lemma item_max_ge: "6 \<le> item_max actions"
  by (simp add: item_max_def ledger_consts)

lemma push_item_with_queue_ok [inv_intros]:
  "queue_ok s \<Longrightarrow> queue_ok (push_item_with s key cls urg text actions now)"
  by (auto simp: push_item_with_def queue_ok_def item_bounded_def key_taken_def less_SucI
      intro: cut_text_le item_max_ge)

lemma push_item_queue_ok [inv_intros]:
  "queue_ok s \<Longrightarrow> queue_ok (push_item s key cls urg text now)"
  by (simp add: push_item_def push_item_with_queue_ok)

text \<open>What \<open>push_item_with\<close>, \<open>collapse\<close> and \<open>prune\<close> leave alone.\<close>

lemma push_item_with_frame [simp]:
  "ms_actions (push_item_with s k c u t a n) = ms_actions s"
  "ms_reservations (push_item_with s k c u t a n) = ms_reservations s"
  "ms_tombstones (push_item_with s k c u t a n) = ms_tombstones s"
  "ms_approvals (push_item_with s k c u t a n) = ms_approvals s"
  "ms_requests (push_item_with s k c u t a n) = ms_requests s"
  "ms_batch (push_item_with s k c u t a n) = ms_batch s"
  "ms_counts (push_item_with s k c u t a n) = ms_counts s"
  "ms_claims (push_item_with s k c u t a n) = ms_claims s"
  "ms_handles (push_item_with s k c u t a n) = ms_handles s"
  "ms_watched (push_item_with s k c u t a n) = ms_watched s"
  "ms_cursor (push_item_with s k c u t a n) = ms_cursor s"
  by (simp_all add: push_item_with_def)

lemma push_item_frame [simp]:
  "ms_actions (push_item s k c u t n) = ms_actions s"
  "ms_reservations (push_item s k c u t n) = ms_reservations s"
  "ms_claims (push_item s k c u t n) = ms_claims s"
  by (simp_all add: push_item_def)

lemma collapse_frame [simp]:
  "ms_actions (collapse s m n) = ms_actions s"
  "ms_reservations (collapse s m n) = ms_reservations s"
  "ms_tombstones (collapse s m n) = ms_tombstones s"
  "ms_batch (collapse s m n) = ms_batch s"
  "ms_next_seq (collapse s m n) = ms_next_seq s"
  "ms_claims (collapse s m n) = ms_claims s"
  "ms_approvals (collapse s m n) = ms_approvals s"
  by (simp_all add: collapse_def Let_def)

lemma prune_frame [simp]:
  "ms_actions (prune s n) = ms_actions s"
  "ms_tombstones (prune s n) = ms_tombstones s"
  "ms_batch (prune s n) = ms_batch s"
  "ms_queue (prune s n) = ms_queue s"
  "ms_next_seq (prune s n) = ms_next_seq s"
  "ms_claims (prune s n) = ms_claims s"
  "ms_reservations (prune s n) = filter (\<lambda>r. n - rs_at r < DAY) (ms_reservations s)"
  by (simp_all add: prune_def prune_actions_def)

lemma collapse_queue: "\<exists>p. ms_queue (collapse s m n) = filter p (ms_queue s)"
  by (cases "ms_queue (collapse s m n) = ms_queue s")
    (auto simp: collapse_def Let_def intro: exI[of _ "\<lambda>_. True"])

lemma collapse_queue_ok [inv_intros]: "queue_ok s \<Longrightarrow> queue_ok (collapse s m n)"
  using collapse_queue[of s m n] by (auto elim: queue_ok_filter)

lemma prune_queue_ok [inv_intros]: "queue_ok s \<Longrightarrow> queue_ok (prune s n)"
  by (simp add: queue_ok_def)

section \<open>What collapsing drops\<close>

lemma droppable_cong:
  "ms_actions s' = ms_actions s \<Longrightarrow> ms_batch s' = ms_batch s \<Longrightarrow> droppable s' = droppable s"
  by (simp add: droppable_def offers_live_def in_batch_def fun_eq_iff)

lemma droppable_identities [simp]: "droppable (s\<lparr>ms_identities := ks\<rparr>) = droppable s"
  by (rule droppable_cong) simp_all

lemma droppable_collapse [simp]: "droppable (collapse s m n) = droppable s"
  by (rule droppable_cong) simp_all

lemma set_dropped: "set (dropped s k) \<subseteq> {i \<in> set (ms_queue s). droppable s i}"
  by (auto simp: dropped_def dest: in_set_takeD)

lemma length_dropped: "length (dropped s k) = min k (length (filter (droppable s) (ms_queue s)))"
  by (simp add: dropped_def)

lemma distinct_dropped:
  assumes "queue_ok s" shows "distinct (map it_seq (dropped s k))"
proof -
  let ?c = "filter (droppable s) (ms_queue s)"
  have "distinct (map it_seq ?c)" using assms by (simp add: queue_ok_def distinct_map_filter)
  then have d: "distinct ?c" "inj_on it_seq (set ?c)" by (simp_all only: distinct_map)
  let ?s = "sort_key (\<lambda>i. (it_created_at i, it_seq i)) ?c"
  have "distinct (map it_seq ?s)" using d by (simp add: distinct_map)
  then show ?thesis by (simp only: dropped_def take_map[symmetric] distinct_take)
qed

lemma filter_out_count:
  assumes "distinct (map f xs)" and "distinct (map f ys)" and "set ys \<subseteq> set xs"
  shows "length (filter (\<lambda>x. f x \<notin> f ` set ys) xs) + length ys = length xs"
proof -
  have "set (filter (\<lambda>x. f x \<in> f ` set ys) xs) = set ys"
    using assms(1,3) by (auto simp: distinct_map dest: inj_onD)
  then have "length (filter (\<lambda>x. f x \<in> f ` set ys) xs) = length ys"
    using assms(1,2) distinct_card[of "filter (\<lambda>x. f x \<in> f ` set ys) xs"] distinct_card[of ys]
    by (simp add: distinct_map)
  then show ?thesis
    using sum_length_filter_compl[of "\<lambda>x. f x \<in> f ` set ys" xs] by simp
qed

lemma collapse_counts:
  assumes "queue_ok s"
  shows "length (ms_queue (collapse s m n)) + ct_unlisted (ms_counts (collapse s m n)) =
         length (ms_queue s) + ct_unlisted (ms_counts s)"
proof -
  let ?gone = "dropped s (length (ms_queue s) - m)"
  have "length (filter (\<lambda>i. it_seq i \<notin> it_seq ` set ?gone) (ms_queue s)) + length ?gone =
      length (ms_queue s)"
    using assms set_dropped[of s] distinct_dropped[OF assms]
    by (intro filter_out_count) (auto simp: queue_ok_def)
  then show ?thesis by (auto simp: collapse_def Let_def)
qed

lemma collapse_keeps:
  assumes "queue_ok s" and "i \<in> set (ms_queue s)" and "\<not> droppable s i"
  shows "i \<in> set (ms_queue (collapse s m n))"
proof -
  have "it_seq i \<notin> it_seq ` set (dropped s k)" for k
  proof
    assume "it_seq i \<in> it_seq ` set (dropped s k)"
    then obtain j where j: "it_seq i = it_seq j" "j \<in> set (ms_queue s)" "droppable s j"
      using set_dropped[of s k] by auto
    then have "i = j" using assms by (auto simp: queue_ok_def distinct_map dest: inj_onD)
    then show False using assms(3) j(3) by simp
  qed
  then show ?thesis using assms(2) by (simp add: collapse_def Let_def)
qed

lemma collapse_bound:
  assumes "queue_ok s"
  shows "length (ms_queue (collapse s m n)) \<le> m \<or>
         (\<forall>i \<in> set (ms_queue (collapse s m n)). \<not> droppable s i)"
proof (cases "length (ms_queue s) - m \<le> length (filter (droppable s) (ms_queue s))")
  case True
  let ?gone = "dropped s (length (ms_queue s) - m)"
  have len: "length ?gone = length (ms_queue s) - m" using True by (simp add: length_dropped)
  have "length (filter (\<lambda>i. it_seq i \<notin> it_seq ` set ?gone) (ms_queue s)) + length ?gone =
      length (ms_queue s)"
    using assms set_dropped[of s] distinct_dropped[OF assms]
    by (intro filter_out_count) (auto simp: queue_ok_def)
  then show ?thesis using len by (auto simp: collapse_def Let_def)
next
  case False
  then have "set (dropped s (length (ms_queue s) - m)) = {i \<in> set (ms_queue s). droppable s i}"
    by (simp add: dropped_def)
  then show ?thesis by (auto simp: collapse_def Let_def)
qed

section \<open>What fitting and committing keep\<close>

lemma fit_loop_invariant:
  assumes "\<And>t m n. P t \<Longrightarrow> P (collapse t m n)"
  shows "fit_loop json mx s = Inr s' \<Longrightarrow> P s \<Longrightarrow> P s' \<and> length (json s') \<le> mx"
proof (induction json mx s rule: fit_loop.induct)
  case (1 json mx s)
  let ?s = "collapse s (length (ms_queue s) - 1) (newest s)"
  show ?case
  proof (cases "length (json s) \<le> mx")
    case True
    then show ?thesis using "1.prems" by (subst (asm) fit_loop.simps) simp
  next
    case False
    then have go: "length (ms_queue ?s) \<noteq> length (ms_queue s)" "fit_loop json mx ?s = Inr s'"
      using "1.prems"(1) by (subst (asm) fit_loop.simps, simp add: Let_def split: if_splits)+
    then show ?thesis using "1.IH"[OF False refl refl] "1.prems"(2) assms by blast
  qed
qed

lemma fit_invariant:
  assumes "fit json mx s = Inr s'" and "P s"
    and "\<And>t m n. P t \<Longrightarrow> P (collapse t m n)" and "\<And>t ks. P t \<Longrightarrow> P (t\<lparr>ms_identities := ks\<rparr>)"
  shows "P s'" and "length (json s') \<le> mx"
  using fit_loop_invariant[of P, OF assms(3)] assms(1,2,4)
  by (auto simp: fit_def split: if_splits)

lemma fit_frame:
  assumes "fit json mx s = Inr s'"
  shows "ms_actions s' = ms_actions s" and "ms_batch s' = ms_batch s"
    and "ms_reservations s' = ms_reservations s" and "ms_tombstones s' = ms_tombstones s"
    and "ms_approvals s' = ms_approvals s" and "ms_claims s' = ms_claims s"
    and "queue_ok s \<Longrightarrow> queue_ok s'"
  by (rule fit_invariant[OF assms]; simp add: collapse_queue_ok)+

lemma fit_keeps:
  assumes "fit json mx s = Inr s'" and "queue_ok s"
  shows "length (ms_queue s') + ct_unlisted (ms_counts s') =
         length (ms_queue s) + ct_unlisted (ms_counts s)"
    and "i \<in> set (ms_queue s) \<Longrightarrow> \<not> droppable s i \<Longrightarrow> i \<in> set (ms_queue s')"
proof -
  have "queue_ok s' \<and> length (ms_queue s') + ct_unlisted (ms_counts s') =
         length (ms_queue s) + ct_unlisted (ms_counts s)"
    using assms(2)
    by (intro fit_invariant(1)[OF assms(1), where P = "\<lambda>t. queue_ok t \<and>
          length (ms_queue t) + ct_unlisted (ms_counts t) =
          length (ms_queue s) + ct_unlisted (ms_counts s)"])
      (simp_all add: collapse_queue_ok collapse_counts)
  then show "length (ms_queue s') + ct_unlisted (ms_counts s') =
         length (ms_queue s) + ct_unlisted (ms_counts s)" ..
  assume "i \<in> set (ms_queue s)" "\<not> droppable s i"
  then have "queue_ok s' \<and> droppable s' = droppable s \<and> i \<in> set (ms_queue s')"
    using assms(2)
    by (intro fit_invariant(1)[OF assms(1), where P = "\<lambda>t. queue_ok t \<and>
          droppable t = droppable s \<and> i \<in> set (ms_queue t)"])
      (simp_all add: collapse_queue_ok collapse_keeps)
  then show "i \<in> set (ms_queue s')" by blast
qed

lemma commit_Inr:
  assumes "commit d change s = (Inr v, s')"
  shows "\<exists>nxt. change s = (v, nxt) \<and> fit (dk_json d) (dk_max_bytes d) nxt = Inr s' \<and>
           dk_save d (dk_json d s')"
  using assms by (auto simp: commit_def Let_def split: prod.splits sum.splits if_splits)

lemma commit_Inl: "commit d change s = (Inl e, s') \<Longrightarrow> s' = s"
  by (auto simp: commit_def Let_def split: prod.splits sum.splits if_splits)

text \<open>
  C11. A write is all or nothing. When \<open>commit\<close> fails, the state is the one before the change.
  When it succeeds, the state's serialized form is within the size limit and was saved; the
  change's actions, batch, reservations, approvals and claims are in it unaltered; every queued
  item that is being handed over, previews an action not yet over, or is one of SCV's own lines is
  still queued; and each report given up for room is counted as unlisted.
\<close>

theorem commit_all_or_nothing:
  fixes change :: "mail_state \<Rightarrow> 'v \<times> mail_state"
  assumes "queue_ok (snd (change s))" and "commit d change s = (r, s')"
  shows "case r of
      Inl e \<Rightarrow> s' = s
    | Inr v \<Rightarrow>
        let nxt = snd (change s)
        in v = fst (change s) \<and> length (dk_json d s') \<le> dk_max_bytes d \<and> dk_save d (dk_json d s') \<and>
           ms_actions s' = ms_actions nxt \<and> ms_batch s' = ms_batch nxt \<and>
           ms_reservations s' = ms_reservations nxt \<and> ms_approvals s' = ms_approvals nxt \<and>
           ms_claims s' = ms_claims nxt \<and>
           (\<forall>i \<in> set (ms_queue nxt). \<not> droppable nxt i \<longrightarrow> i \<in> set (ms_queue s')) \<and>
           length (ms_queue s') + ct_unlisted (ms_counts s') =
           length (ms_queue nxt) + ct_unlisted (ms_counts nxt)"
proof (cases r)
  case (Inl e)
  then show ?thesis using commit_Inl assms(2) by fastforce
next
  case (Inr v)
  then obtain nxt where n: "change s = (v, nxt)"
    "fit (dk_json d) (dk_max_bytes d) nxt = Inr s'" "dk_save d (dk_json d s')"
    using commit_Inr[of d change s v s'] assms(2) by auto
  have "length (dk_json d s') \<le> dk_max_bytes d"
    by (rule fit_invariant(2)[OF n(2), of "\<lambda>_. True"]) simp_all
  then show ?thesis
    using fit_frame[OF n(2)] fit_keeps[OF n(2)] assms(1) n(1,3) Inr by (simp add: Let_def)
qed

definition empty_counts :: counts where
  "empty_counts = \<lparr>ct_skipped = 0, ct_undelivered = 0, ct_unlisted = 0, ct_unlisted_since = None,
     ct_unreadable = 0, ct_expired = 0\<rparr>"

definition empty_day :: day where
  "empty_day = \<lparr>dy_date = [], dy_seen = 0, dy_triaged = 0, dy_reported = 0, dy_tokens = 0,
     dy_composed = 0\<rparr>"

definition empty_state :: mail_state where
  "empty_state = \<lparr>ms_v = 1, ms_fingerprint = None, ms_epoch = [], ms_cursor = None, ms_claims = [],
     ms_identities = [], ms_queue = [], ms_next_seq = 0, ms_batch = None, ms_log = [],
     ms_sent_keys = [], ms_watched = [], ms_counts = empty_counts, ms_day = empty_day,
     ms_turns = [], ms_handles = [], ms_actions = [], ms_tombstones = [], ms_requests = [],
     ms_approvals = [], ms_reservations = []\<rparr>"

lemma queue_ok_empty [simp]: "queue_ok empty_state"
  by (simp add: queue_ok_def empty_state_def)

theorem commit_all_or_nothing_witness:
  "let d = \<lparr>dk_json = (\<lambda>s. concat (map it_text (ms_queue s))), dk_max_bytes = 3,
            dk_save = (\<lambda>_. True)\<rparr>;
       change = (\<lambda>s. ((), push_item (push_item s ''k'' Report False ''ab'' 5) ''l'' System False ''cd'' 6));
       s' = snd (commit d change empty_state)
   in queue_ok (snd (change empty_state)) \<and> map it_key (ms_queue s') = [''l''] \<and>
      length (ms_queue s') + ct_unlisted (ms_counts s') = 2"
proof -
  let ?d = "\<lparr>dk_json = (\<lambda>s. concat (map it_text (ms_queue s))), dk_max_bytes = 3,
      dk_save = (\<lambda>_. True)\<rparr>"
  let ?c = "\<lambda>s. ((), push_item (push_item s ''k'' Report False ''ab'' 5) ''l'' System False ''cd'' 6)"
  have q: "queue_ok (snd (?c empty_state))" by (simp add: push_item_queue_ok)
  have r: "fst (commit ?d ?c empty_state) = Inr () \<and>
      map it_key (ms_queue (snd (commit ?d ?c empty_state))) = [''l'']"
    by code_simp
  have n: "length (ms_queue (snd (?c empty_state))) = 2 \<and> ct_unlisted (ms_counts (snd (?c empty_state))) = 0"
    by code_simp
  show ?thesis
    using commit_all_or_nothing[of ?c empty_state ?d "Inr ()" "snd (commit ?d ?c empty_state)"]
      q r n by (simp add: Let_def prod_eq_iff)
qed

end
