(* ===== verification/Mail_Policy.thy ===== *)
theory Mail_Policy
  imports Mail_Content Mail_Queue
begin

text \<open>
  What the account's settings and provider allow
  (\<^verbatim>\<open>crates/scv-channels/src/email/ledger/actions.rs\<close>: \<open>Policy\<close>), and the words SCV uses to
  the owner about an action (\<open>describe\<close>, \<open>state_answer\<close>, \<open>outcome_text\<close>).
\<close>

section \<open>The policy\<close>

record policy =
  po_actions :: action_settings
  po_routes :: "string list"
  po_fingerprint :: string
  po_account :: string
  po_tombstone_seconds :: nat
  po_unknown_keep_seconds :: nat
  po_possible :: "action_kind list"

definition ALL_KINDS :: "action_kind list" where
  "ALL_KINDS = [Draft, Send, Archive, MarkRead, Trash, Spam]"

primrec policy_mode :: "policy \<Rightarrow> action_kind \<Rightarrow> action_mode" where
  "policy_mode p Draft = se_draft (po_actions p)"
| "policy_mode p Send = se_send (po_actions p)"
| "policy_mode p Archive = se_archive (po_actions p)"
| "policy_mode p MarkRead = se_mark_read (po_actions p)"
| "policy_mode p Trash = se_trash (po_actions p)"
| "policy_mode p Spam = se_spam (po_actions p)"

definition allows :: "policy \<Rightarrow> action_kind \<Rightarrow> form option \<Rightarrow> bool" where
  "allows p k f \<longleftrightarrow> policy_mode p k = ModeApprove \<and>
     (f \<noteq> Some Forward \<or> se_forward (po_actions p) = ModeApprove)"

definition offers :: "policy \<Rightarrow> action_kind \<Rightarrow> form option \<Rightarrow> bool" where
  "offers p k f \<longleftrightarrow> allows p k f \<and> k \<in> set (po_possible p)"

definition set_possible :: "policy \<Rightarrow> action_kind list \<Rightarrow> policy" where
  "set_possible p kinds = p\<lparr>po_possible := kinds\<rparr>"

definition offered :: "policy \<Rightarrow> action_kind list" where
  "offered p = filter (\<lambda>k. offers p k None) ALL_KINDS"

primrec daily_limit :: "policy \<Rightarrow> limit_class \<Rightarrow> nat" where
  "daily_limit p Drafts = se_max_drafts_per_day (po_actions p)"
| "daily_limit p Sends = se_max_sends_per_day (po_actions p)"
| "daily_limit p Moves = se_max_moves_per_day (po_actions p)"
| "daily_limit p Flags = se_max_flags_per_day (po_actions p)"

definition domain_allowed :: "string list \<Rightarrow> string \<Rightarrow> bool" where
  "domain_allowed domains addr =
     (let domain = (case rsplit_once (CHR ''@'') addr of None \<Rightarrow> [] | Some (_, d) \<Rightarrow> d)
      in \<exists>a \<in> set domains. domain = a \<or>
           (case strip_suffix a domain of None \<Rightarrow> False | Some rest \<Rightarrow> suffix ''.'' rest))"

definition address_refused :: "policy \<Rightarrow> string \<Rightarrow> string option" where
  "address_refused p addr =
     (if valid_address addr \<noteq> Some addr then Some ''a recipient is not a plain address''
      else if se_recipient_domains (po_actions p) \<noteq> [] \<and>
              \<not> domain_allowed (se_recipient_domains (po_actions p)) addr
      then Some ''a recipient is outside mail.actions.recipient_domains''
      else None)"

fun first_some :: "('a \<Rightarrow> 'b option) \<Rightarrow> 'a list \<Rightarrow> 'b option" where
  "first_some f [] = None"
| "first_some f (x # xs) = (case f x of Some y \<Rightarrow> Some y | None \<Rightarrow> first_some f xs)"

definition addresses_refused :: "policy \<Rightarrow> string list \<Rightarrow> string option" where
  "addresses_refused p rs =
     (if length rs > se_max_recipients (po_actions p)
      then Some ''it has more recipients than mail.actions.max_recipients allows''
      else first_some (address_refused p) rs)"

definition recipients_refused :: "policy \<Rightarrow> action_content \<Rightarrow> string option" where
  "recipients_refused p c =
     (if co_message c \<noteq> None \<and> recipients c = [] then Some ''it has no recipient''
      else addresses_refused p (recipients c))"

lemma first_some_None_iff: "first_some f xs = None \<longleftrightarrow> (\<forall>x \<in> set xs. f x = None)"
  by (induction xs) (auto split: option.splits)

lemma recipients_accepted:
  assumes "recipients_refused p c = None"
  shows "length (recipients c) \<le> se_max_recipients (po_actions p)"
    and "r \<in> set (recipients c) \<Longrightarrow> valid_address r = Some r"
    and "r \<in> set (recipients c) \<Longrightarrow> se_recipient_domains (po_actions p) \<noteq> []
          \<Longrightarrow> domain_allowed (se_recipient_domains (po_actions p)) r"
    and "co_message c \<noteq> None \<Longrightarrow> recipients c \<noteq> []"
  using assms
  by (auto simp: recipients_refused_def addresses_refused_def first_some_None_iff address_refused_def
      split: if_splits)

section \<open>SCV's words\<close>

primrec state_name :: "action_state \<Rightarrow> string" where
  "state_name Proposed = ''proposed''"
| "state_name Previewing = ''previewing''"
| "state_name Open = ''open''"
| "state_name Approved = ''approved''"
| "state_name Executing = ''executing''"
| "state_name Done = ''done''"
| "state_name Failed = ''failed''"
| "state_name Unknown = ''unknown''"
| "state_name Denied = ''denied''"
| "state_name Expired = ''expired''"
| "state_name Superseded = ''superseded''"
| "state_name Cancelled = ''cancelled''"
| "state_name Invalid = ''invalid''"

primrec outcome_reason :: "outcome_code \<Rightarrow> string" where
  "outcome_reason Applied = ''it happened''"
| "outcome_reason AlreadyDone = ''it happened''"
| "outcome_reason Gone = ''the mail is no longer there''"
| "outcome_reason Stale = ''its approval was too long ago to act on now''"
| "outcome_reason PolicyOff = ''the settings no longer allow it''"
| "outcome_reason Mismatch = ''its target or content no longer matches what you approved''"
| "outcome_reason Refused = ''the mail server refused it''"
| "outcome_reason AuthFailed = ''the mail server refused SCV's sign-in''"
| "outcome_reason Unreachable = ''the mail server could not be reached''"
| "outcome_reason Unsupported = ''the mailbox cannot do it''"
| "outcome_reason Ambiguous = ''SCV could not tell whether it happened''"
| "outcome_reason AuthUncertain =
     ''the mail server refused the access token after the change was sent, and SCV could not tell whether it happened''"
| "outcome_reason Internal = ''of an internal error''"

definition described_message :: "string option \<Rightarrow> string" where
  "described_message h = (case h of None \<Rightarrow> ''the mail'' | Some h \<Rightarrow> ''#'' @ h)"

definition described_mail :: "form option \<Rightarrow> string option \<Rightarrow> string" where
  "described_mail f h =
     (case (f, h) of
        (Some Reply, Some h) \<Rightarrow> ''the reply to #'' @ h
      | (Some Forward, Some h) \<Rightarrow> ''the forward of #'' @ h
      | (Some Reply, None) \<Rightarrow> ''the reply''
      | (Some Forward, None) \<Rightarrow> ''the forward''
      | _ \<Rightarrow> ''the new mail'')"

primrec describe :: "form option \<Rightarrow> string option \<Rightarrow> action_kind \<Rightarrow> string" where
  "describe f h Draft = ''saving '' @ described_mail f h @ '' in Drafts''"
| "describe f h Send = ''sending '' @ described_mail f h"
| "describe f h Archive = ''archiving '' @ described_message h"
| "describe f h MarkRead = ''marking '' @ described_message h @ '' read''"
| "describe f h Trash = ''moving '' @ described_message h @ '' to Trash''"
| "describe f h Spam = ''moving '' @ described_message h @ '' to Spam''"

definition describe_entry :: "action_entry \<Rightarrow> string" where
  "describe_entry e = describe (ae_form e) (ae_handle e) (ae_kind e)"

definition done_mail :: "action_entry \<Rightarrow> string" where
  "done_mail e =
     (case (ae_form e, ae_handle e) of
        (Some Reply, Some h) \<Rightarrow> ''the reply to #'' @ h
      | (Some Forward, Some h) \<Rightarrow> ''the forward of #'' @ h
      | _ \<Rightarrow> ''the new mail'')"

definition describe_done :: "action_entry \<Rightarrow> string" where
  "describe_done e =
     (let m = described_message (ae_handle e)
      in case ae_kind e of
           Draft \<Rightarrow> ''saved '' @ done_mail e @ '' in Drafts''
         | Send \<Rightarrow> ''sent '' @ done_mail e
         | Archive \<Rightarrow> ''archived '' @ m
         | MarkRead \<Rightarrow> ''marked '' @ m @ '' read''
         | Trash \<Rightarrow> ''moved '' @ m @ '' to Trash''
         | Spam \<Rightarrow> ''moved '' @ m @ '' to Spam'')"

definition state_answer :: "string \<Rightarrow> action_state \<Rightarrow> bool \<Rightarrow> outcome_code option \<Rightarrow> string" where
  "state_answer code st replaced outcome =
     (if replaced then code @ '' was replaced by a newer request.''
      else code @
        (case st of
           Proposed \<Rightarrow> '' has not reached you yet; approve it once it has.''
         | Previewing \<Rightarrow> '' has not reached you yet; approve it once it has.''
         | Open \<Rightarrow> '' is waiting for your answer.''
         | Approved \<Rightarrow> '' was already approved.''
         | Executing \<Rightarrow> '' is being carried out.''
         | Done \<Rightarrow> '' is done.''
         | Failed \<Rightarrow> '' was tried and did not happen.''
         | Unknown \<Rightarrow>
             if outcome = Some AuthUncertain
             then '' was tried; the mail server refused the access token and SCV does not know whether it happened. Check the mailbox. SCV will not retry it. Propose it again only if it did not happen.''
             else '' was tried; SCV does not know whether it happened. Check the mailbox.''
         | Denied \<Rightarrow> '' was denied.''
         | Expired \<Rightarrow> '' expired.''
         | Superseded \<Rightarrow> '' was not needed: another choice for the same mail was approved.''
         | Cancelled \<Rightarrow> '' was cancelled.''
         | Invalid \<Rightarrow> '' was refused: it no longer matched what you saw.''))"

definition sent_copy_of :: "action_entry \<Rightarrow> sent_copy_state option" where
  "sent_copy_of e = Option.bind (ae_outcome e) oc_sent_copy"

definition outcome_text :: "action_entry \<Rightarrow> string option" where
  "outcome_text e =
     (case ae_state e of
        Done \<Rightarrow> Some (''Done: '' @ ae_code e @ '' '' @ describe_done e @
                  (if sent_copy_of e = Some CopyFailed
                   then ''; its copy in Sent could not be saved'' else []) @ ''.'')
      | Unknown \<Rightarrow>
          if map_option oc_code (ae_outcome e) = Some AuthUncertain
          then Some (''SCV could not tell whether '' @ ae_code e @ '' ('' @ describe_entry e @
            '') happened: the mail server refused the access token after the change was sent. Check the mailbox. SCV will not retry it. Propose it again only if it did not happen.'')
          else Some (''SCV lost track of '' @ ae_code e @ '' ('' @ describe_entry e @
            '') while carrying it out; it may or may not have happened. Check the mailbox. SCV will not retry it.'')
      | st \<Rightarrow>
          if st = Failed \<or> st = Invalid
          then Some (''Not done: '' @ ae_code e @ '' ('' @ describe_entry e @
            '') did not happen because '' @
            outcome_reason (case ae_outcome e of None \<Rightarrow> Internal | Some oc \<Rightarrow> oc_code oc) @ ''.'')
          else None)"

end
