(* ===== verification/Mail_Actions.thy ===== *)
theory Mail_Actions
  imports Mail_Policy
begin

text \<open>
  The mail actions of the ledger (\<^verbatim>\<open>crates/scv-channels/src/email/ledger/actions.rs\<close>): every
  operation is the change a \<open>commit\<close> applies, a function of the state that returns its answer and
  the next state. The hub's answers (\<open>World\<close>) and the drawn codes are arguments.
\<close>

section \<open>Constants and arguments\<close>

definition MAX_TOMBSTONES :: nat where "MAX_TOMBSTONES = 1024"
definition MAX_REQUESTS :: nat where "MAX_REQUESTS = 8"
definition MAX_ATTEMPTS :: nat where "MAX_ATTEMPTS = 3"
definition MAX_REISSUES :: nat where "MAX_REISSUES = 2"
definition MAX_HANDLES :: nat where "MAX_HANDLES = 512"
definition PROBE_GRACE :: nat where "PROBE_GRACE = DAY"

datatype keyed_outcome = Pending | Delivered nat | KeyRefused

record world =
  wd_owner :: "string \<Rightarrow> string option"
  wd_delivered :: "string \<Rightarrow> string \<Rightarrow> keyed_outcome option"

record chat_evidence =
  ev_route :: string
  ev_peer :: string
  ev_message_id :: string
  ev_sent_ms :: "nat option"

record new_action =
  na_id :: string
  na_kind :: action_kind
  na_group :: "string option"
  na_form :: "form option"
  na_handle :: "string option"
  na_digest :: string
  na_origin_key :: string
  na_code :: string
  na_created_at :: nat
  na_hard_expiry :: nat

datatype refusal = RefusalFull | RefusalDuplicate | RefusalStarted

datatype admission = Added | AdmissionDuplicate | AdmissionFull

datatype not_started = NotReady | Ended action_state

datatype execution =
    ExApplied outcome_code "sent_copy_state option"
  | ExNotApplied bool outcome_code
  | ExAmbiguous
  | ExUncertain

datatype probe =
    ProbeDone | ProbeNotDone | ProbeResume resume | ProbeUnknown | ProbeUnreachable | ProbeGone

record approved =
  ad_id :: string
  ad_content :: action_content
  ad_attempt :: nat
  ad_resume :: "resume option"

record recovered =
  rc_codes :: "string list"
  rc_handles :: "string list"
  rc_unpreviewed :: "string list"

record swept =
  sw_tombstoned :: "string list"
  sw_codes :: "string list"
  sw_handles :: "string list"

section \<open>One entry\<close>

definition empty_preview :: preview where
  "empty_preview = \<lparr>pv_key = None, pv_route = None, pv_peer = None, pv_stored_at = None,
     pv_delivered_ms = None, pv_reissues = 0\<rparr>"

definition new_of :: "action_content \<Rightarrow> string \<Rightarrow> string \<Rightarrow> new_action" where
  "new_of c origin code =
     \<lparr>na_id = co_id c, na_kind = co_kind c, na_group = co_group c,
      na_form = map_option og_form (co_message c), na_handle = map_option di_handle (co_display c),
      na_digest = co_digest c, na_origin_key = origin, na_code = code,
      na_created_at = co_created_at c, na_hard_expiry = co_hard_expiry c\<rparr>"

definition entry_of :: "new_action \<Rightarrow> action_entry" where
  "entry_of a =
     \<lparr>ae_id = na_id a, ae_kind = na_kind a, ae_group = na_group a, ae_form = na_form a,
      ae_handle = na_handle a, ae_digest = na_digest a, ae_origin_key = na_origin_key a,
      ae_state = Proposed, ae_code = na_code a, ae_generation = 1, ae_old_codes = [],
      ae_preview = empty_preview, ae_created_at = na_created_at a,
      ae_hard_expiry = na_hard_expiry a, ae_expires_at = na_hard_expiry a, ae_approval = None,
      ae_execute_by = None, ae_attempts = 0, ae_not_before = 0, ae_probe_after = None,
      ae_uncertain = False, ae_resume = None, ae_outcome = None, ae_terminal_at = None\<rparr>"

definition has_code :: "action_entry \<Rightarrow> string \<Rightarrow> bool" where
  "has_code e code \<longleftrightarrow> ae_code e = code \<or> code \<in> set (ae_old_codes e)"

definition end_entry :: "action_entry \<Rightarrow> action_state \<Rightarrow> outcome_code option \<Rightarrow> nat \<Rightarrow> action_entry" where
  "end_entry e st code now =
     (let e' = e\<lparr>ae_state := st, ae_terminal_at := Some now\<rparr>
      in case code of
           None \<Rightarrow> e'
         | Some c \<Rightarrow> e'\<lparr>ae_outcome :=
             Some \<lparr>oc_at = now, oc_code = c, oc_sent_copy = sent_copy_of e\<rparr>\<rparr>)"

definition open_entry :: "action_entry \<Rightarrow> nat \<Rightarrow> policy \<Rightarrow> action_entry" where
  "open_entry e at_ms p =
     e\<lparr>ae_state := Open,
       ae_preview := (ae_preview e)\<lparr>pv_delivered_ms := Some at_ms\<rparr>,
       ae_expires_at := min (ae_hard_expiry e)
          (at_ms div 1000 + se_approval_hours (po_actions p) * HOUR)\<rparr>"

definition upd_entry :: "mail_state \<Rightarrow> nat \<Rightarrow> (action_entry \<Rightarrow> action_entry) \<Rightarrow> mail_state" where
  "upd_entry s i f = s\<lparr>ms_actions := (ms_actions s)[i := f (ms_actions s ! i)]\<rparr>"

definition preview_key :: "string \<Rightarrow> nat \<Rightarrow> string" where
  "preview_key aid generation = ''preview:'' @ aid @ '':'' @ show_nat generation"

section \<open>Proposing and previewing\<close>

text \<open>
  \<open>owner_route\<close>: the route of \<open>owner:<channel>:<account>:<rest>\<close>, the first two of at least three
  parts, neither empty.
\<close>

definition owner_route :: "string \<Rightarrow> string option" where
  "owner_route origin =
     Option.bind (strip_prefix ''owner:'' origin) (\<lambda>rest.
       case split_at_char (CHR '':'') rest of
         channel # account # _ # _ \<Rightarrow>
           if channel \<noteq> [] \<and> account \<noteq> []
           then Some (take (length channel + 1 + length account) rest) else None
       | _ \<Rightarrow> None)"

definition intended_route :: "string \<Rightarrow> string list \<Rightarrow> string option" where
  "intended_route origin routes =
     (case owner_route origin of
        Some r \<Rightarrow> if r \<in> set routes then Some r
                   else (case routes of [] \<Rightarrow> None | r # _ \<Rightarrow> Some r)
      | None \<Rightarrow> (case routes of [] \<Rightarrow> None | r # _ \<Rightarrow> Some r))"

definition bind_entry :: "string list \<Rightarrow> action_entry \<Rightarrow> action_entry" where
  "bind_entry routes e =
     (if pv_route (ae_preview e) \<noteq> None \<or> ae_state e \<notin> {Proposed, Previewing} then e
      else e\<lparr>ae_preview := (ae_preview e)\<lparr>pv_route := intended_route (ae_origin_key e) routes\<rparr>\<rparr>)"

definition bind_unassigned :: "mail_state \<Rightarrow> string list \<Rightarrow> mail_state" where
  "bind_unassigned s routes = s\<lparr>ms_actions := map (bind_entry routes) (ms_actions s)\<rparr>"

fun add_entries :: "action_entry list \<Rightarrow> new_action list \<Rightarrow> string list \<times> action_entry list" where
  "add_entries es [] = ([], es)"
| "add_entries es (a # as) =
     (if \<exists>e \<in> set es. ae_id e = na_id a then add_entries es as
      else let (ids, es') = add_entries (es @ [entry_of a]) as in (na_id a # ids, es'))"

definition add_proposed ::
  "mail_state \<Rightarrow> new_action list \<Rightarrow> string list \<Rightarrow> string list \<times> mail_state" where
  "add_proposed s proposed routes =
     (let (ids, es) = add_entries (ms_actions s) proposed
      in (ids, bind_unassigned (s\<lparr>ms_actions := es\<rparr>) routes))"

definition preview_entry :: "string list \<Rightarrow> string \<Rightarrow> action_entry \<Rightarrow> action_entry" where
  "preview_entry ids key e =
     (if ae_id e \<in> set ids \<and> ae_state e \<in> {Proposed, Previewing}
      then e\<lparr>ae_state := Previewing,
             ae_preview := (ae_preview e)\<lparr>pv_key := Some key, pv_stored_at := None,
                                            pv_delivered_ms := None\<rparr>\<rparr>
      else e)"

definition batch_previews :: "mail_state \<Rightarrow> batch \<Rightarrow> string list \<Rightarrow> mail_state" where
  "batch_previews s b routes =
     (let ids = concat (map it_actions (filter (\<lambda>i. it_seq i \<in> set (ba_seqs b)) (ms_queue s)))
      in bind_unassigned
           (s\<lparr>ms_actions := map (preview_entry ids (ba_key b)) (ms_actions s)\<rparr>) routes)"

definition previewing_as :: "string \<Rightarrow> action_entry \<Rightarrow> bool" where
  "previewing_as key e \<longleftrightarrow> ae_state e = Previewing \<and> pv_key (ae_preview e) = Some key"

definition previews_stored :: "mail_state \<Rightarrow> string \<Rightarrow> string \<Rightarrow> string \<Rightarrow> nat \<Rightarrow> mail_state" where
  "previews_stored s key route peer now =
     s\<lparr>ms_actions := map (\<lambda>e. if previewing_as key e
          then e\<lparr>ae_preview := (ae_preview e)\<lparr>pv_route := Some route, pv_peer := Some peer,
                                                pv_stored_at := Some now\<rparr>\<rparr>
          else e) (ms_actions s)\<rparr>"

definition add_expired :: "mail_state \<Rightarrow> nat \<Rightarrow> mail_state" where
  "add_expired s n =
     s\<lparr>ms_counts := (ms_counts s)\<lparr>ct_expired := ct_expired (ms_counts s) + n\<rparr>\<rparr>"

definition previews_lost :: "mail_state \<Rightarrow> string \<Rightarrow> nat \<Rightarrow> mail_state" where
  "previews_lost s key now =
     add_expired
       (s\<lparr>ms_actions := map (\<lambda>e. if previewing_as key e then end_entry e Expired None now else e)
                          (ms_actions s)\<rparr>)
       (length (filter (previewing_as key) (ms_actions s)))"

definition previews_delivered :: "mail_state \<Rightarrow> string \<Rightarrow> nat \<Rightarrow> policy \<Rightarrow> mail_state" where
  "previews_delivered s key at_ms p =
     s\<lparr>ms_actions := map (\<lambda>e. if previewing_as key e \<and> pv_stored_at (ae_preview e) \<noteq> None
                             then open_entry e at_ms p else e) (ms_actions s)\<rparr>"

text \<open>
  A refused preview. \<open>draw\<close> is the caller's source of new codes with its state; the result is the
  entries, the IDs to preview again, how many expired, and the source's state.
\<close>

definition reissued :: "action_entry \<Rightarrow> string \<Rightarrow> action_entry" where
  "reissued e code =
     e\<lparr>ae_code := code, ae_old_codes := ae_old_codes e @ [ae_code e],
       ae_generation := ae_generation e + 1, ae_state := Proposed,
       ae_preview := empty_preview\<lparr>pv_reissues := pv_reissues (ae_preview e) + 1\<rparr>\<rparr>"

fun refuse_entries ::
  "('g \<Rightarrow> string option \<times> 'g) \<Rightarrow> string \<Rightarrow> nat \<Rightarrow> 'g \<Rightarrow> action_entry list \<Rightarrow>
     action_entry list \<times> string list \<times> nat \<times> 'g" where
  "refuse_entries draw key now g [] = ([], [], 0, g)"
| "refuse_entries draw key now g (e # es) =
     (if \<not> previewing_as key e
      then let (es', again, n, g') = refuse_entries draw key now g es in (e # es', again, n, g')
      else let (code, g1) = (if pv_reissues (ae_preview e) < MAX_REISSUES then draw g else (None, g));
               (es', again, n, g') = refuse_entries draw key now g1 es
           in case code of
                Some c \<Rightarrow> (reissued e c # es', ae_id e # again, n, g')
              | None \<Rightarrow> (end_entry e Expired None now # es', again, n + 1, g'))"

definition previews_refused ::
  "('g \<Rightarrow> string option \<times> 'g) \<Rightarrow> mail_state \<Rightarrow> string \<Rightarrow> 'g \<Rightarrow> nat \<Rightarrow> string list \<Rightarrow>
     (string list \<times> 'g) \<times> mail_state" where
  "previews_refused draw s key g now routes =
     (let (es, again, n, g') = refuse_entries draw key now g (ms_actions s)
      in ((again, g'), bind_unassigned (add_expired (s\<lparr>ms_actions := es\<rparr>) n) routes))"

section \<open>Ending an entry\<close>

definition tell :: "mail_state \<Rightarrow> string \<Rightarrow> string \<Rightarrow> nat \<Rightarrow> mail_state" where
  "tell s aid t now = push_item_with s (''outcome:'' @ aid) Response False t [] now"

definition tell_opt :: "mail_state \<Rightarrow> string \<Rightarrow> string option \<Rightarrow> nat \<Rightarrow> mail_state" where
  "tell_opt s aid t now = (case t of None \<Rightarrow> s | Some t \<Rightarrow> tell s aid t now)"

definition release :: "mail_state \<Rightarrow> string \<Rightarrow> mail_state" where
  "release s aid = s\<lparr>ms_reservations := filter (\<lambda>r. rs_id r \<noteq> aid) (ms_reservations s)\<rparr>"

definition finish_entry ::
  "mail_state \<Rightarrow> nat \<Rightarrow> action_state \<Rightarrow> outcome_code option \<Rightarrow> nat \<Rightarrow> mail_state" where
  "finish_entry s i ended code now =
     (let e = ms_actions s ! i;
          e' = end_entry e ended code now;
          s1 = upd_entry s i (\<lambda>_. e');
          t = (if ae_approval e \<noteq> None then outcome_text e' else None);
          s2 = (if ended \<in> {Done, Unknown} then s1 else release s1 (ae_id e))
      in tell_opt s2 (ae_id e) t now)"

section \<open>The owner's requests\<close>

definition add_request :: "request \<Rightarrow> mail_state \<Rightarrow> admission \<times> mail_state" where
  "add_request r s =
     (if (\<exists>k \<in> set (ms_requests s). rq_key k = rq_key r) \<or>
         (\<exists>e \<in> set (ms_actions s). prefix (rq_key r @ '':'') (ae_origin_key e))
      then (AdmissionDuplicate, s)
      else if length (ms_requests s) \<ge> MAX_REQUESTS then (AdmissionFull, s)
      else (Added, s\<lparr>ms_requests := ms_requests s @ [r]\<rparr>))"

definition request_attempt :: "string \<Rightarrow> mail_state \<Rightarrow> nat option \<times> mail_state" where
  "request_attempt key s =
     (case position (\<lambda>r. rq_key r = key) (ms_requests s) of
        None \<Rightarrow> (None, s)
      | Some i \<Rightarrow>
          let r = ms_requests s ! i; n = rq_attempts r + 1
          in (Some n, s\<lparr>ms_requests := (ms_requests s)[i := r\<lparr>rq_attempts := n\<rparr>]\<rparr>))"

definition drop_request :: "string \<Rightarrow> string \<Rightarrow> nat \<Rightarrow> mail_state \<Rightarrow> unit \<times> mail_state" where
  "drop_request key t now s =
     ((), push_item_with (s\<lparr>ms_requests := filter (\<lambda>r. rq_key r \<noteq> key) (ms_requests s)\<rparr>)
            (''response:'' @ key) Response False t [] now)"

definition roll_day :: "mail_state \<Rightarrow> string \<Rightarrow> mail_state" where
  "roll_day s today =
     (if dy_date (ms_day s) \<noteq> today then s\<lparr>ms_day := empty_day\<lparr>dy_date := today\<rparr>\<rparr> else s)"

definition composed :: "string \<Rightarrow> nat \<Rightarrow> mail_state \<Rightarrow> unit \<times> mail_state" where
  "composed today tokens s =
     (let s = roll_day s today; d = ms_day s
      in ((), s\<lparr>ms_day := d\<lparr>dy_composed := dy_composed d + 1,
                             dy_tokens := sat_add (dy_tokens d) tokens\<rparr>\<rparr>))"

definition supersede_revised :: "string list \<Rightarrow> nat \<Rightarrow> action_entry \<Rightarrow> action_entry" where
  "supersede_revised revised now e =
     (if ae_id e \<in> set revised \<and> waiting (ae_state e) then end_entry e Superseded None now else e)"

definition propose ::
  "nat \<Rightarrow> string list \<Rightarrow> string option \<Rightarrow> new_action list \<Rightarrow> string \<times> string \<Rightarrow> string list \<Rightarrow> nat \<Rightarrow>
     mail_state \<Rightarrow> (refusal + unit) \<times> mail_state" where
  "propose max_open routes req proposed pview revised now s =
     (let live = length (filter (\<lambda>e. \<not> terminal (ae_state e)) (ms_actions s));
          replaced = filter (\<lambda>e. ae_id e \<in> set revised) (ms_actions s);
          wait = length (filter (\<lambda>e. waiting (ae_state e)) replaced)
      in if \<exists>a \<in> set proposed. \<exists>e \<in> set (ms_actions s). ae_origin_key e = na_origin_key a
         then (Inl RefusalDuplicate, s)
         else if \<exists>e \<in> set replaced. \<not> waiting (ae_state e) \<and> ae_state e \<noteq> Superseded
         then (Inl RefusalStarted, s)
         else if live - wait + length proposed > max_open then (Inl RefusalFull, s)
         else let s1 = s\<lparr>ms_actions := map (supersede_revised revised now) (ms_actions s)\<rparr>;
                  s2 = (case req of None \<Rightarrow> s1
                        | Some k \<Rightarrow> s1\<lparr>ms_requests := filter (\<lambda>r. rq_key r \<noteq> k) (ms_requests s1)\<rparr>);
                  (ids, s3) = add_proposed s2 proposed routes
              in (Inr (), push_item_with s3 (fst pview) Response False (snd pview) ids now))"

definition queue_preview ::
  "string list \<Rightarrow> string list \<Rightarrow> string \<Rightarrow> string \<Rightarrow> nat \<Rightarrow> mail_state \<Rightarrow> unit \<times> mail_state" where
  "queue_preview routes ids key t now s =
     ((), bind_unassigned (push_item_with s key Response False t ids now) routes)"

section \<open>Approving\<close>

definition outcome_code_of :: "action_entry \<Rightarrow> outcome_code option" where
  "outcome_code_of e = map_option oc_code (ae_outcome e)"

text \<open>The answer for a code no entry has: a remembered one's, or none.\<close>

definition forgotten_answer :: "mail_state \<Rightarrow> string \<Rightarrow> string" where
  "forgotten_answer s code =
     (case List.find (\<lambda>t. code \<in> set (tb_codes t)) (ms_tombstones s) of
        Some t \<Rightarrow> state_answer code (tb_state t) False None
      | None \<Rightarrow> ''No mail action has code '' @ code @ ''.'')"

text \<open>A preview delivered since the ledger last looked opens now.\<close>

definition open_delivered :: "policy \<Rightarrow> world \<Rightarrow> string \<Rightarrow> action_entry \<Rightarrow> action_entry" where
  "open_delivered p w code e =
     (if ae_state e = Previewing \<and> ae_code e = code
      then (case (pv_route (ae_preview e), pv_key (ae_preview e), pv_stored_at (ae_preview e)) of
              (Some route, Some key, Some _) \<Rightarrow>
                (case wd_delivered w route key of
                   Some (Delivered at_ms) \<Rightarrow> open_entry e at_ms p
                 | _ \<Rightarrow> e)
            | _ \<Rightarrow> e)
      else e)"

definition same_chat :: "world \<Rightarrow> chat_evidence \<Rightarrow> action_entry \<Rightarrow> bool" where
  "same_chat w ev e \<longleftrightarrow>
     pv_route (ae_preview e) = Some (ev_route ev) \<and> pv_peer (ae_preview e) = Some (ev_peer ev) \<and>
     wd_owner w (ev_route ev) = Some (ev_peer ev)"

definition used :: "mail_state \<Rightarrow> limit_class \<Rightarrow> nat \<Rightarrow> nat" where
  "used s limit now = length (filter (\<lambda>r. rs_limit r = limit \<and> now - rs_at r < DAY) (ms_reservations s))"

definition committed_state :: "action_state \<Rightarrow> bool" where
  "committed_state st \<longleftrightarrow> st \<in> {Approved, Executing, Done}"

definition group_taken :: "mail_state \<Rightarrow> action_entry \<Rightarrow> bool" where
  "group_taken s e \<longleftrightarrow> ae_group e \<noteq> None \<and>
     (\<exists>x \<in> set (ms_actions s). ae_group x = ae_group e \<and> ae_id x \<noteq> ae_id e \<and>
        committed_state (ae_state x))"

primrec limit_words :: "limit_class \<Rightarrow> string" where
  "limit_words Drafts = ''drafts''"
| "limit_words Sends = ''sending''"
| "limit_words Moves = ''moving mail''"
| "limit_words Flags = ''marking mail''"

definition granted :: "policy \<Rightarrow> chat_evidence \<Rightarrow> nat \<Rightarrow> nat \<Rightarrow> action_entry \<Rightarrow> action_entry" where
  "granted p ev sent_ms now e =
     e\<lparr>ae_state := Approved,
       ae_approval := Some \<lparr>ap_route = ev_route ev, ap_peer = ev_peer ev,
         ap_message_id = ev_message_id ev, ap_sent_ms = sent_ms, ap_recorded_at = now,
         ap_digest = ae_digest e\<rparr>,
       ae_execute_by := Some (now + se_execute_minutes (po_actions p) * 60),
       ae_not_before := now\<rparr>"

definition supersede_sibling :: "action_entry \<Rightarrow> nat \<Rightarrow> action_entry \<Rightarrow> action_entry" where
  "supersede_sibling e now x =
     (if ae_group e \<noteq> None \<and> ae_group x = ae_group e \<and> ae_id x \<noteq> ae_id e \<and> \<not> terminal (ae_state x)
      then end_entry x Superseded None now else x)"

text \<open>Record the approval of entry \<open>i\<close>: its siblings are superseded, its limit is reserved.\<close>

definition grant :: "policy \<Rightarrow> chat_evidence \<Rightarrow> nat \<Rightarrow> nat \<Rightarrow> mail_state \<Rightarrow> nat \<Rightarrow> mail_state" where
  "grant p ev sent_ms now s i =
     (let e = ms_actions s ! i;
          s1 = upd_entry s i (granted p ev sent_ms now)
      in s1\<lparr>ms_actions := map (supersede_sibling e now) (ms_actions s1),
            ms_reservations := ms_reservations s1 @
              [\<lparr>rs_id = ae_id e, rs_limit = kind_class (ae_kind e), rs_at = now\<rparr>]\<rparr>)"

text \<open>
  One code of an \<open>approve\<close>, once its entry \<open>i\<close> is found and a preview delivered meanwhile has
  opened: the answer, whether it approved, and the next state.
\<close>

definition approve_at ::
  "policy \<Rightarrow> world \<Rightarrow> chat_evidence \<Rightarrow> bool \<Rightarrow> nat \<Rightarrow> string \<Rightarrow> mail_state \<Rightarrow> nat \<Rightarrow> action_entry \<Rightarrow>
     (string \<times> bool) \<times> mail_state" where
  "approve_at p w ev replayed now code s i e =
     (if ae_code e \<noteq> code
     then ((state_answer code (ae_state e) True (outcome_code_of e), False), s)
     else if replayed \<or> ae_state e \<noteq> Open
     then ((state_answer code (ae_state e) False (outcome_code_of e), False), s)
     else if \<not> same_chat w ev e
     then ((code @ '' was sent to another chat; answer it there.'', False), s)
     else (case ev_sent_ms ev of
       None \<Rightarrow>
         ((''Not approved: this chat did not say when your message was sent, so it cannot approve '' @
           code @ ''.'', False), s)
     | Some sent_ms \<Rightarrow>
         if (case pv_delivered_ms (ae_preview e) of None \<Rightarrow> True | Some d \<Rightarrow> sent_ms < d)
         then ((''Not approved: this message was sent before '' @ code @ '' reached you.'', False), s)
         else if now \<ge> ae_expires_at e
         then ((code @ '' expired.'', False),
               add_expired (upd_entry s i (\<lambda>e. end_entry e Expired None now)) 1)
         else if \<not> offers p (ae_kind e) (ae_form e)
         then ((''Not approved: '' @ kind_name (ae_kind e) @
                '' is off in this account's settings now.'', False), s)
         else if ev_route ev \<notin> set (po_routes p)
         then ((''Not approved: this chat is no longer one '' @ po_account p @
                '' reports to.'', False), s)
         else if used s (kind_class (ae_kind e)) now \<ge> daily_limit p (kind_class (ae_kind e))
         then ((''Not approved: today's limit for '' @ limit_words (kind_class (ae_kind e)) @
                '' is reached; '' @ code @ '' stays open until it expires.'', False), s)
         else if group_taken s e
         then ((state_answer code Superseded False None, False), s)
         else ((''Approved '' @ code @ '': '' @ describe_entry e @ ''.'', True),
               grant p ev sent_ms now s i)))"

definition approve_code ::
  "policy \<Rightarrow> world \<Rightarrow> chat_evidence \<Rightarrow> bool \<Rightarrow> nat \<Rightarrow> string \<Rightarrow> mail_state \<Rightarrow> (string \<times> bool) \<times> mail_state" where
  "approve_code p w ev replayed now code s0 =
     (case position (\<lambda>e. has_code e code) (ms_actions s0) of
        None \<Rightarrow> ((forgotten_answer s0 code, False), s0)
      | Some i \<Rightarrow>
          let s = upd_entry s0 i (open_delivered p w code)
          in approve_at p w ev replayed now code s i (ms_actions s ! i))"

fun approve_codes ::
  "policy \<Rightarrow> world \<Rightarrow> chat_evidence \<Rightarrow> bool \<Rightarrow> nat \<Rightarrow> string list \<Rightarrow> mail_state \<Rightarrow>
     (string list \<times> bool) \<times> mail_state" where
  "approve_codes p w ev replayed now [] s = (([], False), s)"
| "approve_codes p w ev replayed now (c # cs) s =
     (let ((a, ok), s1) = approve_code p w ev replayed now c s;
          ((as, oks), s2) = approve_codes p w ev replayed now cs s1
      in ((a # as, ok \<or> oks), s2))"

definition approve ::
  "policy \<Rightarrow> string list \<Rightarrow> chat_evidence \<Rightarrow> world \<Rightarrow> nat \<Rightarrow> mail_state \<Rightarrow> string list \<times> mail_state" where
  "approve p codes ev w now s =
     (let replayed = (\<exists>a \<in> set (ms_approvals s). st_key a = ev_message_id ev);
          ((answers, any), s1) = approve_codes p w ev replayed now codes s
      in (answers,
          if any then s1\<lparr>ms_approvals := ms_approvals s1 @ [\<lparr>st_key = ev_message_id ev, st_at = now\<rparr>]\<rparr>
          else s1))"

section \<open>Denying, cancelling and expiring\<close>

definition may_deny :: "action_entry \<Rightarrow> chat_evidence \<Rightarrow> world \<Rightarrow> policy \<Rightarrow> bool" where
  "may_deny e ev w p \<longleftrightarrow>
     (case pv_route (ae_preview e) of
        None \<Rightarrow> False
      | Some route \<Rightarrow>
          route = ev_route ev \<and> wd_owner w (ev_route ev) = Some (ev_peer ev) \<and>
          ev_route ev \<in> set (po_routes p) \<and>
          (case pv_peer (ae_preview e) of None \<Rightarrow> True | Some peer \<Rightarrow> peer = ev_peer ev))"

definition deny_refusal :: "action_entry \<Rightarrow> chat_evidence \<Rightarrow> world \<Rightarrow> policy \<Rightarrow> string \<Rightarrow> string option" where
  "deny_refusal e ev w p code =
     (if may_deny e ev w p then None
      else if pv_route (ae_preview e) = Some (ev_route ev) \<and>
              (case pv_peer (ae_preview e) of None \<Rightarrow> True | Some peer \<Rightarrow> peer = ev_peer ev) \<and>
              wd_owner w (ev_route ev) = Some (ev_peer ev)
      then Some (''Not denied: this chat is no longer one '' @ po_account p @ '' reports to.'')
      else if pv_route (ae_preview e) = None
      then Some (code @ '' has not reached a chat yet; deny it once it has.'')
      else Some (code @ '' was sent to another chat; answer it there.''))"

definition deny_all_step ::
  "policy \<Rightarrow> world \<Rightarrow> chat_evidence \<Rightarrow> nat \<Rightarrow> nat \<Rightarrow> (nat \<times> nat) \<times> mail_state \<Rightarrow> (nat \<times> nat) \<times> mail_state" where
  "deny_all_step p w ev now i acc =
     (let ((denied, running), s) = acc; e = ms_actions s ! i
      in if \<not> may_deny e ev w p then acc
         else if ae_state e = Executing then ((denied, running + 1), s)
         else if \<not> terminal (ae_state e)
         then ((denied + 1, running), finish_entry s i Denied None now)
         else acc)"

definition deny_all :: "policy \<Rightarrow> chat_evidence \<Rightarrow> world \<Rightarrow> nat \<Rightarrow> mail_state \<Rightarrow> string list \<times> mail_state" where
  "deny_all p ev w now s =
     (let ((denied, running), s1) =
            fold (deny_all_step p w ev now) [0..<length (ms_actions s)] ((0, 0), s);
          answer = (if denied = 0 then ''Nothing was waiting.''
                    else if denied = 1 then ''Denied the one action that was waiting.''
                    else ''Denied the '' @ show_nat denied @ '' actions that were waiting.'');
          tail = (if running > 0
                  then '' '' @ show_nat running @ '' being carried out cannot be stopped now.'' else [])
      in ([answer @ tail], s1))"

definition deny_code ::
  "policy \<Rightarrow> world \<Rightarrow> chat_evidence \<Rightarrow> nat \<Rightarrow> string \<Rightarrow> mail_state \<Rightarrow> string \<times> mail_state" where
  "deny_code p w ev now code s =
     (case position (\<lambda>e. has_code e code) (ms_actions s) of
        None \<Rightarrow> (forgotten_answer s code, s)
      | Some i \<Rightarrow>
          let e = ms_actions s ! i
          in if ae_code e \<noteq> code then (state_answer code (ae_state e) True (outcome_code_of e), s)
             else (case deny_refusal e ev w p code of
               Some r \<Rightarrow> (r, s)
             | None \<Rightarrow>
                 if ae_state e = Executing then (code @ '' is being carried out.'', s)
                 else if terminal (ae_state e)
                 then (state_answer code (ae_state e) False (outcome_code_of e), s)
                 else (''Denied '' @ code @ '' ('' @ describe_entry e @ '').'',
                       finish_entry s i Denied None now)))"

fun deny_codes ::
  "policy \<Rightarrow> world \<Rightarrow> chat_evidence \<Rightarrow> nat \<Rightarrow> string list \<Rightarrow> mail_state \<Rightarrow> string list \<times> mail_state" where
  "deny_codes p w ev now [] s = ([], s)"
| "deny_codes p w ev now (c # cs) s =
     (let (a, s1) = deny_code p w ev now c s; (as, s2) = deny_codes p w ev now cs s1
      in (a # as, s2))"

definition deny ::
  "policy \<Rightarrow> string list option \<Rightarrow> chat_evidence \<Rightarrow> world \<Rightarrow> nat \<Rightarrow> mail_state \<Rightarrow>
     string list \<times> mail_state" where
  "deny p codes ev w now s =
     (case codes of None \<Rightarrow> deny_all p ev w now s | Some cs \<Rightarrow> deny_codes p w ev now cs s)"

record cancel_acc =
  ca_cancelled :: nat
  ca_running :: nat
  ca_found :: bool

definition cancel_step ::
  "string option \<Rightarrow> nat \<Rightarrow> nat \<Rightarrow> cancel_acc \<times> mail_state \<Rightarrow> cancel_acc \<times> mail_state" where
  "cancel_step aid now i acc =
     (let (a, s) = acc; e = ms_actions s ! i; other = (case aid of None \<Rightarrow> False | Some k \<Rightarrow> ae_id e \<noteq> k)
      in if other \<or> terminal (ae_state e)
         then (if aid \<noteq> None \<and> \<not> other then (a\<lparr>ca_found := True\<rparr>, s) else acc)
         else if ae_state e = Executing
         then (a\<lparr>ca_found := True, ca_running := ca_running a + 1\<rparr>, s)
         else (a\<lparr>ca_found := True, ca_cancelled := ca_cancelled a + 1\<rparr>,
               finish_entry s i Cancelled None now))"

definition cancel :: "string option \<Rightarrow> nat \<Rightarrow> mail_state \<Rightarrow> string \<times> mail_state" where
  "cancel aid now s =
     (let (a, s1) = fold (cancel_step aid now) [0..<length (ms_actions s)]
            (\<lparr>ca_cancelled = 0, ca_running = 0, ca_found = (aid = None)\<rparr>, s)
      in (if \<not> ca_found a then ''No such mail action is waiting.''
          else if ca_cancelled a = 0 \<and> ca_running a = 0 then ''No mail action was waiting.''
          else if ca_running a = 0 then ''Cancelled '' @ show_nat (ca_cancelled a) @ '' mail action(s).''
          else ''Cancelled '' @ show_nat (ca_cancelled a) @ '' mail action(s); '' @
               show_nat (ca_running a) @ '' being carried out cannot be cancelled now.'', s1))"

definition past_deadline :: "action_entry \<Rightarrow> nat \<Rightarrow> bool" where
  "past_deadline e now \<longleftrightarrow> (case ae_execute_by e of None \<Rightarrow> False | Some by \<Rightarrow> now > by)"

definition expiry_due :: "action_entry \<Rightarrow> nat \<Rightarrow> bool" where
  "expiry_due e now \<longleftrightarrow>
     (waiting (ae_state e) \<and> now \<ge> ae_expires_at e) \<or> (ae_state e = Approved \<and> past_deadline e now)"

definition expire_step :: "nat \<Rightarrow> nat \<Rightarrow> nat \<times> mail_state \<Rightarrow> nat \<times> mail_state" where
  "expire_step now i acc =
     (let (n, s) = acc; e = ms_actions s ! i
      in if waiting (ae_state e) \<and> now \<ge> ae_expires_at e
         then (n + 1, upd_entry s i (\<lambda>e. end_entry e Expired None now))
         else if ae_state e = Approved \<and> past_deadline e now
         then (n, finish_entry s i Failed (Some Stale) now)
         else acc)"

definition expire :: "nat \<Rightarrow> mail_state \<Rightarrow> nat \<times> mail_state" where
  "expire now s =
     (let (n, s1) = fold (expire_step now) [0..<length (ms_actions s)] (0, s)
      in (n, add_expired s1 n))"

definition expire_due :: "nat \<Rightarrow> mail_state \<Rightarrow> bool" where
  "expire_due now s \<longleftrightarrow> (\<exists>e \<in> set (ms_actions s). expiry_due e now)"

section \<open>Carrying actions out\<close>

definition approved_at :: "action_entry \<Rightarrow> nat" where
  "approved_at e = (case ae_approval e of None \<Rightarrow> ae_created_at e | Some a \<Rightarrow> ap_recorded_at a)"

text \<open>\<open>min_by_key\<close> keeps the first of equal minima.\<close>

fun min_by :: "('a \<Rightarrow> nat) \<Rightarrow> 'a list \<Rightarrow> 'a option" where
  "min_by f [] = None"
| "min_by f (x # xs) =
     (case min_by f xs of None \<Rightarrow> Some x | Some y \<Rightarrow> if f x \<le> f y then Some x else Some y)"

definition next_approved :: "nat \<Rightarrow> mail_state \<Rightarrow> string option" where
  "next_approved now s =
     map_option ae_id
       (min_by approved_at
          (filter (\<lambda>e. ae_state e = Approved \<and> ae_not_before e \<le> now) (ms_actions s)))"

definition due_probes :: "nat \<Rightarrow> mail_state \<Rightarrow> string list" where
  "due_probes now s =
     map ae_id (filter (\<lambda>e. ae_state e = Executing \<and>
        (case ae_probe_after e of None \<Rightarrow> False | Some after \<Rightarrow> after \<le> now)) (ms_actions s))"

definition content_matches ::
  "(string \<Rightarrow> string) \<Rightarrow> policy \<Rightarrow> action_entry \<Rightarrow> action_content \<Rightarrow> bool" where
  "content_matches sha p e c \<longleftrightarrow>
     (let digest = compute_digest sha c
      in co_id c = ae_id e \<and> digest = co_digest c \<and> digest = ae_digest e \<and>
         Some digest = map_option ap_digest (ae_approval e) \<and> co_kind c = ae_kind e \<and>
         co_fingerprint c = po_fingerprint p \<and> co_account c = po_account p)"

definition begin_execution ::
  "(string \<Rightarrow> string) \<Rightarrow> policy \<Rightarrow> string \<Rightarrow> action_content option \<Rightarrow> nat \<Rightarrow> mail_state \<Rightarrow>
     (not_started + approved) \<times> mail_state" where
  "begin_execution sha p aid content now s =
     (case position (\<lambda>e. ae_id e = aid) (ms_actions s) of
        None \<Rightarrow> (Inl NotReady, s)
      | Some i \<Rightarrow>
          let e = ms_actions s ! i
          in if ae_state e \<noteq> Approved \<or> ae_not_before e > now then (Inl NotReady, s)
             else if ae_uncertain e
             then (Inl (Ended Unknown), finish_entry s i Unknown (Some AuthUncertain) now)
             else if (case ae_execute_by e of None \<Rightarrow> True | Some by \<Rightarrow> now > by)
             then (Inl (Ended Failed), finish_entry s i Failed (Some Stale) now)
             else (case content of
               None \<Rightarrow> (Inl (Ended Invalid), finish_entry s i Invalid (Some Mismatch) now)
             | Some c \<Rightarrow>
                 if \<not> content_matches sha p e c
                 then (Inl (Ended Invalid), finish_entry s i Invalid (Some Mismatch) now)
                 else if \<not> offers p (co_kind c) (map_option og_form (co_message c)) \<or>
                         recipients_refused p c \<noteq> None
                 then (Inl (Ended Failed), finish_entry s i Failed (Some PolicyOff) now)
                 else (Inr \<lparr>ad_id = ae_id e, ad_content = c, ad_attempt = ae_attempts e + 1,
                            ad_resume = ae_resume e\<rparr>,
                       upd_entry s i (\<lambda>e. e\<lparr>ae_state := Executing,
                         ae_attempts := ae_attempts e + 1, ae_probe_after := None,
                         ae_resume := None\<rparr>))))"

definition set_sent_copy :: "sent_copy_state option \<Rightarrow> action_entry \<Rightarrow> action_entry" where
  "set_sent_copy copy e = e\<lparr>ae_outcome := map_option (\<lambda>oc. oc\<lparr>oc_sent_copy := copy\<rparr>) (ae_outcome e)\<rparr>"

definition mark_sent :: "approved \<Rightarrow> nat \<Rightarrow> mail_state \<Rightarrow> unit \<times> mail_state" where
  "mark_sent ad now s =
     (case position (\<lambda>e. ae_id e = ad_id ad) (ms_actions s) of
        None \<Rightarrow> ((), s)
      | Some i \<Rightarrow> ((), upd_entry s i (\<lambda>e.
          set_sent_copy (Some CopyPending) (end_entry e Done (Some Applied) now))))"

definition finish_execution :: "approved \<Rightarrow> execution \<Rightarrow> nat \<Rightarrow> mail_state \<Rightarrow> unit \<times> mail_state" where
  "finish_execution ad ex now s =
     (case position (\<lambda>e. ae_id e = ad_id ad) (ms_actions s) of
        None \<Rightarrow> ((), s)
      | Some i \<Rightarrow>
          let e = ms_actions s ! i
          in (case ex of
            ExApplied code copy \<Rightarrow>
              if ae_state e = Done
              then let s1 = upd_entry s i (set_sent_copy copy)
                   in ((), tell_opt s1 (ad_id ad) (outcome_text (ms_actions s1 ! i)) now)
              else ((), upd_entry (finish_entry s i Done (Some code) now) i (set_sent_copy copy))
          | ExNotApplied retry code \<Rightarrow>
              let in_time = (case ae_execute_by e of None \<Rightarrow> False | Some by \<Rightarrow> now \<le> by)
              in if retry \<and> ae_attempts e < MAX_ATTEMPTS \<and> in_time
                 then ((), upd_entry s i (\<lambda>e. e\<lparr>ae_state := Approved,
                        ae_not_before := now + (if ae_attempts e \<le> 1 then 30 else 120),
                        ae_resume := ad_resume ad\<rparr>))
                 else ((), finish_entry s i Failed (Some code) now)
          | ExAmbiguous \<Rightarrow> ((), upd_entry s i (\<lambda>e. e\<lparr>ae_probe_after := Some now\<rparr>))
          | ExUncertain \<Rightarrow>
              ((), upd_entry s i (\<lambda>e. e\<lparr>ae_uncertain := True, ae_probe_after := Some now\<rparr>))))"

definition probed_entry :: "probe \<Rightarrow> nat \<Rightarrow> mail_state \<Rightarrow> nat \<Rightarrow> mail_state" where
  "probed_entry pr now s i =
     (let e = ms_actions s ! i;
          deadline = (case ae_execute_by e of None \<Rightarrow> ae_created_at e | Some by \<Rightarrow> by);
          in_time = (now \<le> deadline \<and> ae_attempts e < MAX_ATTEMPTS);
          lost = finish_entry s i Unknown
                   (Some (if ae_uncertain e then AuthUncertain else Ambiguous)) now
      in case pr of
           ProbeDone \<Rightarrow> finish_entry s i Done (Some AlreadyDone) now
         | ProbeGone \<Rightarrow>
             if ae_uncertain e then finish_entry s i Unknown (Some AuthUncertain) now
             else finish_entry s i Failed (Some Gone) now
         | ProbeNotDone \<Rightarrow>
             if ae_uncertain e then finish_entry s i Unknown (Some AuthUncertain) now
             else if ae_kind e \<noteq> Send \<and> in_time
             then upd_entry s i (\<lambda>e. e\<lparr>ae_state := Approved, ae_not_before := now,
                                       ae_probe_after := None\<rparr>)
             else if ae_kind e \<noteq> Send then finish_entry s i Failed (Some Stale) now
             else lost
         | ProbeResume r \<Rightarrow>
             if ae_uncertain e then finish_entry s i Unknown (Some AuthUncertain) now
             else if in_time
             then upd_entry s i (\<lambda>e. e\<lparr>ae_state := Approved, ae_resume := Some r,
                                       ae_not_before := now, ae_probe_after := None\<rparr>)
             else lost
         | ProbeUnreachable \<Rightarrow>
             if now \<le> deadline + PROBE_GRACE
             then let waited = (case ae_probe_after e of None \<Rightarrow> 0 | Some after \<Rightarrow> now - after)
                  in upd_entry s i (\<lambda>e. e\<lparr>ae_probe_after := Some (now + min (max (waited * 2) 30) 600)\<rparr>)
             else lost
         | ProbeUnknown \<Rightarrow> lost)"

definition probed :: "string \<Rightarrow> probe \<Rightarrow> nat \<Rightarrow> mail_state \<Rightarrow> unit \<times> mail_state" where
  "probed aid pr now s =
     (case position (\<lambda>e. ae_id e = aid \<and> ae_state e = Executing) (ms_actions s) of
        None \<Rightarrow> ((), s)
      | Some i \<Rightarrow> ((), probed_entry pr now s i))"

section \<open>Recovery and sweeping\<close>

definition recover_step :: "policy \<Rightarrow> nat \<Rightarrow> nat \<Rightarrow> mail_state \<Rightarrow> mail_state" where
  "recover_step p now i s =
     (let e = ms_actions s ! i;
          off = (\<not> allows p (ae_kind e) (ae_form e));
          unrouted = (case pv_route (ae_preview e) of None \<Rightarrow> False | Some r \<Rightarrow> r \<notin> set (po_routes p))
      in if ae_state e \<in> {Proposed, Previewing, Open, Approved} \<and> (off \<or> unrouted)
         then finish_entry s i Cancelled None now
         else case ae_state e of
           Open \<Rightarrow>
             (case pv_delivered_ms (ae_preview e) of
                None \<Rightarrow> s
              | Some at_ms \<Rightarrow> upd_entry s i (\<lambda>e. e\<lparr>ae_expires_at := min (ae_expires_at e)
                  (at_ms div 1000 + se_approval_hours (po_actions p) * HOUR)\<rparr>))
         | Executing \<Rightarrow> upd_entry s i (\<lambda>e. e\<lparr>ae_probe_after := Some now\<rparr>)
         | Done \<Rightarrow>
             if sent_copy_of e = Some CopyPending
             then let s1 = upd_entry s i (set_sent_copy (Some CopyFailed))
                  in tell_opt s1 (ae_id e) (outcome_text (ms_actions s1 ! i)) now
             else s
         | _ \<Rightarrow> s)"

definition recover :: "policy \<Rightarrow> nat \<Rightarrow> mail_state \<Rightarrow> recovered \<times> mail_state" where
  "recover p now s =
     (let s0 = bind_unassigned s (po_routes p);
          s1 = fold (recover_step p now) [0..<length (ms_actions s0)] s0;
          previewed = concat (map it_actions (ms_queue s1))
      in (\<lparr>rc_codes = concat (map (\<lambda>e. ae_code e # ae_old_codes e) (ms_actions s1)) @
                       concat (map tb_codes (ms_tombstones s1)),
           rc_handles = map ha_handle (ms_handles s1),
           rc_unpreviewed = map ae_id (filter (\<lambda>e. ae_state e = Proposed \<and> ae_id e \<notin> set previewed)
                              (ms_actions s1))\<rparr>, s1))"

definition tombstone_due :: "action_entry \<Rightarrow> policy \<Rightarrow> nat \<Rightarrow> bool" where
  "tombstone_due e p now =
     (if ae_state e = Unknown
      then (case ae_terminal_at e of None \<Rightarrow> False | Some at \<Rightarrow> now - at \<ge> po_unknown_keep_seconds p)
      else if ae_state e = Done \<and> sent_copy_of e = Some CopyPending then False
      else terminal (ae_state e))"

definition tombstone_of :: "nat \<Rightarrow> action_entry \<Rightarrow> tombstone" where
  "tombstone_of now e =
     \<lparr>tb_id = ae_id e, tb_codes = ae_old_codes e @ [ae_code e], tb_kind = ae_kind e,
      tb_state = ae_state e, tb_at = (case ae_terminal_at e of None \<Rightarrow> now | Some at \<Rightarrow> at)\<rparr>"

definition sweep_actions :: "policy \<Rightarrow> nat \<Rightarrow> nat \<Rightarrow> mail_state \<Rightarrow> swept \<times> mail_state" where
  "sweep_actions p handle_seconds now s =
     (let over = filter (\<lambda>e. tombstone_due e p now) (ms_actions s);
          kept = filter (\<lambda>e. \<not> tombstone_due e p now) (ms_actions s);
          stones = ms_tombstones s @ map (tombstone_of now) over;
          old = filter (\<lambda>t. now - tb_at t \<ge> po_tombstone_seconds p) stones;
          young = filter (\<lambda>t. \<not> now - tb_at t \<ge> po_tombstone_seconds p) stones;
          excess = length young - MAX_TOMBSTONES;
          named = List.map_filter ae_handle kept;
          aged = (\<lambda>h. now - ha_at h \<ge> handle_seconds \<and> ha_handle h \<notin> set named);
          gone = filter aged (ms_handles s);
          stay = filter (\<lambda>h. \<not> aged h) (ms_handles s);
          excess_h = length stay - MAX_HANDLES
      in (\<lparr>sw_tombstoned = map ae_id over,
           sw_codes = concat (map tb_codes old) @ concat (map tb_codes (take excess young)),
           sw_handles = map ha_handle gone @ map ha_handle (take excess_h stay)\<rparr>,
          s\<lparr>ms_actions := kept, ms_tombstones := drop excess young, ms_handles := drop excess_h stay\<rparr>))"

definition sweep_due :: "policy \<Rightarrow> nat \<Rightarrow> nat \<Rightarrow> mail_state \<Rightarrow> bool" where
  "sweep_due p handle_seconds now s \<longleftrightarrow>
     (\<exists>e \<in> set (ms_actions s). tombstone_due e p now) \<or>
     (\<exists>t \<in> set (ms_tombstones s). now - tb_at t \<ge> po_tombstone_seconds p) \<or>
     length (ms_tombstones s) > MAX_TOMBSTONES \<or>
     (\<exists>h \<in> set (ms_handles s). now - ha_at h \<ge> handle_seconds) \<or>
     length (ms_handles s) > MAX_HANDLES"

section \<open>Status\<close>

definition find_handle :: "string \<Rightarrow> mail_state \<Rightarrow> handle option" where
  "find_handle h s = List.find (\<lambda>k. ha_handle k = h) (ms_handles s)"

definition listed :: "string \<Rightarrow> mail_state \<Rightarrow> (string \<times> string \<times> string \<times> string \<times> nat \<times> nat option) list" where
  "listed name s =
     map (\<lambda>e. (name, ae_id e, kind_name (ae_kind e), state_name (ae_state e), ae_created_at e,
               if waiting (ae_state e) then Some (ae_expires_at e) else None))
       (filter (\<lambda>e. \<not> terminal (ae_state e) \<or> ae_state e = Unknown) (ms_actions s))"

definition state_count :: "mail_state \<Rightarrow> action_state \<Rightarrow> nat" where
  "state_count s st = length (filter (\<lambda>e. ae_state e = st) (ms_actions s))"

definition status_lines :: "string \<Rightarrow> mail_state \<Rightarrow> string" where
  "status_lines name s =
     (let wait = map (\<lambda>e. ae_code e @ '' '' @ describe_entry e)
                   (filter (\<lambda>e. ae_state e = Open) (ms_actions s));
          upcoming = state_count s Proposed + state_count s Previewing;
          part = (\<lambda>(st, label). let n = state_count s st
                   in if n > 0 then '', '' @ show_nat n @ '' '' @ label else [])
      in name @ '': '' @ show_nat (length wait) @ '' waiting for your answer'' @
         (if wait = [] then [] else '' ('' @ join ''; '' wait @ '')'') @
         (if upcoming > 0 then '', '' @ show_nat upcoming @ '' on the way to you'' else []) @
         concat (map part [(Approved, ''approved''), (Executing, ''being carried out''),
                           (Unknown, ''of unknown outcome'')]) @
         (if ms_requests s \<noteq> [] then '', '' @ show_nat (length (ms_requests s)) @
            '' request(s) being prepared'' else []) @ ''.'')"

end
