(* ===== verification/Mail_Ledger.thy ===== *)
theory Mail_Ledger
  imports Mail_Actions
begin

text \<open>
  The rest of the account's ledger (\<^verbatim>\<open>crates/scv-channels/src/email/ledger.rs\<close>): claiming
  mail, recording decisions, handing batches of items to a mail chat, and watching their delivery.
  Each operation is the change its \<open>commit\<close> applies; \<open>finish_claim\<close> is the whole
  method, with its second write. Random digits are arguments.
\<close>

section \<open>Decisions\<close>

datatype decision_outcome =
    OReport string string bool "handle option" "new_action list"
  | OCounted
  | OGone
  | OUnreadable

record decided =
  dc_source :: source_ref
  dc_identity :: "string option"
  dc_message_id :: "string option"
  dc_outcome :: decision_outcome
  dc_turned :: bool
  dc_tokens :: nat

datatype arrival_kind = New | Again | ReusedId

record reset_note =
  rn_key :: string
  rn_text :: string
  rn_beyond :: nat

record queued_item =
  qd_seq :: nat
  qd_created_at :: nat
  qd_class :: item_class
  qd_urgent :: bool
  qd_bytes :: nat

definition counts_minus :: "counts \<Rightarrow> counts \<Rightarrow> counts" where
  "counts_minus a sent =
     \<lparr>ct_skipped = ct_skipped a - ct_skipped sent,
      ct_undelivered = ct_undelivered a - ct_undelivered sent,
      ct_unlisted = ct_unlisted a - ct_unlisted sent,
      ct_unlisted_since = (if ct_unlisted a > ct_unlisted sent then ct_unlisted_since a else None),
      ct_unreadable = ct_unreadable a - ct_unreadable sent,
      ct_expired = ct_expired a - ct_expired sent\<rparr>"

section \<open>Claims\<close>

definition claim_one :: "nat \<Rightarrow> source_ref \<Rightarrow> mail_claim list \<Rightarrow> mail_claim list" where
  "claim_one now src cs =
     (if length cs < MAX_CLAIMS \<and> \<not> (\<exists>c \<in> set cs. cl_source c = src)
      then cs @ [\<lparr>cl_source = src, cl_attempts = 0, cl_at = now\<rparr>] else cs)"

definition count_beyond :: "nat \<Rightarrow> nat \<Rightarrow> counts \<Rightarrow> counts" where
  "count_beyond beyond now c =
     (if beyond > 0
      then c\<lparr>ct_unlisted := ct_unlisted c + beyond,
             ct_unlisted_since := Some (case ct_unlisted_since c of None \<Rightarrow> now | Some at \<Rightarrow> at)\<rparr>
      else c)"

definition claim ::
  "source_ref list \<Rightarrow> cursor \<Rightarrow> reset_note option \<Rightarrow> nat \<Rightarrow> mail_state \<Rightarrow> unit \<times> mail_state" where
  "claim refs nxt reset now s =
     (let s1 = s\<lparr>ms_claims := fold (claim_one now) refs (ms_claims s), ms_cursor := Some nxt\<rparr>
      in case reset of
           None \<Rightarrow> ((), s1)
         | Some r \<Rightarrow>
             ((), push_item (s1\<lparr>ms_counts := count_beyond (rn_beyond r) now (ms_counts s1)\<rparr>)
                    (rn_key r) System False (rn_text r) now))"

definition attempt :: "source_ref \<Rightarrow> mail_state \<Rightarrow> nat option \<times> mail_state" where
  "attempt src s =
     (case position (\<lambda>c. cl_source c = src) (ms_claims s) of
        None \<Rightarrow> (None, s)
      | Some i \<Rightarrow>
          let c = ms_claims s ! i; n = cl_attempts c + 1
          in (Some n, s\<lparr>ms_claims := (ms_claims s)[i := c\<lparr>cl_attempts := n\<rparr>]\<rparr>))"

section \<open>Recording a decision\<close>

definition note_identity :: "decided \<Rightarrow> nat \<Rightarrow> known list \<Rightarrow> known list" where
  "note_identity dc now ks =
     (case dc_identity dc of
        None \<Rightarrow> ks
      | Some k \<Rightarrow> filter (\<lambda>x. kn_key x \<noteq> k) ks @
          [\<lparr>kn_key = k, kn_message_id = dc_message_id dc, kn_at = now\<rparr>])"

definition note_turn :: "decided \<Rightarrow> nat \<Rightarrow> mail_state \<Rightarrow> mail_state" where
  "note_turn dc now s =
     (let d = ms_day s;
          d1 = (if dc_turned dc then d\<lparr>dy_triaged := dy_triaged d + 1\<rparr> else d);
          d2 = d1\<lparr>dy_tokens := sat_add (dy_tokens d1) (dc_tokens dc)\<rparr>;
          d3 = (if dc_outcome dc \<noteq> OGone then d2\<lparr>dy_seen := dy_seen d2 + 1\<rparr> else d2)
      in s\<lparr>ms_turns := (if dc_turned dc then ms_turns s @ [now] else ms_turns s), ms_day := d3\<rparr>)"

definition note_handle :: "handle option \<Rightarrow> handle list \<Rightarrow> handle list" where
  "note_handle h hs =
     (case h of None \<Rightarrow> hs | Some h \<Rightarrow> filter (\<lambda>k. ha_handle k \<noteq> ha_handle h) hs @ [h])"

definition note_outcome :: "decided \<Rightarrow> nat \<Rightarrow> string list \<Rightarrow> mail_state \<Rightarrow> mail_state" where
  "note_outcome dc now routes s =
     (case dc_outcome dc of
        OReport key t urg h proposed \<Rightarrow>
          let s1 = s\<lparr>ms_day := (ms_day s)\<lparr>dy_reported := dy_reported (ms_day s) + 1\<rparr>,
                     ms_handles := note_handle h (ms_handles s)\<rparr>;
              (ids, s2) = add_proposed s1 proposed routes
          in push_item_with s2 key Report urg t ids now
      | OCounted \<Rightarrow>
          s\<lparr>ms_counts := (ms_counts s)\<lparr>ct_skipped := ct_skipped (ms_counts s) + 1\<rparr>\<rparr>
      | OUnreadable \<Rightarrow>
          s\<lparr>ms_counts := (ms_counts s)\<lparr>ct_unreadable := ct_unreadable (ms_counts s) + 1\<rparr>\<rparr>
      | OGone \<Rightarrow> s)"

definition record_decided ::
  "decided \<Rightarrow> string \<Rightarrow> nat \<Rightarrow> nat \<Rightarrow> string list \<Rightarrow> mail_state \<Rightarrow> unit \<times> mail_state" where
  "record_decided dc today now max_queue routes s =
     (let s1 = s\<lparr>ms_claims := filter (\<lambda>c. cl_source c \<noteq> dc_source dc) (ms_claims s),
                 ms_identities := note_identity dc now (ms_identities s)\<rparr>;
          s2 = note_turn dc now (roll_day s1 today);
          s3 = note_outcome dc now routes s2
      in ((), prune (collapse s3 max_queue now) now))"

text \<open>\<open>Ledger::finish\<close>: a report that no longer fits the file is counted instead.\<close>

definition finish_claim ::
  "disk \<Rightarrow> nat \<Rightarrow> string list \<Rightarrow> decided \<Rightarrow> string \<Rightarrow> nat \<Rightarrow> mail_state \<Rightarrow>
     (commit_error + unit) \<times> mail_state" where
  "finish_claim d max_queue routes dc today now s =
     (case commit d (record_decided dc today now max_queue routes) s of
        (Inl Full, s1) \<Rightarrow>
          commit d (record_decided (dc\<lparr>dc_outcome := OCounted\<rparr>) today now max_queue routes) s1
      | r \<Rightarrow> r)"

definition note_line :: "string \<Rightarrow> item_class \<Rightarrow> string \<Rightarrow> nat \<Rightarrow> mail_state \<Rightarrow> unit \<times> mail_state" where
  "note_line key cls t now s = ((), push_item s key cls False t now)"

section \<open>Batches\<close>

definition begin_batch ::
  "string list \<Rightarrow> string \<Rightarrow> nat list \<Rightarrow> send_class \<Rightarrow> string \<Rightarrow> counts \<Rightarrow> nat \<Rightarrow> mail_state \<Rightarrow>
     batch \<times> mail_state" where
  "begin_batch routes rnd seqs cls t cts now s =
     (let b = \<lparr>ba_key = ''mail:'' @ ms_epoch s @ '':batch:'' @ rnd, ba_class = cls, ba_seqs = seqs,
               ba_text = t, ba_counts = cts, ba_attempts = 0, ba_next_attempt_at = now,
               ba_created_at = now\<rparr>
      in (b, (batch_previews s b routes)\<lparr>ms_batch := Some b\<rparr>))"

definition batch_stored :: "string \<Rightarrow> string \<Rightarrow> nat \<Rightarrow> mail_state \<Rightarrow> unit \<times> mail_state" where
  "batch_stored route peer now s =
     (case ms_batch s of
        None \<Rightarrow> ((), s)
      | Some b \<Rightarrow>
          let s1 = previews_stored (s\<lparr>ms_batch := None\<rparr>) (ba_key b) route peer now;
              sent = filter (\<lambda>i. it_seq i \<in> set (ba_seqs b)) (ms_queue s1);
              kept = filter (\<lambda>i. it_seq i \<notin> set (ba_seqs b)) (ms_queue s1)
          in ((), prune (s1\<lparr>ms_queue := kept,
                ms_sent_keys := ms_sent_keys s1 @ map (\<lambda>i. \<lparr>st_key = it_key i, st_at = now\<rparr>) sent,
                ms_counts := counts_minus (ms_counts s1) (ba_counts b),
                ms_log := ms_log s1 @ [\<lparr>lg_at = now, lg_class = ba_class b\<rparr>],
                ms_watched := ms_watched s1 @ [\<lparr>wa_key = ba_key b, wa_route = route, wa_at = now\<rparr>]\<rparr>)
              now))"

definition retry_delay :: "nat \<Rightarrow> nat" where
  "retry_delay attempts = min (sat_mul 30 (2 ^ min attempts 10)) (30 * 60)"

definition batch_retry :: "nat \<Rightarrow> mail_state \<Rightarrow> unit \<times> mail_state" where
  "batch_retry now s =
     ((), s\<lparr>ms_batch := map_option (\<lambda>b. b\<lparr>ba_attempts := ba_attempts b + 1,
              ba_next_attempt_at := now + retry_delay (ba_attempts b + 1)\<rparr>) (ms_batch s)\<rparr>)"

definition batch_dissolve :: "nat \<Rightarrow> mail_state \<Rightarrow> unit \<times> mail_state" where
  "batch_dissolve now s =
     (case ms_batch s of
        None \<Rightarrow> ((), s)
      | Some b \<Rightarrow>
          let reports = length (filter (\<lambda>i. it_seq i \<in> set (ba_seqs b) \<and> it_class i = Report) (ms_queue s));
              c = ms_counts s
          in ((), previews_lost
                (s\<lparr>ms_batch := None,
                   ms_queue := filter (\<lambda>i. it_seq i \<notin> set (ba_seqs b)) (ms_queue s),
                   ms_counts := c\<lparr>ct_undelivered := ct_undelivered c + reports\<rparr>\<rparr>)
                (ba_key b) now))"

fun refuse_all ::
  "('g \<Rightarrow> string option \<times> 'g) \<Rightarrow> nat \<Rightarrow> string list \<Rightarrow> 'g \<Rightarrow> string list \<Rightarrow> mail_state \<Rightarrow>
     string list \<times> mail_state" where
  "refuse_all draw now routes g [] s = ([], s)"
| "refuse_all draw now routes g (k # ks) s =
     (let ((ids, g1), s1) = previews_refused draw s k g now routes;
          (rest, s2) = refuse_all draw now routes g1 ks s1
      in (ids @ rest, s2))"

definition settle_watched ::
  "policy option \<Rightarrow> ('g \<Rightarrow> string option \<times> 'g) \<Rightarrow> 'g \<Rightarrow> nat \<Rightarrow> (string \<times> nat) list \<Rightarrow> string list \<Rightarrow>
     mail_state \<Rightarrow> string list \<times> mail_state" where
  "settle_watched pol draw g now delivered refused s =
     (let c = ms_counts s;
          s1 = s\<lparr>ms_watched := filter (\<lambda>x. wa_key x \<notin> fst ` set delivered \<and> wa_key x \<notin> set refused)
                                  (ms_watched s),
                 ms_counts := c\<lparr>ct_undelivered := ct_undelivered c + length refused\<rparr>\<rparr>
      in if delivered = [] \<and> refused = [] then ([], s)
         else case pol of
           None \<Rightarrow> ([], s1)
         | Some p \<Rightarrow>
             refuse_all draw now (po_routes p) g refused
               (fold (\<lambda>(key, at_ms) s. previews_delivered s key at_ms p) delivered s1))"

section \<open>Reading the state\<close>

definition arrival :: "mail_state \<Rightarrow> string \<Rightarrow> string option \<Rightarrow> arrival_kind" where
  "arrival s k mid =
     (if \<exists>x \<in> set (ms_identities s). kn_key x = k then Again
      else if mid \<noteq> None \<and> (\<exists>x \<in> set (ms_identities s). kn_message_id x = mid) then ReusedId
      else New)"

definition spent :: "mail_state \<Rightarrow> string \<Rightarrow> nat \<Rightarrow> nat \<times> nat" where
  "spent s today now =
     (length (filter (\<lambda>at. now - at < 3600) (ms_turns s)),
      if dy_date (ms_day s) = today then dy_tokens (ms_day s) else 0)"

definition queued :: "mail_state \<Rightarrow> queued_item list" where
  "queued s =
     map (\<lambda>i. \<lparr>qd_seq = it_seq i, qd_created_at = it_created_at i, qd_class = it_class i,
               qd_urgent = it_urgent i, qd_bytes = length (it_text i)\<rparr>)
       (filter (\<lambda>i. it_seq i \<notin> set (in_batch s)) (ms_queue s))"

definition in_use :: "mail_state \<Rightarrow> bool" where
  "in_use s \<longleftrightarrow> ms_cursor s \<noteq> None \<or> ms_claims s \<noteq> [] \<or> ms_queue s \<noteq> [] \<or> ms_batch s \<noteq> None \<or>
     ms_actions s \<noteq> []"

definition open_ledger :: "disk \<Rightarrow> string \<Rightarrow> mail_state \<Rightarrow> string + mail_state" where
  "open_ledger d rnd s =
     (if ms_v s > 1
      then Inl ''this mail account's state was written by a newer SCV; upgrade, or log the account out and in again''
      else if ms_epoch s = []
      then let s1 = s\<lparr>ms_epoch := rnd, ms_v := 1\<rparr>
           in if dk_save d (dk_json d s1) then Inr s1 else Inl ''not saved''
      else Inr s)"

end
