(* ===== verification/Mail_Invariants.thy ===== *)
theory Mail_Invariants
  imports Mail_Ledger
begin

text \<open>
  The invariants of the action records and how every ledger operation treats one record. An
  operation that changes records in place relates the records before and after it, position by
  position, by \<open>evolves\<close>; \<open>calm\<close> says that it leaves alone a record whose action is being
  carried out. The invariant follows from the relation alone.
\<close>

section \<open>The invariants\<close>

definition approval_ok :: "action_entry \<Rightarrow> bool" where
  "approval_ok e \<longleftrightarrow>
     (case ae_approval e of
        None \<Rightarrow> ae_state e \<notin> {Approved, Executing, Done, Failed, Unknown, Invalid} \<and> ae_attempts e = 0
      | Some a \<Rightarrow>
          \<not> waiting (ae_state e) \<and> ap_digest a = ae_digest e \<and>
          pv_route (ae_preview e) = Some (ap_route a) \<and> pv_peer (ae_preview e) = Some (ap_peer a) \<and>
          (\<exists>d. pv_delivered_ms (ae_preview e) = Some d \<and> d \<le> ap_sent_ms a) \<and>
          ap_recorded_at a < ae_expires_at e \<and> ae_execute_by e \<noteq> None)"

definition entry_ok :: "action_entry \<Rightarrow> bool" where
  "entry_ok e \<longleftrightarrow>
     approval_ok e \<and> ae_attempts e \<le> MAX_ATTEMPTS \<and>
     (ae_state e = Approved \<longrightarrow> ae_attempts e < MAX_ATTEMPTS) \<and>
     (ae_uncertain e \<longrightarrow> ae_state e \<in> {Executing, Done, Unknown}) \<and>
     (ae_terminal_at e \<noteq> None \<longleftrightarrow> terminal (ae_state e)) \<and>
     ae_expires_at e \<le> ae_hard_expiry e"

definition groups_ok :: "action_entry list \<Rightarrow> bool" where
  "groups_ok es \<longleftrightarrow>
     (\<forall>x \<in> set es. \<forall>y \<in> set es. \<forall>g.
        ae_group x = Some g \<and> ae_group y = Some g \<and> committed_state (ae_state x) \<and>
        committed_state (ae_state y) \<longrightarrow> ae_id x = ae_id y)"

definition actions_ok :: "action_entry list \<Rightarrow> bool" where
  "actions_ok es \<longleftrightarrow> distinct (map ae_id es) \<and> list_all entry_ok es \<and> groups_ok es"

text \<open>Being carried out: between \<open>begin_execution\<close> and \<open>finish_execution\<close>.\<close>

definition frozen :: "action_entry \<Rightarrow> bool" where
  "frozen e \<longleftrightarrow> (ae_state e = Executing \<and> ae_probe_after e = None) \<or>
     (ae_state e = Done \<and> sent_copy_of e = Some CopyPending)"

definition keeps :: "action_entry \<Rightarrow> action_entry \<Rightarrow> bool" where
  "keeps x y \<longleftrightarrow>
     ae_id y = ae_id x \<and> ae_kind y = ae_kind x \<and> ae_group y = ae_group x \<and>
     ae_digest y = ae_digest x \<and> ae_attempts y = ae_attempts x \<and> ae_uncertain y = ae_uncertain x \<and>
     (terminal (ae_state x) \<longrightarrow> ae_state y = ae_state x) \<and>
     (ae_state y = Executing \<longleftrightarrow> ae_state x = Executing) \<and>
     (entry_ok x \<longrightarrow>
        entry_ok y \<and> (ae_approval x \<noteq> None \<longrightarrow> ae_approval y = ae_approval x))"

definition evolves :: "action_entry \<Rightarrow> action_entry \<Rightarrow> bool" where
  "evolves x y \<longleftrightarrow> keeps x y \<and> (committed_state (ae_state y) \<longrightarrow> committed_state (ae_state x))"

definition calm :: "action_entry \<Rightarrow> action_entry \<Rightarrow> bool" where
  "calm x y \<longleftrightarrow> (frozen x \<longrightarrow> y = x)"

definition owner_step :: "action_entry \<Rightarrow> action_entry \<Rightarrow> bool" where
  "owner_step x y \<longleftrightarrow> evolves x y \<and> calm x y"

lemma committed_simps [simp]:
  "committed_state Approved" "committed_state Executing" "committed_state Done"
  "\<not> committed_state Proposed" "\<not> committed_state Previewing" "\<not> committed_state Open"
  "\<not> committed_state Failed" "\<not> committed_state Unknown" "\<not> committed_state Denied"
  "\<not> committed_state Expired" "\<not> committed_state Superseded" "\<not> committed_state Cancelled"
  "\<not> committed_state Invalid"
  by (simp_all add: committed_state_def)

lemma keeps_refl [simp]: "keeps x x"
  by (simp add: keeps_def)

lemma keeps_trans: "keeps x y \<Longrightarrow> keeps y z \<Longrightarrow> keeps x z"
  by (auto simp: keeps_def)

lemma evolves_refl [simp]: "evolves x x"
  by (simp add: evolves_def)

lemma evolves_trans: "evolves x y \<Longrightarrow> evolves y z \<Longrightarrow> evolves x z"
  by (auto simp: evolves_def intro: keeps_trans)

lemma calm_trans: "calm x y \<Longrightarrow> calm y z \<Longrightarrow> calm x z"
  by (auto simp: calm_def)

lemma owner_step_refl [simp]: "owner_step x x"
  by (simp add: owner_step_def calm_def)

lemma owner_step_trans: "owner_step x y \<Longrightarrow> owner_step y z \<Longrightarrow> owner_step x z"
  by (auto simp: owner_step_def intro: evolves_trans calm_trans)

section \<open>One record\<close>

lemma end_entry_simps [simp]:
  "ae_id (end_entry e st c n) = ae_id e" "ae_kind (end_entry e st c n) = ae_kind e"
  "ae_group (end_entry e st c n) = ae_group e" "ae_digest (end_entry e st c n) = ae_digest e"
  "ae_attempts (end_entry e st c n) = ae_attempts e"
  "ae_uncertain (end_entry e st c n) = ae_uncertain e"
  "ae_state (end_entry e st c n) = st" "ae_terminal_at (end_entry e st c n) = Some n"
  "ae_approval (end_entry e st c n) = ae_approval e" "ae_preview (end_entry e st c n) = ae_preview e"
  "ae_expires_at (end_entry e st c n) = ae_expires_at e"
  "ae_hard_expiry (end_entry e st c n) = ae_hard_expiry e"
  "ae_execute_by (end_entry e st c n) = ae_execute_by e" "ae_code (end_entry e st c n) = ae_code e"
  by (simp_all add: end_entry_def Let_def split: option.splits)

lemma set_sent_copy_simps [simp]:
  "ae_id (set_sent_copy c e) = ae_id e" "ae_kind (set_sent_copy c e) = ae_kind e"
  "ae_group (set_sent_copy c e) = ae_group e" "ae_digest (set_sent_copy c e) = ae_digest e"
  "ae_attempts (set_sent_copy c e) = ae_attempts e" "ae_uncertain (set_sent_copy c e) = ae_uncertain e"
  "ae_state (set_sent_copy c e) = ae_state e" "ae_terminal_at (set_sent_copy c e) = ae_terminal_at e"
  "ae_approval (set_sent_copy c e) = ae_approval e" "ae_preview (set_sent_copy c e) = ae_preview e"
  "ae_expires_at (set_sent_copy c e) = ae_expires_at e"
  "ae_hard_expiry (set_sent_copy c e) = ae_hard_expiry e"
  "ae_execute_by (set_sent_copy c e) = ae_execute_by e"
  by (simp_all add: set_sent_copy_def)

lemma entry_ok_set_sent_copy [simp]: "entry_ok (set_sent_copy c e) = entry_ok e"
  by (simp add: entry_ok_def approval_ok_def split: option.splits)

text \<open>A withdrawal: denied, expired, superseded or cancelled before it started.\<close>

definition withdrawn :: "action_state \<Rightarrow> bool" where
  "withdrawn st \<longleftrightarrow> st \<in> {Denied, Expired, Superseded, Cancelled}"

lemma withdraw_step:
  assumes "withdrawn st" and "\<not> terminal (ae_state e)" and "ae_state e \<noteq> Executing"
  shows "owner_step e (end_entry e st c n)"
  using assms
  by (auto simp: owner_step_def evolves_def keeps_def calm_def frozen_def entry_ok_def
      approval_ok_def withdrawn_def split: option.splits)

lemma fail_step:
  "ae_state e = Approved \<Longrightarrow> st \<in> {Failed, Unknown, Invalid} \<Longrightarrow> owner_step e (end_entry e st c n)"
  by (auto simp: owner_step_def evolves_def keeps_def calm_def frozen_def entry_ok_def
      approval_ok_def split: option.splits)

lemma open_step: "ae_state e = Previewing \<Longrightarrow> owner_step e (open_entry e at p)"
  by (auto simp: open_entry_def owner_step_def evolves_def keeps_def calm_def frozen_def entry_ok_def
      approval_ok_def split: option.splits)

lemma bind_step: "owner_step e (bind_entry routes e)"
  by (auto simp: bind_entry_def owner_step_def evolves_def keeps_def calm_def frozen_def entry_ok_def
      approval_ok_def split: option.splits)

lemma preview_step: "owner_step e (preview_entry ids key e)"
  by (auto simp: preview_entry_def owner_step_def evolves_def keeps_def calm_def frozen_def
      entry_ok_def approval_ok_def split: option.splits)

lemma store_step:
  "ae_state e = Previewing \<Longrightarrow>
     owner_step e (e\<lparr>ae_preview := (ae_preview e)\<lparr>pv_route := r, pv_peer := q, pv_stored_at := t\<rparr>\<rparr>)"
  by (auto simp: owner_step_def evolves_def keeps_def calm_def frozen_def
      entry_ok_def approval_ok_def split: option.splits)

lemma reissue_step: "ae_state e = Previewing \<Longrightarrow> owner_step e (reissued e code)"
  by (auto simp: reissued_def owner_step_def evolves_def keeps_def calm_def frozen_def
      entry_ok_def approval_ok_def split: option.splits)

lemma shorten_step:
  "ae_state e = Open \<Longrightarrow> owner_step e (e\<lparr>ae_expires_at := min (ae_expires_at e) t\<rparr>)"
  by (auto simp: owner_step_def evolves_def keeps_def calm_def frozen_def
      entry_ok_def approval_ok_def split: option.splits)

lemma open_delivered_step: "owner_step e (open_delivered p w code e)"
  by (auto simp: open_delivered_def intro: open_step split: option.splits keyed_outcome.splits)

lemma supersede_revised_step: "owner_step e (supersede_revised revised now e)"
  by (auto simp: supersede_revised_def withdrawn_def waiting_not_terminal intro!: withdraw_step)

lemma granted_keeps:
  assumes "ae_state e = Open" and "same_chat w ev e" and "pv_delivered_ms (ae_preview e) = Some d"
    and "d \<le> sent" and "now < ae_expires_at e"
  shows "keeps e (granted p ev sent now e) \<and> calm e (granted p ev sent now e)"
  using assms
  by (auto simp: granted_def keeps_def calm_def frozen_def entry_ok_def approval_ok_def same_chat_def
      MAX_ATTEMPTS_def split: option.splits)

lemma entry_of_ok [simp]: "entry_ok (entry_of a)"
  by (simp add: entry_of_def entry_ok_def approval_ok_def)

section \<open>All records\<close>

lemma all2_origin: "list_all2 R xs ys \<Longrightarrow> y \<in> set ys \<Longrightarrow> \<exists>x \<in> set xs. R x y"
  by (induction rule: list_all2_induct) auto

lemma groups_okD:
  "groups_ok es \<Longrightarrow> x \<in> set es \<Longrightarrow> y \<in> set es \<Longrightarrow> ae_group x \<noteq> None \<Longrightarrow> ae_group y = ae_group x
     \<Longrightarrow> committed_state (ae_state x) \<Longrightarrow> committed_state (ae_state y) \<Longrightarrow> ae_id x = ae_id y"
  unfolding groups_ok_def by (metis not_None_eq)

lemma groups_okI:
  assumes "\<And>x y. x \<in> set es \<Longrightarrow> y \<in> set es \<Longrightarrow> ae_group x \<noteq> None \<Longrightarrow> ae_group y = ae_group x \<Longrightarrow>
      committed_state (ae_state x) \<Longrightarrow> committed_state (ae_state y) \<Longrightarrow> ae_id x = ae_id y"
  shows "groups_ok es"
  unfolding groups_ok_def using assms by (metis option.distinct(1))

lemma groups_ok_snoc: "groups_ok es \<Longrightarrow> \<not> committed_state (ae_state e) \<Longrightarrow> groups_ok (es @ [e])"
  by (auto simp: groups_ok_def)

lemma actions_ok_rel:
  assumes "list_all2 R xs ys" and "actions_ok xs"
    and R: "\<And>x y. R x y \<Longrightarrow> ae_id y = ae_id x \<and> ae_group y = ae_group x \<and>
       (committed_state (ae_state y) \<longrightarrow> committed_state (ae_state x)) \<and> (entry_ok x \<longrightarrow> entry_ok y)"
  shows "actions_ok ys"
proof -
  have ids: "map ae_id ys = map ae_id xs"
    using assms(1) by (induction rule: list_all2_induct) (auto dest: R)
  have from_x: "\<exists>x \<in> set xs. R x y" if "y \<in> set ys" for y
    using assms(1) that by (rule all2_origin)
  have "list_all entry_ok ys"
    using from_x assms(2) R by (metis actions_ok_def list_all_iff)
  moreover have "groups_ok ys"
  proof (rule groups_okI)
    fix a b
    assume ab: "a \<in> set ys" "b \<in> set ys" "ae_group a \<noteq> None" "ae_group b = ae_group a"
      "committed_state (ae_state a)" "committed_state (ae_state b)"
    obtain x y where xy: "x \<in> set xs" "R x a" "y \<in> set xs" "R y b"
      using from_x ab by blast
    then have "ae_group x = ae_group a" "committed_state (ae_state x)"
      "ae_group y = ae_group a" "committed_state (ae_state y)"
      using R[OF xy(2)] R[OF xy(4)] ab by simp_all
    then have "ae_id x = ae_id y"
      using assms(2) xy(1,3) ab(3) by (intro groups_okD[of xs]) (simp_all add: actions_ok_def)
    then show "ae_id a = ae_id b" using R[OF xy(2)] R[OF xy(4)] by simp
  qed
  ultimately show ?thesis using ids assms(2) by (simp add: actions_ok_def)
qed

lemma actions_ok_evolve: "list_all2 evolves xs ys \<Longrightarrow> actions_ok xs \<Longrightarrow> actions_ok ys"
  by (rule actions_ok_rel[of evolves]) (simp_all add: evolves_def keeps_def)

lemma list_all2_map_step: "(\<And>x. R x (f x)) \<Longrightarrow> list_all2 R xs (map f xs)"
  by (simp add: list_all2_map2 list.rel_refl)

lemma list_all2_update_step:
  "(\<And>x. R x x) \<Longrightarrow> i < length xs \<Longrightarrow> R (xs ! i) y \<Longrightarrow> list_all2 R xs (xs[i := y])"
  by (simp add: list_all2_conv_all_nth nth_list_update)

lemma all2_trans:
  assumes "\<And>x y z. R x y \<Longrightarrow> R y z \<Longrightarrow> R x z" and "list_all2 R xs ys" and "list_all2 R ys zs"
  shows "list_all2 R xs zs"
  unfolding list_all2_conv_all_nth
proof (intro conjI allI impI)
  show "length xs = length zs" using assms(2,3) by (simp add: list_all2_lengthD)
  fix i assume "i < length xs"
  then have "R (xs ! i) (ys ! i)" "R (ys ! i) (zs ! i)"
    using assms(2,3) by (simp_all add: list_all2_conv_all_nth)
  then show "R (xs ! i) (zs ! i)" by (rule assms(1))
qed

lemma owner_steps_refl [simp]: "list_all2 owner_step xs xs"
  by (simp add: list.rel_refl)

lemma owner_steps_trans:
  "list_all2 owner_step xs ys \<Longrightarrow> list_all2 owner_step ys zs \<Longrightarrow> list_all2 owner_step xs zs"
  by (rule list_all2_trans[of owner_step owner_step owner_step]) (auto intro: owner_step_trans)

lemma owner_steps_evolve: "list_all2 owner_step xs ys \<Longrightarrow> list_all2 evolves xs ys"
  by (rule list_all2_mono[of owner_step]) (simp_all add: owner_step_def)

text \<open>What ending an entry does to the rest of the state.\<close>

lemma tell_frame [simp]:
  "ms_actions (tell_opt s a t n) = ms_actions s"
  "ms_reservations (tell_opt s a t n) = ms_reservations s"
  "ms_approvals (tell_opt s a t n) = ms_approvals s"
  "ms_tombstones (tell_opt s a t n) = ms_tombstones s"
  by (simp_all add: tell_opt_def tell_def split: option.splits)

lemma finish_entry_actions [simp]:
  "ms_actions (finish_entry s i st c n) = (ms_actions s)[i := end_entry (ms_actions s ! i) st c n]"
  by (simp add: finish_entry_def Let_def upd_entry_def release_def)

lemma upd_entry_actions [simp]: "ms_actions (upd_entry s i f) = (ms_actions s)[i := f (ms_actions s ! i)]"
  by (simp add: upd_entry_def)

lemma add_expired_actions [simp]: "ms_actions (add_expired s n) = ms_actions s"
  by (simp add: add_expired_def)

lemma bind_unassigned_steps: "list_all2 owner_step (ms_actions s) (ms_actions (bind_unassigned s r))"
  by (simp add: bind_unassigned_def list_all2_map_step bind_step)

lemma batch_previews_steps: "list_all2 owner_step (ms_actions s) (ms_actions (batch_previews s b r))"
proof -
  let ?ids = "concat (map it_actions (filter (\<lambda>i. it_seq i \<in> set (ba_seqs b)) (ms_queue s)))"
  let ?s = "s\<lparr>ms_actions := map (preview_entry ?ids (ba_key b)) (ms_actions s)\<rparr>"
  have "list_all2 owner_step (ms_actions s) (ms_actions ?s)"
    by (simp add: list_all2_map_step preview_step)
  then show ?thesis
    unfolding batch_previews_def Let_def by (rule owner_steps_trans[OF _ bind_unassigned_steps])
qed

lemma previews_stored_steps:
  "list_all2 owner_step (ms_actions s) (ms_actions (previews_stored s k r q n))"
  by (auto simp: previews_stored_def previewing_as_def intro!: list_all2_map_step store_step)

lemma previews_lost_steps: "list_all2 owner_step (ms_actions s) (ms_actions (previews_lost s k n))"
  by (auto simp: previews_lost_def previewing_as_def withdrawn_def
      intro!: list_all2_map_step withdraw_step)

lemma previews_delivered_steps:
  "list_all2 owner_step (ms_actions s) (ms_actions (previews_delivered s k t p))"
  by (auto simp: previews_delivered_def previewing_as_def intro!: list_all2_map_step open_step)

lemma refuse_entries_steps:
  "list_all2 owner_step es (fst (refuse_entries draw key now g es))"
proof (induction es arbitrary: g)
  case (Cons e es)
  have "previewing_as key e \<Longrightarrow> owner_step e (end_entry e Expired None now)"
    by (rule withdraw_step) (simp_all add: previewing_as_def withdrawn_def)
  moreover have "previewing_as key e \<Longrightarrow> owner_step e (reissued e c)" for c
    by (simp add: reissue_step previewing_as_def)
  moreover have "list_all2 owner_step es es'" if "refuse_entries draw key now g' es = (es', r)" for g' es' r
    using Cons.IH[of g'] that by simp
  ultimately show ?case
    by (auto simp: Let_def split: prod.splits option.splits if_splits)
qed simp

lemma previews_refused_steps:
  "list_all2 owner_step (ms_actions s) (ms_actions (snd (previews_refused draw s k g n r)))"
proof -
  obtain es again m g' where r: "refuse_entries draw k n g (ms_actions s) = (es, again, m, g')"
    by (cases "refuse_entries draw k n g (ms_actions s)") blast
  have "list_all2 owner_step (ms_actions s) (ms_actions (add_expired (s\<lparr>ms_actions := es\<rparr>) m))"
    using refuse_entries_steps[of "ms_actions s" draw k n g] r by simp
  then have "list_all2 owner_step (ms_actions s)
      (ms_actions (bind_unassigned (add_expired (s\<lparr>ms_actions := es\<rparr>) m) r))"
    by (rule owner_steps_trans[OF _ bind_unassigned_steps])
  then show ?thesis using r by (simp add: previews_refused_def)
qed

section \<open>Loops over the records\<close>

text \<open>A loop over indices whose every round is a step of \<open>R\<close> is itself one.\<close>

lemma fold_index_steps:
  assumes "\<And>x. R x x" and "\<And>x y z. R x y \<Longrightarrow> R y z \<Longrightarrow> R x z"
    and step: "\<And>i acc. i < length (g acc) \<Longrightarrow> list_all2 R (g acc) (g (f i acc))"
  shows "\<forall>i \<in> set is. i < length (g acc) \<Longrightarrow> list_all2 R (g acc) (g (fold f is acc))"
proof (induction "is" arbitrary: acc)
  case Nil
  then show ?case using assms(1) by (simp add: list.rel_refl)
next
  case (Cons i "is")
  then have one: "list_all2 R (g acc) (g (f i acc))" using step by simp
  then have "length (g (f i acc)) = length (g acc)" by (simp add: list_all2_lengthD)
  then have "list_all2 R (g (f i acc)) (g (fold f is (f i acc)))" using Cons by simp
  then have "list_all2 R (g acc) (g (fold f is (f i acc)))" using all2_trans[of R "g acc" "g (f i acc)"] assms(2) one by blast
  then show ?case by simp
qed

lemma fold_owner_steps:
  assumes "\<And>i acc. i < length (ms_actions (snd acc)) \<Longrightarrow>
      list_all2 owner_step (ms_actions (snd acc)) (ms_actions (snd (f i acc)))"
  shows "list_all2 owner_step (ms_actions s)
      (ms_actions (snd (fold f [0..<length (ms_actions s)] (a, s))))"
  using fold_index_steps[of owner_step "\<lambda>acc. ms_actions (snd acc)" f "[0..<length (ms_actions s)]" "(a, s)"]
    owner_step_trans assms by simp

lemma update_owner_step:
  "i < length xs \<Longrightarrow> owner_step (xs ! i) y \<Longrightarrow> list_all2 owner_step xs (xs[i := y])"
  by (rule list_all2_update_step) simp_all

lemma deny_all_steps: "list_all2 owner_step (ms_actions s) (ms_actions (snd (deny_all p ev w now s)))"
proof -
  have "list_all2 owner_step (ms_actions (snd acc)) (ms_actions (snd (deny_all_step p w ev now i acc)))"
    if "i < length (ms_actions (snd acc))" for i acc
    using that
    by (auto simp: deny_all_step_def Let_def withdrawn_def split: prod.splits
        intro!: update_owner_step withdraw_step)
  from fold_owner_steps[of "deny_all_step p w ev now" s "(0, 0)"] this
  show ?thesis by (simp add: deny_all_def Let_def case_prod_unfold)
qed

lemma deny_code_steps:
  "list_all2 owner_step (ms_actions s) (ms_actions (snd (deny_code p w ev now code s)))"
  by (auto simp: deny_code_def Let_def withdrawn_def dest: position_Some_D
      intro!: update_owner_step withdraw_step split: option.splits)

lemma deny_codes_steps:
  "list_all2 owner_step (ms_actions s) (ms_actions (snd (deny_codes p w ev now codes s)))"
proof (induction codes arbitrary: s)
  case (Cons c cs)
  show ?case
    using owner_steps_trans[OF deny_code_steps[of s p w ev now c] Cons.IH]
    by (simp add: Let_def case_prod_unfold)
qed simp

lemma deny_steps: "list_all2 owner_step (ms_actions s) (ms_actions (snd (deny p codes ev w now s)))"
  by (simp add: deny_def deny_all_steps deny_codes_steps split: option.splits)

lemma cancel_steps: "list_all2 owner_step (ms_actions s) (ms_actions (snd (cancel aid now s)))"
proof -
  have "list_all2 owner_step (ms_actions (snd acc)) (ms_actions (snd (cancel_step aid now i acc)))"
    if "i < length (ms_actions (snd acc))" for i acc
    using that
    by (auto simp: cancel_step_def Let_def withdrawn_def split: prod.splits
        intro!: update_owner_step withdraw_step)
  from fold_owner_steps[of "cancel_step aid now" s
      "\<lparr>ca_cancelled = 0, ca_running = 0, ca_found = (aid = None)\<rparr>"] this
  show ?thesis by (simp add: cancel_def Let_def case_prod_unfold)
qed

lemma expire_steps: "list_all2 owner_step (ms_actions s) (ms_actions (snd (expire now s)))"
proof -
  have "list_all2 owner_step (ms_actions (snd acc)) (ms_actions (snd (expire_step now i acc)))"
    if "i < length (ms_actions (snd acc))" for i acc
    using that
    by (auto simp: expire_step_def Let_def withdrawn_def waiting_not_terminal split: prod.splits
        intro!: update_owner_step withdraw_step fail_step[where st = Failed, simplified])
  from fold_owner_steps[of "expire_step now" s "0"] this
  show ?thesis by (simp add: expire_def Let_def case_prod_unfold)
qed

text \<open>Recovery alone also touches records that were being carried out.\<close>

lemma recover_one:
  assumes "i < length (ms_actions s)"
  shows "list_all2 evolves (ms_actions s) (ms_actions (recover_step p now i s))"
proof -
  let ?e = "ms_actions s ! i"
  have probe: "evolves ?e (?e\<lparr>ae_probe_after := Some now\<rparr>)"
    by (auto simp: evolves_def keeps_def entry_ok_def approval_ok_def split: option.splits)
  have copy: "evolves ?e (set_sent_copy c ?e)" for c
    by (simp add: evolves_def keeps_def)
  have short: "ae_state ?e = Open \<Longrightarrow> evolves ?e (?e\<lparr>ae_expires_at := min (ae_expires_at ?e) t\<rparr>)" for t
    using shorten_step by (simp add: owner_step_def)
  have off: "ae_state ?e \<in> {Proposed, Previewing, Open, Approved} \<Longrightarrow>
      evolves ?e (end_entry ?e Cancelled None now)"
    using withdraw_step[of Cancelled ?e] by (auto simp: owner_step_def withdrawn_def)
  have upd: "evolves ?e y \<Longrightarrow> list_all2 evolves (ms_actions s) ((ms_actions s)[i := y])" for y
    using assms by (intro list_all2_update_step) simp_all
  show ?thesis
    unfolding recover_step_def Let_def
    by (auto intro!: upd simp: off probe copy short list.rel_refl split: action_state.splits option.splits)
qed

lemma recover_steps: "list_all2 evolves (ms_actions s) (ms_actions (snd (recover p now s)))"
proof -
  let ?s = "bind_unassigned s (po_routes p)"
  have "list_all2 evolves (ms_actions ?s)
      (ms_actions (fold (recover_step p now) [0..<length (ms_actions ?s)] ?s))"
    using evolves_trans by (intro fold_index_steps[where g = ms_actions] recover_one) auto
  moreover have "list_all2 evolves (ms_actions s) (ms_actions ?s)"
    by (rule owner_steps_evolve[OF bind_unassigned_steps])
  ultimately have "list_all2 evolves (ms_actions s)
      (ms_actions (fold (recover_step p now) [0..<length (ms_actions ?s)] ?s))"
    using all2_trans[of evolves] evolves_trans by blast
  then show ?thesis by (simp add: recover_def Let_def)
qed

section \<open>Approving\<close>

text \<open>What the record of an approval proves: every check of \<open>approve\<close> passed.\<close>

definition evidence_ok ::
  "policy \<Rightarrow> world \<Rightarrow> chat_evidence \<Rightarrow> bool \<Rightarrow> nat \<Rightarrow> string list \<Rightarrow> action_entry \<Rightarrow> bool" where
  "evidence_ok p w ev replayed now codes e \<longleftrightarrow>
     ae_state e = Approved \<and> \<not> replayed \<and> ae_code e \<in> set codes \<and> same_chat w ev e \<and>
     ev_route ev \<in> set (po_routes p) \<and> offers p (ae_kind e) (ae_form e) \<and> now < ae_expires_at e \<and>
     ae_execute_by e = Some (now + se_execute_minutes (po_actions p) * 60) \<and>
     (\<exists>d sent. pv_delivered_ms (ae_preview e) = Some d \<and> ev_sent_ms ev = Some sent \<and> d \<le> sent \<and>
        ae_approval e = Some \<lparr>ap_route = ev_route ev, ap_peer = ev_peer ev,
          ap_message_id = ev_message_id ev, ap_sent_ms = sent, ap_recorded_at = now,
          ap_digest = ae_digest e\<rparr>)"

definition approves ::
  "policy \<Rightarrow> world \<Rightarrow> chat_evidence \<Rightarrow> bool \<Rightarrow> nat \<Rightarrow> string list \<Rightarrow> action_entry \<Rightarrow> action_entry \<Rightarrow> bool" where
  "approves p w ev replayed now codes x y \<longleftrightarrow>
     keeps x y \<and> calm x y \<and> (committed_state (ae_state x) \<longrightarrow> y = x) \<and>
     (committed_state (ae_state y) \<longrightarrow> committed_state (ae_state x) \<or> evidence_ok p w ev replayed now codes y)"

lemma approves_refl [simp]: "approves p w ev r now codes x x"
  by (simp add: approves_def calm_def)

lemma approves_trans:
  "approves p w ev r now codes x y \<Longrightarrow> approves p w ev r now codes y z \<Longrightarrow> approves p w ev r now codes x z"
  unfolding approves_def by (metis keeps_trans calm_trans)

lemma approves_mono:
  "approves p w ev r now codes x y \<Longrightarrow> set codes \<subseteq> set codes' \<Longrightarrow> approves p w ev r now codes' x y"
  by (auto simp: approves_def evidence_ok_def)

lemma owner_step_approves:
  "owner_step x y \<Longrightarrow> \<not> committed_state (ae_state x) \<Longrightarrow> approves p w ev r now codes x y"
  by (simp add: approves_def owner_step_def evolves_def)

lemma open_delivered_approves: "approves p w ev r now codes x (open_delivered p w code x)"
proof (cases "ae_state x = Previewing")
  case True
  then show ?thesis by (intro owner_step_approves open_delivered_step) simp
qed (simp add: open_delivered_def)

text \<open>What \<open>approve_code\<close> does: only the answer, an expiry, or the grant with every check passed.\<close>

definition grantable ::
  "policy \<Rightarrow> world \<Rightarrow> chat_evidence \<Rightarrow> bool \<Rightarrow> nat \<Rightarrow> string \<Rightarrow> nat \<Rightarrow> mail_state \<Rightarrow> action_entry \<Rightarrow> bool" where
  "grantable p w ev replayed now code sent s e \<longleftrightarrow>
     ae_code e = code \<and> \<not> replayed \<and> ae_state e = Open \<and> same_chat w ev e \<and> ev_sent_ms ev = Some sent \<and>
     (\<exists>d. pv_delivered_ms (ae_preview e) = Some d \<and> d \<le> sent) \<and> now < ae_expires_at e \<and>
     offers p (ae_kind e) (ae_form e) \<and> ev_route ev \<in> set (po_routes p) \<and>
     used s (kind_class (ae_kind e)) now < daily_limit p (kind_class (ae_kind e)) \<and>
     \<not> group_taken s e"

lemma approve_at_cases:
  "(snd (approve_at p w ev replayed now code s i e) = s \<and>
      \<not> snd (fst (approve_at p w ev replayed now code s i e))) \<or>
   (ae_state e = Open \<and>
      snd (approve_at p w ev replayed now code s i e) =
         add_expired (upd_entry s i (\<lambda>e. end_entry e Expired None now)) 1 \<and>
      \<not> snd (fst (approve_at p w ev replayed now code s i e))) \<or>
   (\<exists>sent. grantable p w ev replayed now code sent s e \<and>
      snd (approve_at p w ev replayed now code s i e) = grant p ev sent now s i \<and>
      snd (fst (approve_at p w ev replayed now code s i e)))"
  unfolding approve_at_def grantable_def
  by (simp add: not_le not_less split: option.splits)

lemma approve_code_cases:
  obtains (unchanged) "snd (approve_code p w ev replayed now code s0) = s0"
      "\<not> snd (fst (approve_code p w ev replayed now code s0))"
  | (opened) i s where "i < length (ms_actions s0)" "s = upd_entry s0 i (open_delivered p w code)"
      "snd (approve_code p w ev replayed now code s0) = s"
      "\<not> snd (fst (approve_code p w ev replayed now code s0))"
  | (expired) i s where "i < length (ms_actions s0)" "s = upd_entry s0 i (open_delivered p w code)"
      "ae_state (ms_actions s ! i) = Open"
      "snd (approve_code p w ev replayed now code s0) =
         add_expired (upd_entry s i (\<lambda>e. end_entry e Expired None now)) 1"
      "\<not> snd (fst (approve_code p w ev replayed now code s0))"
  | (granted) i s sent where "i < length (ms_actions s0)" "s = upd_entry s0 i (open_delivered p w code)"
      "grantable p w ev replayed now code sent s (ms_actions s ! i)"
      "snd (approve_code p w ev replayed now code s0) = grant p ev sent now s i"
      "snd (fst (approve_code p w ev replayed now code s0))"
proof (cases "position (\<lambda>e. has_code e code) (ms_actions s0)")
  case None
  then show thesis using unchanged by (simp add: approve_code_def)
next
  case (Some i)
  let ?s = "upd_entry s0 i (open_delivered p w code)"
  have i: "i < length (ms_actions s0)" using Some by (simp add: position_Some_iff)
  have eq: "approve_code p w ev replayed now code s0 =
      approve_at p w ev replayed now code ?s i (ms_actions ?s ! i)"
    using Some by (simp add: approve_code_def Let_def)
  from approve_at_cases[of p w ev replayed now code ?s i "ms_actions ?s ! i"]
  show thesis
    using opened[OF i refl] expired[OF i refl] granted[OF i refl] unfolding eq by blast
qed

lemma grant_actions:
  "ms_actions (grant p ev sent now s i) =
     map (supersede_sibling (ms_actions s ! i) now)
       ((ms_actions s)[i := granted p ev sent now (ms_actions s ! i)])"
  by (simp add: grant_def Let_def)

lemma granted_simps [simp]:
  "ae_id (granted p ev sent now e) = ae_id e" "ae_group (granted p ev sent now e) = ae_group e"
  "ae_state (granted p ev sent now e) = Approved"
  by (simp_all add: granted_def)

lemma supersede_self [simp]: "ae_id x = ae_id e \<Longrightarrow> supersede_sibling e now x = x"
  by (simp add: supersede_sibling_def)

lemma granted_approves:
  assumes "grantable p w ev r now code sent s e" and "code \<in> set codes"
  shows "approves p w ev r now codes e (granted p ev sent now e)"
proof -
  obtain d where d: "pv_delivered_ms (ae_preview e) = Some d" "d \<le> sent"
    using assms(1) by (auto simp: grantable_def)
  then have "keeps e (granted p ev sent now e) \<and> calm e (granted p ev sent now e)"
    using assms(1) by (intro granted_keeps[of _ w]) (auto simp: grantable_def)
  moreover have "evidence_ok p w ev r now codes (granted p ev sent now e)"
    using assms d by (simp add: evidence_ok_def grantable_def granted_def same_chat_def)
  ultimately show ?thesis using assms(1) by (simp add: approves_def grantable_def)
qed

lemma supersede_approves:
  assumes "\<not> group_taken s e" and "x \<in> set (ms_actions s)"
  shows "approves p w ev r now codes x (supersede_sibling e now x)"
proof (cases "ae_group e \<noteq> None \<and> ae_group x = ae_group e \<and> ae_id x \<noteq> ae_id e \<and> \<not> terminal (ae_state x)")
  case True
  then have "\<not> committed_state (ae_state x)" using assms by (auto simp: group_taken_def)
  moreover from this have "owner_step x (end_entry x Superseded None now)"
    using True by (intro withdraw_step) (auto simp: withdrawn_def)
  ultimately have "approves p w ev r now codes x (end_entry x Superseded None now)"
    by (intro owner_step_approves)
  then show ?thesis using True by (simp add: supersede_sibling_def)
qed (auto simp: supersede_sibling_def)

lemma grant_approves:
  assumes "grantable p w ev r now code sent s (ms_actions s ! i)" and "code \<in> set codes"
    and i: "i < length (ms_actions s)"
  shows "list_all2 (approves p w ev r now codes) (ms_actions s) (ms_actions (grant p ev sent now s i))"
  unfolding grant_actions list_all2_conv_all_nth
proof (intro conjI allI impI)
  let ?e = "ms_actions s ! i"
  fix j assume j: "j < length (ms_actions s)"
  show "approves p w ev r now codes (ms_actions s ! j)
      (map (supersede_sibling ?e now) ((ms_actions s)[i := granted p ev sent now ?e]) ! j)"
    using j granted_approves[OF assms(1,2)] assms(1) supersede_approves[of s ?e "ms_actions s ! j"]
    by (cases "j = i") (simp_all add: grantable_def)
qed simp

text \<open>Granting keeps the invariant: no sibling in the group was committed, and none is now.\<close>

lemma grant_actions_ok:
  assumes ok: "actions_ok (ms_actions s)" and i: "i < length (ms_actions s)"
    and g: "grantable p w ev r now code sent s (ms_actions s ! i)"
  shows "actions_ok (ms_actions (grant p ev sent now s i))"
proof -
  let ?e = "ms_actions s ! i" and ?ys = "ms_actions (grant p ev sent now s i)"
  have rel: "list_all2 (approves p w ev r now [code]) (ms_actions s) ?ys"
    using grant_approves[OF g _ i, of "[code]"] by simp
  then have keep: "list_all2 keeps (ms_actions s) ?ys"
    by (rule list_all2_mono) (simp add: approves_def)
  have "map ae_id ?ys = map ae_id (ms_actions s)"
    using keep by (induction rule: list_all2_induct) (auto simp: keeps_def)
  moreover have "list_all entry_ok ?ys"
    using keep ok by (fastforce simp: list_all2_conv_all_nth list_all_length actions_ok_def keeps_def)
  moreover have committed: "y \<in> set (ms_actions s) \<or> ae_id y = ae_id ?e"
    if "y \<in> set ?ys" "committed_state (ae_state y)" for y
    using that i
    by (auto simp: grant_actions supersede_sibling_def dest!: set_update_subset_insert[THEN subsetD]
        split: if_splits)
  have "groups_ok ?ys"
  proof (rule groups_okI)
    fix a b
    assume ab: "a \<in> set ?ys" "b \<in> set ?ys" "ae_group a \<noteq> None" "ae_group b = ae_group a"
      "committed_state (ae_state a)" "committed_state (ae_state b)"
    have grp: "ae_group y = ae_group ?e" if mem: "y \<in> set ?ys" and same: "ae_id y = ae_id ?e" for y
    proof -
      obtain x where x: "x \<in> set (ms_actions s)" "keeps x y"
        using all2_origin[OF keep mem] by blast
      then have "ae_id x = ae_id ?e" using same by (simp add: keeps_def)
      moreover have "inj_on ae_id (set (ms_actions s))"
        using ok by (simp add: actions_ok_def distinct_map)
      ultimately have "x = ?e" using x(1) nth_mem[OF i] by (simp add: inj_onD)
      then show ?thesis using x(2) by (simp add: keeps_def)
    qed
    have old: "ae_id y = ae_id ?e"
      if "y \<in> set (ms_actions s)" "ae_group y = ae_group ?e" "ae_group y \<noteq> None"
        "committed_state (ae_state y)" for y
      using that g by (auto simp: grantable_def group_taken_def)
    show "ae_id a = ae_id b"
      using committed[OF ab(1,5)] committed[OF ab(2,6)] grp[OF ab(1)] grp[OF ab(2)] old[of a] old[of b]
        groups_okD[of "ms_actions s" a b] ok ab(3-6) unfolding actions_ok_def by metis
  qed
  ultimately show ?thesis using ok by (simp add: actions_ok_def)
qed

lemma approve_code_approves:
  assumes "code \<in> set codes"
  shows "list_all2 (approves p w ev r now codes) (ms_actions s)
           (ms_actions (snd (approve_code p w ev r now code s)))"
proof -
  have op: "list_all2 (approves p w ev r now codes) (ms_actions s)
      (ms_actions (upd_entry s i (open_delivered p w code)))" if "i < length (ms_actions s)" for i
    using that by (auto intro!: list_all2_update_step open_delivered_approves)
  have trans: "list_all2 (approves p w ev r now codes) a c"
    if "list_all2 (approves p w ev r now codes) a b" "list_all2 (approves p w ev r now codes) b c" for a b c
    using that approves_trans all2_trans[of "approves p w ev r now codes" a b c] by blast
  show ?thesis
  proof (cases rule: approve_code_cases[of p w ev r now code s])
    case unchanged
    then show ?thesis by (simp add: list.rel_refl)
  next
    case (opened i t)
    then show ?thesis using op by simp
  next
    case (expired i t)
    have "owner_step (ms_actions t ! i) (end_entry (ms_actions t ! i) Expired None now)"
      using expired(3) by (intro withdraw_step) (simp_all add: withdrawn_def)
    then have "list_all2 (approves p w ev r now codes) (ms_actions t)
        ((ms_actions t)[i := end_entry (ms_actions t ! i) Expired None now])"
      using expired(1-3) by (intro list_all2_update_step) (simp_all add: owner_step_approves)
    then show ?thesis using expired trans[OF op[of i]] by simp
  next
    case (granted i t sent)
    then have "list_all2 (approves p w ev r now codes) (ms_actions t) (ms_actions (grant p ev sent now t i))"
      using assms by (intro grant_approves[of _ _ _ _ _ code]) simp_all
    then show ?thesis using granted trans[OF op[of i]] by simp
  qed
qed

lemma opened_actions_ok:
  "actions_ok (ms_actions s) \<Longrightarrow> i < length (ms_actions s) \<Longrightarrow>
     actions_ok (ms_actions (upd_entry s i (open_delivered p w code)))"
  by (rule actions_ok_evolve[OF owner_steps_evolve])
    (auto intro!: update_owner_step open_delivered_step)

lemma approve_code_actions_ok:
  assumes "actions_ok (ms_actions s)"
  shows "actions_ok (ms_actions (snd (approve_code p w ev r now code s)))"
proof (cases rule: approve_code_cases[of p w ev r now code s])
  case unchanged
  then show ?thesis using assms by simp
next
  case (opened i t)
  then show ?thesis using assms opened_actions_ok by simp
next
  case (expired i t)
  have "owner_step (ms_actions t ! i) (end_entry (ms_actions t ! i) Expired None now)"
    using expired(3) by (intro withdraw_step) (simp_all add: withdrawn_def)
  then have "list_all2 evolves (ms_actions t)
      ((ms_actions t)[i := end_entry (ms_actions t ! i) Expired None now])"
    using expired(1,2) by (intro owner_steps_evolve update_owner_step) simp_all
  then show ?thesis
    using expired opened_actions_ok[OF assms expired(1)] actions_ok_evolve by simp
next
  case (granted i t sent)
  then show ?thesis
    using grant_actions_ok[OF opened_actions_ok[OF assms granted(1)]] by simp
qed

lemma approve_codes_approves:
  "set codes \<subseteq> set cs \<Longrightarrow> list_all2 (approves p w ev r now cs) (ms_actions s)
     (ms_actions (snd (approve_codes p w ev r now codes s)))"
proof (induction codes arbitrary: s)
  case Nil
  then show ?case by (simp add: list.rel_refl)
next
  case (Cons c codes)
  let ?t = "snd (approve_code p w ev r now c s)"
  have one: "list_all2 (approves p w ev r now cs) (ms_actions s) (ms_actions ?t)"
    using Cons.prems by (intro approve_code_approves) simp
  have "list_all2 (approves p w ev r now cs) (ms_actions ?t)
      (ms_actions (snd (approve_codes p w ev r now codes ?t)))"
    using Cons by simp
  with one have "list_all2 (approves p w ev r now cs) (ms_actions s)
      (ms_actions (snd (approve_codes p w ev r now codes ?t)))"
    using all2_trans[of "approves p w ev r now cs"] approves_trans by blast
  then show ?case by (simp add: Let_def case_prod_unfold)
qed

lemma approve_codes_actions_ok:
  "actions_ok (ms_actions s) \<Longrightarrow> actions_ok (ms_actions (snd (approve_codes p w ev r now codes s)))"
  by (induction codes arbitrary: s) (simp_all add: Let_def case_prod_unfold approve_code_actions_ok)

lemma approve_actions:
  "ms_actions (snd (approve p codes ev w now s)) =
     ms_actions (snd (approve_codes p w ev (\<exists>a \<in> set (ms_approvals s). st_key a = ev_message_id ev) now codes s))"
  by (simp add: approve_def Let_def case_prod_unfold)

lemma approve_code_used:
  "used (snd (approve_code p w ev r now code s)) c now \<le> max (used s c now) (daily_limit p c)"
proof (cases rule: approve_code_cases[of p w ev r now code s])
  case (granted i t sent)
  have t: "used t k now = used s k now" for k
    using granted(2) by (simp add: used_def upd_entry_def)
  have "used (grant p ev sent now t i) c now =
      used t c now + (if kind_class (ae_kind (ms_actions t ! i)) = c then 1 else 0)"
    by (simp add: grant_def used_def Let_def upd_entry_def ledger_consts)
  then show ?thesis using granted(3,4) t by (auto simp: grantable_def)
qed (simp_all add: used_def upd_entry_def add_expired_def)

lemma approve_codes_used:
  "used (snd (approve_codes p w ev r now codes s)) c now \<le> max (used s c now) (daily_limit p c)"
proof (induction codes arbitrary: s)
  case (Cons k codes)
  show ?case
    using Cons.IH[of "snd (approve_code p w ev r now k s)"] approve_code_used[of p w ev r now k s c]
    by (simp add: Let_def case_prod_unfold)
qed simp

end
