(* ===== verification/Mail_Safety.thy ===== *)
theory Mail_Safety
  imports Mail_Invariants
begin

text \<open>
  The ledger as a state machine: any interleaving of the ledger's operations with one executor
  (\<^verbatim>\<open>crates/scv-channels/src/email/executor.rs\<close>), failed writes, crashes and
  restarts. \<open>ledger_op\<close> lists the operations of \<^verbatim>\<open>ledger.rs\<close> and
  \<^verbatim>\<open>ledger/actions.rs\<close> that the worker, the notifier and the chat authority call;
  \<open>mail_step\<close> adds the executor's own writes.
\<close>

section \<open>The ledger's operations\<close>

datatype ledger_op =
    OpClaim "source_ref list" cursor "reset_note option" nat
  | OpAttempt source_ref
  | OpDecide decided string nat nat "string list"
  | OpNote string item_class string nat
  | OpBeginBatch "string list" string "nat list" send_class string counts nat
  | OpBatchStored string string nat
  | OpBatchRetry nat
  | OpBatchDissolve nat
  | OpSettle "policy option" "string option list" nat "(string \<times> nat) list" "string list"
  | OpPrune nat
  | OpAddRequest request
  | OpRequestAttempt string
  | OpDropRequest string string nat
  | OpComposed string nat
  | OpPropose nat "string list" "string option" "new_action list" "string \<times> string" "string list" nat
  | OpQueuePreview "string list" "string list" string string nat
  | OpApprove policy "string list" chat_evidence world nat
  | OpDeny policy "string list option" chat_evidence world nat
  | OpCancel "string option" nat
  | OpExpire nat
  | OpSweep policy nat nat

text \<open>Codes drawn beforehand, one per call; none left is \<open>None\<close>.\<close>

fun draw_code :: "string option list \<Rightarrow> string option \<times> string option list" where
  "draw_code [] = (None, [])"
| "draw_code (c # cs) = (c, cs)"

fun ledger_change :: "ledger_op \<Rightarrow> mail_state \<Rightarrow> mail_state" where
  "ledger_change (OpClaim refs nxt reset now) s = snd (claim refs nxt reset now s)"
| "ledger_change (OpAttempt src) s = snd (attempt src s)"
| "ledger_change (OpDecide dc today now max_queue routes) s =
     snd (record_decided dc today now max_queue routes s)"
| "ledger_change (OpNote key cls t now) s = snd (note_line key cls t now s)"
| "ledger_change (OpBeginBatch routes rnd seqs cls t cts now) s =
     snd (begin_batch routes rnd seqs cls t cts now s)"
| "ledger_change (OpBatchStored route peer now) s = snd (batch_stored route peer now s)"
| "ledger_change (OpBatchRetry now) s = snd (batch_retry now s)"
| "ledger_change (OpBatchDissolve now) s = snd (batch_dissolve now s)"
| "ledger_change (OpSettle pol codes now delivered refused) s =
     snd (settle_watched pol draw_code codes now delivered refused s)"
| "ledger_change (OpPrune now) s = prune s now"
| "ledger_change (OpAddRequest r) s = snd (add_request r s)"
| "ledger_change (OpRequestAttempt key) s = snd (request_attempt key s)"
| "ledger_change (OpDropRequest key t now) s = snd (drop_request key t now s)"
| "ledger_change (OpComposed today tokens) s = snd (composed today tokens s)"
| "ledger_change (OpPropose max_open routes req proposed pview revised now) s =
     snd (propose max_open routes req proposed pview revised now s)"
| "ledger_change (OpQueuePreview routes ids key t now) s = snd (queue_preview routes ids key t now s)"
| "ledger_change (OpApprove p codes ev w now) s = snd (approve p codes ev w now s)"
| "ledger_change (OpDeny p codes ev w now) s = snd (deny p codes ev w now s)"
| "ledger_change (OpCancel aid now) s = snd (cancel aid now s)"
| "ledger_change (OpExpire now) s = (if expire_due now s then snd (expire now s) else s)"
| "ledger_change (OpSweep p handle_seconds now) s =
     (if sweep_due p handle_seconds now s then snd (sweep_actions p handle_seconds now s) else s)"

fun decided_ids :: "decision_outcome \<Rightarrow> string set" where
  "decided_ids (OReport k t u h proposed) = na_id ` set proposed"
| "decided_ids OCounted = {}"
| "decided_ids OGone = {}"
| "decided_ids OUnreadable = {}"

text \<open>The IDs an operation's new actions bring, drawn at random by the caller.\<close>

fun new_ids :: "ledger_op \<Rightarrow> string set" where
  "new_ids (OpDecide dc today now max_queue routes) = decided_ids (dc_outcome dc)"
| "new_ids (OpPropose max_open routes req proposed pview revised now) = na_id ` set proposed"
| "new_ids _ = {}"

section \<open>What an operation does to the records\<close>

definition op_frame :: "string set \<Rightarrow> action_entry list \<Rightarrow> action_entry list \<Rightarrow> bool" where
  "op_frame fresh xs ys \<longleftrightarrow>
     (\<forall>y \<in> set ys. (\<exists>x \<in> set xs. keeps x y) \<or>
        (ae_state y = Proposed \<and> ae_approval y = None \<and> ae_id y \<in> fresh)) \<and>
     (\<forall>x \<in> set xs. frozen x \<longrightarrow> x \<in> set ys)"

lemma all2_target: "list_all2 R xs ys \<Longrightarrow> x \<in> set xs \<Longrightarrow> \<exists>y \<in> set ys. R x y"
  by (induction rule: list_all2_induct) auto

lemma op_frame_all2:
  assumes "list_all2 R xs ys" and "\<And>x y. R x y \<Longrightarrow> keeps x y \<and> calm x y"
  shows "op_frame fresh xs ys"
  unfolding op_frame_def
proof (intro conjI ballI impI)
  show "(\<exists>x \<in> set xs. keeps x y) \<or> (ae_state y = Proposed \<and> ae_approval y = None \<and> ae_id y \<in> fresh)"
    if "y \<in> set ys" for y
    using all2_origin[OF assms(1) that] assms(2) by blast
  show "x \<in> set ys" if "x \<in> set xs" "frozen x" for x
    using all2_target[OF assms(1) that(1)] assms(2) that(2) by (auto simp: calm_def)
qed

lemma op_frame_owner: "list_all2 owner_step xs ys \<Longrightarrow> op_frame fresh xs ys"
  by (erule op_frame_all2) (simp add: owner_step_def evolves_def)

lemma op_frame_approves: "list_all2 (approves p w ev r now codes) xs ys \<Longrightarrow> op_frame fresh xs ys"
  by (erule op_frame_all2) (simp add: approves_def)

lemma add_entries_append:
  "\<exists>new. snd (add_entries es as) = es @ new \<and> set new \<subseteq> entry_of ` set as"
proof (induction as arbitrary: es)
  case (Cons a as)
  show ?case
  proof (cases "\<exists>e \<in> set es. ae_id e = na_id a")
    case True
    then show ?thesis using Cons.IH[of es] by auto
  next
    case False
    obtain new where "snd (add_entries (es @ [entry_of a]) as) = (es @ [entry_of a]) @ new"
      "set new \<subseteq> entry_of ` set as"
      using Cons.IH[of "es @ [entry_of a]"] by blast
    then show ?thesis
      using False by (intro exI[of _ "entry_of a # new"]) (auto simp: Let_def case_prod_unfold)
  qed
qed simp

lemma entry_of_simps [simp]:
  "ae_id (entry_of a) = na_id a" "ae_state (entry_of a) = Proposed" "ae_approval (entry_of a) = None"
  by (simp_all add: entry_of_def)

lemma add_entries_ok:
  "actions_ok es \<Longrightarrow> actions_ok (snd (add_entries es as))"
proof (induction as arbitrary: es)
  case (Cons a as)
  have "actions_ok (es @ [entry_of a])" if "\<not> (\<exists>e \<in> set es. ae_id e = na_id a)"
    using Cons.prems that by (auto simp: actions_ok_def groups_ok_snoc)
  then show ?case
    using Cons by (simp add: Let_def case_prod_unfold)
qed simp

lemma add_proposed_actions:
  "ms_actions (snd (add_proposed s proposed routes)) =
     map (bind_entry routes) (snd (add_entries (ms_actions s) proposed))"
  by (simp add: add_proposed_def Let_def case_prod_unfold bind_unassigned_def)

lemma add_proposed_ok:
  "actions_ok (ms_actions s) \<Longrightarrow> actions_ok (ms_actions (snd (add_proposed s proposed routes)))"
  unfolding add_proposed_actions
  by (rule actions_ok_evolve[OF owner_steps_evolve[OF list_all2_map_step]])
    (simp_all add: bind_step add_entries_ok)

lemma bind_entry_simps [simp]:
  "ae_id (bind_entry r e) = ae_id e" "ae_state (bind_entry r e) = ae_state e"
  "ae_approval (bind_entry r e) = ae_approval e"
  by (simp_all add: bind_entry_def)

lemma add_proposed_frame:
  "op_frame (na_id ` set proposed) (ms_actions s) (ms_actions (snd (add_proposed s proposed routes)))"
proof -
  obtain new where new: "snd (add_entries (ms_actions s) proposed) = ms_actions s @ new"
    "set new \<subseteq> entry_of ` set proposed"
    using add_entries_append[of "ms_actions s" proposed] by blast
  have "op_frame (na_id ` set proposed) (ms_actions s) (map (bind_entry routes) (ms_actions s))"
    by (intro op_frame_owner list_all2_map_step bind_step)
  moreover have "ae_state y = Proposed \<and> ae_approval y = None \<and> ae_id y \<in> na_id ` set proposed"
    if "y \<in> bind_entry routes ` set new" for y
    using that new(2) by auto
  ultimately show ?thesis
    unfolding op_frame_def add_proposed_actions new(1) map_append set_append set_map
    by (metis UnE UnI1 image_set)
qed

lemma op_frame_pre:
  assumes "list_all2 owner_step xs ys" and "op_frame fresh ys zs"
  shows "op_frame fresh xs zs"
  unfolding op_frame_def
proof (intro conjI ballI impI)
  fix z assume "z \<in> set zs"
  then consider y where "y \<in> set ys" "keeps y z"
    | "ae_state z = Proposed \<and> ae_approval z = None \<and> ae_id z \<in> fresh"
    using assms(2) by (auto simp: op_frame_def)
  then show "(\<exists>x \<in> set xs. keeps x z) \<or> (ae_state z = Proposed \<and> ae_approval z = None \<and> ae_id z \<in> fresh)"
  proof cases
    case 1
    then obtain x where "x \<in> set xs" "owner_step x y" using all2_origin[OF assms(1)] by blast
    then show ?thesis using 1(2) keeps_trans by (auto simp: owner_step_def evolves_def)
  qed simp
next
  fix x assume "x \<in> set xs" "frozen x"
  then have "x \<in> set ys" using all2_target[OF assms(1)] by (fastforce simp: owner_step_def calm_def)
  then show "x \<in> set zs" using assms(2) \<open>frozen x\<close> by (simp add: op_frame_def)
qed

lemma propose_cases:
  obtains (refused) "snd (propose mx routes req proposed pview revised now s) = s"
  | (proposed) s2 where "ms_actions s2 = map (supersede_revised revised now) (ms_actions s)"
      "ms_actions (snd (propose mx routes req proposed pview revised now s)) =
         ms_actions (snd (add_proposed s2 proposed routes))"
proof -
  let ?s1 = "s\<lparr>ms_actions := map (supersede_revised revised now) (ms_actions s)\<rparr>"
  let ?s2 = "case req of None \<Rightarrow> ?s1
      | Some k \<Rightarrow> ?s1\<lparr>ms_requests := filter (\<lambda>r. rq_key r \<noteq> k) (ms_requests ?s1)\<rparr>"
  have "ms_actions ?s2 = map (supersede_revised revised now) (ms_actions s)"
    by (simp split: option.splits)
  moreover have "snd (propose mx routes req proposed pview revised now s) = s \<or>
      ms_actions (snd (propose mx routes req proposed pview revised now s)) =
         ms_actions (snd (add_proposed ?s2 proposed routes))"
    unfolding propose_def Let_def by (simp add: case_prod_unfold)
  ultimately show thesis using refused proposed by blast
qed

lemma supersede_revised_steps:
  "list_all2 owner_step xs (map (supersede_revised revised now) xs)"
  by (intro list_all2_map_step supersede_revised_step)

lemma propose_frame:
  "op_frame (na_id ` set proposed) (ms_actions s)
     (ms_actions (snd (propose mx routes req proposed pview revised now s)))"
proof (cases rule: propose_cases[of mx routes req proposed pview revised now s])
  case refused
  then show ?thesis by (simp add: op_frame_owner)
next
  case (proposed s2)
  then show ?thesis
    using op_frame_pre[OF supersede_revised_steps] add_proposed_frame[where s = s2] by metis
qed

lemma propose_ok:
  "actions_ok (ms_actions s) \<Longrightarrow>
     actions_ok (ms_actions (snd (propose mx routes req proposed pview revised now s)))"
proof (cases rule: propose_cases[of mx routes req proposed pview revised now s])
  case (proposed s2)
  assume "actions_ok (ms_actions s)"
  then have "actions_ok (ms_actions s2)"
    using proposed(1) actions_ok_evolve[OF owner_steps_evolve[OF supersede_revised_steps]] by metis
  then show ?thesis using proposed(2) add_proposed_ok by simp
qed simp

lemma record_decided_actions:
  "ms_actions (snd (record_decided dc today now mq routes s)) =
     (case dc_outcome dc of
        OReport k t u h proposed \<Rightarrow>
          map (bind_entry routes) (snd (add_entries (ms_actions s) proposed))
      | _ \<Rightarrow> ms_actions s)"
  by (simp add: record_decided_def note_outcome_def note_turn_def roll_day_def Let_def case_prod_unfold
      add_proposed_actions split: decision_outcome.splits)

lemma record_decided_frame:
  "op_frame (decided_ids (dc_outcome dc)) (ms_actions s)
     (ms_actions (snd (record_decided dc today now mq routes s)))"
  using add_proposed_frame[of _ s routes]
  by (simp add: record_decided_actions add_proposed_actions op_frame_owner split: decision_outcome.splits)

lemma record_decided_ok:
  "actions_ok (ms_actions s) \<Longrightarrow> actions_ok (ms_actions (snd (record_decided dc today now mq routes s)))"
  using add_proposed_ok[of s _ routes]
  by (simp add: record_decided_actions add_proposed_actions split: decision_outcome.splits)

lemma sweep_actions_eq:
  "ms_actions (snd (sweep_actions p hs now s)) = filter (\<lambda>e. \<not> tombstone_due e p now) (ms_actions s)"
  by (simp add: sweep_actions_def Let_def)

lemma frozen_not_due: "frozen e \<Longrightarrow> \<not> tombstone_due e p now"
  by (auto simp: frozen_def tombstone_due_def)

lemma sweep_frame: "op_frame fresh (ms_actions s) (ms_actions (snd (sweep_actions p hs now s)))"
proof -
  have "\<forall>x \<in> set (ms_actions s). frozen x \<longrightarrow> x \<in> set (filter (\<lambda>e. \<not> tombstone_due e p now) (ms_actions s))"
    by (simp add: frozen_not_due)
  moreover have "\<exists>x \<in> set (ms_actions s). keeps x y"
    if "y \<in> set (filter (\<lambda>e. \<not> tombstone_due e p now) (ms_actions s))" for y
    using that keeps_refl[of y] by (metis filter_is_subset subsetD)
  ultimately show ?thesis unfolding sweep_actions_eq op_frame_def by blast
qed

lemma actions_ok_filter: "actions_ok es \<Longrightarrow> actions_ok (filter P es)"
  by (auto simp: actions_ok_def groups_ok_def list_all_iff distinct_map_filter)

lemma refuse_all_steps:
  "list_all2 owner_step (ms_actions s) (ms_actions (snd (refuse_all draw now routes g keys s)))"
proof (induction keys arbitrary: g s)
  case (Cons k keys)
  show ?case
    using owner_steps_trans[OF previews_refused_steps[of s draw k g now routes] Cons.IH]
    by (simp add: Let_def case_prod_unfold)
qed simp

lemma delivered_all_steps:
  "list_all2 owner_step (ms_actions s)
     (ms_actions (fold (\<lambda>(key, at_ms) s. previews_delivered s key at_ms p) ds s))"
proof (induction ds arbitrary: s)
  case (Cons d ds)
  show ?case
    using owner_steps_trans[OF previews_delivered_steps[of s "fst d" "snd d" p] Cons.IH]
    by (simp add: case_prod_unfold)
qed simp

lemma settle_steps:
  "list_all2 owner_step (ms_actions s)
     (ms_actions (snd (settle_watched pol draw g now delivered refused s)))"
proof (cases pol)
  case None
  then show ?thesis by (simp add: settle_watched_def Let_def)
next
  case (Some p)
  show ?thesis
  proof (cases "delivered = [] \<and> refused = []")
    case False
    let ?c = "ms_counts s"
    let ?s1 = "s\<lparr>ms_watched := filter (\<lambda>x. wa_key x \<notin> fst ` set delivered \<and> wa_key x \<notin> set refused)
          (ms_watched s),
        ms_counts := ?c\<lparr>ct_undelivered := ct_undelivered ?c + length refused\<rparr>\<rparr>"
    have "list_all2 owner_step (ms_actions ?s1) (ms_actions (snd (refuse_all draw now (po_routes p) g refused
        (fold (\<lambda>(key, at_ms) s. previews_delivered s key at_ms p) delivered ?s1))))"
      by (rule owner_steps_trans[OF delivered_all_steps refuse_all_steps])
    then show ?thesis using Some False by (simp add: settle_watched_def Let_def)
  qed (simp add: settle_watched_def Let_def)
qed

lemma batch_stored_steps:
  "list_all2 owner_step (ms_actions s) (ms_actions (snd (batch_stored route peer now s)))"
  using previews_stored_steps[of "s\<lparr>ms_batch := None\<rparr>"]
  by (auto simp: batch_stored_def Let_def split: option.splits)

lemma batch_dissolve_steps:
  "list_all2 owner_step (ms_actions s) (ms_actions (snd (batch_dissolve now s)))"
proof (cases "ms_batch s")
  case (Some b)
  have "list_all2 owner_step (ms_actions s) (ms_actions (previews_lost (s\<lparr>ms_batch := None, ms_queue := q, ms_counts := c\<rparr>) k now))"
    for q c k
    using previews_lost_steps[of "s\<lparr>ms_batch := None, ms_queue := q, ms_counts := c\<rparr>"] by simp
  then show ?thesis using Some by (simp add: batch_dissolve_def Let_def)
qed (simp add: batch_dissolve_def)

text \<open>The operations that change records in place, approval and the three above apart.\<close>

fun in_place :: "ledger_op \<Rightarrow> bool" where
  "in_place (OpDecide dc today now max_queue routes) = False"
| "in_place (OpPropose max_open routes req proposed pview revised now) = False"
| "in_place (OpApprove p codes ev w now) = False"
| "in_place (OpSweep p hs now) = False"
| "in_place _ = True"

lemma in_place_steps:
  "in_place op \<Longrightarrow> list_all2 owner_step (ms_actions s) (ms_actions (ledger_change op s))"
proof (cases op)
  case (OpClaim refs nxt reset now)
  then show ?thesis by (simp add: claim_def Let_def split: option.splits)
next
  case (OpBeginBatch routes rnd seqs cls t cts now)
  then show ?thesis by (simp add: begin_batch_def Let_def batch_previews_steps)
next
  case (OpQueuePreview routes ids key t now)
  then show ?thesis
    using bind_unassigned_steps[of "push_item_with s key Response False t ids now" routes]
    by (simp add: queue_preview_def)
qed (simp_all add: attempt_def note_line_def batch_stored_steps batch_retry_def batch_dissolve_steps
    settle_steps add_request_def request_attempt_def drop_request_def composed_def roll_day_def
    deny_steps cancel_steps expire_steps Let_def split: option.splits)

lemma ledger_frame: "op_frame (new_ids op) (ms_actions s) (ms_actions (ledger_change op s))"
proof (cases "in_place op")
  case True
  then show ?thesis by (intro op_frame_owner in_place_steps)
next
  case False
  then show ?thesis
    by (cases op)
      (auto simp: record_decided_frame propose_frame sweep_frame op_frame_owner approve_actions
        intro!: op_frame_approves approve_codes_approves)
qed

lemma ledger_ok: "actions_ok (ms_actions s) \<Longrightarrow> actions_ok (ms_actions (ledger_change op s))"
proof (cases "in_place op")
  case True
  assume "actions_ok (ms_actions s)"
  then show ?thesis
    using actions_ok_evolve[OF owner_steps_evolve[OF in_place_steps[OF True]]] by blast
next
  case False
  assume "actions_ok (ms_actions s)"
  then show ?thesis
    using False
    by (cases op)
      (auto simp: record_decided_ok propose_ok sweep_actions_eq actions_ok_filter approve_actions
        approve_codes_actions_ok)
qed

section \<open>The machine\<close>

text \<open>
  What the executor holds: nothing, the sealed \<open>Approved\<close> of an action it is carrying out, or
  that of a send already recorded whose copy in Sent it is saving.
\<close>

datatype flight = Idle | Running approved | Copying approved

text \<open>What the provider saw: an action handed to it, and its answer that nothing happened.\<close>

datatype event = Begun string action_kind | NotHappened string

record sys =
  sy_state :: mail_state
  sy_flight :: flight
  sy_trace :: "event list"
  sy_ids :: "string set"

definition files_copy :: "approved \<Rightarrow> bool" where
  "files_copy ad \<longleftrightarrow> co_kind (ad_content ad) = Send \<and>
     (case co_message (ad_content ad) of None \<Rightarrow> False | Some m \<Rightarrow> og_sent_copy m = CopyAppend)"

fun applied :: "execution \<Rightarrow> bool" where
  "applied (ExApplied c copy) = True"
| "applied (ExNotApplied r c) = False"
| "applied ExAmbiguous = False"
| "applied ExUncertain = False"

fun reported :: "string \<Rightarrow> execution \<Rightarrow> event list" where
  "reported aid (ExNotApplied r c) = [NotHappened aid]"
| "reported aid _ = []"

text \<open>
  The rules. A write that fails (\<open>commit\<close> returns an error) leaves the state; whatever the executor
  held is then lost, as in a crash (\<open>Lost\<close>). IDs of new actions are random, so they are new.
  \<open>Probe::Resume\<close> reports an IMAP move found half done, so a check of a send never answers it.
\<close>

inductive mail_step :: "(string \<Rightarrow> string) \<Rightarrow> sys \<Rightarrow> sys \<Rightarrow> bool" for sha where
  Ledger: "commit d (\<lambda>s. ((), ledger_change op s)) (sy_state \<sigma>) = (r, s') \<Longrightarrow>
     new_ids op \<inter> sy_ids \<sigma> = {} \<Longrightarrow>
     mail_step sha \<sigma> (\<sigma>\<lparr>sy_state := s', sy_ids := sy_ids \<sigma> \<union> new_ids op\<rparr>)"
| Begin: "sy_flight \<sigma> = Idle \<Longrightarrow>
     commit d (begin_execution sha p aid content now) (sy_state \<sigma>) = (Inr (Inr ad), s') \<Longrightarrow>
     mail_step sha \<sigma> (\<sigma>\<lparr>sy_state := s', sy_flight := Running ad,
       sy_trace := sy_trace \<sigma> @ [Begun aid (co_kind (ad_content ad))]\<rparr>)"
| Refuse: "sy_flight \<sigma> = Idle \<Longrightarrow>
     commit d (begin_execution sha p aid content now) (sy_state \<sigma>) = (Inr (Inl why), s') \<Longrightarrow>
     mail_step sha \<sigma> (\<sigma>\<lparr>sy_state := s'\<rparr>)"
| MarkSent: "sy_flight \<sigma> = Running ad \<Longrightarrow> files_copy ad \<Longrightarrow>
     commit d (mark_sent ad now) (sy_state \<sigma>) = (Inr u, s') \<Longrightarrow>
     mail_step sha \<sigma> (\<sigma>\<lparr>sy_state := s', sy_flight := Copying ad\<rparr>)"
| Copied: "sy_flight \<sigma> = Copying ad \<Longrightarrow> copy \<in> {CopySaved, CopyFailed} \<Longrightarrow>
     commit d (finish_execution ad (ExApplied Applied (Some copy)) now) (sy_state \<sigma>) = (Inr u, s') \<Longrightarrow>
     mail_step sha \<sigma> (\<sigma>\<lparr>sy_state := s', sy_flight := Idle\<rparr>)"
| Finish: "sy_flight \<sigma> = Running ad \<Longrightarrow> \<not> (files_copy ad \<and> applied ex) \<Longrightarrow>
     commit d (finish_execution ad ex now) (sy_state \<sigma>) = (Inr u, s') \<Longrightarrow>
     mail_step sha \<sigma> (\<sigma>\<lparr>sy_state := s', sy_flight := Idle,
       sy_trace := sy_trace \<sigma> @ reported (ad_id ad) ex\<rparr>)"
| Lost: "mail_step sha \<sigma> (\<sigma>\<lparr>sy_flight := Idle\<rparr>)"
| Probe: "sy_flight \<sigma> = Idle \<Longrightarrow> aid \<in> set (due_probes t (sy_state \<sigma>)) \<Longrightarrow>
     (\<forall>e \<in> set (ms_actions (sy_state \<sigma>)). ae_id e = aid \<and> ae_kind e = Send \<longrightarrow> \<not> (\<exists>r. pr = ProbeResume r)) \<Longrightarrow>
     commit d (probed aid pr now) (sy_state \<sigma>) = (r, s') \<Longrightarrow>
     mail_step sha \<sigma> (\<sigma>\<lparr>sy_state := s'\<rparr>)"
| Restart: "sy_flight \<sigma> = Idle \<Longrightarrow>
     commit d (recover p now) (sy_state \<sigma>) = (r, s') \<Longrightarrow>
     mail_step sha \<sigma> (\<sigma>\<lparr>sy_state := s'\<rparr>)"

inductive_cases mail_stepE: "mail_step sha \<sigma> \<tau>"

text \<open>An account that has never acted, whatever else its state holds.\<close>

definition initial :: "sys \<Rightarrow> bool" where
  "initial \<sigma> \<longleftrightarrow> ms_actions (sy_state \<sigma>) = [] \<and> sy_flight \<sigma> = Idle \<and> sy_trace \<sigma> = [] \<and> sy_ids \<sigma> = {}"

definition reachable :: "(string \<Rightarrow> string) \<Rightarrow> sys \<Rightarrow> bool" where
  "reachable sha \<tau> \<longleftrightarrow> (\<exists>\<sigma>. initial \<sigma> \<and> (mail_step sha)\<^sup>*\<^sup>* \<sigma> \<tau>)"

section \<open>The machine's invariant\<close>

definition sends :: "event list \<Rightarrow> string \<Rightarrow> nat" where
  "sends tr i = count_list tr (Begun i Send)"

definition refusals :: "event list \<Rightarrow> string \<Rightarrow> nat" where
  "refusals tr i = count_list tr (NotHappened i)"

definition flight_ok :: "sys \<Rightarrow> bool" where
  "flight_ok \<sigma> \<longleftrightarrow>
     (case sy_flight \<sigma> of
        Idle \<Rightarrow> True
      | Running ad \<Rightarrow> (\<exists>e \<in> set (ms_actions (sy_state \<sigma>)). ae_id e = ad_id ad \<and>
          ae_state e = Executing \<and> ae_probe_after e = None \<and> \<not> ae_uncertain e)
      | Copying ad \<Rightarrow> (\<exists>e \<in> set (ms_actions (sy_state \<sigma>)). ae_id e = ad_id ad \<and>
          ae_state e = Done \<and> sent_copy_of e = Some CopyPending))"

definition resting :: "action_entry \<Rightarrow> bool" where
  "resting e \<longleftrightarrow> ae_kind e = Send \<and> \<not> terminal (ae_state e) \<and> ae_state e \<noteq> Executing"

definition trace_ok :: "sys \<Rightarrow> bool" where
  "trace_ok \<sigma> \<longleftrightarrow>
     (\<forall>i. sends (sy_trace \<sigma>) i \<le> refusals (sy_trace \<sigma>) i + 1) \<and>
     (\<forall>i. i \<notin> sy_ids \<sigma> \<longrightarrow> sends (sy_trace \<sigma>) i = 0) \<and>
     (\<forall>e \<in> set (ms_actions (sy_state \<sigma>)). ae_id e \<in> sy_ids \<sigma>) \<and>
     (\<forall>e \<in> set (ms_actions (sy_state \<sigma>)). resting e \<longrightarrow>
        sends (sy_trace \<sigma>) (ae_id e) \<le> refusals (sy_trace \<sigma>) (ae_id e))"

definition sys_ok :: "sys \<Rightarrow> bool" where
  "sys_ok \<sigma> \<longleftrightarrow> actions_ok (ms_actions (sy_state \<sigma>)) \<and> flight_ok \<sigma> \<and> trace_ok \<sigma>"

lemma count_list_snoc [simp]: "count_list (xs @ [x]) y = count_list xs y + (if x = y then 1 else 0)"
  by (induction xs) auto

lemma commit_actions:
  assumes "commit d change s = (r, s')"
  shows "ms_actions s' = ms_actions s \<or> (\<exists>v. r = Inr v) \<and> ms_actions s' = ms_actions (snd (change s))"
proof (cases r)
  case (Inl e)
  then show ?thesis using assms commit_Inl by fastforce
next
  case (Inr v)
  then show ?thesis using assms commit_Inr[of d change s v s'] fit_frame(1) by fastforce
qed

lemma commit_actions_Inr:
  "commit d change s = (Inr v, s') \<Longrightarrow> fst (change s) = v \<and> ms_actions s' = ms_actions (snd (change s))"
  using commit_Inr[of d change s v s'] fit_frame(1) by fastforce

lemma sys_ok_initial: "initial \<sigma> \<Longrightarrow> sys_ok \<sigma>"
  by (simp add: initial_def sys_ok_def actions_ok_def groups_ok_def flight_ok_def trace_ok_def sends_def)

text \<open>An operation's frame keeps the flight and the trace.\<close>

lemma flight_ok_frame:
  assumes "flight_ok \<sigma>" and "op_frame fresh (ms_actions (sy_state \<sigma>)) (ms_actions s')"
  shows "flight_ok (\<sigma>\<lparr>sy_state := s', sy_ids := ids\<rparr>)"
  using assms by (auto simp: flight_ok_def op_frame_def frozen_def split: flight.splits)

lemma resting_keeps: "keeps x y \<Longrightarrow> resting y \<Longrightarrow> resting x \<and> ae_id y = ae_id x"
  by (auto simp: keeps_def resting_def)

lemma trace_ok_frame:
  assumes "trace_ok \<sigma>" and "op_frame fresh (ms_actions (sy_state \<sigma>)) (ms_actions s')"
    and "fresh \<inter> sy_ids \<sigma> = {}"
  shows "trace_ok (\<sigma>\<lparr>sy_state := s', sy_ids := sy_ids \<sigma> \<union> fresh\<rparr>)"
proof -
  have "ae_id y \<in> sy_ids \<sigma> \<union> fresh \<and>
      (resting y \<longrightarrow> sends (sy_trace \<sigma>) (ae_id y) \<le> refusals (sy_trace \<sigma>) (ae_id y))"
    if mem: "y \<in> set (ms_actions s')" for y
  proof -
    consider x where "x \<in> set (ms_actions (sy_state \<sigma>))" "keeps x y" | "ae_id y \<in> fresh"
      using assms(2) mem by (auto simp: op_frame_def)
    then show ?thesis
    proof cases
      case 1
      then show ?thesis
        using assms(1) resting_keeps[OF 1(2)] by (auto simp: trace_ok_def keeps_def)
    next
      case 2
      then have "ae_id y \<notin> sy_ids \<sigma>" using assms(3) by blast
      then show ?thesis using assms(1) 2 by (simp add: trace_ok_def)
    qed
  qed
  then show ?thesis using assms(1) by (simp add: trace_ok_def)
qed

section \<open>The executor's writes\<close>

text \<open>What every check of \<open>begin_execution\<close> left true.\<close>

definition startable ::
  "(string \<Rightarrow> string) \<Rightarrow> policy \<Rightarrow> string \<Rightarrow> action_content \<Rightarrow> nat \<Rightarrow> action_entry \<Rightarrow> bool" where
  "startable sha p aid c now e \<longleftrightarrow>
     ae_id e = aid \<and> ae_state e = Approved \<and> ae_not_before e \<le> now \<and> \<not> ae_uncertain e \<and>
     (\<exists>by. ae_execute_by e = Some by \<and> now \<le> by) \<and> content_matches sha p e c \<and>
     offers p (co_kind c) (map_option og_form (co_message c)) \<and> recipients_refused p c = None"

definition begun :: "action_entry \<Rightarrow> action_entry" where
  "begun e = e\<lparr>ae_state := Executing, ae_attempts := ae_attempts e + 1, ae_probe_after := None,
     ae_resume := None\<rparr>"

lemma begin_execution_Inr:
  assumes "begin_execution sha p aid content now s = (Inr ad, s')"
  obtains i c where "i < length (ms_actions s)" "content = Some c"
    "startable sha p aid c now (ms_actions s ! i)"
    "ad = \<lparr>ad_id = aid, ad_content = c, ad_attempt = ae_attempts (ms_actions s ! i) + 1,
           ad_resume = ae_resume (ms_actions s ! i)\<rparr>"
    "ms_actions s' = (ms_actions s)[i := begun (ms_actions s ! i)]"
proof -
  obtain i where i: "position (\<lambda>e. ae_id e = aid) (ms_actions s) = Some i"
    using assms by (auto simp: begin_execution_def split: option.splits)
  then have at_i: "i < length (ms_actions s)" "ae_id (ms_actions s ! i) = aid"
    by (auto simp: position_Some_iff)
  obtain c where c: "content = Some c"
    using assms i by (auto simp: begin_execution_def Let_def split: option.splits if_splits)
  have "startable sha p aid c now (ms_actions s ! i) \<and>
      ad = \<lparr>ad_id = aid, ad_content = c, ad_attempt = ae_attempts (ms_actions s ! i) + 1,
           ad_resume = ae_resume (ms_actions s ! i)\<rparr> \<and>
      ms_actions s' = (ms_actions s)[i := begun (ms_actions s ! i)]"
    using assms at_i(2)
    by (auto simp: begin_execution_def i c Let_def startable_def begun_def not_less
        split: option.splits if_splits)
  then show thesis using that at_i(1) c by blast
qed

lemma begin_execution_Inl:
  assumes "begin_execution sha p aid content now s = (Inl why, s')"
  shows "list_all2 owner_step (ms_actions s) (ms_actions s')"
proof (cases "position (\<lambda>e. ae_id e = aid) (ms_actions s)")
  case None
  then show ?thesis using assms by (simp add: begin_execution_def)
next
  case (Some i)
  then have i: "i < length (ms_actions s)" by (simp add: position_Some_iff)
  have "ae_state (ms_actions s ! i) = Approved \<Longrightarrow> st \<in> {Failed, Unknown, Invalid} \<Longrightarrow>
      list_all2 owner_step (ms_actions s) ((ms_actions s)[i := end_entry (ms_actions s ! i) st c now])"
    for st c
    using i by (intro update_owner_step fail_step)
  then show ?thesis
    using assms Some
    by (auto simp: begin_execution_def Let_def split: option.splits if_splits)
qed

definition finished :: "approved \<Rightarrow> execution \<Rightarrow> nat \<Rightarrow> action_entry \<Rightarrow> action_entry" where
  "finished ad ex now e =
     (case ex of
        ExApplied code copy \<Rightarrow>
          if ae_state e = Done then set_sent_copy copy e
          else set_sent_copy copy (end_entry e Done (Some code) now)
      | ExNotApplied retry code \<Rightarrow>
          if retry \<and> ae_attempts e < MAX_ATTEMPTS \<and>
             (case ae_execute_by e of None \<Rightarrow> False | Some by \<Rightarrow> now \<le> by)
          then e\<lparr>ae_state := Approved, ae_not_before := now + (if ae_attempts e \<le> 1 then 30 else 120),
                 ae_resume := ad_resume ad\<rparr>
          else end_entry e Failed (Some code) now
      | ExAmbiguous \<Rightarrow> e\<lparr>ae_probe_after := Some now\<rparr>
      | ExUncertain \<Rightarrow> e\<lparr>ae_uncertain := True, ae_probe_after := Some now\<rparr>)"

lemma finish_execution_actions:
  assumes "position (\<lambda>e. ae_id e = ad_id ad) (ms_actions s) = Some i"
  shows "ms_actions (snd (finish_execution ad ex now s)) =
           (ms_actions s)[i := finished ad ex now (ms_actions s ! i)]"
proof -
  have "i < length (ms_actions s)" using assms by (simp add: position_Some_iff)
  then show ?thesis
    by (cases ex) (auto simp: finish_execution_def assms finished_def Let_def)
qed

definition marked :: "nat \<Rightarrow> action_entry \<Rightarrow> action_entry" where
  "marked now e = set_sent_copy (Some CopyPending) (end_entry e Done (Some Applied) now)"

lemma mark_sent_actions:
  "position (\<lambda>e. ae_id e = ad_id ad) (ms_actions s) = Some i \<Longrightarrow>
     ms_actions (snd (mark_sent ad now s)) = (ms_actions s)[i := marked now (ms_actions s ! i)]"
  by (simp add: mark_sent_def marked_def)

definition checked :: "probe \<Rightarrow> nat \<Rightarrow> action_entry \<Rightarrow> action_entry" where
  "checked pr now e =
     (let deadline = (case ae_execute_by e of None \<Rightarrow> ae_created_at e | Some by \<Rightarrow> by);
          in_time = (now \<le> deadline \<and> ae_attempts e < MAX_ATTEMPTS);
          lost = end_entry e Unknown (Some (if ae_uncertain e then AuthUncertain else Ambiguous)) now
      in case pr of
           ProbeDone \<Rightarrow> end_entry e Done (Some AlreadyDone) now
         | ProbeGone \<Rightarrow>
             if ae_uncertain e then end_entry e Unknown (Some AuthUncertain) now
             else end_entry e Failed (Some Gone) now
         | ProbeNotDone \<Rightarrow>
             if ae_uncertain e then end_entry e Unknown (Some AuthUncertain) now
             else if ae_kind e \<noteq> Send \<and> in_time
             then e\<lparr>ae_state := Approved, ae_not_before := now, ae_probe_after := None\<rparr>
             else if ae_kind e \<noteq> Send then end_entry e Failed (Some Stale) now
             else lost
         | ProbeResume r \<Rightarrow>
             if ae_uncertain e then end_entry e Unknown (Some AuthUncertain) now
             else if in_time
             then e\<lparr>ae_state := Approved, ae_resume := Some r, ae_not_before := now,
                    ae_probe_after := None\<rparr>
             else lost
         | ProbeUnreachable \<Rightarrow>
             if now \<le> deadline + PROBE_GRACE
             then let waited = (case ae_probe_after e of None \<Rightarrow> 0 | Some after \<Rightarrow> now - after)
                  in e\<lparr>ae_probe_after := Some (now + min (max (waited * 2) 30) 600)\<rparr>
             else lost
         | ProbeUnknown \<Rightarrow> lost)"

lemma probed_actions:
  "position (\<lambda>e. ae_id e = aid \<and> ae_state e = Executing) (ms_actions s) = Some i \<Longrightarrow>
     ms_actions (snd (probed aid pr now s)) = (ms_actions s)[i := checked pr now (ms_actions s ! i)]"
  by (cases pr) (auto simp: probed_def probed_entry_def checked_def Let_def)

text \<open>What these do to one record.\<close>

definition executor_step :: "action_entry \<Rightarrow> action_entry \<Rightarrow> bool" where
  "executor_step x y \<longleftrightarrow>
     ae_id y = ae_id x \<and> ae_kind y = ae_kind x \<and> ae_group y = ae_group x \<and>
     ae_digest y = ae_digest x \<and> ae_approval y = ae_approval x \<and>
     (committed_state (ae_state y) \<longrightarrow> committed_state (ae_state x)) \<and> (entry_ok x \<longrightarrow> entry_ok y)"

lemma begun_step:
  "ae_state e = Approved \<Longrightarrow> \<not> ae_uncertain e \<Longrightarrow> executor_step e (begun e)"
  by (auto simp: begun_def executor_step_def entry_ok_def approval_ok_def split: option.splits)

lemma marked_step: "ae_state e = Executing \<Longrightarrow> executor_step e (marked now e)"
  by (auto simp: marked_def executor_step_def entry_ok_def approval_ok_def split: option.splits)

lemma executing_end:
  "ae_state e = Executing \<Longrightarrow> st \<in> {Done, Unknown} \<or> st = Failed \<and> \<not> ae_uncertain e \<Longrightarrow>
     executor_step e (end_entry e st c n)"
  by (auto simp: executor_step_def entry_ok_def approval_ok_def split: option.splits)

lemma executing_retry:
  assumes "ae_state e = Executing" "\<not> ae_uncertain e" "ae_attempts e < MAX_ATTEMPTS"
  shows "executor_step e (e\<lparr>ae_state := Approved, ae_not_before := t, ae_probe_after := q\<rparr>)"
    and "executor_step e (e\<lparr>ae_state := Approved, ae_resume := r, ae_not_before := t, ae_probe_after := q\<rparr>)"
    and "executor_step e (e\<lparr>ae_state := Approved, ae_not_before := t, ae_resume := r\<rparr>)"
  using assms by (auto simp: executor_step_def entry_ok_def approval_ok_def split: option.splits)

lemma executing_wait:
  assumes "ae_state e = Executing"
  shows "executor_step e (e\<lparr>ae_probe_after := q\<rparr>)"
    and "executor_step e (e\<lparr>ae_uncertain := u, ae_probe_after := q\<rparr>)"
  using assms by (auto simp: executor_step_def entry_ok_def approval_ok_def split: option.splits)

lemma executor_step_sent_copy: "executor_step x y \<Longrightarrow> executor_step x (set_sent_copy c y)"
  by (simp add: executor_step_def)

lemma finished_step:
  "ae_state e = Executing \<Longrightarrow> \<not> ae_uncertain e \<Longrightarrow> executor_step e (finished ad ex now e)"
  by (cases ex)
    (simp_all add: finished_def executing_end executing_retry executing_wait executor_step_sent_copy)

lemma copied_step:
  "ae_state e = Done \<Longrightarrow> executor_step e (finished ad (ExApplied c copy) now e)"
  by (auto simp: finished_def executor_step_def entry_ok_def approval_ok_def split: option.splits)

lemma checked_step: "ae_state e = Executing \<Longrightarrow> executor_step e (checked pr now e)"
  by (cases pr) (simp_all add: checked_def Let_def executing_end executing_retry executing_wait)

section \<open>Every step keeps the invariant\<close>

lemma executor_update_ok:
  assumes "actions_ok es" and "i < length es" and "executor_step (es ! i) y"
  shows "actions_ok (es[i := y])"
proof (rule actions_ok_rel[where R = "\<lambda>x y. executor_step x y \<or> y = x"])
  show "list_all2 (\<lambda>x y. executor_step x y \<or> y = x) es (es[i := y])"
    using assms(2,3) by (intro list_all2_update_step) simp_all
qed (use assms(1) in \<open>auto simp: executor_step_def\<close>)

lemma position_of_id:
  assumes "distinct (map ae_id es)" and "e \<in> set es" and "\<And>x. ae_id x = ae_id e \<Longrightarrow> x \<in> set es \<Longrightarrow> P x"
  shows "\<exists>i. position (\<lambda>x. ae_id x = ae_id e \<and> P x) es = Some i \<and> i < length es \<and> es ! i = e"
proof -
  have "position (\<lambda>x. ae_id x = ae_id e \<and> P x) es \<noteq> None"
    using assms(2,3) by (auto simp: position_None_iff)
  then obtain i where i: "position (\<lambda>x. ae_id x = ae_id e \<and> P x) es = Some i" by blast
  then have "i < length es" "ae_id (es ! i) = ae_id e" by (auto simp: position_Some_iff)
  moreover from this have "es ! i = e"
    using assms(1,2) by (auto simp: distinct_map intro: inj_onD)
  ultimately show ?thesis using i by blast
qed

lemma position_id:
  "distinct (map ae_id es) \<Longrightarrow> e \<in> set es \<Longrightarrow>
     \<exists>i. position (\<lambda>x. ae_id x = ae_id e) es = Some i \<and> i < length es \<and> es ! i = e"
  using position_of_id[of es e "\<lambda>_. True"] by simp

lemma trace_okD:
  "trace_ok \<sigma> \<Longrightarrow> e \<in> set (ms_actions (sy_state \<sigma>)) \<Longrightarrow> resting e \<Longrightarrow>
     sends (sy_trace \<sigma>) (ae_id e) \<le> refusals (sy_trace \<sigma>) (ae_id e)"
  by (simp add: trace_ok_def)

lemma trace_ok_update:
  assumes "trace_ok \<sigma>" and i: "i < length (ms_actions (sy_state \<sigma>))"
    and acts: "ms_actions s' = (ms_actions (sy_state \<sigma>))[i := y]"
    and "distinct (map ae_id (ms_actions (sy_state \<sigma>)))"
    and id: "ae_id y = ae_id (ms_actions (sy_state \<sigma>) ! i)"
    and others: "\<And>j. j \<noteq> ae_id y \<Longrightarrow> sends tr' j = sends (sy_trace \<sigma>) j \<and>
           refusals tr' j = refusals (sy_trace \<sigma>) j"
    and self: "sends tr' (ae_id y) \<le> refusals tr' (ae_id y) + 1"
    and rest: "resting y \<Longrightarrow> sends tr' (ae_id y) \<le> refusals tr' (ae_id y)"
  shows "trace_ok (\<sigma>\<lparr>sy_state := s', sy_flight := f, sy_trace := tr'\<rparr>)"
proof -
  let ?es = "ms_actions (sy_state \<sigma>)"
  have used: "ae_id y \<in> sy_ids \<sigma>" using assms(1) id nth_mem[OF i] by (simp add: trace_ok_def)
  have le: "\<forall>j. sends tr' j \<le> refusals tr' j + 1"
    using self others assms(1) by (metis trace_ok_def)
  have zero: "\<forall>j. j \<notin> sy_ids \<sigma> \<longrightarrow> sends tr' j = 0"
    using used others assms(1) by (metis trace_ok_def)
  have "ae_id z \<in> sy_ids \<sigma> \<and> (resting z \<longrightarrow> sends tr' (ae_id z) \<le> refusals tr' (ae_id z))"
    if z: "z \<in> set (?es[i := y])" for z
  proof -
    obtain j where j: "j < length ?es" "z = ?es[i := y] ! j" using z by (auto simp: in_set_conv_nth)
    show ?thesis
    proof (cases "j = i")
      case True
      then show ?thesis using j rest used by simp
    next
      case False
      then have "z = ?es ! j" using j by simp
      moreover have "ae_id (?es ! j) \<noteq> ae_id (?es ! i)"
        using assms(4) False i j(1) by (simp add: distinct_conv_nth)
      ultimately show ?thesis
        using others[of "ae_id z"] id assms(1) nth_mem[OF j(1)] by (simp add: trace_ok_def)
    qed
  qed
  then show ?thesis using le zero acts by (simp add: trace_ok_def)
qed

lemma trace_ok_same:
  assumes "trace_ok \<sigma>" and "i < length (ms_actions (sy_state \<sigma>))"
    and "ms_actions s' = (ms_actions (sy_state \<sigma>))[i := y]"
    and "distinct (map ae_id (ms_actions (sy_state \<sigma>)))"
    and "ae_id y = ae_id (ms_actions (sy_state \<sigma>) ! i)"
    and "\<not> resting y"
  shows "trace_ok (\<sigma>\<lparr>sy_state := s', sy_flight := f\<rparr>)"
proof -
  have "sends (sy_trace \<sigma>) (ae_id y) \<le> refusals (sy_trace \<sigma>) (ae_id y) + 1"
    using assms(1) by (simp add: trace_ok_def)
  then have "trace_ok (\<sigma>\<lparr>sy_state := s', sy_flight := f, sy_trace := sy_trace \<sigma>\<rparr>)"
    using assms(6) by (intro trace_ok_update[OF assms(1-5)]) simp_all
  moreover have "\<sigma>\<lparr>sy_state := s', sy_flight := f, sy_trace := sy_trace \<sigma>\<rparr> =
      \<sigma>\<lparr>sy_state := s', sy_flight := f\<rparr>"
    by (cases \<sigma>) simp
  ultimately show ?thesis by simp
qed

lemma step_begin:
  assumes "sys_ok \<sigma>" and "begin_execution sha p aid content now (sy_state \<sigma>) = (Inr ad, t)"
    and "ms_actions s' = ms_actions t"
  shows "sys_ok (\<sigma>\<lparr>sy_state := s', sy_flight := Running ad,
           sy_trace := sy_trace \<sigma> @ [Begun aid (co_kind (ad_content ad))]\<rparr>)"
proof -
  let ?es = "ms_actions (sy_state \<sigma>)"
  obtain i c where i: "i < length ?es" and st: "startable sha p aid c now (?es ! i)"
    and ad: "ad = \<lparr>ad_id = aid, ad_content = c, ad_attempt = ae_attempts (?es ! i) + 1,
           ad_resume = ae_resume (?es ! i)\<rparr>"
    and t: "ms_actions t = ?es[i := begun (?es ! i)]"
    using begin_execution_Inr[OF assms(2)] by blast
  have kind: "co_kind c = ae_kind (?es ! i)" and id: "ae_id (?es ! i) = aid"
    using st by (simp_all add: startable_def content_matches_def Let_def)
  have ok: "actions_ok ?es" "trace_ok \<sigma>" using assms(1) by (simp_all add: sys_ok_def)
  then have dist: "distinct (map ae_id ?es)" by (simp add: actions_ok_def)
  have b: "ae_id (begun (?es ! i)) = aid" "\<not> resting (begun (?es ! i))"
    using id by (simp_all add: begun_def resting_def)
  have "ae_kind (?es ! i) = Send \<Longrightarrow> resting (?es ! i)"
    using st by (simp add: startable_def resting_def)
  then have sent: "co_kind c = Send \<Longrightarrow> sends (sy_trace \<sigma>) aid \<le> refusals (sy_trace \<sigma>) aid"
    using trace_okD[OF ok(2) nth_mem[OF i]] id kind by simp
  have "trace_ok (\<sigma>\<lparr>sy_state := s', sy_flight := Running ad,
      sy_trace := sy_trace \<sigma> @ [Begun aid (co_kind (ad_content ad))]\<rparr>)"
    using ok(2) i dist b assms(3) t id sent
    by (intro trace_ok_update[where i = i and y = "begun (?es ! i)"])
      (auto simp: ad sends_def refusals_def trace_ok_def)
  moreover have "actions_ok (ms_actions s')"
    using executor_update_ok[OF ok(1) i begun_step] st assms(3) t by (simp add: startable_def)
  moreover have "begun (?es ! i) \<in> set (ms_actions s')"
    using assms(3) t i by (simp add: set_update_memI)
  then have "\<exists>e \<in> set (ms_actions s'). ae_id e = ad_id ad \<and> ae_state e = Executing \<and>
      ae_probe_after e = None \<and> \<not> ae_uncertain e"
    using b(1) st ad by (intro bexI[of _ "begun (?es ! i)"]) (simp_all add: begun_def startable_def)
  ultimately show ?thesis by (simp add: sys_ok_def flight_ok_def)
qed

text \<open>A write of the executor on the one record it holds.\<close>

lemma step_update:
  assumes ok: "sys_ok \<sigma>" and e: "e \<in> set (ms_actions (sy_state \<sigma>))"
    and acts: "\<And>i. i < length (ms_actions (sy_state \<sigma>)) \<Longrightarrow> ms_actions (sy_state \<sigma>) ! i = e \<Longrightarrow>
       position (\<lambda>x. ae_id x = ae_id e) (ms_actions (sy_state \<sigma>)) = Some i \<Longrightarrow>
       ms_actions s' = (ms_actions (sy_state \<sigma>))[i := y]"
    and st: "executor_step e y"
    and tr: "\<And>j. j \<noteq> ae_id e \<Longrightarrow> sends tr' j = sends (sy_trace \<sigma>) j \<and>
       refusals tr' j = refusals (sy_trace \<sigma>) j"
    and self: "sends tr' (ae_id e) = sends (sy_trace \<sigma>) (ae_id e)"
      "refusals (sy_trace \<sigma>) (ae_id e) \<le> refusals tr' (ae_id e)"
    and rest: "resting y \<Longrightarrow> refusals (sy_trace \<sigma>) (ae_id e) < refusals tr' (ae_id e)"
    and fl: "y \<in> set (ms_actions s') \<Longrightarrow> flight_ok (\<sigma>\<lparr>sy_state := s', sy_flight := f, sy_trace := tr'\<rparr>)"
  shows "sys_ok (\<sigma>\<lparr>sy_state := s', sy_flight := f, sy_trace := tr'\<rparr>)"
proof -
  let ?es = "ms_actions (sy_state \<sigma>)"
  have ok': "actions_ok ?es" "trace_ok \<sigma>" using ok by (simp_all add: sys_ok_def)
  then have dist: "distinct (map ae_id ?es)" by (simp add: actions_ok_def)
  obtain i where i: "position (\<lambda>x. ae_id x = ae_id e) ?es = Some i" "i < length ?es" "?es ! i = e"
    using position_id[OF dist e] by blast
  have s': "ms_actions s' = ?es[i := y]" by (rule acts[OF i(2,3,1)])
  have id: "ae_id y = ae_id e" using st by (simp add: executor_step_def)
  have le: "sends (sy_trace \<sigma>) (ae_id e) \<le> refusals (sy_trace \<sigma>) (ae_id e) + 1"
    using ok'(2) by (simp add: trace_ok_def)
  have "trace_ok (\<sigma>\<lparr>sy_state := s', sy_flight := f, sy_trace := tr'\<rparr>)"
    using le self rest id tr i(3)
    by (intro trace_ok_update[OF ok'(2) i(2) s' dist]) force+
  moreover have "actions_ok (ms_actions s')"
    using executor_update_ok[OF ok'(1) i(2)] st i(3) s' by simp
  moreover have "y \<in> set (ms_actions s')" using s' i(2) by (simp add: set_update_memI)
  ultimately show ?thesis using fl by (simp add: sys_ok_def)
qed

lemma sys_trace_same: "\<sigma>\<lparr>sy_state := s', sy_flight := f, sy_trace := sy_trace \<sigma>\<rparr> = \<sigma>\<lparr>sy_state := s', sy_flight := f\<rparr>"
  by (cases \<sigma>) simp

lemma sent_copy_marked [simp]: "sent_copy_of (marked now e) = Some CopyPending"
  by (simp add: marked_def sent_copy_of_def set_sent_copy_def end_entry_def Let_def)

lemma step_mark:
  assumes ok: "sys_ok \<sigma>" and fl: "sy_flight \<sigma> = Running ad"
    and s': "ms_actions s' = ms_actions (snd (mark_sent ad now (sy_state \<sigma>)))"
  shows "sys_ok (\<sigma>\<lparr>sy_state := s', sy_flight := Copying ad\<rparr>)"
proof -
  obtain e where e: "e \<in> set (ms_actions (sy_state \<sigma>))" "ae_id e = ad_id ad" "ae_state e = Executing"
    using ok fl by (auto simp: sys_ok_def flight_ok_def)
  have "sys_ok (\<sigma>\<lparr>sy_state := s', sy_flight := Copying ad, sy_trace := sy_trace \<sigma>\<rparr>)"
  proof (rule step_update[OF ok e(1), where y = "marked now e"])
    show "ms_actions s' = (ms_actions (sy_state \<sigma>))[i := marked now e]"
      if "ms_actions (sy_state \<sigma>) ! i = e"
        "position (\<lambda>x. ae_id x = ae_id e) (ms_actions (sy_state \<sigma>)) = Some i" for i
      using that s' mark_sent_actions[of ad "sy_state \<sigma>" i now] e(2) by simp
    show "flight_ok (\<sigma>\<lparr>sy_state := s', sy_flight := Copying ad, sy_trace := sy_trace \<sigma>\<rparr>)"
      if "marked now e \<in> set (ms_actions s')"
      using that e(2) by (auto simp: flight_ok_def marked_def[symmetric]
          intro!: bexI[of _ "marked now e"]) (simp_all add: marked_def)
  qed (use e(3) in \<open>simp_all add: marked_step\<close>, simp add: marked_def resting_def)
  then show ?thesis by (simp only: sys_trace_same)
qed

lemma finished_resting:
  "ae_state e = Executing \<Longrightarrow> resting (finished ad ex now e) \<Longrightarrow> reported aid ex = [NotHappened aid]"
  by (cases ex) (auto simp: finished_def resting_def)

lemma reported_cases: "reported aid ex = [] \<or> reported aid ex = [NotHappened aid]"
  by (cases ex) simp_all

lemma reported_counts:
  "sends (tr @ reported aid ex) j = sends tr j"
  "j \<noteq> aid \<Longrightarrow> refusals (tr @ reported aid ex) j = refusals tr j"
  "refusals tr j \<le> refusals (tr @ reported aid ex) j"
  "reported aid ex = [NotHappened aid] \<Longrightarrow> refusals tr aid < refusals (tr @ reported aid ex) aid"
  using reported_cases[of aid ex] by (auto simp: sends_def refusals_def)

lemma refusals_snoc [simp]: "refusals (tr @ [NotHappened i]) i = refusals tr i + 1"
  by (simp add: refusals_def)

lemma step_finish:
  assumes ok: "sys_ok \<sigma>" and fl: "sy_flight \<sigma> = Running ad"
    and s': "ms_actions s' = ms_actions (snd (finish_execution ad ex now (sy_state \<sigma>)))"
  shows "sys_ok (\<sigma>\<lparr>sy_state := s', sy_flight := Idle, sy_trace := sy_trace \<sigma> @ reported (ad_id ad) ex\<rparr>)"
proof -
  obtain e where e: "e \<in> set (ms_actions (sy_state \<sigma>))" "ae_id e = ad_id ad" "ae_state e = Executing"
    "\<not> ae_uncertain e"
    using ok fl by (auto simp: sys_ok_def flight_ok_def)
  show ?thesis
  proof (rule step_update[OF ok e(1), where y = "finished ad ex now e"])
    show "ms_actions s' = (ms_actions (sy_state \<sigma>))[i := finished ad ex now e]"
      if "ms_actions (sy_state \<sigma>) ! i = e"
        "position (\<lambda>x. ae_id x = ae_id e) (ms_actions (sy_state \<sigma>)) = Some i" for i
      using that s' finish_execution_actions[of ad "sy_state \<sigma>" i ex now] e(2) by simp
  qed (use e in \<open>simp_all add: finished_step reported_counts finished_resting flight_ok_def\<close>)
qed

lemma step_copied:
  assumes ok: "sys_ok \<sigma>" and fl: "sy_flight \<sigma> = Copying ad"
    and s': "ms_actions s' = ms_actions (snd (finish_execution ad (ExApplied c copy) now (sy_state \<sigma>)))"
  shows "sys_ok (\<sigma>\<lparr>sy_state := s', sy_flight := Idle\<rparr>)"
proof -
  obtain e where e: "e \<in> set (ms_actions (sy_state \<sigma>))" "ae_id e = ad_id ad" "ae_state e = Done"
    using ok fl by (auto simp: sys_ok_def flight_ok_def)
  have "sys_ok (\<sigma>\<lparr>sy_state := s', sy_flight := Idle, sy_trace := sy_trace \<sigma>\<rparr>)"
  proof (rule step_update[OF ok e(1), where y = "finished ad (ExApplied c copy) now e"])
    show "ms_actions s' = (ms_actions (sy_state \<sigma>))[i := finished ad (ExApplied c copy) now e]"
      if "ms_actions (sy_state \<sigma>) ! i = e"
        "position (\<lambda>x. ae_id x = ae_id e) (ms_actions (sy_state \<sigma>)) = Some i" for i
      using that s' finish_execution_actions[of ad "sy_state \<sigma>" i _ now] e(2) by simp
  qed (use e(3) in \<open>simp_all add: copied_step flight_ok_def\<close>,
      use e(3) in \<open>simp add: finished_def resting_def\<close>)
  then show ?thesis by (simp only: sys_trace_same)
qed

lemma due_probe_entry:
  assumes "aid \<in> set (due_probes t s)" and "distinct (map ae_id (ms_actions s))"
  obtains e i where "e \<in> set (ms_actions s)" "ae_id e = aid" "ae_state e = Executing"
    "position (\<lambda>x. ae_id x = aid \<and> ae_state x = Executing) (ms_actions s) = Some i"
    "i < length (ms_actions s)" "ms_actions s ! i = e"
proof -
  obtain e where e: "e \<in> set (ms_actions s)" "ae_id e = aid" "ae_state e = Executing"
    using assms(1) by (auto simp: due_probes_def)
  have "ae_state x = Executing" if "ae_id x = ae_id e" "x \<in> set (ms_actions s)" for x
    using assms(2) e that by (auto simp: distinct_map dest: inj_onD)
  then show thesis
    using position_of_id[OF assms(2) e(1), of "\<lambda>x. ae_state x = Executing"] that e by blast
qed

lemma checked_resting:
  "resting (checked pr now e) \<Longrightarrow> ae_state e = Executing \<Longrightarrow> ae_kind e = Send \<and> (\<exists>r. pr = ProbeResume r)"
  by (cases pr) (auto simp: checked_def resting_def Let_def split: if_splits)

lemma step_probe:
  assumes ok: "sys_ok \<sigma>" and fl: "sy_flight \<sigma> = Idle"
    and due: "aid \<in> set (due_probes t (sy_state \<sigma>))"
    and resume: "\<forall>e \<in> set (ms_actions (sy_state \<sigma>)). ae_id e = aid \<and> ae_kind e = Send \<longrightarrow>
       \<not> (\<exists>r. pr = ProbeResume r)"
    and s': "ms_actions s' = ms_actions (snd (probed aid pr now (sy_state \<sigma>)))"
  shows "sys_ok (\<sigma>\<lparr>sy_state := s'\<rparr>)"
proof -
  have "distinct (map ae_id (ms_actions (sy_state \<sigma>)))"
    using ok by (simp add: sys_ok_def actions_ok_def)
  from due_probe_entry[OF due this]
  obtain e k where e: "e \<in> set (ms_actions (sy_state \<sigma>))" "ae_id e = aid" "ae_state e = Executing"
    and k: "position (\<lambda>x. ae_id x = aid \<and> ae_state x = Executing) (ms_actions (sy_state \<sigma>)) = Some k"
      "k < length (ms_actions (sy_state \<sigma>))" "ms_actions (sy_state \<sigma>) ! k = e" .
  have dist: "distinct (map ae_id (ms_actions (sy_state \<sigma>)))"
    using ok by (simp add: sys_ok_def actions_ok_def)
  have "sys_ok (\<sigma>\<lparr>sy_state := s', sy_flight := Idle, sy_trace := sy_trace \<sigma>\<rparr>)"
  proof (rule step_update[OF ok e(1), where y = "checked pr now e"])
    fix i
    assume i: "i < length (ms_actions (sy_state \<sigma>))" "ms_actions (sy_state \<sigma>) ! i = e"
    then have "i = k" using dist k(2,3) by (metis distinct_map nth_eq_iff_index_eq)
    then show "ms_actions s' = (ms_actions (sy_state \<sigma>))[i := checked pr now e]"
      using s' probed_actions[OF k(1), of pr now] k(3) by simp
  next
    assume "resting (checked pr now e)"
    then show "refusals (sy_trace \<sigma>) (ae_id e) < refusals (sy_trace \<sigma>) (ae_id e)"
      using checked_resting[of pr now e] e resume by blast
  qed (use e(3) in \<open>simp_all add: checked_step flight_ok_def\<close>)
  moreover have "\<sigma>\<lparr>sy_state := s', sy_flight := Idle, sy_trace := sy_trace \<sigma>\<rparr> = \<sigma>\<lparr>sy_state := s'\<rparr>"
    using fl by (cases \<sigma>) simp
  ultimately show ?thesis by simp
qed

lemma sys_ok_frame:
  assumes ok: "sys_ok \<sigma>" and "op_frame fresh (ms_actions (sy_state \<sigma>)) (ms_actions s')"
    and "actions_ok (ms_actions s')" and "fresh \<inter> sy_ids \<sigma> = {}"
  shows "sys_ok (\<sigma>\<lparr>sy_state := s', sy_ids := sy_ids \<sigma> \<union> fresh\<rparr>)"
  using assms flight_ok_frame[of \<sigma> fresh s'] trace_ok_frame[of \<sigma> fresh s']
  by (simp add: sys_ok_def)

lemma sys_ok_same_ids:
  assumes "sys_ok \<sigma>" and "op_frame {} (ms_actions (sy_state \<sigma>)) (ms_actions s')"
    and "actions_ok (ms_actions s')"
  shows "sys_ok (\<sigma>\<lparr>sy_state := s'\<rparr>)"
proof -
  have "\<sigma>\<lparr>sy_state := s', sy_ids := sy_ids \<sigma> \<union> {}\<rparr> = \<sigma>\<lparr>sy_state := s'\<rparr>" by (cases \<sigma>) simp
  then show ?thesis using sys_ok_frame[OF assms] by simp
qed

text \<open>A restart touches what was being carried out, but nothing is in flight then.\<close>

lemma step_restart:
  assumes ok: "sys_ok \<sigma>" and "sy_flight \<sigma> = Idle"
    and ev: "list_all2 evolves (ms_actions (sy_state \<sigma>)) (ms_actions s')"
  shows "sys_ok (\<sigma>\<lparr>sy_state := s'\<rparr>)"
proof -
  have "actions_ok (ms_actions s')" using ok actions_ok_evolve[OF ev] by (simp add: sys_ok_def)
  moreover have "trace_ok (\<sigma>\<lparr>sy_state := s'\<rparr>)"
  proof -
    have "ae_id y \<in> sy_ids \<sigma> \<and>
        (resting y \<longrightarrow> sends (sy_trace \<sigma>) (ae_id y) \<le> refusals (sy_trace \<sigma>) (ae_id y))"
      if "y \<in> set (ms_actions s')" for y
    proof -
      have "\<exists>x \<in> set (ms_actions (sy_state \<sigma>)). evolves x y" by (rule all2_origin[OF ev that])
      then obtain x where x: "x \<in> set (ms_actions (sy_state \<sigma>))" "keeps x y"
        by (auto simp: evolves_def)
      then show ?thesis
        using ok resting_keeps[OF x(2)] trace_okD[of \<sigma> x]
        by (auto simp: sys_ok_def trace_ok_def keeps_def)
    qed
    then show ?thesis using ok by (simp add: sys_ok_def trace_ok_def)
  qed
  ultimately show ?thesis using assms(2) by (simp add: sys_ok_def flight_ok_def)
qed

lemma sys_ok_same_actions:
  "sys_ok \<sigma> \<Longrightarrow> ms_actions s' = ms_actions (sy_state \<sigma>) \<Longrightarrow> sys_ok (\<sigma>\<lparr>sy_state := s'\<rparr>)"
  by (rule sys_ok_same_ids) (simp_all add: op_frame_owner sys_ok_def)

lemma sys_ok_step:
  assumes "mail_step sha \<sigma> \<tau>" and ok: "sys_ok \<sigma>"
  shows "sys_ok \<tau>"
  using assms(1)
proof cases
  case (Ledger d op r s')
  have "ms_actions s' = ms_actions (sy_state \<sigma>) \<or> ms_actions s' = ms_actions (ledger_change op (sy_state \<sigma>))"
    using commit_actions[OF Ledger(2)] by auto
  then have "op_frame (new_ids op) (ms_actions (sy_state \<sigma>)) (ms_actions s') \<and> actions_ok (ms_actions s')"
    using ledger_frame ledger_ok ok by (auto simp: sys_ok_def op_frame_owner)
  then show ?thesis using Ledger sys_ok_frame[OF ok] by simp
next
  case (Begin d p aid content now ad s')
  obtain t where "begin_execution sha p aid content now (sy_state \<sigma>) = (Inr ad, t)"
      "ms_actions s' = ms_actions t"
    using commit_actions_Inr[OF Begin(3)] by (metis prod.collapse)
  then show ?thesis using step_begin[OF ok] Begin(1) by blast
next
  case (Refuse d p aid content now why s')
  obtain t where "begin_execution sha p aid content now (sy_state \<sigma>) = (Inl why, t)"
      "ms_actions s' = ms_actions t"
    using commit_actions_Inr[OF Refuse(3)] by (metis prod.collapse)
  then have "list_all2 owner_step (ms_actions (sy_state \<sigma>)) (ms_actions s')"
    using begin_execution_Inl by metis
  then show ?thesis
    using Refuse(1) ok sys_ok_same_ids op_frame_owner actions_ok_evolve[OF owner_steps_evolve]
    by (simp add: sys_ok_def)
next
  case (MarkSent ad d now u s')
  then show ?thesis using step_mark[OF ok] commit_actions_Inr[OF MarkSent(4)] by simp
next
  case (Copied ad copy d now u s')
  then show ?thesis using step_copied[OF ok] commit_actions_Inr[OF Copied(4)] by simp
next
  case (Finish ad ex d now u s')
  then show ?thesis using step_finish[OF ok] commit_actions_Inr[OF Finish(4)] by simp
next
  case Lost
  then show ?thesis using ok by (simp add: sys_ok_def flight_ok_def trace_ok_def)
next
  case (Probe aid t pr d now r s')
  then show ?thesis
    using commit_actions[OF Probe(5)] step_probe[OF ok Probe(2-4)] sys_ok_same_actions[OF ok] by auto
next
  case (Restart d p now r s')
  then show ?thesis
    using commit_actions[OF Restart(3)] step_restart[OF ok Restart(2)] recover_steps
      sys_ok_same_actions[OF ok] by auto
qed

interpretation mailm: step_machine "mail_step sha" initial sys_ok for sha
  by unfold_locales (rule sys_ok_initial, assumption, rule sys_ok_step)

lemma reachable_ok: "reachable sha \<sigma> \<Longrightarrow> sys_ok \<sigma>"
  by (auto simp: reachable_def intro: mailm.inv_reach)

lemma reachable_step: "reachable sha \<sigma> \<Longrightarrow> mail_step sha \<sigma> \<tau> \<Longrightarrow> reachable sha \<tau>"
  unfolding reachable_def by (meson rtranclp.rtrancl_into_rtrancl)

end
