(* ===== verification/Mail_Theorems.thy ===== *)
theory Mail_Theorems
  imports Mail_Safety
begin

text \<open>
  What the mail ledger guarantees: the theorems about approval, execution and exclusion, over every
  reachable state of the machine of \<open>Mail_Safety\<close>, and one concrete run that shows each at work.
\<close>

section \<open>A concrete run\<close>

text \<open>
  One send from proposal to execution, on a disk that always has room: proposed by the owner's
  request, handed over, stored and delivered, approved by the owner, and begun.
\<close>

definition roomy :: disk where
  "roomy = \<lparr>dk_json = (\<lambda>_. []), dk_max_bytes = 0, dk_save = (\<lambda>_. True)\<rparr>"

lemma commit_roomy [simp]: "commit roomy change s = (Inr (fst (change s)), snd (change s))"
  by (simp add: commit_def roomy_def fit_def Let_def case_prod_unfold)

definition sample_settings :: action_settings where
  "sample_settings = \<lparr>se_draft = Off, se_send = ModeApprove, se_forward = Off, se_archive = Off,
     se_mark_read = Off, se_trash = Off, se_spam = Off, se_propose = [], se_reply_instructions = [],
     se_compose_model = [], se_max_compose_per_day = 20, se_reply_to = Honor, se_reply_all = False,
     se_recipient_domains = [], se_max_recipients = 3, se_approval_hours = 24,
     se_max_pending_hours = 48, se_execute_minutes = 30, se_max_open = 5, se_max_sends_per_day = 2,
     se_max_drafts_per_day = 0, se_max_moves_per_day = 0, se_max_flags_per_day = 0,
     se_drafts_folder = [], se_sent_folder = [], se_trash_folder = [], se_spam_folder = [],
     se_archive_folder = [], se_sent_copy = CopyProvider, se_from_name = [], se_handle_days = 7\<rparr>"

definition sample_policy :: policy where
  "sample_policy = \<lparr>po_actions = sample_settings, po_routes = [''slack:me''], po_fingerprint = ''f'',
     po_account = ''mail'', po_tombstone_seconds = 1000, po_unknown_keep_seconds = 1000,
     po_possible = [Send]\<rparr>"

definition sample_sha :: "string \<Rightarrow> string" where
  "sample_sha s = ''H''"

definition sample_mail :: action_content where
  "sample_mail = seal_digest sample_sha ((sample_content ''a@x.org'')\<lparr>co_group := Some ''g1''\<rparr>)"

lemma sample_digest [simp]: "compute_digest sample_sha c = ''48''"
proof -
  have "hex ''H'' = ''48''" by code_simp
  then show ?thesis by (simp add: compute_digest_def sample_sha_def)
qed

lemma sample_mail_sealed [code]:
  "sample_mail = (sample_content ''a@x.org'')\<lparr>co_group := Some ''g1'', co_digest := ''48''\<rparr>"
  by (simp add: sample_mail_def seal_digest_def)

definition sample_new :: new_action where
  "sample_new = new_of sample_mail ''owner:slack:me:m1:0'' ''AB12''"

lemma sample_new_eq [code]:
  "sample_new = \<lparr>na_id = ''a1'', na_kind = Send, na_group = Some ''g1'', na_form = Some Compose,
     na_handle = None, na_digest = ''48'', na_origin_key = ''owner:slack:me:m1:0'',
     na_code = ''AB12'', na_created_at = 100, na_hard_expiry = 200\<rparr>"
  by (simp add: sample_new_def new_of_def sample_mail_sealed sample_content_def)

definition sample_evidence :: chat_evidence where
  "sample_evidence = \<lparr>ev_route = ''slack:me'', ev_peer = ''owner'', ev_message_id = ''m2'',
     ev_sent_ms = Some 130000\<rparr>"

definition sample_world :: world where
  "sample_world = \<lparr>wd_owner = (\<lambda>_. Some ''owner''), wd_delivered = (\<lambda>_ _. None)\<rparr>"

definition sample_entry :: action_entry where
  "sample_entry = (entry_of sample_new)\<lparr>ae_preview := empty_preview\<lparr>pv_route := Some ''slack:me''\<rparr>\<rparr>"

definition sample_item :: item where
  "sample_item = \<lparr>it_seq = 0, it_created_at = 100, it_key = ''preview:a1:1'', it_class = Response,
     it_urgent = False, it_text = ''Approve AB12?'', it_actions = [''a1'']\<rparr>"

definition sample_batch :: batch where
  "sample_batch = \<lparr>ba_key = ''mail::batch:r'', ba_class = SendResponse, ba_seqs = [0],
     ba_text = ''Approve AB12?'', ba_counts = empty_counts, ba_attempts = 0,
     ba_next_attempt_at = 101, ba_created_at = 101\<rparr>"

definition sample_1 :: mail_state where
  "sample_1 = empty_state\<lparr>ms_actions := [sample_entry], ms_queue := [sample_item], ms_next_seq := 1\<rparr>"

definition op_1 :: ledger_op where
  "op_1 = OpPropose 5 [''slack:me''] None [sample_new] (''preview:a1:1'', ''Approve AB12?'') [] 100"

lemma step_1: "ledger_change op_1 empty_state = sample_1"
  by (simp add: op_1_def sample_1_def propose_def add_proposed_def empty_state_def bind_unassigned_def
      push_item_with_def key_taken_def cut_text_def item_max_def ledger_consts sample_item_def
      sample_entry_def sample_new_eq entry_of_def bind_entry_def empty_preview_def intended_route_def
      owner_route_def strip_prefix_def Let_def)

definition sample_entry_2 :: action_entry where
  "sample_entry_2 = sample_entry\<lparr>ae_state := Previewing,
     ae_preview := (ae_preview sample_entry)\<lparr>pv_key := Some ''mail::batch:r''\<rparr>\<rparr>"

definition sample_2 :: mail_state where
  "sample_2 = sample_1\<lparr>ms_actions := [sample_entry_2], ms_batch := Some sample_batch\<rparr>"

definition op_2 :: ledger_op where
  "op_2 = OpBeginBatch [''slack:me''] ''r'' [0] SendResponse ''Approve AB12?'' empty_counts 101"

lemma step_2: "ledger_change op_2 sample_1 = sample_2"
  by (simp add: op_2_def sample_2_def sample_1_def begin_batch_def batch_previews_def sample_batch_def
     bind_unassigned_def empty_state_def preview_entry_def sample_entry_def sample_entry_2_def
     sample_item_def bind_entry_def empty_preview_def entry_of_def sample_new_eq Let_def)

definition sample_entry_3 :: action_entry where
  "sample_entry_3 = sample_entry_2\<lparr>ae_preview := (ae_preview sample_entry_2)\<lparr>pv_peer := Some ''owner'',
     pv_stored_at := Some 102\<rparr>\<rparr>"

definition sample_3 :: mail_state where
  "sample_3 = empty_state\<lparr>ms_actions := [sample_entry_3], ms_next_seq := 1,
     ms_sent_keys := [\<lparr>st_key = ''preview:a1:1'', st_at = 102\<rparr>],
     ms_log := [\<lparr>lg_at = 102, lg_class = SendResponse\<rparr>],
     ms_watched := [\<lparr>wa_key = ''mail::batch:r'', wa_route = ''slack:me'', wa_at = 102\<rparr>]\<rparr>"

definition op_3 :: ledger_op where
  "op_3 = OpBatchStored ''slack:me'' ''owner'' 102"

lemma step_3: "ledger_change op_3 sample_2 = sample_3"
  by (simp add: op_3_def sample_3_def sample_2_def sample_1_def batch_stored_def sample_batch_def
     previews_stored_def previewing_as_def empty_state_def sample_entry_3_def sample_entry_2_def
     sample_entry_def sample_item_def entry_of_def sample_new_eq empty_preview_def prune_def
     prune_actions_def ring_def ledger_consts counts_minus_def empty_counts_def Let_def)

definition sample_entry_4 :: action_entry where
  "sample_entry_4 = sample_entry_3\<lparr>ae_state := Open, ae_expires_at := 200,
     ae_preview := (ae_preview sample_entry_3)\<lparr>pv_delivered_ms := Some 120000\<rparr>\<rparr>"

definition sample_4 :: mail_state where
  "sample_4 = sample_3\<lparr>ms_actions := [sample_entry_4], ms_watched := []\<rparr>"

definition op_4 :: ledger_op where
  "op_4 = OpSettle (Some sample_policy) [] 103 [(''mail::batch:r'', 120000)] []"

lemma step_4: "ledger_change op_4 sample_3 = sample_4"
  by (simp add: op_4_def sample_4_def sample_3_def settle_watched_def previews_delivered_def
     previewing_as_def open_entry_def sample_entry_4_def sample_entry_3_def sample_entry_2_def
     sample_entry_def entry_of_def sample_new_eq empty_preview_def empty_state_def empty_counts_def
     sample_policy_def sample_settings_def ledger_consts Let_def)

definition sample_entry_5 :: action_entry where
  "sample_entry_5 = granted sample_policy sample_evidence 130000 140 sample_entry_4"

definition sample_5 :: mail_state where
  "sample_5 = sample_4\<lparr>ms_actions := [sample_entry_5],
     ms_reservations := [\<lparr>rs_id = ''a1'', rs_limit = Sends, rs_at = 140\<rparr>],
     ms_approvals := [\<lparr>st_key = ''m2'', st_at = 140\<rparr>]\<rparr>"

definition op_5 :: ledger_op where
  "op_5 = OpApprove sample_policy [''AB12''] sample_evidence sample_world 140"

lemmas sample_entry_defs = sample_entry_5_def sample_entry_4_def sample_entry_3_def sample_entry_2_def
  sample_entry_def entry_of_def sample_new_eq empty_preview_def

lemma step_5: "ledger_change op_5 sample_4 = sample_5"
  by (simp add: op_5_def sample_5_def sample_4_def sample_3_def approve_def approve_code_def approve_at_def
     has_code_def open_delivered_def upd_entry_def same_chat_def sample_evidence_def sample_world_def
     offers_def allows_def sample_policy_def sample_settings_def used_def group_taken_def grant_def
     supersede_sibling_def granted_def sample_entry_defs empty_state_def Let_def)
definition begun_ad :: approved where
  "begun_ad = \<lparr>ad_id = ''a1'', ad_content = sample_mail, ad_attempt = 1, ad_resume = None\<rparr>"

definition sample_6 :: mail_state where
  "sample_6 = sample_5\<lparr>ms_actions := [begun sample_entry_5]\<rparr>"

lemma sample_mail_fields:
  "co_id sample_mail = ''a1''" "co_digest sample_mail = ''48''" "co_kind sample_mail = Send"
  "co_fingerprint sample_mail = ''f''" "co_account sample_mail = ''mail''"
  "map_option og_form (co_message sample_mail) = Some Compose"
  by (simp_all add: sample_mail_sealed sample_content_def)

lemma sample_address: "valid_address ''a@x.org'' = Some ''a@x.org''"
  by code_simp

lemma sample_recipients: "recipients_refused sample_policy sample_mail = None"
  by (simp add: recipients_refused_def addresses_refused_def address_refused_def sample_address
      recipients_def sample_mail_sealed sample_content_def sample_policy_def sample_settings_def)

lemma sample_policy_fields:
  "po_fingerprint sample_policy = ''f''" "po_account sample_policy = ''mail''"
  "offers sample_policy Send (Some Compose)"
  by (simp_all add: sample_policy_def sample_settings_def offers_def allows_def)

lemma sample_entry_5_fields:
  "ae_id sample_entry_5 = ''a1''" "ae_state sample_entry_5 = Approved" "ae_kind sample_entry_5 = Send"
  "ae_digest sample_entry_5 = ''48''" "ae_not_before sample_entry_5 = 140"
  "\<not> ae_uncertain sample_entry_5" "ae_execute_by sample_entry_5 = Some 1940"
  "map_option ap_digest (ae_approval sample_entry_5) = Some ''48''"
  "ae_attempts sample_entry_5 = 0" "ae_resume sample_entry_5 = None"
  "ae_group sample_entry_5 = Some ''g1''"
  by (simp_all add: sample_entry_defs granted_def sample_policy_def sample_settings_def
      sample_evidence_def)

lemma step_6:
  "begin_execution sample_sha sample_policy ''a1'' (Some sample_mail) 150 sample_5 = (Inr begun_ad, sample_6)"
  by (simp add: begin_execution_def sample_5_def sample_6_def content_matches_def sample_mail_fields
      sample_recipients sample_policy_fields sample_entry_5_fields begun_ad_def begun_def upd_entry_def
      Let_def)

definition run_op :: "ledger_op \<Rightarrow> mail_state \<Rightarrow> sys \<Rightarrow> sys" where
  "run_op op s \<sigma> = \<sigma>\<lparr>sy_state := s, sy_ids := sy_ids \<sigma> \<union> new_ids op\<rparr>"

definition start :: sys where
  "start = \<lparr>sy_state = empty_state, sy_flight = Idle, sy_trace = [], sy_ids = {}\<rparr>"

definition sample_approved :: sys where
  "sample_approved = run_op op_5 sample_5 (run_op op_4 sample_4 (run_op op_3 sample_3
     (run_op op_2 sample_2 (run_op op_1 sample_1 start))))"

definition sample_running :: sys where
  "sample_running = sample_approved\<lparr>sy_state := sample_6, sy_flight := Running begun_ad,
     sy_trace := [Begun ''a1'' Send]\<rparr>"

lemma run_op_reachable:
  assumes "reachable sha \<sigma>" and "new_ids op \<inter> sy_ids \<sigma> = {}"
    and "ledger_change op (sy_state \<sigma>) = s"
  shows "reachable sha (run_op op s \<sigma>)"
  unfolding run_op_def using assms
  by (intro reachable_step[OF assms(1)] mail_step.Ledger[of roomy op \<sigma> "Inr ()"]) simp_all

lemma start_reachable: "reachable sha start"
proof -
  have "initial start" by (simp add: initial_def start_def empty_state_def)
  then show ?thesis unfolding reachable_def by blast
qed

lemma sample_new_ids:
  "new_ids op_1 = {''a1''}" "new_ids op_2 = {}" "new_ids op_3 = {}" "new_ids op_4 = {}" "new_ids op_5 = {}"
  by (simp_all add: op_1_def op_2_def op_3_def op_4_def op_5_def sample_new_eq)

lemma sample_approved_reachable: "reachable sha sample_approved"
  unfolding sample_approved_def
  by (intro run_op_reachable start_reachable)
    (simp_all add: run_op_def start_def step_1 step_2 step_3 step_4 step_5 sample_new_ids)

lemma sample_approved_state:
  "sy_state sample_approved = sample_5" "sy_flight sample_approved = Idle" "sy_trace sample_approved = []"
  by (simp_all add: sample_approved_def run_op_def start_def)

lemma sample_begin: "mail_step sample_sha sample_approved sample_running"
  using mail_step.Begin[of sample_approved roomy sample_sha sample_policy "''a1''" "Some sample_mail"
      150 begun_ad sample_6]
  by (simp add: sample_approved_state step_6 sample_running_def begun_ad_def sample_mail_fields)

lemma sample_running_reachable: "reachable sample_sha sample_running"
  by (rule reachable_step[OF sample_approved_reachable sample_begin])

lemma sample_actions:
  "ms_actions (sy_state sample_approved) = [sample_entry_5]"
  "ms_actions (sy_state sample_running) = [begun sample_entry_5]"
  by (simp_all add: sample_approved_state sample_running_def sample_5_def sample_6_def)

section \<open>Execution\<close>

text \<open>
  C1. Nothing is carried out without the owner's approval of exactly that content. When
  \<open>begin_execution\<close> hands out a sealed \<open>Approved\<close>, the record with that ID was \<open>Approved\<close> and due, not
  past its deadline and not of uncertain outcome; the content hashes to the digest the owner
  approved, under the account and credentials the ledger runs with; the settings and the provider
  offer it; every recipient is a plain address within the allowed domains and their number within
  its limit. The record is \<open>Executing\<close>, one try later, and no other record changes.
\<close>

theorem begin_execution_checked:
  assumes "begin_execution sha p aid content now s = (Inr ad, s')"
  shows "\<exists>i c e a by.
      i < length (ms_actions s) \<and> ms_actions s ! i = e \<and> content = Some c \<and> ad_content ad = c \<and>
      ad_id ad = aid \<and> ae_id e = aid \<and> co_id c = aid \<and>
      ae_state e = Approved \<and> ae_not_before e \<le> now \<and> \<not> ae_uncertain e \<and>
      ae_execute_by e = Some by \<and> now \<le> by \<and>
      ae_approval e = Some a \<and> ap_digest a = compute_digest sha c \<and> ae_digest e = compute_digest sha c \<and>
      co_fingerprint c = po_fingerprint p \<and> co_account c = po_account p \<and>
      offers p (co_kind c) (map_option og_form (co_message c)) \<and>
      length (recipients c) \<le> se_max_recipients (po_actions p) \<and>
      (\<forall>r \<in> set (recipients c). valid_address r = Some r \<and>
         (se_recipient_domains (po_actions p) \<noteq> [] \<longrightarrow>
            domain_allowed (se_recipient_domains (po_actions p)) r)) \<and>
      ms_actions s' = (ms_actions s)[i := begun e]"
proof -
  obtain i c where i: "i < length (ms_actions s)" "content = Some c"
    and st: "startable sha p aid c now (ms_actions s ! i)"
    and ad: "ad = \<lparr>ad_id = aid, ad_content = c, ad_attempt = ae_attempts (ms_actions s ! i) + 1,
           ad_resume = ae_resume (ms_actions s ! i)\<rparr>"
    and s': "ms_actions s' = (ms_actions s)[i := begun (ms_actions s ! i)]"
    using begin_execution_Inr[OF assms] by blast
  obtain a where a: "ae_approval (ms_actions s ! i) = Some a" "ap_digest a = compute_digest sha c"
    using st by (cases "ae_approval (ms_actions s ! i)") (auto simp: startable_def content_matches_def Let_def)
  obtain b where b: "ae_execute_by (ms_actions s ! i) = Some b" "now \<le> b"
    using st by (auto simp: startable_def)
  have r: "recipients_refused p c = None" using st by (simp add: startable_def)
  show ?thesis
    by (rule exI[of _ i], rule exI[of _ c], rule exI[of _ "ms_actions s ! i"], rule exI[of _ a],
        rule exI[of _ b])
      (use i st ad s' a b recipients_accepted[OF r] in
        \<open>auto simp: startable_def content_matches_def Let_def\<close>)
qed

theorem begin_execution_checked_witness:
  "begin_execution sample_sha sample_policy ''a1'' (Some sample_mail) 150 sample_5 = (Inr begun_ad, sample_6) \<and>
   (\<exists>a. ae_approval (ms_actions sample_5 ! 0) = Some a \<and> ap_digest a = compute_digest sample_sha sample_mail)"
proof -
  have "length (ms_actions sample_5) = 1" by (simp add: sample_5_def)
  then show ?thesis using begin_execution_checked[OF step_6] step_6 by auto
qed

text \<open>
  C2. In every reachable state a record whose action was approved, is being carried out, or ended
  after that, carries the evidence of its approval: the digest approved is the record's, the
  approving message came in the chat and from the peer its preview was stored for, was sent no
  earlier than the preview was delivered, and was recorded before the record expired. No record
  was tried more than three times.
\<close>

theorem acted_on_only_with_approval:
  assumes "reachable sha \<sigma>" and "e \<in> set (ms_actions (sy_state \<sigma>))"
    and "ae_state e \<in> {Approved, Executing, Done, Failed, Unknown, Invalid}"
  shows "\<exists>a d. ae_approval e = Some a \<and> ap_digest a = ae_digest e \<and>
      pv_route (ae_preview e) = Some (ap_route a) \<and> pv_peer (ae_preview e) = Some (ap_peer a) \<and>
      pv_delivered_ms (ae_preview e) = Some d \<and> d \<le> ap_sent_ms a \<and>
      ap_recorded_at a < ae_expires_at e \<and> ae_expires_at e \<le> ae_hard_expiry e \<and>
      ae_attempts e \<le> MAX_ATTEMPTS"
proof -
  have "entry_ok e"
    using reachable_ok[OF assms(1)] assms(2) by (simp add: sys_ok_def actions_ok_def list_all_iff)
  then show ?thesis
    using assms(3) by (auto simp: entry_ok_def approval_ok_def split: option.splits)
qed

theorem acted_on_only_with_approval_witness:
  "reachable sample_sha sample_running \<and> begun sample_entry_5 \<in> set (ms_actions (sy_state sample_running)) \<and>
   (\<exists>a. ae_approval (begun sample_entry_5) = Some a \<and> ap_digest a = ''48'')"
  using acted_on_only_with_approval[OF sample_running_reachable, of "begun sample_entry_5"]
    sample_running_reachable
  by (auto simp: sample_actions begun_def sample_entry_5_fields)

text \<open>
  C3. Alternatives exclude each other: in every reachable state at most one action of a group is
  approved, being carried out, or done.
\<close>

theorem one_choice_per_group:
  assumes "reachable sha \<sigma>" and "x \<in> set (ms_actions (sy_state \<sigma>))" and "y \<in> set (ms_actions (sy_state \<sigma>))"
    and "ae_group x = Some g" and "ae_group y = Some g"
    and "ae_state x \<in> {Approved, Executing, Done}" and "ae_state y \<in> {Approved, Executing, Done}"
  shows "x = y"
proof -
  have ok: "actions_ok (ms_actions (sy_state \<sigma>))"
    using reachable_ok[OF assms(1)] by (simp add: sys_ok_def)
  then have "ae_id x = ae_id y"
    using assms by (intro groups_okD[of "ms_actions (sy_state \<sigma>)"])
      (simp_all add: actions_ok_def committed_state_def)
  then show ?thesis
    using ok assms(2,3) by (auto simp: actions_ok_def distinct_map dest: inj_onD)
qed

theorem one_choice_per_group_witness:
  "reachable sample_sha sample_approved \<and> ae_group sample_entry_5 = Some ''g1'' \<and>
   ae_state sample_entry_5 = Approved \<and> sample_entry_5 = hd (ms_actions (sy_state sample_approved))"
  using one_choice_per_group[OF sample_approved_reachable, of sample_entry_5
      "hd (ms_actions (sy_state sample_approved))" "''g1''"] sample_approved_reachable
  by (simp add: sample_actions sample_entry_5_fields)

text \<open>
  C4. A send goes out at most once. Over any interleaving of the ledger's operations with the
  executor, with failed writes, crashes and restarts, the number of times a send is handed to the
  provider exceeds the number of times the provider answered that nothing happened by at most
  one: after an applied, unclear, uncertain, interrupted or lost try it is never handed over again.
\<close>

theorem send_at_most_once:
  assumes "reachable sha \<sigma>"
  shows "sends (sy_trace \<sigma>) i \<le> refusals (sy_trace \<sigma>) i + 1"
  using reachable_ok[OF assms] by (simp add: sys_ok_def trace_ok_def)

theorem send_at_most_once_witness:
  "reachable sample_sha sample_running \<and> sends (sy_trace sample_running) ''a1'' = 1 \<and>
   sends (sy_trace sample_running) ''a1'' \<le> refusals (sy_trace sample_running) ''a1'' + 1"
  using send_at_most_once[OF sample_running_reachable, of "''a1''"] sample_running_reachable
  by (simp add: sample_running_def sends_def)

text \<open>
  What an uncertain answer leaves: no record of the action is without the mark, and none with its id will be made.
  Every step keeps that, and none of them hands the action to the provider.
\<close>

definition barred :: "string \<Rightarrow> sys \<Rightarrow> bool" where
  "barred i \<sigma> \<longleftrightarrow> i \<in> sy_ids \<sigma> \<and> (\<forall>e \<in> set (ms_actions (sy_state \<sigma>)). ae_id e = i \<longrightarrow> ae_uncertain e)"

lemma barred_keeps:
  assumes "barred i \<sigma>" and "op_frame fresh (ms_actions (sy_state \<sigma>)) (ms_actions s')" and "fresh \<inter> sy_ids \<sigma> = {}"
  shows "\<forall>e \<in> set (ms_actions s'). ae_id e = i \<longrightarrow> ae_uncertain e"
proof (intro ballI impI)
  fix y assume y: "y \<in> set (ms_actions s')" "ae_id y = i"
  then have "ae_id y \<notin> fresh" using assms(1,3) by (auto simp: barred_def)
  then obtain x where "x \<in> set (ms_actions (sy_state \<sigma>))" "keeps x y" using assms(2) y(1) by (auto simp: op_frame_def)
  then show "ae_uncertain y" using assms(1) y(2) by (auto simp: barred_def keeps_def)
qed

lemma barred_update:
  assumes "barred i \<sigma>" and "ms_actions s' = (ms_actions (sy_state \<sigma>))[j := y]"
    and "j < length (ms_actions (sy_state \<sigma>))"
    and "ae_id y = ae_id (ms_actions (sy_state \<sigma>) ! j)"
    and "ae_uncertain (ms_actions (sy_state \<sigma>) ! j) \<Longrightarrow> ae_uncertain y"
  shows "\<forall>e \<in> set (ms_actions s'). ae_id e = i \<longrightarrow> ae_uncertain e"
proof (intro ballI impI)
  fix e assume e: "e \<in> set (ms_actions s')" "ae_id e = i"
  have old: "ae_uncertain x" if "x \<in> set (ms_actions (sy_state \<sigma>))" "ae_id x = i" for x
    using assms(1) that by (simp add: barred_def)
  have "e = y \<or> e \<in> set (ms_actions (sy_state \<sigma>))"
    using e(1) set_update_subset_insert[of "ms_actions (sy_state \<sigma>)" j y] assms(2) by auto
  then show "ae_uncertain e" using old e(2) assms(3-5) nth_mem[OF assms(3)] by auto
qed

lemma executor_uncertain:
  "ae_uncertain e \<Longrightarrow> ae_uncertain (finished ad ex now e)" "ae_id (finished ad ex now e) = ae_id e"
  "ae_uncertain e \<Longrightarrow> ae_uncertain (marked now e)" "ae_id (marked now e) = ae_id e"
  "ae_uncertain e \<Longrightarrow> ae_uncertain (checked pr now e)" "ae_id (checked pr now e) = ae_id e"
  "ae_uncertain e \<Longrightarrow> ae_uncertain (begun e)" "ae_id (begun e) = ae_id e"
  by (cases ex; cases pr; simp add: finished_def marked_def checked_def begun_def Let_def)+

lemma barred_finish:
  assumes "barred i \<sigma>" and "ms_actions s' = ms_actions (snd (finish_execution ad ex now (sy_state \<sigma>)))"
  shows "\<forall>e \<in> set (ms_actions s'). ae_id e = i \<longrightarrow> ae_uncertain e"
proof (cases "position (\<lambda>e. ae_id e = ad_id ad) (ms_actions (sy_state \<sigma>))")
  case None
  then show ?thesis using assms by (simp add: finish_execution_def barred_def)
next
  case (Some j)
  then have j: "j < length (ms_actions (sy_state \<sigma>))" by (simp add: position_Some_iff)
  show ?thesis
    by (rule barred_update[OF assms(1) _ j executor_uncertain(2,1)]) (use assms(2) finish_execution_actions[OF Some] in simp_all)
qed

lemma barred_step:
  assumes "mail_step sha \<sigma> \<tau>" and barred: "barred i \<sigma>"
  shows "barred i \<tau> \<and> count_list (sy_trace \<tau>) (Begun i k) = count_list (sy_trace \<sigma>) (Begun i k)"
  using assms(1)
proof cases
  case (Ledger d op r s')
  have "ms_actions s' = ms_actions (sy_state \<sigma>) \<or> ms_actions s' = ms_actions (ledger_change op (sy_state \<sigma>))"
    using commit_actions[OF Ledger(2)] by auto
  then show ?thesis using Ledger(1,3) barred barred_keeps[OF barred, of "new_ids op" s'] ledger_frame
    by (auto simp: barred_def)
next
  case (Begin d p aid content now ad s')
  obtain t where t: "begin_execution sha p aid content now (sy_state \<sigma>) = (Inr ad, t)" "ms_actions s' = ms_actions t"
    using commit_actions_Inr[OF Begin(3)] by (metis prod.collapse)
  obtain j c where j: "j < length (ms_actions (sy_state \<sigma>))"
    and st: "startable sha p aid c now (ms_actions (sy_state \<sigma>) ! j)"
    and acts: "ms_actions t = (ms_actions (sy_state \<sigma>))[j := begun (ms_actions (sy_state \<sigma>) ! j)]"
    using begin_execution_Inr[OF t(1)] by blast
  have "aid \<noteq> i" using st barred nth_mem[OF j] by (auto simp: startable_def barred_def)
  moreover have "\<forall>e \<in> set (ms_actions s'). ae_id e = i \<longrightarrow> ae_uncertain e"
    by (rule barred_update[OF barred _ j executor_uncertain(8,7)]) (use t(2) acts in simp_all)
  ultimately show ?thesis using Begin(1) barred by (simp add: barred_def)
next
  case (Refuse d p aid content now why s')
  obtain t where "begin_execution sha p aid content now (sy_state \<sigma>) = (Inl why, t)" "ms_actions s' = ms_actions t"
    using commit_actions_Inr[OF Refuse(3)] by (metis prod.collapse)
  then have "list_all2 owner_step (ms_actions (sy_state \<sigma>)) (ms_actions s')" using begin_execution_Inl by metis
  then show ?thesis using Refuse(1) barred barred_keeps[OF barred, of "{}" s'] op_frame_owner by (simp add: barred_def)
next
  case (MarkSent ad d now u s')
  have acts: "ms_actions s' = ms_actions (snd (mark_sent ad now (sy_state \<sigma>)))" using commit_actions_Inr[OF MarkSent(4)] by simp
  have "\<forall>e \<in> set (ms_actions s'). ae_id e = i \<longrightarrow> ae_uncertain e"
  proof (cases "position (\<lambda>e. ae_id e = ad_id ad) (ms_actions (sy_state \<sigma>))")
    case None
    then show ?thesis using barred acts by (simp add: mark_sent_def barred_def)
  next
    case (Some j)
    then have j: "j < length (ms_actions (sy_state \<sigma>))" by (simp add: position_Some_iff)
    show ?thesis
      by (rule barred_update[OF barred _ j executor_uncertain(4,3)]) (use acts mark_sent_actions[OF Some] in simp_all)
  qed
  then show ?thesis using MarkSent(1) barred by (simp add: barred_def)
next
  case (Copied ad copy d now u s')
  have "ms_actions s' = ms_actions (snd (finish_execution ad (ExApplied Applied (Some copy)) now (sy_state \<sigma>)))"
    using commit_actions_Inr[OF Copied(4)] by simp
  from barred_finish[OF barred this] show ?thesis using Copied(1) barred by (simp add: barred_def)
next
  case (Finish ad ex d now u s')
  have "count_list (reported (ad_id ad) ex) (Begun i k) = 0" by (cases ex) simp_all
  moreover have "ms_actions s' = ms_actions (snd (finish_execution ad ex now (sy_state \<sigma>)))"
    using commit_actions_Inr[OF Finish(4)] by simp
  from barred_finish[OF barred this] have "\<forall>e \<in> set (ms_actions s'). ae_id e = i \<longrightarrow> ae_uncertain e" .
  ultimately show ?thesis using Finish(1) barred by (simp add: barred_def)
next
  case Lost
  then show ?thesis using barred by (simp add: barred_def)
next
  case (Probe aid t pr d now r s')
  have acts: "ms_actions s' = ms_actions (sy_state \<sigma>) \<or> ms_actions s' = ms_actions (snd (probed aid pr now (sy_state \<sigma>)))"
    using commit_actions[OF Probe(5)] by auto
  have "\<forall>e \<in> set (ms_actions (snd (probed aid pr now (sy_state \<sigma>)))). ae_id e = i \<longrightarrow> ae_uncertain e"
  proof (cases "position (\<lambda>e. ae_id e = aid \<and> ae_state e = Executing) (ms_actions (sy_state \<sigma>))")
    case None
    then show ?thesis using barred by (simp add: probed_def barred_def)
  next
    case (Some j)
    then have j: "j < length (ms_actions (sy_state \<sigma>))" by (simp add: position_Some_iff)
    show ?thesis
      by (rule barred_update[OF barred _ j executor_uncertain(6,5)]) (use probed_actions[OF Some] in simp_all)
  qed
  then show ?thesis using Probe(1) acts barred by (auto simp: barred_def)
next
  case (Restart d p now r s')
  have "ms_actions s' = ms_actions (sy_state \<sigma>) \<or> list_all2 evolves (ms_actions (sy_state \<sigma>)) (ms_actions s')"
    using commit_actions[OF Restart(3)] recover_steps by metis
  then have "\<forall>e \<in> set (ms_actions s'). ae_id e = i \<longrightarrow> ae_uncertain e"
  proof
    assume ev: "list_all2 evolves (ms_actions (sy_state \<sigma>)) (ms_actions s')"
    show ?thesis
    proof (intro ballI impI)
      fix y assume y: "y \<in> set (ms_actions s')" "ae_id y = i"
      obtain x where "x \<in> set (ms_actions (sy_state \<sigma>))" "evolves x y" using all2_origin[OF ev y(1)] by blast
      then show "ae_uncertain y" using barred y(2) by (auto simp: barred_def evolves_def keeps_def)
    qed
  qed (use barred in \<open>simp add: barred_def\<close>)
  then show ?thesis using Restart(1) barred by (simp add: barred_def)
qed

lemma barred_steps:
  "(mail_step sha)\<^sup>*\<^sup>* \<sigma> \<tau> \<Longrightarrow> barred i \<sigma> \<Longrightarrow>
     barred i \<tau> \<and> count_list (sy_trace \<tau>) (Begun i k) = count_list (sy_trace \<sigma>) (Begun i k)"
proof (induction rule: rtranclp_induct)
  case (step \<tau> \<upsilon>)
  then show ?case using barred_step[of sha \<tau> \<upsilon> i k] by simp
qed simp

lemma uncertain_bars:
  assumes "reachable sha \<sigma>" and "sy_flight \<sigma> = Running ad"
    and "ms_actions s' = ms_actions (snd (finish_execution ad ExUncertain now (sy_state \<sigma>)))"
  shows "barred (ad_id ad) (\<sigma>\<lparr>sy_state := s', sy_flight := Idle\<rparr>)"
proof -
  let ?es = "ms_actions (sy_state \<sigma>)"
  have ok: "sys_ok \<sigma>" by (rule reachable_ok[OF assms(1)])
  then obtain e where e: "e \<in> set ?es" "ae_id e = ad_id ad" using assms(2) by (auto simp: sys_ok_def flight_ok_def)
  have dist: "distinct (map ae_id ?es)" using ok by (simp add: sys_ok_def actions_ok_def)
  obtain j where j: "position (\<lambda>x. ae_id x = ad_id ad) ?es = Some j" "j < length ?es" "?es ! j = e"
    using position_id[OF dist e(1)] e(2) by auto
  have acts: "ms_actions s' = ?es[j := finished ad ExUncertain now e]"
    using assms(3) finish_execution_actions[OF j(1)] j(3) by simp
  have "ae_uncertain y" if y: "y \<in> set (ms_actions s')" "ae_id y = ad_id ad" for y
  proof -
    obtain k where k: "k < length ?es" "y = ?es[j := finished ad ExUncertain now e] ! k"
      using y(1) acts by (auto simp: in_set_conv_nth)
    show ?thesis
    proof (cases "k = j")
      case True
      then show ?thesis using k by (simp add: finished_def)
    next
      case False
      then have "ae_id (?es ! k) = ae_id (?es ! j)" using k y(2) j(3) e(2) by simp
      then show ?thesis using dist False k(1) j(2) by (simp add: distinct_conv_nth)
    qed
  qed
  moreover have "ad_id ad \<in> sy_ids \<sigma>" using ok e by (auto simp: sys_ok_def trace_ok_def)
  ultimately show ?thesis by (simp add: barred_def)
qed

text \<open>
  C5. An action whose change was answered HTTP 401 is never carried out again. Once that answer to the action the
  executor holds is recorded, no run from there, with the ledger's operations, failed writes, crashes, probes and
  restarts in any order, hands the action to the provider again; and what is left of it is being checked, was found
  done, or ended unknown.
\<close>

theorem uncertain_never_again:
  assumes "reachable sha \<sigma>" and "sy_flight \<sigma> = Running ad"
    and "commit d (finish_execution ad ExUncertain now) (sy_state \<sigma>) = (Inr u, s')"
    and "(mail_step sha)\<^sup>*\<^sup>* (\<sigma>\<lparr>sy_state := s', sy_flight := Idle\<rparr>) \<tau>"
  shows "count_list (sy_trace \<tau>) (Begun (ad_id ad) k) = count_list (sy_trace \<sigma>) (Begun (ad_id ad) k) \<and>
    (\<forall>e \<in> set (ms_actions (sy_state \<tau>)). ae_id e = ad_id ad \<longrightarrow> ae_state e \<in> {Executing, Done, Unknown})"
proof -
  have acts: "ms_actions s' = ms_actions (snd (finish_execution ad ExUncertain now (sy_state \<sigma>)))"
    using commit_actions_Inr[OF assms(3)] by simp
  note run = barred_steps[OF assms(4) uncertain_bars[OF assms(1,2) acts], of k]
  have "mail_step sha \<sigma> (\<sigma>\<lparr>sy_state := s', sy_flight := Idle, sy_trace := sy_trace \<sigma> @ reported (ad_id ad) ExUncertain\<rparr>)"
    by (rule mail_step.Finish[OF assms(2) _ assms(3)]) simp
  moreover have "\<sigma>\<lparr>sy_state := s', sy_flight := Idle, sy_trace := sy_trace \<sigma> @ reported (ad_id ad) ExUncertain\<rparr> =
      \<sigma>\<lparr>sy_state := s', sy_flight := Idle\<rparr>" by (cases \<sigma>) simp
  ultimately have "reachable sha (\<sigma>\<lparr>sy_state := s', sy_flight := Idle\<rparr>)" using reachable_step[OF assms(1)] by simp
  then have "reachable sha \<tau>" using assms(4) unfolding reachable_def by (meson rtranclp_trans)
  then have "list_all entry_ok (ms_actions (sy_state \<tau>))" using reachable_ok by (simp add: sys_ok_def actions_ok_def)
  then show ?thesis using run by (auto simp: list_all_iff entry_ok_def barred_def)
qed

definition sample_uncertain :: sys where
  "sample_uncertain = sample_running\<lparr>
     sy_state := snd (finish_execution begun_ad ExUncertain 160 (sy_state sample_running)),
     sy_flight := Idle, sy_trace := sy_trace sample_running @ reported ''a1'' ExUncertain\<rparr>"

lemma sample_uncertain_reachable: "reachable sample_sha sample_uncertain"
proof (rule reachable_step[OF sample_running_reachable])
  show "mail_step sample_sha sample_running sample_uncertain"
    using mail_step.Finish[of sample_running begun_ad ExUncertain roomy 160 "()"
        "snd (finish_execution begun_ad ExUncertain 160 (sy_state sample_running))" sample_sha]
    by (simp add: sample_uncertain_def begun_ad_def sample_running_def)
qed

lemma sample_uncertain_actions:
  "ms_actions (sy_state sample_uncertain) =
     [(begun sample_entry_5)\<lparr>ae_uncertain := True, ae_probe_after := Some 160\<rparr>]"
  using finish_execution_actions[of begun_ad "sy_state sample_running" 0 ExUncertain 160]
  by (simp add: sample_uncertain_def sample_actions begun_ad_def begun_def sample_entry_5_fields finished_def)

definition after_cancel :: "sys \<Rightarrow> sys" where
  "after_cancel \<sigma> = run_op (OpCancel None 170) (ledger_change (OpCancel None 170) (sy_state \<sigma>)) \<sigma>"

lemma after_cancel_step: "mail_step sha \<sigma> (after_cancel \<sigma>)"
  using mail_step.Ledger[of roomy "OpCancel None 170" \<sigma> "Inr ()"]
  by (simp add: after_cancel_def run_op_def)

theorem uncertain_never_again_witness:
  "count_list (sy_trace (after_cancel sample_uncertain)) (Begun ''a1'' Send) = 1 \<and>
   list_all (\<lambda>e. if ae_id e = ''a1'' then ae_state e \<in> {Executing, Done, Unknown} else True)
     (ms_actions (sy_state (after_cancel sample_uncertain)))"
proof -
  have run: "sy_flight sample_running = Running begun_ad" by (simp add: sample_running_def)
  have saved: "commit roomy (finish_execution begun_ad ExUncertain 160) (sy_state sample_running) =
      (Inr (), snd (finish_execution begun_ad ExUncertain 160 (sy_state sample_running)))" by simp
  have same: "sample_running\<lparr>sy_state := snd (finish_execution begun_ad ExUncertain 160 (sy_state sample_running)), sy_flight := Idle\<rparr> =
      sample_uncertain" by (simp add: sample_uncertain_def sample_running_def)
  have "(mail_step sample_sha)\<^sup>*\<^sup>* sample_uncertain (after_cancel sample_uncertain)" using after_cancel_step by blast
  from uncertain_never_again[OF sample_running_reachable run saved, unfolded same, OF this, of Send]
  show ?thesis by (simp add: begun_ad_def list_all_iff) (simp add: sample_running_def)
qed

lemma same_record:
  assumes "actions_ok es" and "x \<in> set es" and "y \<in> set es" and "ae_id x = ae_id y"
  shows "x = y"
  using assms by (auto simp: actions_ok_def distinct_map dest: inj_onD)

lemma final_in_frame:
  assumes "sys_ok \<sigma>" and "op_frame fresh (ms_actions (sy_state \<sigma>)) ys" and "fresh \<inter> sy_ids \<sigma> = {}"
    and "e \<in> set (ms_actions (sy_state \<sigma>))" and "terminal (ae_state e)"
    and "y \<in> set ys" and "ae_id y = ae_id e"
  shows "ae_state y = ae_state e"
proof -
  have "ae_id e \<in> sy_ids \<sigma>" using assms(1,4) by (simp add: sys_ok_def trace_ok_def)
  then obtain x where x: "x \<in> set (ms_actions (sy_state \<sigma>))" "keeps x y"
    using assms(2,3,6,7) unfolding op_frame_def by (metis disjoint_iff)
  then have "x = e"
    using same_record[of _ x e] assms(1,4,7) by (auto simp: sys_ok_def keeps_def)
  then show ?thesis using x(2) assms(5) by (simp add: keeps_def)
qed

lemma final_in_evolve:
  assumes "sys_ok \<sigma>" and "list_all2 evolves (ms_actions (sy_state \<sigma>)) ys"
    and "e \<in> set (ms_actions (sy_state \<sigma>))" and "terminal (ae_state e)"
    and "y \<in> set ys" and "ae_id y = ae_id e"
  shows "ae_state y = ae_state e"
proof -
  obtain x where x: "x \<in> set (ms_actions (sy_state \<sigma>))" "evolves x y"
    using all2_origin[OF assms(2,5)] by blast
  then have "x = e"
    using same_record[of _ x e] assms(1,3,6) by (auto simp: sys_ok_def evolves_def keeps_def)
  then show ?thesis using x(2) assms(4) by (simp add: evolves_def keeps_def)
qed

lemma final_in_update:
  assumes "sys_ok \<sigma>" and "e \<in> set (ms_actions (sy_state \<sigma>))" and "i < length (ms_actions (sy_state \<sigma>))"
    and "terminal (ae_state (ms_actions (sy_state \<sigma>) ! i)) \<Longrightarrow>
       ae_state z = ae_state (ms_actions (sy_state \<sigma>) ! i)"
    and "ae_id z = ae_id (ms_actions (sy_state \<sigma>) ! i)" and "terminal (ae_state e)"
    and "y \<in> set ((ms_actions (sy_state \<sigma>))[i := z])" and "ae_id y = ae_id e"
  shows "ae_state y = ae_state e"
proof -
  have ok: "actions_ok (ms_actions (sy_state \<sigma>))" using assms(1) by (simp add: sys_ok_def)
  from assms(7) consider "y = z" | "y \<in> set (ms_actions (sy_state \<sigma>))"
    using set_update_subset_insert by fastforce
  then show ?thesis
  proof cases
    case 1
    then have "e = ms_actions (sy_state \<sigma>) ! i"
      using same_record[OF ok assms(2)] assms(3,5,8) by simp
    then show ?thesis using 1 assms(4,6) by simp
  next
    case 2
    then show ?thesis using same_record[OF ok 2 assms(2)] assms(8) by simp
  qed
qed

lemma holder:
  assumes "sys_ok \<sigma>" and "sy_flight \<sigma> = Running ad \<or> sy_flight \<sigma> = Copying ad"
  obtains i where "position (\<lambda>x. ae_id x = ad_id ad) (ms_actions (sy_state \<sigma>)) = Some i"
    "i < length (ms_actions (sy_state \<sigma>))"
    "sy_flight \<sigma> = Running ad \<Longrightarrow> ae_state (ms_actions (sy_state \<sigma>) ! i) = Executing"
    "sy_flight \<sigma> = Copying ad \<Longrightarrow> ae_state (ms_actions (sy_state \<sigma>) ! i) = Done"
proof -
  have fl: "flight_ok \<sigma>" and d: "distinct (map ae_id (ms_actions (sy_state \<sigma>)))"
    using assms(1) by (simp_all add: sys_ok_def actions_ok_def)
  obtain e where "e \<in> set (ms_actions (sy_state \<sigma>))" "ae_id e = ad_id ad"
    "sy_flight \<sigma> = Running ad \<Longrightarrow> ae_state e = Executing" "sy_flight \<sigma> = Copying ad \<Longrightarrow> ae_state e = Done"
    using fl assms(2) by (auto simp: flight_ok_def)
  then show thesis using position_id[OF d, of e] that by metis
qed

lemma finished_id [simp]: "ae_id (finished ad ex now e) = ae_id e"
  by (cases ex) (simp_all add: finished_def)

lemma checked_id [simp]: "ae_id (checked pr now e) = ae_id e"
  by (cases pr) (simp_all add: checked_def Let_def)

lemma marked_id [simp]: "ae_id (marked now e) = ae_id e"
  by (simp add: marked_def)

text \<open>One record changed, keeping its ID, and its state if it was over.\<close>

definition one_changed :: "action_entry list \<Rightarrow> action_entry list \<Rightarrow> bool" where
  "one_changed A B \<longleftrightarrow> (\<exists>i z. i < length A \<and> B = A[i := z] \<and> ae_id z = ae_id (A ! i) \<and>
     (terminal (ae_state (A ! i)) \<longrightarrow> ae_state z = ae_state (A ! i)))"

lemma one_changedI:
  "i < length A \<Longrightarrow> B = A[i := z] \<Longrightarrow> ae_id z = ae_id (A ! i) \<Longrightarrow>
   (terminal (ae_state (A ! i)) \<Longrightarrow> ae_state z = ae_state (A ! i)) \<Longrightarrow> one_changed A B"
  by (auto simp: one_changed_def)

lemma begin_changed:
  assumes "commit d (begin_execution sha p aid content now) s = (Inr (Inr ad), s')"
  shows "one_changed (ms_actions s) (ms_actions s')"
proof -
  obtain t where t: "begin_execution sha p aid content now s = (Inr ad, t)" "ms_actions s' = ms_actions t"
    using commit_actions_Inr[OF assms] by (metis prod.collapse)
  obtain i c where "i < length (ms_actions s)" "startable sha p aid c now (ms_actions s ! i)"
    "ms_actions t = (ms_actions s)[i := begun (ms_actions s ! i)]"
    using begin_execution_Inr[OF t(1)] by metis
  then show ?thesis using t(2)
    by (intro one_changedI[of i _ _ "begun (ms_actions s ! i)"]) (auto simp: startable_def begun_def)
qed

lemma mark_changed:
  assumes "sys_ok \<sigma>" and "sy_flight \<sigma> = Running ad" and "commit d (mark_sent ad now) (sy_state \<sigma>) = (Inr u, s')"
  shows "one_changed (ms_actions (sy_state \<sigma>)) (ms_actions s')"
proof -
  obtain i where i: "position (\<lambda>x. ae_id x = ad_id ad) (ms_actions (sy_state \<sigma>)) = Some i"
    "i < length (ms_actions (sy_state \<sigma>))" "ae_state (ms_actions (sy_state \<sigma>) ! i) = Executing"
    using holder[OF assms(1)] assms(2) by metis
  then show ?thesis using commit_actions_Inr[OF assms(3)] mark_sent_actions[OF i(1)]
    by (intro one_changedI[OF i(2), of _ "marked now (ms_actions (sy_state \<sigma>) ! i)"]) simp_all
qed

lemma finish_changed:
  assumes "sys_ok \<sigma>" and "commit d (finish_execution ad ex now) (sy_state \<sigma>) = (Inr u, s')"
    and "sy_flight \<sigma> = Running ad \<or> (sy_flight \<sigma> = Copying ad \<and> (\<exists>copy. ex = ExApplied Applied copy))"
  shows "one_changed (ms_actions (sy_state \<sigma>)) (ms_actions s')"
proof -
  obtain i where i: "position (\<lambda>x. ae_id x = ad_id ad) (ms_actions (sy_state \<sigma>)) = Some i"
    "i < length (ms_actions (sy_state \<sigma>))"
    "ae_state (ms_actions (sy_state \<sigma>) ! i) = Executing \<or>
     (ae_state (ms_actions (sy_state \<sigma>) ! i) = Done \<and> (\<exists>copy. ex = ExApplied Applied copy))"
    using holder[OF assms(1)] assms(3) by metis
  then show ?thesis
    using commit_actions_Inr[OF assms(2)] finish_execution_actions[OF i(1)]
    by (intro one_changedI[OF i(2), of _ "finished ad ex now (ms_actions (sy_state \<sigma>) ! i)"])
      (simp_all, auto simp: finished_def)
qed

lemma probe_changed:
  assumes "sys_ok \<sigma>" and "aid \<in> set (due_probes t (sy_state \<sigma>))"
    and "commit d (probed aid pr now) (sy_state \<sigma>) = (r, s')"
  shows "ms_actions s' = ms_actions (sy_state \<sigma>) \<or> one_changed (ms_actions (sy_state \<sigma>)) (ms_actions s')"
proof -
  have "distinct (map ae_id (ms_actions (sy_state \<sigma>)))" using assms(1) by (simp add: sys_ok_def actions_ok_def)
  from due_probe_entry[OF assms(2) this] obtain i where
    i: "position (\<lambda>x. ae_id x = aid \<and> ae_state x = Executing) (ms_actions (sy_state \<sigma>)) = Some i"
      "i < length (ms_actions (sy_state \<sigma>))" "ae_state (ms_actions (sy_state \<sigma>) ! i) = Executing"
    by blast
  have "one_changed (ms_actions (sy_state \<sigma>)) (ms_actions (snd (probed aid pr now (sy_state \<sigma>))))"
    using probed_actions[OF i(1)] i(3)
    by (intro one_changedI[OF i(2), of _ "checked pr now (ms_actions (sy_state \<sigma>) ! i)"]) simp_all
  then show ?thesis using commit_actions[OF assms(3)] by auto
qed

lemma final_in_changed:
  assumes "sys_ok \<sigma>" and "one_changed (ms_actions (sy_state \<sigma>)) A" and "e \<in> set (ms_actions (sy_state \<sigma>))"
    and "terminal (ae_state e)" and "y \<in> set A" and "ae_id y = ae_id e"
  shows "ae_state y = ae_state e"
  using assms(2) final_in_update[OF assms(1,3) _ _ _ assms(4) _ assms(6)] assms(5) unfolding one_changed_def by blast

text \<open>How a step changes the records.\<close>

lemma step_actions:
  assumes ok: "sys_ok \<sigma>" and "mail_step sha \<sigma> \<tau>"
  shows "(\<exists>fresh. op_frame fresh (ms_actions (sy_state \<sigma>)) (ms_actions (sy_state \<tau>)) \<and> fresh \<inter> sy_ids \<sigma> = {}) \<or>
    list_all2 evolves (ms_actions (sy_state \<sigma>)) (ms_actions (sy_state \<tau>)) \<or>
    one_changed (ms_actions (sy_state \<sigma>)) (ms_actions (sy_state \<tau>))"
  using assms(2)
proof cases
  case (Ledger d op r s')
  then show ?thesis using commit_actions[OF Ledger(2)] ledger_frame by (auto simp: op_frame_owner)
next
  case (Begin d p aid content now ad s')
  then show ?thesis using begin_changed[OF Begin(3)] by simp
next
  case (Refuse d p aid content now why s')
  obtain t where "begin_execution sha p aid content now (sy_state \<sigma>) = (Inl why, t)" "ms_actions s' = ms_actions t"
    using commit_actions_Inr[OF Refuse(3)] by (metis prod.collapse)
  then show ?thesis using owner_steps_evolve[OF begin_execution_Inl] Refuse(1) by simp
next
  case (MarkSent ad d now u s')
  then show ?thesis using mark_changed[OF ok MarkSent(2,4)] by simp
next
  case (Copied ad copy d now u s')
  then show ?thesis using finish_changed[OF ok Copied(4)] by simp
next
  case (Finish ad ex d now u s')
  then show ?thesis using finish_changed[OF ok Finish(4)] by simp
next
  case (Probe aid t pr d now r s')
  then show ?thesis using probe_changed[OF ok Probe(3,5)] by (auto simp: list.rel_refl)
next
  case (Restart d p now r s')
  then show ?thesis using commit_actions[OF Restart(3)] recover_steps[of "sy_state \<sigma>" p now]
    by (auto simp: list.rel_refl)
qed (simp add: list.rel_refl)

text \<open>
  C6. An end is final: whatever step follows, a record that is over stays in the state it ended
  in for as long as the ledger keeps it.
\<close>

theorem ended_is_final:
  assumes "reachable sha \<sigma>" and "mail_step sha \<sigma> \<tau>"
    and "e \<in> set (ms_actions (sy_state \<sigma>))" and "terminal (ae_state e)"
    and "y \<in> set (ms_actions (sy_state \<tau>))" and "ae_id y = ae_id e"
  shows "ae_state y = ae_state e"
  using step_actions[OF reachable_ok[OF assms(1)] assms(2)] final_in_frame[OF reachable_ok[OF assms(1)] _ _ assms(3-6)]
    final_in_evolve[OF reachable_ok[OF assms(1)] _ assms(3-6)] final_in_changed[OF reachable_ok[OF assms(1)] _ assms(3-6)]
  by blast

definition sample_done :: sys where
  "sample_done = sample_running\<lparr>
     sy_state := snd (finish_execution begun_ad (ExApplied Applied None) 160 (sy_state sample_running)),
     sy_flight := Idle, sy_trace := sy_trace sample_running @ reported ''a1'' (ExApplied Applied None)\<rparr>"

lemma sample_done_reachable: "reachable sample_sha sample_done"
proof (rule reachable_step[OF sample_running_reachable])
  have "\<not> files_copy begun_ad"
    by (simp add: files_copy_def begun_ad_def sample_mail_sealed sample_content_def)
  then show "mail_step sample_sha sample_running sample_done"
    using mail_step.Finish[of sample_running begun_ad "ExApplied Applied None" roomy 160 "()"
        "snd (finish_execution begun_ad (ExApplied Applied None) 160 (sy_state sample_running))" sample_sha]
    by (simp add: sample_done_def begun_ad_def sample_running_def)
qed

lemma sample_done_actions:
  "map ae_id (ms_actions (sy_state sample_done)) = [''a1'']"
  "map ae_state (ms_actions (sy_state sample_done)) = [Done]"
  using finish_execution_actions[of begun_ad "sy_state sample_running" 0 "ExApplied Applied None" 160]
  by (simp_all add: sample_done_def sample_actions begun_ad_def begun_def sample_entry_5_fields finished_def)

theorem ended_is_final_witness:
  "mail_step sample_sha sample_done (after_cancel sample_done) \<and>
   (\<exists>y. y \<in> set (ms_actions (sy_state (after_cancel sample_done))) \<and> ae_id y = ''a1'' \<and> ae_state y = Done)"
proof -
  obtain e where e: "ms_actions (sy_state sample_done) = [e]" "ae_id e = ''a1''" "ae_state e = Done"
    using sample_done_actions by (cases "ms_actions (sy_state sample_done)") auto
  have "list_all2 owner_step (ms_actions (sy_state sample_done))
      (ms_actions (sy_state (after_cancel sample_done)))"
    using cancel_steps by (simp add: after_cancel_def run_op_def)
  then obtain y where y: "y \<in> set (ms_actions (sy_state (after_cancel sample_done)))" "owner_step e y"
    using all2_target e(1) by (metis list.set_intros(1))
  then have "ae_id y = ae_id e" by (simp add: owner_step_def evolves_def keeps_def)
  then show ?thesis
    using ended_is_final[OF sample_done_reachable after_cancel_step, of e y] e y(1) after_cancel_step
    by auto
qed

section \<open>Approving and denying\<close>

text \<open>
  C7. An approval is recorded only on the owner's evidence. After \<open>approve\<close>, a record that is newly
  approved had its current code named by a message that was not used before, in the chat and from
  the peer its preview was stored for, who is that chat's current owner; the message was sent no
  earlier than the preview was delivered; the record had not expired; the settings, the provider
  and the configured chats allow it; and the approval names the digest of the record. A record that
  was already approved, being carried out or done is not changed.
\<close>

theorem approve_sound:
  assumes "approve p codes ev w now s = (answers, s')"
  shows "list_all2 (\<lambda>x y.
      (committed_state (ae_state x) \<longrightarrow> y = x) \<and>
      (committed_state (ae_state y) \<and> \<not> committed_state (ae_state x) \<longrightarrow>
         ae_state y = Approved \<and> ae_code y \<in> set codes \<and>
         \<not> (\<exists>a \<in> set (ms_approvals s). st_key a = ev_message_id ev) \<and>
         pv_route (ae_preview y) = Some (ev_route ev) \<and> pv_peer (ae_preview y) = Some (ev_peer ev) \<and>
         wd_owner w (ev_route ev) = Some (ev_peer ev) \<and> ev_route ev \<in> set (po_routes p) \<and>
         offers p (ae_kind y) (ae_form y) \<and> now < ae_expires_at y \<and>
         (\<exists>d sent. pv_delivered_ms (ae_preview y) = Some d \<and> ev_sent_ms ev = Some sent \<and> d \<le> sent) \<and>
         map_option ap_digest (ae_approval y) = Some (ae_digest x)))
    (ms_actions s) (ms_actions s')"
proof -
  have "ms_actions s' = ms_actions (snd (approve p codes ev w now s))" using assms by simp
  then have "list_all2 (approves p w ev (\<exists>a \<in> set (ms_approvals s). st_key a = ev_message_id ev) now codes)
      (ms_actions s) (ms_actions s')"
    using approve_codes_approves[of codes codes] by (simp add: approve_actions)
  then show ?thesis
    by (rule list_all2_mono) (auto simp: approves_def evidence_ok_def same_chat_def keeps_def)
qed

theorem approve_sound_witness:
  "ms_actions (snd (approve sample_policy [''AB12''] sample_evidence sample_world 140 sample_4)) = [sample_entry_5] \<and>
   pv_route (ae_preview sample_entry_5) = Some ''slack:me'' \<and> 140 < ae_expires_at sample_entry_5"
proof -
  let ?r = "approve sample_policy [''AB12''] sample_evidence sample_world 140 sample_4"
  have s: "snd ?r = sample_5" using step_5 by (simp add: op_5_def)
  have a: "ms_actions sample_5 = [sample_entry_5]" "ms_actions sample_4 = [sample_entry_4]"
    by (simp_all add: sample_5_def sample_4_def)
  have st: "ae_state sample_entry_4 = Open" by (simp add: sample_entry_4_def)
  show ?thesis
    using approve_sound[of sample_policy "[''AB12'']" sample_evidence sample_world 140 sample_4
        "fst ?r" "snd ?r"] s a st sample_entry_5_fields
    by (simp add: sample_evidence_def)
qed

text \<open>
  C8. The daily limits hold: however many codes one message names, the approvals counted against a
  limit in the last day do not exceed it, unless they did before (under a larger limit).
\<close>

theorem approve_within_daily_limit:
  "used (snd (approve p codes ev w now s)) c now \<le> max (used s c now) (daily_limit p c)"
  using approve_codes_used[of p w ev _ now codes s c]
  by (simp add: approve_def Let_def case_prod_unfold used_def)

definition denies :: "chat_evidence \<Rightarrow> world \<Rightarrow> policy \<Rightarrow> action_entry \<Rightarrow> action_entry \<Rightarrow> bool" where
  "denies ev w p x y \<longleftrightarrow> y = x \<or>
     (may_deny x ev w p \<and> ae_state x \<in> {Proposed, Previewing, Open, Approved} \<and> ae_state y = Denied \<and>
      ae_id y = ae_id x)"

lemma denies_refl [simp]: "denies ev w p x x"
  by (simp add: denies_def)

lemma denies_trans: "denies ev w p x y \<Longrightarrow> denies ev w p y z \<Longrightarrow> denies ev w p x z"
  by (auto simp: denies_def)

lemma denies_end:
  "may_deny e ev w p \<Longrightarrow> ae_state e \<noteq> Executing \<Longrightarrow> \<not> terminal (ae_state e) \<Longrightarrow>
     denies ev w p e (end_entry e Denied None now)"
  by (cases "ae_state e") (simp_all add: denies_def)

lemma denies_update:
  "i < length xs \<Longrightarrow> denies ev w p (xs ! i) y \<Longrightarrow> list_all2 (denies ev w p) xs (xs[i := y])"
  by (rule list_all2_update_step) simp_all

lemma deny_all_denies: "list_all2 (denies ev w p) (ms_actions s) (ms_actions (snd (deny_all p ev w now s)))"
proof -
  have "list_all2 (denies ev w p) (ms_actions (snd acc)) (ms_actions (snd (deny_all_step p w ev now i acc)))"
    if "i < length (ms_actions (snd acc))" for i acc
    using that
    by (auto simp: deny_all_step_def Let_def list.rel_refl split: prod.splits
        intro!: denies_update denies_end)
  from fold_index_steps[of "denies ev w p" "\<lambda>acc. ms_actions (snd acc)" "deny_all_step p w ev now"
      "[0..<length (ms_actions s)]" "((0, 0), s)", OF denies_refl _ this]
  show ?thesis using denies_trans by (simp add: deny_all_def Let_def case_prod_unfold)
qed

lemma deny_code_denies: "list_all2 (denies ev w p) (ms_actions s) (ms_actions (snd (deny_code p w ev now c s)))"
  by (auto simp: deny_code_def Let_def deny_refusal_def list.rel_refl dest: position_Some_D
      intro!: denies_update denies_end split: option.splits if_splits)

lemma deny_codes_denies:
  "list_all2 (denies ev w p) (ms_actions s) (ms_actions (snd (deny_codes p w ev now cs s)))"
proof (induction cs arbitrary: s)
  case (Cons c cs)
  let ?t = "snd (deny_code p w ev now c s)"
  have "list_all2 (denies ev w p) (ms_actions s) (ms_actions (snd (deny_codes p w ev now cs ?t)))"
    using all2_trans[of "denies ev w p"] denies_trans deny_code_denies Cons.IH by metis
  then show ?case by (simp add: Let_def case_prod_unfold)
qed (simp add: list.rel_refl)

text \<open>
  C9. A denial withdraws only what it may: after \<open>deny\<close>, by codes or of everything, a record is
  unchanged, or it was waiting or approved, the message came from the current owner of the
  configured chat it is bound to, and it is now \<open>Denied\<close>. What is being carried out or over stays.
\<close>

theorem deny_sound:
  "list_all2 (\<lambda>x y. y = x \<or>
      (may_deny x ev w p \<and> ae_state x \<in> {Proposed, Previewing, Open, Approved} \<and> ae_state y = Denied \<and>
       ae_id y = ae_id x))
    (ms_actions s) (ms_actions (snd (deny p codes ev w now s)))"
  using deny_all_denies[of ev w p s now] deny_codes_denies[of ev w p s now]
  by (simp add: deny_def denies_def[abs_def] split: option.splits)

text \<open>
  C10. An interrupted action always comes to an end: once a check runs more than a day past its
  deadline the action is over, whatever the check found; and before that, a check that reaches the
  provider settles it unless it may safely be tried again.
\<close>

theorem probed_settles:
  assumes "position (\<lambda>e. ae_id e = aid \<and> ae_state e = Executing) (ms_actions s) = Some i"
    and "ae_execute_by (ms_actions s ! i) = Some by"
    and "by + PROBE_GRACE < now \<or> pr \<notin> {ProbeUnreachable, ProbeNotDone} \<and> \<not> (\<exists>r. pr = ProbeResume r)"
  shows "terminal (ae_state (ms_actions (snd (probed aid pr now s)) ! i))"
proof -
  have "i < length (ms_actions s)" using assms(1) by (simp add: position_Some_iff)
  then have "ms_actions (snd (probed aid pr now s)) ! i = checked pr now (ms_actions s ! i)"
    using probed_actions[OF assms(1)] by simp
  then show ?thesis
    using assms(2,3) by (cases pr) (auto simp: checked_def Let_def)
qed

theorem probed_settles_witness:
  "terminal (ae_state (ms_actions (snd (probed ''a1'' ProbeUnreachable 100000 (sy_state sample_uncertain))) ! 0))"
  using probed_settles[of "''a1''" "sy_state sample_uncertain" 0 1940 100000 ProbeUnreachable]
  by (simp add: sample_uncertain_actions begun_def sample_entry_5_fields PROBE_GRACE_def DAY_def)

section \<open>The queue\<close>

lemma queue_same [inv_intros]:
  "queue_ok s \<Longrightarrow> queue_ok (bind_unassigned s r)"
  "queue_ok s \<Longrightarrow> queue_ok (batch_previews s b r)"
  "queue_ok s \<Longrightarrow> queue_ok (previews_stored s k rt q n)"
  "queue_ok s \<Longrightarrow> queue_ok (previews_lost s k n)"
  "queue_ok s \<Longrightarrow> queue_ok (previews_delivered s k m p)"
  "queue_ok s \<Longrightarrow> queue_ok (snd (previews_refused draw s k g n r))"
  "queue_ok s \<Longrightarrow> queue_ok (snd (add_proposed s as r))"
  "queue_ok s \<Longrightarrow> queue_ok (upd_entry s i f)"
  "queue_ok s \<Longrightarrow> queue_ok (add_expired s n)"
  "queue_ok s \<Longrightarrow> queue_ok (release s a)"
  "queue_ok s \<Longrightarrow> queue_ok (grant p ev sent now s i)"
  by (simp_all add: queue_ok_def bind_unassigned_def batch_previews_def previews_stored_def
      previews_lost_def previews_delivered_def previews_refused_def add_proposed_def upd_entry_def
      add_expired_def release_def grant_def Let_def case_prod_unfold)

lemma finish_entry_queue_ok [inv_intros]: "queue_ok s \<Longrightarrow> queue_ok (finish_entry s i st c n)"
  by (auto simp: finish_entry_def Let_def tell_opt_def tell_def split: option.splits
      intro!: push_item_with_queue_ok queue_same)

lemma fold_queue_ok:
  assumes "\<And>i acc. queue_ok (snd acc) \<Longrightarrow> queue_ok (snd (f i acc))"
  shows "queue_ok s \<Longrightarrow> queue_ok (snd (fold f is (a, s)))"
proof -
  have "queue_ok (snd acc) \<Longrightarrow> queue_ok (snd (fold f is acc))" for acc
    by (induction "is" arbitrary: acc) (simp_all add: assms)
  then show "queue_ok s \<Longrightarrow> queue_ok (snd (fold f is (a, s)))" by simp
qed

lemma approve_queue_ok: "queue_ok s \<Longrightarrow> queue_ok (snd (approve p codes ev w now s))"
proof -
  have one: "queue_ok t \<Longrightarrow> queue_ok (snd (approve_code p w ev r now c t))" for r c t
    by (cases rule: approve_code_cases[of p w ev r now c t]) (auto intro: inv_intros)
  have "queue_ok t \<Longrightarrow> queue_ok (snd (approve_codes p w ev r now codes t))" for r t
    by (induction codes arbitrary: t) (simp_all add: one Let_def case_prod_unfold)
  then show "queue_ok s \<Longrightarrow> queue_ok (snd (approve p codes ev w now s))"
    by (simp add: approve_def Let_def case_prod_unfold queue_ok_def)
qed

lemma deny_queue_ok: "queue_ok s \<Longrightarrow> queue_ok (snd (deny p codes ev w now s))"
proof -
  have "queue_ok (snd acc) \<Longrightarrow> queue_ok (snd (deny_all_step p w ev now i acc))" for i acc
    by (auto simp: deny_all_step_def Let_def intro: inv_intros split: prod.splits)
  then have all: "queue_ok s \<Longrightarrow> queue_ok (snd (deny_all p ev w now s))"
    by (simp add: deny_all_def Let_def case_prod_unfold fold_queue_ok)
  have one: "queue_ok t \<Longrightarrow> queue_ok (snd (deny_code p w ev now c t))" for c t
    by (auto simp: deny_code_def Let_def intro: inv_intros split: option.splits)
  have "queue_ok t \<Longrightarrow> queue_ok (snd (deny_codes p w ev now cs t))" for cs t
    by (induction cs arbitrary: t) (simp_all add: one Let_def case_prod_unfold)
  then show "queue_ok s \<Longrightarrow> queue_ok (snd (deny p codes ev w now s))"
    using all by (simp add: deny_def split: option.splits)
qed

lemma cancel_queue_ok: "queue_ok s \<Longrightarrow> queue_ok (snd (cancel aid now s))"
proof -
  have "queue_ok (snd acc) \<Longrightarrow> queue_ok (snd (cancel_step aid now i acc))" for i acc
    by (auto simp: cancel_step_def Let_def intro: inv_intros split: prod.splits)
  then show "queue_ok s \<Longrightarrow> queue_ok (snd (cancel aid now s))"
    by (simp add: cancel_def Let_def case_prod_unfold fold_queue_ok)
qed

lemma expire_queue_ok: "queue_ok s \<Longrightarrow> queue_ok (snd (expire now s))"
proof -
  have "queue_ok (snd acc) \<Longrightarrow> queue_ok (snd (expire_step now i acc))" for i acc
    by (auto simp: expire_step_def Let_def intro: inv_intros split: prod.splits)
  then show "queue_ok s \<Longrightarrow> queue_ok (snd (expire now s))"
    by (simp add: expire_def Let_def case_prod_unfold fold_queue_ok queue_same)
qed

lemma settle_queue_ok: "queue_ok s \<Longrightarrow> queue_ok (snd (settle_watched pol draw g now ds rs s))"
proof -
  have refuse: "queue_ok t \<Longrightarrow> queue_ok (snd (refuse_all draw now r g ks t))" for r g ks t
    by (induction ks arbitrary: g t) (simp_all add: Let_def case_prod_unfold queue_same)
  have deliver: "queue_ok t \<Longrightarrow> queue_ok (fold (\<lambda>(k, m) s. previews_delivered s k m p) xs t)" for p xs t
    by (induction xs arbitrary: t) (auto simp: queue_same)
  show "queue_ok s \<Longrightarrow> queue_ok (snd (settle_watched pol draw g now ds rs s))"
    by (auto simp: settle_watched_def Let_def split: option.splits intro!: refuse deliver)
      (simp_all add: queue_ok_def)
qed

lemma record_queue_ok: "queue_ok s \<Longrightarrow> queue_ok (snd (record_decided dc today now mq routes s))"
proof -
  assume ok: "queue_ok s"
  let ?s2 = "note_turn dc now (roll_day (s\<lparr>ms_claims := filter (\<lambda>c. cl_source c \<noteq> dc_source dc) (ms_claims s),
      ms_identities := note_identity dc now (ms_identities s)\<rparr>) today)"
  have "queue_ok ?s2" using ok by (simp add: note_turn_def roll_day_def queue_ok_def Let_def)
  moreover have "queue_ok (note_outcome dc now routes t)" if "queue_ok t" for t
  proof (cases "dc_outcome dc")
    case (OReport k x u h as)
    have "queue_ok (t\<lparr>ms_day := d, ms_handles := hs\<rparr>)" for d hs using that by (simp add: queue_ok_def)
    then show ?thesis
      using OReport
      by (auto simp: note_outcome_def Let_def case_prod_unfold intro!: push_item_with_queue_ok queue_same)
  qed (use that in \<open>simp_all add: note_outcome_def queue_ok_def\<close>)
  ultimately show ?thesis
    by (simp add: record_decided_def Let_def prune_queue_ok collapse_queue_ok)
qed

lemma propose_queue_ok: "queue_ok s \<Longrightarrow> queue_ok (snd (propose mx routes req as pv revd now s))"
proof -
  assume ok: "queue_ok s"
  let ?s1 = "s\<lparr>ms_actions := map (supersede_revised revd now) (ms_actions s)\<rparr>"
  have "queue_ok (case req of None \<Rightarrow> ?s1
      | Some k \<Rightarrow> ?s1\<lparr>ms_requests := filter (\<lambda>r. rq_key r \<noteq> k) (ms_requests ?s1)\<rparr>)"
    using ok by (simp add: queue_ok_def split: option.splits)
  then show ?thesis
    using ok unfolding propose_def Let_def
    by (simp add: case_prod_unfold push_item_with_queue_ok queue_same)
qed

lemma batch_queue_ok:
  "queue_ok s \<Longrightarrow> queue_ok (snd (begin_batch rs k qs c t n m s))"
  "queue_ok s \<Longrightarrow> queue_ok (snd (batch_stored r q m s))"
  "queue_ok s \<Longrightarrow> queue_ok (snd (batch_retry m s))"
  "queue_ok s \<Longrightarrow> queue_ok (snd (batch_dissolve m s))"
proof -
  assume ok: "queue_ok s"
  show "queue_ok (snd (begin_batch rs k qs c t n m s))"
    using ok by (simp add: begin_batch_def Let_def queue_ok_def batch_previews_def bind_unassigned_def)
  show "queue_ok (snd (batch_retry m s))" using ok by (simp add: batch_retry_def queue_ok_def)
  show "queue_ok (snd (batch_stored r q m s))"
    using ok by (auto simp: batch_stored_def Let_def previews_stored_def split: option.splits
        intro!: prune_queue_ok elim!: queue_ok_filter)
  show "queue_ok (snd (batch_dissolve m s))"
    using ok by (auto simp: batch_dissolve_def Let_def split: option.splits
        intro!: queue_same elim!: queue_ok_filter)
qed

lemma ledger_queue_ok: "queue_ok s \<Longrightarrow> queue_ok (ledger_change op s)"
proof (cases op)
  case (OpClaim refs nxt reset now)
  assume "queue_ok s"
  then show ?thesis
    using OpClaim
    by (auto simp: claim_def Let_def queue_ok_def[of "s\<lparr>ms_claims := _, ms_cursor := _\<rparr>"] split: option.splits
        intro!: push_item_queue_ok) (simp_all add: queue_ok_def)
next
  case (OpDropRequest key t now)
  assume "queue_ok s"
  then have "queue_ok (s\<lparr>ms_requests := rs\<rparr>)" for rs by (simp add: queue_ok_def)
  then show ?thesis using OpDropRequest by (simp add: drop_request_def push_item_with_queue_ok)
next
  case (OpSweep p hs now)
  assume "queue_ok s"
  then show ?thesis using OpSweep by (simp add: sweep_actions_def Let_def queue_ok_def)
qed (simp_all add: attempt_def record_queue_ok note_line_def batch_queue_ok settle_queue_ok
    add_request_def request_attempt_def composed_def roll_day_def propose_queue_ok queue_preview_def
    approve_queue_ok deny_queue_ok cancel_queue_ok expire_queue_ok push_item_queue_ok
    push_item_with_queue_ok prune_queue_ok queue_same Let_def split: option.splits,
    simp_all add: queue_ok_def)

definition ledger_inv :: "mail_state \<Rightarrow> bool" where
  "ledger_inv s \<longleftrightarrow> queue_ok s \<and> actions_ok (ms_actions s)"

interpretation ledger: invariant_machine ledger_change ledger_inv
  by unfold_locales (simp add: ledger_inv_def ledger_queue_ok ledger_ok)

text \<open>
  The state file's text stays bounded: after any sequence of the ledger's operations every
  queued item is within its size limit, no two items share a sequence number or a key, and every
  sequence number is below the next.
\<close>

theorem queue_bounded:
  "let s = fold ledger_change ops empty_state
   in distinct (map it_seq (ms_queue s)) \<and> distinct (map it_key (ms_queue s)) \<and>
      list_all (\<lambda>i. it_seq i < ms_next_seq s \<and>
        length (it_text i) \<le> (if it_actions i = [] then 1536 else 11264)) (ms_queue s)"
proof -
  have "ledger_inv empty_state"
    by (simp add: ledger_inv_def actions_ok_def groups_ok_def empty_state_def queue_ok_def)
  then have "ledger_inv (fold ledger_change ops empty_state)" by (rule ledger.inv_run)
  then show ?thesis
    by (auto simp: ledger_inv_def queue_ok_def item_bounded_def item_max_def ledger_consts Let_def
        list_all_iff split: if_splits)
qed

end
