(* ===== verification/Mail_Plan.thy ===== *)
theory Mail_Plan
  imports Mail_Ledger "HOL-Library.Product_Lexorder"
begin

text \<open>
  When the mail chat hears about mail: \<open>email/plan.rs\<close>, and the part of
  \<open>email/settings.rs\<close> and \<open>email/notify.rs\<close> that gives the plan its limits.

  Times are seconds since the epoch in a \<open>u64\<close>, well below the points where an addition of the
  source could leave it, so they are \<open>nat\<close>; only \<open>u64::MAX\<close>, which the code uses as
  "never", is written out. Local time is an \<open>int\<close>, as \<open>i64\<close>. Reading past the end of a vector
  panics in Rust: \<open>room_at\<close> and \<open>plan\<close> return \<open>None\<close> there, and \<open>plan_total\<close>
  shows that no validated settings lead to it.
\<close>

section \<open>Data\<close>

record quiet_hours =
  qh_start :: nat
  qh_end :: nat

datatype quiet_urgent = Deliver | Hold

record limits =
  li_settle_seconds :: nat
  li_max_delay_seconds :: nat
  li_max_items :: nat
  li_max_bytes :: nat
  li_max_urgent_per_hour :: nat
  li_max_messages_per_hour :: nat
  li_max_messages_per_day :: nat
  li_max_responses_per_hour :: nat
  li_quiet :: "quiet_hours option"
  li_quiet_urgent :: quiet_urgent
  li_offset :: int

datatype plan_result = Idle | Wait (wait_until: nat) (wait_paused: bool) | SendNow (send_seqs: "nat list") (send_as: send_class)

section \<open>The rolling windows\<close>

text \<open>The log entries a window counts; the same filter stands in \<open>plan\<close> and in \<open>room_at\<close>.\<close>

definition in_window :: "nat \<Rightarrow> send_class list \<Rightarrow> nat \<Rightarrow> logged \<Rightarrow> bool" where
  "in_window now classes window e \<longleftrightarrow> lg_class e \<in> set classes \<and> now - lg_at e < window"

definition counted :: "nat \<Rightarrow> logged list \<Rightarrow> send_class list \<Rightarrow> nat \<Rightarrow> nat" where
  "counted now log classes window = length (filter (in_window now classes window) log)"

definition room_at :: "nat \<Rightarrow> logged list \<Rightarrow> send_class list \<Rightarrow> nat \<Rightarrow> nat \<Rightarrow> nat option" where
  "room_at now log classes window maxn =
     (let times = map lg_at (filter (in_window now classes window) log)
      in if length times < maxn then Some now
         else let sorted_times = sort times; i = length times - maxn
              in if i < length times then Some (sorted_times ! i + window) else None)"

section \<open>Quiet hours\<close>

definition i64_max :: int where "i64_max = 2 ^ 63 - 1"

definition local_time :: "nat \<Rightarrow> int \<Rightarrow> int" where
  "local_time now offset = min (int now) i64_max + offset"

definition local_minute :: "nat \<Rightarrow> int \<Rightarrow> nat" where
  "local_minute now offset = nat ((local_time now offset mod int DAY) div 60)"

definition quiet_now :: "nat \<Rightarrow> int \<Rightarrow> quiet_hours \<Rightarrow> bool" where
  "quiet_now now offset q =
     (let minute = local_minute now offset
      in if qh_start q < qh_end q then qh_start q \<le> minute \<and> minute < qh_end q
         else minute \<ge> qh_start q \<or> minute < qh_end q)"

definition quiet_end :: "nat \<Rightarrow> int \<Rightarrow> quiet_hours \<Rightarrow> nat" where
  "quiet_end now offset q =
     (let into_day = local_time now offset mod int DAY;
          ahead = int (qh_end q) * 60 - into_day;
          ahead = (if ahead \<le> 0 then ahead + int DAY else ahead)
      in now + nat ahead)"

section \<open>The plan\<close>

text \<open>\<open>seqs\<close> and \<open>bytes\<close> are the loop's state; the \<open>break\<close> is the early return.\<close>

fun send_loop :: "limits \<Rightarrow> nat list \<Rightarrow> nat \<Rightarrow> queued_item list \<Rightarrow> nat list" where
  "send_loop li seqs bytes [] = seqs"
| "send_loop li seqs bytes (i # is) =
     (let added = bytes + qd_bytes i + 2
      in if seqs \<noteq> [] \<and> (length seqs \<ge> li_max_items li \<or> added > li_max_bytes li) then seqs
         else send_loop li (seqs @ [qd_seq i]) added is)"

definition send :: "queued_item list \<Rightarrow> send_class \<Rightarrow> limits \<Rightarrow> plan_result" where
  "send items cls li = SendNow (send_loop li [] 0 items) cls"

definition plan :: "nat \<Rightarrow> queued_item list \<Rightarrow> logged list \<Rightarrow> limits \<Rightarrow> plan_result option" where
  "plan now queue log li =
     (let ready = sort_key (\<lambda>i. (qd_created_at i, qd_seq i)) queue;
          hourly_digest = counted now log [Digest] HOUR;
          hourly_urgent = counted now log [Urgent] HOUR;
          hourly_response = counted now log [SendResponse] HOUR;
          daily = counted now log [Digest, Urgent] DAY;
          responses = filter (\<lambda>i. qd_class i = Response) ready
      in if responses \<noteq> [] \<and> hourly_response < li_max_responses_per_hour li
         then Some (send responses SendResponse li)
         else Option.bind
           (if responses = [] then Some usize_max
            else room_at now log [SendResponse] HOUR (li_max_responses_per_hour li))
           (\<lambda>response_wait.
             let batched = filter (\<lambda>i. qd_class i \<noteq> Response) ready
             in if batched = []
                then Some (if responses = [] then Idle else Wait response_wait False)
                else
                  let urgent = filter qd_urgent batched;
                      urgent_ok = (urgent \<noteq> [] \<and> hourly_urgent < li_max_urgent_per_hour li \<and>
                                   daily < li_max_messages_per_day li);
                      quiet = (case li_quiet li of None \<Rightarrow> None
                               | Some q \<Rightarrow> if quiet_now now (li_offset li) q then Some q else None)
                  in case quiet of
                       Some q \<Rightarrow>
                         if urgent_ok \<and> li_quiet_urgent li = Deliver
                         then Some (send urgent Urgent li)
                         else Some (Wait (min (quiet_end now (li_offset li) q) response_wait) False)
                     | None \<Rightarrow>
                         if urgent_ok
                         then Some (send (urgent @ filter (\<lambda>i. \<not> qd_urgent i) batched) Urgent li)
                         else
                           let first = Min (set (map qd_created_at batched));
                               last = Max (set (map qd_created_at batched));
                               due = (length batched \<ge> li_max_items li \<or>
                                      now - last \<ge> li_settle_seconds li \<or>
                                      now - first \<ge> li_max_delay_seconds li)
                           in if \<not> due
                              then Some (Wait (min (min (last + li_settle_seconds li)
                                                        (first + li_max_delay_seconds li))
                                                   response_wait) False)
                              else if hourly_digest \<ge> li_max_messages_per_hour li \<or>
                                      daily \<ge> li_max_messages_per_day li
                              then Option.bind (room_at now log [Digest] HOUR (li_max_messages_per_hour li))
                                (\<lambda>hourly. Option.bind
                                   (room_at now log [Digest, Urgent] DAY (li_max_messages_per_day li))
                                   (\<lambda>day. Some (Wait (min (max hourly day) response_wait) True)))
                              else Some (send batched Digest li)))"

section \<open>The settings the plan is given\<close>

datatype skipped_mode = CountSkipped | SkippedOff

record notify_settings =
  no_route :: "string list"
  no_settle_seconds :: nat
  no_max_delay_seconds :: nat
  no_max_items :: nat
  no_max_message_kib :: nat
  no_urgent_by_model :: bool
  no_max_urgent_per_hour :: nat
  no_max_messages_per_hour :: nat
  no_max_messages_per_day :: nat
  no_max_responses_per_hour :: nat
  no_quiet_hours :: string
  no_utc_offset :: string
  no_quiet_urgent :: quiet_urgent
  no_skipped :: skipped_mode
  no_max_queue :: nat
  no_give_up_hours :: nat

datatype settings_error =
  BadRoutes | BadRoute string | OutOfRange string nat nat | BadQuietHours | BadUtcOffset

definition MAX_ROUTES :: nat where "MAX_ROUTES = 4"
definition FRAME_BYTES :: nat where "FRAME_BYTES = 512"

definition within :: "string \<Rightarrow> nat \<Rightarrow> nat \<Rightarrow> nat \<Rightarrow> settings_error + unit" where
  "within name v lo hi = (if lo \<le> v \<and> v \<le> hi then Inr () else Inl (OutOfRange name lo hi))"

definition clock_minutes :: "string \<Rightarrow> nat option" where
  "clock_minutes t =
     (case split_once CHR '':'' t of
        None \<Rightarrow> None
      | Some (hours, minutes) \<Rightarrow>
          if length hours \<noteq> 2 \<or> length minutes \<noteq> 2 then None
          else (case (parse_unsigned (2 ^ 32 - 1) hours, parse_unsigned (2 ^ 32 - 1) minutes) of
                  (Some h, Some m) \<Rightarrow> if h < 24 \<and> m < 60 then Some (h * 60 + m) else None
                | _ \<Rightarrow> None))"

definition quiet :: "notify_settings \<Rightarrow> settings_error + quiet_hours option" where
  "quiet n =
     (let t = trim_bytes (no_quiet_hours n)
      in if t = [] then Inr None
         else (case split_once CHR ''-'' t of
                 None \<Rightarrow> Inl BadQuietHours
               | Some (a, b) \<Rightarrow>
                   (case (clock_minutes (trim_bytes a), clock_minutes (trim_bytes b)) of
                      (Some s, Some e) \<Rightarrow>
                        if s \<noteq> e then Inr (Some \<lparr>qh_start = s, qh_end = e\<rparr>) else Inl BadQuietHours
                    | _ \<Rightarrow> Inl BadQuietHours)))"

definition parse_offset :: "string \<Rightarrow> int option" where
  "parse_offset t =
     Option.bind
       (case t of
          c # rest \<Rightarrow> if c = CHR ''+'' then Some (1, rest)
                      else if c = CHR ''-'' then Some (- 1, rest) else None
        | [] \<Rightarrow> None)
       (\<lambda>(sign, rest). Option.bind (split_once CHR '':'' rest)
          (\<lambda>(hours, minutes).
             if length hours \<noteq> 2 \<or> length minutes \<noteq> 2 then None
             else Option.bind (parse_signed 32 hours) (\<lambda>h.
                    Option.bind (parse_signed 32 minutes) (\<lambda>m.
                      if h \<le> 14 \<and> m < 60 \<and> h * 60 + m \<le> 14 * 60
                      then Some (sign * (h * 3600 + m * 60)) else None))))"

definition fixed_offset :: "notify_settings \<Rightarrow> settings_error + int option" where
  "fixed_offset n =
     (let t = trim_bytes (no_utc_offset n)
      in if t = [] then Inr None
         else (case parse_offset t of None \<Rightarrow> Inl BadUtcOffset | Some v \<Rightarrow> Inr (Some v)))"

definition validate_name :: "string \<Rightarrow> bool" where
  "validate_name name \<longleftrightarrow>
     name \<noteq> [] \<and> list_all (\<lambda>b. is_ascii_alphanumeric b \<or> b = CHR ''-'' \<or> b = CHR ''_'') name"

definition valid_route :: "string \<Rightarrow> bool" where
  "valid_route route =
     (case split_once CHR '':'' route of
        None \<Rightarrow> False
      | Some (channel, account) \<Rightarrow>
          channel \<noteq> [] \<and> channel \<noteq> ''email'' \<and> validate_name account)"

definition notify_validate :: "notify_settings \<Rightarrow> settings_error + unit" where
  "notify_validate n =
     (if no_route n = [] \<or> length (no_route n) > MAX_ROUTES then Inl BadRoutes
      else case List.find (\<lambda>r. \<not> valid_route r) (no_route n) of
        Some r \<Rightarrow> Inl (BadRoute r)
      | None \<Rightarrow>
          res_bind (within ''mail.notify.settle_seconds'' (no_settle_seconds n) 0 3600) (\<lambda>_.
          res_bind (within ''mail.notify.max_delay_seconds'' (no_max_delay_seconds n)
                      (max (no_settle_seconds n) 1) 86400) (\<lambda>_.
          res_bind (within ''mail.notify.max_items'' (no_max_items n) 1 50) (\<lambda>_.
          res_bind (within ''mail.notify.max_message_kib'' (no_max_message_kib n) 4 15) (\<lambda>_.
          res_bind (within ''mail.notify.max_urgent_per_hour'' (no_max_urgent_per_hour n) 0 60) (\<lambda>_.
          res_bind (within ''mail.notify.max_messages_per_hour'' (no_max_messages_per_hour n) 1 60) (\<lambda>_.
          res_bind (within ''mail.notify.max_messages_per_day'' (no_max_messages_per_day n) 1 500) (\<lambda>_.
          res_bind (within ''mail.notify.max_responses_per_hour'' (no_max_responses_per_hour n) 1 600) (\<lambda>_.
          res_bind (quiet n) (\<lambda>_. res_bind (fixed_offset n) (\<lambda>_.
          res_bind (within ''mail.notify.max_queue'' (no_max_queue n) 16 1024) (\<lambda>_.
          within ''mail.notify.give_up_hours'' (no_give_up_hours n) 1 168))))))))))))"

definition plan_limits :: "notify_settings \<Rightarrow> int \<Rightarrow> limits" where
  "plan_limits n offset =
     \<lparr>li_settle_seconds = no_settle_seconds n,
      li_max_delay_seconds = no_max_delay_seconds n,
      li_max_items = no_max_items n,
      li_max_bytes = no_max_message_kib n * 1024 - FRAME_BYTES,
      li_max_urgent_per_hour = no_max_urgent_per_hour n,
      li_max_messages_per_hour = no_max_messages_per_hour n,
      li_max_messages_per_day = no_max_messages_per_day n,
      li_max_responses_per_hour = no_max_responses_per_hour n,
      li_quiet = (case quiet n of Inl _ \<Rightarrow> None | Inr q \<Rightarrow> q),
      li_quiet_urgent = no_quiet_urgent n,
      li_offset = offset\<rparr>"

text \<open>What validated settings give the plan.\<close>

definition limits_ok :: "limits \<Rightarrow> bool" where
  "limits_ok li \<longleftrightarrow>
     1 \<le> li_max_items li \<and> 1 \<le> li_max_messages_per_hour li \<and> 1 \<le> li_max_messages_per_day li \<and>
     1 \<le> li_max_responses_per_hour li \<and> li_max_delay_seconds li \<le> DAY \<and>
     (case li_quiet li of None \<Rightarrow> True
      | Some q \<Rightarrow> qh_start q \<noteq> qh_end q \<and> qh_start q < 1440 \<and> qh_end q < 1440)"

section \<open>Rolling windows\<close>

lemma counted_times:
  assumes "now \<le> t"
  shows "counted t log cls w =
    length (filter (\<lambda>a. t - a < w) (sort (map lg_at (filter (in_window now cls w) log))))"
proof -
  have "filter (in_window t cls w) log =
        filter (\<lambda>e. t - lg_at e < w) (filter (in_window now cls w) log)"
    using assms by (induction log) (auto simp: in_window_def)
  then have "counted t log cls w =
        length (filter (\<lambda>a. t - a < w) (map lg_at (filter (in_window now cls w) log)))"
    by (simp add: counted_def filter_map comp_def)
  then show ?thesis
    by (metis mset_filter mset_sort size_mset)
qed

lemma counted_antimono: "now \<le> t \<Longrightarrow> counted t log cls w \<le> counted now log cls w"
proof -
  assume "now \<le> t"
  then have "counted t log cls w \<le> length (sort (map lg_at (filter (in_window now cls w) log)))"
    by (simp add: counted_times[of now] del: length_sort length_map)
  then show ?thesis by (simp add: counted_def)
qed

lemma sorted_aged_out:
  fixes xs :: "nat list"
  assumes "sorted xs" and "i < length xs"
  shows "length (filter (\<lambda>a. xs ! i + w - a < w) xs) < length xs - i"
proof -
  have "xs ! j \<le> xs ! i" if "j < Suc i" for j
    using assms that by (simp add: sorted_iff_nth_mono)
  then have "filter (\<lambda>a. xs ! i + w - a < w) (take (Suc i) xs) = []"
    by (fastforce simp: filter_empty_conv in_set_conv_nth)
  then have "filter (\<lambda>a. xs ! i + w - a < w) xs = filter (\<lambda>a. xs ! i + w - a < w) (drop (Suc i) xs)"
    by (metis append_Nil append_take_drop_id filter_append)
  then have "length (filter (\<lambda>a. xs ! i + w - a < w) xs) \<le> length xs - Suc i"
    by (metis length_drop length_filter_le)
  then show ?thesis using assms(2) by linarith
qed

lemma sorted_still_in:
  fixes xs :: "nat list"
  assumes "sorted xs" and "i < length xs" and "0 < w" and "t < xs ! i + w"
  shows "length xs - i \<le> length (filter (\<lambda>a. t - a < w) xs)"
proof -
  have "\<forall>a \<in> set (drop i xs). t - a < w"
  proof
    fix a assume "a \<in> set (drop i xs)"
    then obtain j where "j < length (drop i xs)" "a = drop i xs ! j" by (auto simp: in_set_conv_nth)
    then have "xs ! i \<le> a" using assms(1) by (simp add: sorted_iff_nth_mono)
    then show "t - a < w" using assms(3,4) by linarith
  qed
  then have "filter (\<lambda>a. t - a < w) (drop i xs) = drop i xs" by simp
  moreover have "length (filter (\<lambda>a. t - a < w) (drop i xs)) \<le> length (filter (\<lambda>a. t - a < w) xs)"
    by (metis append_take_drop_id filter_append le_add2 length_append)
  ultimately show ?thesis by simp
qed

lemma room_at_Some: "1 \<le> maxn \<Longrightarrow> \<exists>t. room_at now log cls w maxn = Some t"
  by (auto simp: room_at_def Let_def)

lemma room_at_later:
  assumes "room_at now log cls w maxn = Some t" and "maxn \<le> counted now log cls w"
  shows "now < t"
proof -
  let ?xs = "sort (map lg_at (filter (in_window now cls w) log))"
  let ?i = "length ?xs - maxn"
  have len: "length ?xs = counted now log cls w" by (simp add: counted_def)
  then have i: "?i < length ?xs" and t: "t = ?xs ! ?i + w"
    using assms by (auto simp: room_at_def Let_def counted_def split: if_splits)
  have "?xs ! ?i \<in> set ?xs" using i by (rule nth_mem)
  then have "now - ?xs ! ?i < w" by (auto simp: in_window_def)
  then show ?thesis using t by linarith
qed

lemma room_at_first:
  assumes "1 \<le> maxn" and r: "room_at now log cls w maxn = Some t"
  shows "now \<le> t" and "counted t log cls w < maxn"
    and "\<And>u. now \<le> u \<Longrightarrow> u < t \<Longrightarrow> maxn \<le> counted u log cls w"
proof -
  let ?xs = "sort (map lg_at (filter (in_window now cls w) log))"
  let ?i = "length ?xs - maxn"
  have len: "length ?xs = counted now log cls w" by (simp add: counted_def)
  consider (room) "counted now log cls w < maxn" "t = now"
    | (full) "maxn \<le> counted now log cls w" "t = ?xs ! ?i + w" "?i < length ?xs"
    using r by (auto simp: room_at_def Let_def counted_def not_less split: if_splits)
  then have "now \<le> t \<and> counted t log cls w < maxn \<and>
      (\<forall>u. now \<le> u \<longrightarrow> u < t \<longrightarrow> maxn \<le> counted u log cls w)"
  proof cases
    case room
    then show ?thesis by simp
  next
    case full
    have now: "now < t" using r full(1) by (rule room_at_later)
    have w: "0 < w" using full(1) assms(1) by (cases w) (auto simp: counted_def in_window_def)
    have "counted t log cls w < length ?xs - ?i"
      using sorted_aged_out[OF sorted_sort full(3), of w] now full(2) by (simp add: counted_times[of now])
    moreover have "length ?xs - ?i = maxn" using full(1) assms(1) len by linarith
    moreover have "length ?xs - ?i \<le> counted u log cls w" if "now \<le> u" "u < t" for u
      using sorted_still_in[OF sorted_sort full(3) w, of u] that full(2) by (simp add: counted_times[of now])
    ultimately show ?thesis using now by auto
  qed
  then show "now \<le> t" "counted t log cls w < maxn"
    "\<And>u. now \<le> u \<Longrightarrow> u < t \<Longrightarrow> maxn \<le> counted u log cls w" by auto
qed

section \<open>Quiet hours\<close>

lemma local_later:
  assumes "int t \<le> i64_max" and "now \<le> t"
  shows "local_time t off mod int DAY =
    (local_time now off mod int DAY + int (t - now)) mod int DAY"
proof -
  have "local_time t off = local_time now off + int (t - now)"
    using assms by (simp add: local_time_def)
  then show ?thesis by (simp add: mod_add_left_eq)
qed

lemma local_seconds: "0 \<le> local_time t off mod int DAY" "local_time t off mod int DAY < int DAY"
  by (simp_all add: DAY_def)

definition quiet_second :: "quiet_hours \<Rightarrow> int \<Rightarrow> bool" where
  "quiet_second q x =
     (if qh_start q < qh_end q then int (qh_start q) * 60 \<le> x \<and> x < int (qh_end q) * 60
      else x \<ge> int (qh_start q) * 60 \<or> x < int (qh_end q) * 60)"

lemma quiet_now_seconds: "quiet_now t off q = quiet_second q (local_time t off mod int DAY)"
proof -
  let ?x = "local_time t off mod int DAY"
  have "local_minute t off < e \<longleftrightarrow> ?x < int e * 60" for e
  proof -
    have "nat (?x div 60) < e \<longleftrightarrow> ?x div 60 < int e" using local_seconds[of t off] by linarith
    also have "\<dots> \<longleftrightarrow> ?x < int e * 60" by linarith
    finally show ?thesis by (simp add: local_minute_def)
  qed
  then show ?thesis by (simp add: quiet_now_def quiet_second_def Let_def flip: not_less)
qed

lemma quiet_end_ahead:
  assumes "qh_end q < 1440"
  shows "now < quiet_end now off q" "quiet_end now off q \<le> now + DAY"
  using assms local_seconds[of now off] by (auto simp: quiet_end_def Let_def DAY_def)

lemma quiet_end_spec:
  assumes q: "qh_start q \<noteq> qh_end q" "qh_start q < 1440" "qh_end q < 1440"
    and small: "int (now + DAY) \<le> i64_max" and quiet: "quiet_now now off q"
  shows "\<not> quiet_now (quiet_end now off q) off q"
    and "\<And>t. now \<le> t \<Longrightarrow> t < quiet_end now off q \<Longrightarrow> quiet_now t off q"
proof -
  let ?x = "local_time now off mod int DAY"
  let ?e = "int (qh_end q) * 60"
  have x: "0 \<le> ?x" "?x < int DAY" by (rule local_seconds)+
  have e: "0 \<le> ?e" "?e < int DAY" using q by (simp_all add: DAY_def)
  have qx: "quiet_second q ?x" using quiet by (simp add: quiet_now_seconds)
  have at: "quiet_now t off q = quiet_second q ((?x + int (t - now)) mod int DAY)"
    if "now \<le> t" "t \<le> quiet_end now off q" for t
  proof -
    have "int t \<le> i64_max" using that quiet_end_ahead[OF q(3), of now off] small by linarith
    then show ?thesis using that by (simp add: quiet_now_seconds local_later[of t now off])
  qed
  have wrap: "y mod int DAY = (if y < int DAY then y else y - int DAY)"
    if "0 \<le> y" "y < 2 * int DAY" for y
  proof (cases "y < int DAY")
    case False
    have "y mod int DAY = (y - int DAY) mod int DAY" by simp
    also have "\<dots> = y - int DAY" using that False by (intro mod_pos_pos_trivial) simp_all
    finally show ?thesis using False by simp
  qed (use that in simp)
  have ende: "int (quiet_end now off q - now) = (if ?x < ?e then ?e - ?x else ?e - ?x + int DAY)"
    using x e by (auto simp: quiet_end_def Let_def simp del: pos_mod_bound pos_mod_sign)
  have nq: "\<not> quiet_second q ?e" using q by (auto simp: quiet_second_def)
  have "(?x + int (quiet_end now off q - now)) mod int DAY = ?e"
    using x e by (simp add: ende)
  then show "\<not> quiet_now (quiet_end now off q) off q"
    using at[of "quiet_end now off q"] nq quiet_end_ahead[OF q(3), of now off] by simp
  show "quiet_now t off q" if t: "now \<le> t" "t < quiet_end now off q" for t
  proof -
    have d: "int (t - now) < (if ?x < ?e then ?e - ?x else ?e - ?x + int DAY)"
      using t ende by linarith
    have b: "0 \<le> ?x + int (t - now)" "?x + int (t - now) < 2 * int DAY"
      using x d e by (auto split: if_splits)
    have "quiet_second q ((?x + int (t - now)) mod int DAY)"
      unfolding wrap[OF b] using qx x d e q
      by (auto simp: quiet_second_def split: if_splits)
    then show ?thesis using at[of t] t by simp
  qed
qed

section \<open>What one message holds\<close>

definition message_size :: "queued_item list \<Rightarrow> nat" where
  "message_size items = sum_list (map (\<lambda>i. qd_bytes i + 2) items)"

lemma message_size_simps [simp]:
  "message_size [] = 0" "message_size (i # is) = qd_bytes i + 2 + message_size is"
  by (simp_all add: message_size_def)

lemma send_loop_prefix:
  "\<exists>k \<le> length items. send_loop li seqs b items = seqs @ map qd_seq (take k items) \<and>
     (seqs = [] \<longrightarrow> items \<noteq> [] \<longrightarrow> 1 \<le> k) \<and>
     (length seqs + k \<le> max (max (length seqs) 1) (li_max_items li)) \<and>
     (k = 0 \<or> (seqs = [] \<and> k = 1) \<or> b + message_size (take k items) \<le> li_max_bytes li) \<and>
     (k < length items \<longrightarrow> 1 \<le> length seqs + k \<and> (li_max_items li \<le> length seqs + k \<or>
        li_max_bytes li < b + message_size (take (Suc k) items)))"
proof (induction li seqs b items rule: send_loop.induct)
  case (2 li seqs b i "is")
  let ?added = "b + qd_bytes i + 2"
  show ?case
  proof (cases "seqs \<noteq> [] \<and> (length seqs \<ge> li_max_items li \<or> ?added > li_max_bytes li)")
    case True
    then show ?thesis by (intro exI[of _ 0]) (auto simp: Let_def Suc_le_eq)
  next
    case False
    then have step: "send_loop li seqs b (i # is) = send_loop li (seqs @ [qd_seq i]) ?added is"
      by (auto simp: Let_def)
    from 2[OF refl False] obtain k where k: "k \<le> length is"
      "send_loop li (seqs @ [qd_seq i]) ?added is = (seqs @ [qd_seq i]) @ map qd_seq (take k is)"
      "length (seqs @ [qd_seq i]) + k \<le> max (max (length (seqs @ [qd_seq i])) 1) (li_max_items li)"
      "k = 0 \<or> ?added + message_size (take k is) \<le> li_max_bytes li"
      "k < length is \<longrightarrow> li_max_items li \<le> length (seqs @ [qd_seq i]) + k \<or>
         li_max_bytes li < ?added + message_size (take (Suc k) is)"
      by blast
    show ?thesis
    proof (intro exI[of _ "Suc k"] conjI impI)
      show "length seqs + Suc k \<le> max (max (length seqs) 1) (li_max_items li)"
        using k(3) False by (cases seqs) auto
      show "Suc k = 0 \<or> (seqs = [] \<and> Suc k = 1) \<or>
          b + message_size (take (Suc k) (i # is)) \<le> li_max_bytes li"
        using k(4) False by (cases "seqs = []") auto
      show "li_max_items li \<le> length seqs + Suc k \<or>
          li_max_bytes li < b + message_size (take (Suc (Suc k)) (i # is))"
        if "Suc k < length (i # is)"
        using k(5) that by (auto simp: add.assoc)
    qed (use k step in auto)
  qed
qed simp

lemma send_prefix:
  assumes "items \<noteq> []" and "1 \<le> li_max_items li"
  obtains k where "1 \<le> k" "k \<le> length items" "k \<le> li_max_items li"
    "send items cls li = SendNow (map qd_seq (take k items)) cls"
    "k = 1 \<or> message_size (take k items) \<le> li_max_bytes li"
    "k < length items \<Longrightarrow> k = li_max_items li \<or> li_max_bytes li < message_size (take (Suc k) items)"
proof -
  obtain k where k: "k \<le> length items" "send_loop li [] 0 items = map qd_seq (take k items)"
    "1 \<le> k" "k \<le> max 1 (li_max_items li)" "k = 0 \<or> k = 1 \<or> message_size (take k items) \<le> li_max_bytes li"
    "k < length items \<longrightarrow> li_max_items li \<le> k \<or> li_max_bytes li < message_size (take (Suc k) items)"
    using send_loop_prefix[of items li "[]" 0] assms(1) by auto
  have le: "k \<le> li_max_items li" using k(4) assms(2) by simp
  show ?thesis
    by (rule that[of k]) (use k le in \<open>auto simp: send_def\<close>)
qed

section \<open>The branches of the plan\<close>

abbreviation by_age :: "queued_item list \<Rightarrow> queued_item list" where
  "by_age \<equiv> sort_key (\<lambda>i. (qd_created_at i, qd_seq i))"

definition responses_of :: "queued_item list \<Rightarrow> queued_item list" where
  "responses_of queue = filter (\<lambda>i. qd_class i = Response) (by_age queue)"

definition batched_of :: "queued_item list \<Rightarrow> queued_item list" where
  "batched_of queue = filter (\<lambda>i. qd_class i \<noteq> Response) (by_age queue)"

definition quiet_at :: "nat \<Rightarrow> limits \<Rightarrow> bool" where
  "quiet_at now li \<longleftrightarrow> (\<exists>q. li_quiet li = Some q \<and> quiet_now now (li_offset li) q)"

text \<open>Which class of message has room below its limits.\<close>

fun has_room :: "limits \<Rightarrow> nat \<Rightarrow> logged list \<Rightarrow> send_class \<Rightarrow> bool" where
  "has_room li now log SendResponse \<longleftrightarrow> counted now log [SendResponse] HOUR < li_max_responses_per_hour li"
| "has_room li now log Urgent \<longleftrightarrow>
     counted now log [Urgent] HOUR < li_max_urgent_per_hour li \<and>
     counted now log [Digest, Urgent] DAY < li_max_messages_per_day li"
| "has_room li now log Digest \<longleftrightarrow>
     counted now log [Digest] HOUR < li_max_messages_per_hour li \<and>
     counted now log [Digest, Urgent] DAY < li_max_messages_per_day li"

definition urgents_first :: "queued_item list \<Rightarrow> queued_item list" where
  "urgents_first xs = filter qd_urgent xs @ filter (\<lambda>i. \<not> qd_urgent i) xs"

definition batch_due :: "nat \<Rightarrow> queued_item list \<Rightarrow> limits \<Rightarrow> bool" where
  "batch_due now batched li \<longleftrightarrow>
     length batched \<ge> li_max_items li \<or>
     now - Max (set (map qd_created_at batched)) \<ge> li_settle_seconds li \<or>
     now - Min (set (map qd_created_at batched)) \<ge> li_max_delay_seconds li"

definition response_wait_of :: "nat \<Rightarrow> queued_item list \<Rightarrow> logged list \<Rightarrow> limits \<Rightarrow> nat option" where
  "response_wait_of now queue log li =
     (if responses_of queue = [] then Some usize_max
      else room_at now log [SendResponse] HOUR (li_max_responses_per_hour li))"

definition batch_plan :: "nat \<Rightarrow> queued_item list \<Rightarrow> logged list \<Rightarrow> limits \<Rightarrow> nat \<Rightarrow> plan_result option" where
  "batch_plan now bs log li rw =
     (if quiet_at now li
      then if filter qd_urgent bs \<noteq> [] \<and> has_room li now log Urgent \<and> li_quiet_urgent li = Deliver
           then Some (send (filter qd_urgent bs) Urgent li)
           else Some (Wait (min (quiet_end now (li_offset li) (the (li_quiet li))) rw) False)
      else if filter qd_urgent bs \<noteq> [] \<and> has_room li now log Urgent
      then Some (send (urgents_first bs) Urgent li)
      else if \<not> batch_due now bs li
      then Some (Wait (min (min (Max (set (map qd_created_at bs)) + li_settle_seconds li)
                                (Min (set (map qd_created_at bs)) + li_max_delay_seconds li)) rw) False)
      else if \<not> has_room li now log Digest
      then Option.bind (room_at now log [Digest] HOUR (li_max_messages_per_hour li)) (\<lambda>hourly.
             Option.bind (room_at now log [Digest, Urgent] DAY (li_max_messages_per_day li)) (\<lambda>day.
               Some (Wait (min (max hourly day) rw) True)))
      else Some (send bs Digest li))"

text \<open>The plan in its branches.\<close>

lemma plan_branches:
  "plan now queue log li =
     (if responses_of queue \<noteq> [] \<and> has_room li now log SendResponse
      then Some (send (responses_of queue) SendResponse li)
      else Option.bind (response_wait_of now queue log li) (\<lambda>rw.
        if batched_of queue = []
        then Some (if responses_of queue = [] then Idle else Wait rw False)
        else batch_plan now (batched_of queue) log li rw))"
proof -
  have quiet: "quiet_at now li \<longleftrightarrow> (case li_quiet li of None \<Rightarrow> False | Some q \<Rightarrow> quiet_now now (li_offset li) q)"
    by (auto simp: quiet_at_def split: option.split)
  show ?thesis
    unfolding plan_def Let_def responses_of_def[symmetric] batched_of_def[symmetric]
      response_wait_of_def batch_plan_def quiet urgents_first_def[symmetric] batch_due_def[symmetric]
      has_room.simps
    by (cases "li_quiet li") (simp_all add: not_less de_Morgan_conj)
qed

lemma plan_sends:
  assumes "plan now queue log li = Some (SendNow seqs cls)"
  obtains items where "has_room li now log cls" "items \<noteq> []" "SendNow seqs cls = send items cls li"
    "cls = SendResponse \<Longrightarrow> items = responses_of queue"
    "cls = Urgent \<Longrightarrow> filter qd_urgent (batched_of queue) \<noteq> [] \<and>
       items = (if quiet_at now li then filter qd_urgent (batched_of queue)
                else urgents_first (batched_of queue))"
    "cls = Digest \<Longrightarrow> items = batched_of queue \<and> batch_due now items li"
    "quiet_at now li \<Longrightarrow> cls \<noteq> Digest"
    "quiet_at now li \<Longrightarrow> cls = Urgent \<Longrightarrow> li_quiet_urgent li = Deliver"
proof -
  have cls: "c = cls" if "Some (send items c li) = Some (SendNow seqs cls)" for items c
    using that by (simp add: send_def)
  show ?thesis
  proof (cases "responses_of queue \<noteq> [] \<and> has_room li now log SendResponse")
    case True
    then show ?thesis using assms cls[of "responses_of queue" SendResponse]
      by (auto simp: plan_branches intro!: that[of "responses_of queue"])
  next
    case False
    then obtain rw where b: "batched_of queue \<noteq> []"
      "batch_plan now (batched_of queue) log li rw = Some (SendNow seqs cls)"
      using assms by (auto simp: plan_branches bind_eq_Some_conv split: if_splits)
    let ?u = "filter qd_urgent (batched_of queue)"
    consider (quiet) "quiet_at now li" "?u \<noteq> []" "has_room li now log Urgent" "li_quiet_urgent li = Deliver"
        "send ?u Urgent li = SendNow seqs cls"
      | (urgent) "\<not> quiet_at now li" "?u \<noteq> []" "has_room li now log Urgent"
        "send (urgents_first (batched_of queue)) Urgent li = SendNow seqs cls"
      | (digest) "\<not> quiet_at now li" "batch_due now (batched_of queue) li" "has_room li now log Digest"
        "send (batched_of queue) Digest li = SendNow seqs cls"
      using b(2) unfolding batch_plan_def by (auto simp: bind_eq_Some_conv split: if_splits)
    then show ?thesis
    proof cases
      case quiet
      then show ?thesis using cls[of ?u Urgent] by (intro that[of ?u]) auto
    next
      case urgent
      moreover have "urgents_first (batched_of queue) \<noteq> []" using urgent(2) by (simp add: urgents_first_def)
      ultimately show ?thesis using cls[of "urgents_first (batched_of queue)" Urgent]
        by (intro that[of "urgents_first (batched_of queue)"]) auto
    next
      case digest
      then show ?thesis using b(1) cls[of "batched_of queue" Digest]
        by (intro that[of "batched_of queue"]) auto
    qed
  qed
qed

lemma set_batched_of: "set (batched_of queue) = {i \<in> set queue. qd_class i \<noteq> Response}"
  by (auto simp: batched_of_def)

lemma set_responses_of: "set (responses_of queue) = {i \<in> set queue. qd_class i = Response}"
  by (auto simp: responses_of_def)

lemma set_urgents_first: "set (urgents_first xs) = set xs"
  by (auto simp: urgents_first_def)

lemmas plan_sets = set_batched_of set_responses_of set_urgents_first

lemma mset_urgents_first: "mset (urgents_first xs) = mset xs"
  by (simp add: urgents_first_def)

lemma plan_items_distinct:
  assumes "distinct (map qd_seq queue)"
  shows "distinct (map qd_seq (batched_of queue))" "distinct (map qd_seq (responses_of queue))"
    "distinct (map qd_seq (urgents_first (batched_of queue)))"
proof -
  have sorted: "distinct (map qd_seq (by_age queue))"
    using assms by (metis mset_map mset_sort mset_eq_imp_distinct_iff)
  show b: "distinct (map qd_seq (batched_of queue))" "distinct (map qd_seq (responses_of queue))"
    using sorted by (simp_all add: batched_of_def responses_of_def distinct_map_filter)
  show "distinct (map qd_seq (urgents_first (batched_of queue)))"
    using b(1) by (metis mset_map mset_urgents_first mset_eq_imp_distinct_iff)
qed

section \<open>Waiting\<close>

lemma not_due_later:
  assumes "\<not> batch_due now bs li" and "bs \<noteq> []"
  shows "now < Max (set (map qd_created_at bs)) + li_settle_seconds li"
    and "now < Min (set (map qd_created_at bs)) + li_max_delay_seconds li"
  using assms by (auto simp: batch_due_def)

lemma paused_later:
  assumes "\<not> has_room li now log Digest"
    and "room_at now log [Digest] HOUR (li_max_messages_per_hour li) = Some hourly"
    and "room_at now log [Digest, Urgent] DAY (li_max_messages_per_day li) = Some day"
  shows "now < max hourly day"
  using assms room_at_later[OF assms(2)] room_at_later[OF assms(3)] by auto

lemma response_wait_later:
  assumes "response_wait_of now queue log li = Some rw" and "now < usize_max"
    and "responses_of queue = [] \<or> \<not> has_room li now log SendResponse"
  shows "now < rw"
  using assms room_at_later[of now log "[SendResponse]" HOUR "li_max_responses_per_hour li" rw]
  by (auto simp: response_wait_of_def split: if_splits)

lemma plan_some:
  assumes "limits_ok li"
  shows "\<exists>p. plan now queue log li = Some p"
proof -
  note lims = assms[unfolded limits_ok_def]
  obtain rw where rw: "response_wait_of now queue log li = Some rw"
    using lims room_at_Some[of "li_max_responses_per_hour li" now log "[SendResponse]" HOUR]
    by (cases "responses_of queue = []") (auto simp: response_wait_of_def)
  obtain h d where "room_at now log [Digest] HOUR (li_max_messages_per_hour li) = Some h"
    "room_at now log [Digest, Urgent] DAY (li_max_messages_per_day li) = Some d"
    using lims room_at_Some by metis
  then show ?thesis using rw by (auto simp: plan_branches batch_plan_def)
qed

lemma batch_plan_waits:
  assumes "batch_plan now bs log li rw = Some (Wait until paused)"
    and "limits_ok li" "bs \<noteq> []" "now < rw"
  shows "now < until"
proof -
  have quiet: "now < quiet_end now (li_offset li) (the (li_quiet li))" if "quiet_at now li"
    using that assms(2) by (auto simp: quiet_at_def limits_ok_def intro!: quiet_end_ahead)
  note ds = not_due_later[OF _ assms(3), of now li]
  show ?thesis
    using assms(1,4) quiet ds paused_later[of li now log]
    unfolding batch_plan_def
    by (auto simp: send_def bind_eq_Some_conv simp del: has_room.simps split: if_splits)
qed

lemma plan_waits:
  assumes "plan now queue log li = Some (Wait until paused)" and "limits_ok li" and "now < usize_max"
  shows "now < until"
proof -
  have no: "responses_of queue = [] \<or> \<not> has_room li now log SendResponse"
    using assms(1) by (auto simp: plan_branches send_def split: if_splits)
  then obtain rw where rw: "response_wait_of now queue log li = Some rw"
    and p: "(if batched_of queue = [] then Some (if responses_of queue = [] then Idle else Wait rw False)
             else batch_plan now (batched_of queue) log li rw) = Some (Wait until paused)"
    using assms(1) by (auto simp: plan_branches bind_eq_Some_conv split: if_splits)
  have "now < rw" using rw assms(3) no by (rule response_wait_later)
  then show ?thesis using p batch_plan_waits[OF _ assms(2)] by (auto split: if_splits)
qed

text \<open>A day after the newest entry nothing is counted.\<close>

lemma counted_aged:
  assumes "\<forall>e \<in> set log. lg_at e + DAY \<le> t" and "w \<le> DAY"
  shows "counted t log cls w = 0"
  using assms by (fastforce simp: counted_def in_window_def filter_empty_conv)

lemma hour_le_day: "HOUR \<le> DAY" by (simp add: HOUR_def DAY_def)

lemma aged_has_room:
  assumes "\<forall>e \<in> set log. lg_at e + DAY \<le> t" and "limits_ok li" and "cls \<noteq> Urgent"
  shows "has_room li t log cls"
  using assms counted_aged[OF assms(1)] hour_le_day by (cases cls) (auto simp: limits_ok_def)

lemma batch_plan_sends:
  assumes "has_room li t log Digest" and "\<not> quiet_at t li" and "batch_due t bs li"
  shows "\<exists>seqs cls. batch_plan t bs log li rw = Some (SendNow seqs cls)"
  using assms by (auto simp: batch_plan_def send_def simp del: has_room.simps)

lemma old_enough_due:
  assumes "\<forall>i \<in> set bs. qd_created_at i + DAY \<le> t" and "bs \<noteq> []" and "limits_ok li"
  shows "batch_due t bs li"
proof -
  have "Min (set (map qd_created_at bs)) \<in> set (map qd_created_at bs)" using assms(2) by (intro Min_in) auto
  then have "Min (set (map qd_created_at bs)) + DAY \<le> t" using assms(1) by auto
  then show ?thesis using assms(3) by (auto simp: batch_due_def limits_ok_def)
qed

lemma loud_time:
  assumes "limits_ok li" and "int (t + DAY) \<le> i64_max"
  obtains u where "t \<le> u" "u \<le> t + DAY" "\<not> quiet_at u li"
proof (cases "quiet_at t li")
  case True
  then obtain q where q: "li_quiet li = Some q" "quiet_now t (li_offset li) q" by (auto simp: quiet_at_def)
  then have qs: "qh_start q \<noteq> qh_end q" "qh_start q < 1440" "qh_end q < 1440"
    using assms(1) by (simp_all add: limits_ok_def)
  show ?thesis
    by (rule that[of "quiet_end t (li_offset li) q"])
       (use quiet_end_spec(1)[OF qs assms(2) q(2)] quiet_end_ahead[OF qs(3), of t "li_offset li"] q(1)
         in \<open>auto simp: quiet_at_def\<close>)
qed (auto intro: that[of t])

lemma plan_sends_in_time:
  assumes lims: "limits_ok li" and "queue \<noteq> []" and small: "int (now + 2 * DAY) \<le> i64_max"
    and age: "\<forall>i \<in> set queue. qd_created_at i \<le> now" and log: "\<forall>e \<in> set log. lg_at e \<le> now"
  shows "\<exists>t seqs cls. now \<le> t \<and> t \<le> now + 2 * DAY \<and> plan t queue log li = Some (SendNow seqs cls)"
proof -
  obtain t where t: "now + DAY \<le> t" "t \<le> now + DAY + DAY" "\<not> quiet_at t li"
    using loud_time[OF lims, of "now + DAY"] small by (auto simp: add.assoc)
  have aged: "\<forall>e \<in> set log. lg_at e + DAY \<le> t" using log t(1) by fastforce
  have room: "has_room li t log SendResponse" "has_room li t log Digest"
    using aged_has_room[OF aged lims] by blast+
  have "\<exists>seqs cls. plan t queue log li = Some (SendNow seqs cls)"
  proof (cases "responses_of queue = []")
    case True
    then have b: "batched_of queue \<noteq> []"
      using assms(2) plan_sets(1,2)[of queue] by (metis (mono_tags, lifting) empty_set equals0D hd_in_set mem_Collect_eq)
    have "batch_due t (batched_of queue) li"
      by (rule old_enough_due[OF _ b lims]) (use age t(1) in \<open>fastforce simp: plan_sets\<close>)
    then show ?thesis
      using True b batch_plan_sends[OF room(2) t(3)]
      by (simp add: plan_branches response_wait_of_def del: has_room.simps)
  next
    case False
    then show ?thesis using room(1) by (simp add: plan_branches send_def del: has_room.simps)
  qed
  then show ?thesis using t by (intro exI[of _ t]) auto
qed

section \<open>Validated settings\<close>

lemma within_ok: "within name v lo hi = Inr u \<longleftrightarrow> lo \<le> v \<and> v \<le> hi"
  by (simp add: within_def)

lemma clock_minutes_bound: "clock_minutes t = Some m \<Longrightarrow> m < 1440"
  by (auto simp: clock_minutes_def split: option.splits if_splits prod.splits)

lemma quiet_ok:
  assumes "quiet n = Inr (Some q)"
  shows "qh_start q \<noteq> qh_end q" "qh_start q < 1440" "qh_end q < 1440"
  using assms by (auto simp: quiet_def Let_def clock_minutes_bound split: option.splits if_splits prod.splits)

lemma validated_limits_ok:
  assumes "notify_validate n = Inr ()"
  shows "limits_ok (plan_limits n off)"
  using assms quiet_ok[of n]
  by (auto simp: notify_validate_def res_bind_Inr_iff within_ok limits_ok_def plan_limits_def DAY_def
      split: if_splits option.splits)

lemma parse_digits_bound: "parse_digits t = Some v \<Longrightarrow> v < 10 ^ length t"
proof -
  have "list_all is_ascii_digit t \<Longrightarrow> foldl (\<lambda>n c. n * 10 + (of_char c - 48)) 0 t < (10 :: nat) ^ length t"
  proof (induction t rule: rev_induct)
    case (snoc c t)
    then have "foldl (\<lambda>n c. n * 10 + (of_char c - 48)) 0 t < (10 :: nat) ^ length t"
      and "(of_char c :: nat) - 48 < 10" by (auto simp: is_ascii_digit_def)
    then show ?case by simp
  qed simp
  then show "parse_digits t = Some v \<Longrightarrow> v < 10 ^ length t"
    by (auto simp: parse_digits_def split: if_splits)
qed

lemma parse_signed_two: "parse_signed b t = Some v \<Longrightarrow> length t = 2 \<Longrightarrow> - 10 < v \<and> v < 100"
  using parse_digits_bound[of "tl t"] parse_digits_bound[of t]
  by (cases t) (auto simp: parse_signed_def parse_unsigned_def split: if_splits option.splits)

lemma parse_offset_bound:
  assumes "parse_offset t = Some v"
  shows "\<bar>v\<bar> \<le> 50400"
proof -
  obtain hs ms h m where "length hs = 2" "length ms = 2" "parse_signed 32 hs = Some h" "parse_signed 32 ms = Some m"
    and hm: "h * 60 + m \<le> 14 * 60" and v: "v = h * 3600 + m * 60 \<or> v = - (h * 3600) - m * 60"
    using assms by (auto simp: parse_offset_def bind_eq_Some_conv split: list.splits if_splits prod.splits)
  then have "- 10 < h" "- 10 < m" using parse_signed_two by blast+
  then show ?thesis using hm v by auto
qed

section \<open>Sample data\<close>

definition sample_limits :: limits where
  "sample_limits =
     \<lparr>li_settle_seconds = 120, li_max_delay_seconds = 900, li_max_items = 2, li_max_bytes = 3584,
      li_max_urgent_per_hour = 4, li_max_messages_per_hour = 1, li_max_messages_per_day = 48,
      li_max_responses_per_hour = 60, li_quiet = Some \<lparr>qh_start = 1380, qh_end = 450\<rparr>,
      li_quiet_urgent = Deliver, li_offset = 0\<rparr>"

definition sample_queue :: "queued_item list" where
  "sample_queue =
     [\<lparr>qd_seq = 2, qd_created_at = 40010, qd_class = Report, qd_urgent = False, qd_bytes = 100\<rparr>,
      \<lparr>qd_seq = 1, qd_created_at = 40000, qd_class = Report, qd_urgent = False, qd_bytes = 200\<rparr>,
      \<lparr>qd_seq = 3, qd_created_at = 40020, qd_class = System, qd_urgent = False, qd_bytes = 10\<rparr>]"

definition sample_notify :: notify_settings where
  "sample_notify =
     \<lparr>no_route = [''feishu:mail''], no_settle_seconds = 120, no_max_delay_seconds = 900,
      no_max_items = 10, no_max_message_kib = 4, no_urgent_by_model = True,
      no_max_urgent_per_hour = 4, no_max_messages_per_hour = 6, no_max_messages_per_day = 48,
      no_max_responses_per_hour = 60, no_quiet_hours = ''23:00-07:30'', no_utc_offset = ''+08:00'',
      no_quiet_urgent = Deliver, no_skipped = CountSkipped, no_max_queue = 256,
      no_give_up_hours = 72\<rparr>"

lemma sample_limits_ok: "limits_ok sample_limits"
  by (simp add: limits_ok_def sample_limits_def DAY_def)

lemmas plan_eval = plan_def Let_def counted_def in_window_def HOUR_def DAY_def sample_queue_def
  sample_limits_def room_at_def send_def quiet_now_def quiet_end_def local_minute_def local_time_def
  i64_max_def

lemma sample_plan_sends: "plan 41000 sample_queue [] sample_limits = Some (SendNow [1, 2] Digest)"
  by (simp add: plan_eval)

lemmas settings_eval = quiet_def fixed_offset_def parse_offset_def clock_minutes_def split_once_def
  parse_unsigned_def parse_signed_def parse_digits_def is_ascii_digit_def of_char_def Let_def
  trim_bytes_def whitespace_bytes_def

lemma sample_quiet: "quiet sample_notify = Inr (Some \<lparr>qh_start = 1380, qh_end = 450\<rparr>)"
  by (simp add: settings_eval sample_notify_def)

lemma sample_notify_valid: "notify_validate sample_notify = Inr ()"
  by (simp add: notify_validate_def sample_quiet settings_eval)
     (simp add: settings_eval sample_notify_def MAX_ROUTES_def valid_route_def validate_name_def
        is_ascii_alphanumeric_def within_def)

section \<open>The properties of the plan\<close>

text \<open>
  The items a message of a class is about, in the order they go: the responses; the other items, the urgent ones
  first, or in quiet hours only the urgent ones; the other items. Each group is oldest first.
\<close>

fun message_items :: "bool \<Rightarrow> send_class \<Rightarrow> queued_item list \<Rightarrow> queued_item list" where
  "message_items hush SendResponse queue = responses_of queue"
| "message_items hush Urgent queue =
     (if hush then filter qd_urgent (batched_of queue) else urgents_first (batched_of queue))"
| "message_items hush Digest queue = batched_of queue"

text \<open>
  C30. What one message holds. When the plan sends, the class of the message has room below its
  limits, and the message is the longest prefix that fits of all the queue's items of that class, oldest first: the
  responses for a response; the rest for a digest; the rest with the urgent ones first for an urgent message, of which
  there is one, or the urgent ones alone in quiet hours. It holds at least one item and at most \<open>max_items\<close>,
  within \<open>max_bytes\<close> unless it is a single item, and it stops only at the end of those items, at \<open>max_items\<close>, or
  where the next item would pass \<open>max_bytes\<close>. In quiet hours only a response or an urgent message goes out, the
  latter only if the settings deliver them.
\<close>

theorem plan_message:
  assumes "limits_ok li" and "plan now queue log li = Some (SendNow seqs cls)"
    and "items = message_items (quiet_at now li) cls queue"
  shows "has_room li now log cls \<and>
    (\<exists>k. seqs = map qd_seq (take k items) \<and> 1 \<le> k \<and> k \<le> length items \<and> k \<le> li_max_items li \<and>
       (k = 1 \<or> message_size (take k items) \<le> li_max_bytes li) \<and>
       (k = length items \<or> k = li_max_items li \<or> li_max_bytes li < message_size (take (Suc k) items))) \<and>
    (cls = Urgent \<longrightarrow> (\<exists>i \<in> set items. qd_urgent i)) \<and>
    (distinct (map qd_seq queue) \<longrightarrow> distinct seqs) \<and>
    (quiet_at now li \<longrightarrow> cls = SendResponse \<or> cls = Urgent \<and> li_quiet_urgent li = Deliver)"
proof -
  from assms(2) obtain its where it: "has_room li now log cls" "its \<noteq> []"
    "SendNow seqs cls = send its cls li" "cls = SendResponse \<Longrightarrow> its = responses_of queue"
    "cls = Urgent \<Longrightarrow> filter qd_urgent (batched_of queue) \<noteq> [] \<and>
       its = (if quiet_at now li then filter qd_urgent (batched_of queue) else urgents_first (batched_of queue))"
    "cls = Digest \<Longrightarrow> its = batched_of queue"
    "quiet_at now li \<Longrightarrow> cls \<noteq> Digest" "quiet_at now li \<Longrightarrow> cls = Urgent \<Longrightarrow> li_quiet_urgent li = Deliver"
    by (elim plan_sends) blast
  have items: "its = items" using it(4-6) assms(3) by (cases cls) auto
  obtain k where k: "1 \<le> k" "k \<le> length items" "k \<le> li_max_items li"
    "send items cls li = SendNow (map qd_seq (take k items)) cls"
    "k = 1 \<or> message_size (take k items) \<le> li_max_bytes li"
    "k < length items \<Longrightarrow> k = li_max_items li \<or> li_max_bytes li < message_size (take (Suc k) items)"
    using send_prefix[OF it(2), of li cls] assms(1) items by (auto simp: limits_ok_def)
  have seqs: "seqs = map qd_seq (take k items)" using it(3) k(4) items by simp
  have "distinct seqs" if "distinct (map qd_seq queue)"
  proof -
    have "distinct (map qd_seq items)"
      using it(4-6) items plan_items_distinct[OF that] by (cases cls) (auto simp: distinct_map_filter)
    then show ?thesis unfolding seqs take_map[symmetric] by (rule distinct_take)
  qed
  moreover have "\<exists>i \<in> set items. qd_urgent i" if "cls = Urgent"
    using it(5)[OF that] items by (auto simp: filter_empty_conv urgents_first_def)
  moreover have "quiet_at now li \<longrightarrow> cls = SendResponse \<or> cls = Urgent \<and> li_quiet_urgent li = Deliver"
    using it(7,8) by (cases cls) auto
  ultimately show ?thesis using it(1) k seqs by (auto simp: le_less)
qed

theorem plan_message_witness:
  "has_room sample_limits 41000 [] Digest \<and>
   (\<exists>k. [1, 2] = map qd_seq (take k (message_items (quiet_at 41000 sample_limits) Digest sample_queue)) \<and> 1 \<le> k)"
  using plan_message[OF sample_limits_ok sample_plan_sends refl] by (elim conjE exE) (intro conjI exI)

text \<open>
  Validated settings keep the notifier running: the plan never reads past the end of its
  list of times, and whenever it says to wait, the time it names is later than now, so the notifier
  never spins.
\<close>

theorem plan_total:
  assumes "notify_validate n = Inr ()" and "now < usize_max"
  shows "\<exists>p. plan now queue log (plan_limits n offset) = Some p \<and>
    (\<forall>until paused. p = Wait until paused \<longrightarrow> now < until)"
proof -
  have ok: "limits_ok (plan_limits n offset)" using assms(1) by (rule validated_limits_ok)
  then obtain p where "plan now queue log (plan_limits n offset) = Some p" using plan_some by blast
  then show ?thesis using plan_waits[OF _ ok assms(2)] by blast
qed

theorem plan_total_witness:
  "\<exists>p. plan 41000 sample_queue [] (plan_limits sample_notify 28800) = Some p"
  using plan_total[OF sample_notify_valid, of 41000 sample_queue "[]" 28800]
  by (auto simp: usize_max_def)

text \<open>
  C31. No report waits for ever: with validated settings and a queue and log that stay as they are,
  some moment within two days the plan sends a message.
\<close>

theorem plan_eventually_sends:
  assumes "notify_validate n = Inr ()" and "queue \<noteq> []" and "int (now + 2 * DAY) \<le> i64_max"
    and "\<forall>i \<in> set queue. qd_created_at i \<le> now" and "\<forall>e \<in> set log. lg_at e \<le> now"
  shows "\<exists>t seqs cls. now \<le> t \<and> t \<le> now + 2 * DAY \<and>
    plan t queue log (plan_limits n offset) = Some (SendNow seqs cls)"
  using plan_sends_in_time[OF validated_limits_ok[OF assms(1)] assms(2-5)] .

theorem plan_eventually_sends_witness:
  "\<exists>t seqs cls. 41000 \<le> t \<and> t \<le> 41000 + 2 * DAY \<and>
    plan t sample_queue [] (plan_limits sample_notify 28800) = Some (SendNow seqs cls)"
  by (rule plan_eventually_sends[OF sample_notify_valid])
     (simp_all add: sample_queue_def DAY_def i64_max_def)

text \<open>
  C32. \<open>room_at\<close> is the first moment with room: from now until then the window is full at every
  moment, and then it is not. So a paused notifier neither wakes early nor oversleeps.
\<close>

theorem room_at_exact:
  assumes "1 \<le> maxn"
  shows "\<exists>t. room_at now log cls w maxn = Some t \<and> now \<le> t \<and> counted t log cls w < maxn \<and>
    (\<forall>u. now \<le> u \<and> u < t \<longrightarrow> maxn \<le> counted u log cls w)"
  using room_at_Some[OF assms] room_at_first[OF assms] by meson

theorem room_at_exact_witness:
  "room_at 41000 [\<lparr>lg_at = 40500, lg_class = Digest\<rparr>] [Digest] HOUR 1 = Some 44100 \<and>
   counted 44100 [\<lparr>lg_at = 40500, lg_class = Digest\<rparr>] [Digest] HOUR < 1"
proof -
  have "room_at 41000 [\<lparr>lg_at = 40500, lg_class = Digest\<rparr>] [Digest] HOUR 1 = Some 44100"
    by (simp add: plan_eval)
  then show ?thesis
    using room_at_exact[of 1 41000 "[\<lparr>lg_at = 40500, lg_class = Digest\<rparr>]" "[Digest]" HOUR] by auto
qed

text \<open>
  Quiet hours end when \<open>quiet_end\<close> says, across midnight too: every moment from now until
  then is quiet, and that moment is not.
\<close>

theorem quiet_end_exact:
  assumes "notify_validate n = Inr ()" and "quiet n = Inr (Some q)"
    and "int (now + DAY) \<le> i64_max" and "quiet_now now offset q"
  shows "now < quiet_end now offset q \<and> \<not> quiet_now (quiet_end now offset q) offset q \<and>
    (\<forall>t. now \<le> t \<and> t < quiet_end now offset q \<longrightarrow> quiet_now t offset q)"
  using quiet_ok[OF assms(2)] quiet_end_spec[OF _ _ _ assms(3,4)] quiet_end_ahead by blast

theorem quiet_end_exact_witness:
  "quiet_end 80000 28800 \<lparr>qh_start = 1380, qh_end = 450\<rparr> = 84600 \<and>
   \<not> quiet_now 84600 28800 \<lparr>qh_start = 1380, qh_end = 450\<rparr>"
proof -
  have "quiet_now 80000 28800 \<lparr>qh_start = 1380, qh_end = 450\<rparr>"
    "quiet_end 80000 28800 \<lparr>qh_start = 1380, qh_end = 450\<rparr> = 84600"
    by (simp_all add: plan_eval)
  then show ?thesis
    using quiet_end_exact[OF sample_notify_valid sample_quiet, of 80000 28800]
    by (simp add: DAY_def i64_max_def)
qed

text \<open>
  A sign inside the hours is taken: \<open>+-5:00\<close> is five hours west, though the error message asks
  for the form \<open>+08:00\<close>.
\<close>

lemma signed_hours_accepted:
  "fixed_offset (sample_notify\<lparr>no_utc_offset := ''+-5:00''\<rparr>) = Inr (Some (- 18000))"
  by (simp add: settings_eval sample_notify_def)

end
