(* ===== verification/Mail_Chat.thy ===== *)
theory Mail_Chat
  imports Prelude
begin

text \<open>
  A mail chat's commands: \<open>mail_chat.rs\<close> and \<open>mail_chat/codes.rs\<close> of scv-channels. The
  owner's message is Unicode text (\<open>ustr\<close>); codes and handles, once read, are ASCII
  (\<open>string\<close>).

  \<open>str::to_lowercase\<close> is used only to compare with a fixed set of words. \<open>to_lowercase\<close>
  below agrees with it on ASCII letters and on U+212A, the one other character whose lowercase form
  is ASCII text; every other character lowercases to text with a character outside ASCII, or to
  itself, so no comparison with those words can tell the difference.
\<close>

section \<open>Text\<close>

definition to_lowercase :: "ustr \<Rightarrow> ustr" where
  "to_lowercase = map (\<lambda>c. if 65 \<le> c \<and> c \<le> 90 then c + 32 else if c = 8490 then 107 else c)"

definition to_ascii_uppercase :: "ustr \<Rightarrow> ustr" where
  "to_ascii_uppercase = map (\<lambda>c. if 97 \<le> c \<and> c \<le> 122 then c - 32 else c)"

definition eq_ignore_ascii_case :: "ustr \<Rightarrow> ustr \<Rightarrow> bool" where
  "eq_ignore_ascii_case s t \<longleftrightarrow> to_ascii_uppercase s = to_ascii_uppercase t"

definition trim_start :: "ustr \<Rightarrow> ustr" where
  "trim_start s = dropWhile is_whitespace s"

definition trim_end :: "ustr \<Rightarrow> ustr" where
  "trim_end s = rev (dropWhile is_whitespace (rev s))"

definition trim_end_matches :: "uchar list \<Rightarrow> ustr \<Rightarrow> ustr" where
  "trim_end_matches cs s = rev (dropWhile (\<lambda>c. c \<in> set cs) (rev s))"

text \<open>\<open>split\<close> on a set of separators: always at least one piece.\<close>

fun split_on :: "uchar list \<Rightarrow> ustr \<Rightarrow> ustr list" where
  "split_on cs [] = [[]]"
| "split_on cs (c # s) =
     (if c \<in> set cs then [] # split_on cs s
      else case split_on cs s of [] \<Rightarrow> [[c]] | p # ps \<Rightarrow> (c # p) # ps)"

definition split_at_first :: "uchar \<Rightarrow> ustr \<Rightarrow> (ustr \<times> ustr) option" where
  "split_at_first c s =
     (case position (\<lambda>x. x = c) s of None \<Rightarrow> None | Some i \<Rightarrow> Some (take i s, drop (Suc i) s))"

section \<open>Codes and handles\<close>

definition ALPHABET :: ustr where
  "ALPHABET = lit ''ABCDEFGHJKMNPQRSTVWXYZ23456789''"

definition CODE_LEN :: nat where "CODE_LEN = 6"
definition HANDLE_LEN :: nat where "HANDLE_LEN = 4"

definition word :: "ustr \<Rightarrow> nat \<Rightarrow> string option" where
  "word t len =
     (let upper = to_ascii_uppercase t
      in if ulen upper = len \<and> list_all (\<lambda>b. b \<in> set ALPHABET) upper
         then Some (map char_of upper) else None)"

definition code :: "ustr \<Rightarrow> string option" where
  "code t = word t CODE_LEN"

definition handle_word :: "ustr \<Rightarrow> string option" where
  "handle_word t =
     word (case strip_prefix [35] t of
             Some r \<Rightarrow> r
           | None \<Rightarrow> (case strip_prefix [65283] t of Some r \<Rightarrow> r | None \<Rightarrow> t)) HANDLE_LEN"

text \<open>
  \<open>random\<close> draws bytes from version 4 UUIDs: \<open>uuids\<close> is the sequence the operating system
  gives, each of 16 bytes. \<open>None\<close> is a sequence too short to fill the code.
\<close>

fun draw_bytes :: "nat \<Rightarrow> string \<Rightarrow> (nat \<times> nat) list \<Rightarrow> string" where
  "draw_bytes len out [] = out"
| "draw_bytes len out ((index, byte) # rest) =
     draw_bytes len
       (if index \<noteq> 6 \<and> index \<noteq> 8 \<and> byte < 240 \<and> length out < len
        then out @ [char_of (ALPHABET ! (byte mod 30))] else out) rest"

fun random :: "nat \<Rightarrow> string \<Rightarrow> nat list list \<Rightarrow> string option" where
  "random len out uuids =
     (if length out < len
      then (case uuids of
              [] \<Rightarrow> None
            | u # us \<Rightarrow> random len (draw_bytes len out (enumerate 0 u)) us)
      else Some out)"

declare random.simps [simp del]


definition new_handle :: "nat list list \<Rightarrow> string option" where
  "new_handle uuids = random HANDLE_LEN [] uuids"

section \<open>Words\<close>

text \<open>The words not yet taken; \<open>Words::rest\<close> is this text.\<close>

definition next_word :: "ustr \<Rightarrow> ustr option \<times> ustr" where
  "next_word t =
     (let rest = trim_start t
      in if rest = [] then (None, [])
         else (Some (takeWhile (\<lambda>c. \<not> is_whitespace c) rest), dropWhile (\<lambda>c. \<not> is_whitespace c) rest))"

lemma next_word_shorter: "next_word t = (Some w, r) \<Longrightarrow> length r < length t"
proof -
  assume a: "next_word t = (Some w, r)"
  then have ne: "trim_start t \<noteq> []" and r: "r = dropWhile (\<lambda>c. \<not> is_whitespace c) (trim_start t)"
    by (auto simp: next_word_def Let_def split: if_splits)
  have "\<not> is_whitespace (hd (trim_start t))"
    using ne unfolding trim_start_def by (rule hd_dropWhile)
  then have "length r < length (trim_start t)"
    using ne r by (cases "trim_start t") (auto simp: le_imp_less_Suc length_dropWhile_le)
  also have "\<dots> \<le> length t" by (simp add: trim_start_def length_dropWhile_le)
  finally show ?thesis .
qed

function all_words :: "ustr \<Rightarrow> ustr list" where
  "all_words t = (case next_word t of (None, _) \<Rightarrow> [] | (Some w, r) \<Rightarrow> w # all_words r)"
  by auto
termination
  by (relation "measure length") (auto simp: next_word_shorter[OF sym])

declare all_words.simps [simp del]

section \<open>Commands\<close>

datatype message_action = MsgArchive | MsgRead | MsgTrash | MsgSpam

datatype mail_command =
    CmdApprove "string list"
  | CmdDeny "string list"
  | CmdDenyAll
  | CmdReply (cmd_handle: string) (cmd_text: ustr)
  | CmdForward string "ustr list" ustr
  | CmdCompose "ustr option" "ustr list" ustr
  | CmdRevise string ustr
  | CmdMessage string message_action
  | CmdStatus

datatype command = Help | Mail mail_command | InvalidCommand string

definition MAX_CODES :: nat where "MAX_CODES = 20"
definition MAX_ADDRESSES :: nat where "MAX_ADDRESSES = 10"
definition MAX_TEXT_BYTES :: nat where "MAX_TEXT_BYTES = 2 * 1024"

definition strip_end :: "ustr \<Rightarrow> ustr" where
  "strip_end t = trim_end (trim_end_matches [46, 12290, 33, 65281] (trim_end t))"

fun collect_codes :: "string list \<Rightarrow> ustr list \<Rightarrow> string list option" where
  "collect_codes found [] = Some found"
| "collect_codes found (w # ws) =
     (case code w of
        None \<Rightarrow> None
      | Some c \<Rightarrow> collect_codes (if c \<in> set found then found else found @ [c]) ws)"

definition codes_command :: "ustr \<Rightarrow> (string list \<Rightarrow> mail_command) \<Rightarrow> command" where
  "codes_command ws mk =
     (case collect_codes [] (all_words (snd (next_word (strip_end ws)))) of
        None \<Rightarrow> InvalidCommand ''Not done: a code is six letters and digits, such as approve Q7M2KD.''
      | Some found \<Rightarrow>
          if found = [] then InvalidCommand ''Not done: name the code, such as approve Q7M2KD.''
          else if length found > MAX_CODES
          then InvalidCommand ''Not done: one message may name at most 20 codes.''
          else Mail (mk found))"

definition unlinked :: "ustr \<Rightarrow> ustr" where
  "unlinked part =
     (case Option.bind (strip_prefix (lit ''<mailto:'') part)
             (\<lambda>r. if suffix (lit ''>'') r then Some (butlast r) else None) of
        None \<Rightarrow> part
      | Some link \<Rightarrow>
          (case split_at_first 124 link of
             None \<Rightarrow> link
           | Some (address, label) \<Rightarrow> if eq_ignore_ascii_case address label then address else part))"

definition plausible :: "ustr \<Rightarrow> bool" where
  "plausible address \<longleftrightarrow>
     ulen address \<le> 254 \<and>
     (case split_at_first 64 address of
        None \<Rightarrow> False | Some (local, domain) \<Rightarrow> local \<noteq> [] \<and> 46 \<in> set domain)"

definition addresses :: "ustr \<Rightarrow> ustr list option \<times> ustr" where
  "addresses ws =
     (case next_word ws of
        (None, rest) \<Rightarrow> (None, rest)
      | (Some w, rest) \<Rightarrow>
          let list = map unlinked (filter (\<lambda>p. p \<noteq> []) (split_on [44, 65292, 59, 65307] w))
          in (if list \<noteq> [] \<and> length list \<le> MAX_ADDRESSES \<and> list_all plausible list
              then Some list else None, rest))"

definition named_account :: "ustr \<Rightarrow> ustr option" where
  "named_account ws =
     (case fst (next_word ws) of
        None \<Rightarrow> None
      | Some w \<Rightarrow>
          if 64 \<notin> set w \<and> w \<noteq> [] \<and>
             list_all (\<lambda>b. (48 \<le> b \<and> b \<le> 57) \<or> (65 \<le> b \<and> b \<le> 90) \<or> (97 \<le> b \<and> b \<le> 122) \<or>
                           b = 45 \<or> b = 95) w
          then Some w else None)"

definition mail_reply :: "ustr \<Rightarrow> command" where
  "mail_reply ws =
     (case next_word ws of
        (w, rest) \<Rightarrow>
          (case Option.bind w handle_word of
             None \<Rightarrow> InvalidCommand ''Not done: say which mail, such as mail reply #4K7P.''
           | Some h \<Rightarrow>
               let t = trim rest
               in if ulen t > MAX_TEXT_BYTES then InvalidCommand ''Not done: say it in at most 2 KiB.''
                  else Mail (CmdReply h t)))"

definition mail_forward :: "ustr \<Rightarrow> command" where
  "mail_forward ws =
     (case next_word ws of
        (w, rest) \<Rightarrow>
          (case Option.bind w handle_word of
             None \<Rightarrow> InvalidCommand ''Not done: say which mail and to whom, such as mail forward #4K7P name@example.com.''
           | Some h \<Rightarrow>
               (case addresses rest of
                  (None, _) \<Rightarrow> InvalidCommand ''Not done: name up to 10 addresses, separated by commas, such as mail forward #4K7P name@example.com.''
                | (Some to, rest') \<Rightarrow>
                    let n = trim rest'
                    in if ulen n > MAX_TEXT_BYTES
                       then InvalidCommand ''Not done: keep the note to at most 2 KiB.''
                       else Mail (CmdForward h to n))))"

definition mail_compose :: "ustr \<Rightarrow> command" where
  "mail_compose ws =
     (let account = named_account ws;
          rest = (if account \<noteq> None then snd (next_word ws) else ws)
      in case addresses rest of
           (None, _) \<Rightarrow> InvalidCommand ''Not done: name up to 10 addresses, separated by commas, then what to write, such as mail compose name@example.com ask about Friday.''
         | (Some to, rest') \<Rightarrow>
             let t = trim rest'
             in if t = [] then InvalidCommand ''Not done: say what to write after the addresses.''
                else if ulen t > MAX_TEXT_BYTES then InvalidCommand ''Not done: say it in at most 2 KiB.''
                else Mail (CmdCompose account to t))"

definition mail_revise :: "ustr \<Rightarrow> command" where
  "mail_revise ws =
     (case next_word ws of
        (w, rest) \<Rightarrow>
          (case Option.bind w code of
             None \<Rightarrow> InvalidCommand ''Not done: name the draft's code, such as mail revise Q7M2KD shorter.''
           | Some c \<Rightarrow>
               let t = trim rest
               in if t = [] then InvalidCommand ''Not done: say what to change after the code.''
                  else if ulen t > MAX_TEXT_BYTES then InvalidCommand ''Not done: say it in at most 2 KiB.''
                  else Mail (CmdRevise c t)))"

definition mail_message :: "ustr \<Rightarrow> ustr \<Rightarrow> command" where
  "mail_message sub ws =
     (let action = (if sub = lit ''archive'' then MsgArchive
                    else if sub = lit ''read'' then MsgRead
                    else if sub = lit ''trash'' then MsgTrash else MsgSpam)
      in case next_word ws of
           (w, rest) \<Rightarrow>
             (case Option.bind (map_option strip_end w) handle_word of
                Some h \<Rightarrow>
                  if strip_end rest = [] then Mail (CmdMessage h action)
                  else InvalidCommand ''Not done: say which mail, such as mail trash #4K7P.''
              | None \<Rightarrow> InvalidCommand ''Not done: say which mail, such as mail trash #4K7P.''))"

definition mail :: "ustr \<Rightarrow> command" where
  "mail ws =
     (case next_word (snd (next_word ws)) of
        (None, _) \<Rightarrow> Help
      | (Some s, rest) \<Rightarrow>
          let sub = strip_end (to_lowercase s)
          in if sub = lit ''help'' \<and> rest = [] then Help
             else if sub = lit ''status'' \<and> strip_end rest = [] then Mail CmdStatus
             else if sub = lit ''reply'' then mail_reply rest
             else if sub = lit ''forward'' \<or> sub = lit ''fwd'' then mail_forward rest
             else if sub = lit ''compose'' \<or> sub = lit ''new'' then mail_compose rest
             else if sub = lit ''revise'' then mail_revise rest
             else if sub \<in> {lit ''archive'', lit ''read'', lit ''trash'', lit ''spam'', lit ''junk''}
             then mail_message sub rest
             else Help)"

definition parse :: "ustr \<Rightarrow> command" where
  "parse t =
     (let ws = trim t
      in case next_word ws of
           (None, _) \<Rightarrow> Help
         | (Some verb, _) \<Rightarrow>
             let v = to_lowercase verb
             in if v = lit ''approve'' \<or> v = [25209, 20934] then codes_command ws CmdApprove
                else if v = lit ''deny'' \<or> v = [25298, 32477]
                then let what = trim_start (strip_end (snd (next_word ws)))
                     in if eq_ignore_ascii_case what (lit ''all'') \<or> what = [20840, 37096]
                        then Mail CmdDenyAll else codes_command ws CmdDeny
                else if v = lit ''mail'' then mail ws
                else Help)"

section \<open>Messages\<close>

datatype media_kind = Image | Audio | Video | File

record media =
  md_kind :: media_kind
  md_name :: string
  md_size :: "nat option"
  md_mime :: "string option"
  md_transcript :: "ustr option"
  md_source :: string

record thread =
  th_id :: string
  th_reply_to :: string
  th_origin :: "string option"

record message =
  mg_id :: string
  mg_sender :: string
  mg_text :: ustr
  mg_reply_to :: string
  mg_group :: "string option"
  mg_media :: "media list"
  mg_reference :: "string option"
  mg_sent_ms :: "nat option"
  mg_quoted :: bool
  mg_thread :: "thread option"

definition command_of :: "message \<Rightarrow> command" where
  "command_of m =
     (if mg_quoted m \<or> mg_reference m \<noteq> None \<or> mg_media m \<noteq> [] then Help
      else parse (mg_text m))"

section \<open>Status\<close>

record mail_counts =
  mc_claimed :: nat
  mc_queued :: nat
  mc_seen_today :: nat
  mc_triaged_today :: nat
  mc_reported_today :: nat
  mc_tokens_today :: nat
  mc_token_budget :: nat
  mc_messages_24h :: nat
  mc_last_check_unix_seconds :: "nat option"
  mc_provider :: "string option"
  mc_actions :: "string list"
  mc_actions_open :: nat
  mc_actions_executing :: nat
  mc_actions_unknown :: nat
  mc_actions_done_24h :: nat

definition NO_ACCOUNTS_REPLY :: string where
  "NO_ACCOUNTS_REPLY = ''No mail account is reporting to this chat right now.''"

definition ago :: "nat \<Rightarrow> nat \<Rightarrow> string" where
  "ago now at =
     (let seconds = now - at
      in if seconds < 60 then ''just now''
         else if seconds < 3600 then show_nat (seconds div 60) @ '' min ago''
         else show_nat (seconds div 3600) @ '' h ago'')"

definition status_line :: "string \<Rightarrow> mail_counts \<Rightarrow> nat \<Rightarrow> string" where
  "status_line component c now =
     (let checked = (case mc_last_check_unix_seconds c of
                       None \<Rightarrow> ''not checked yet'' | Some at \<Rightarrow> ''last check '' @ ago now at);
          budget = (if mc_token_budget c = 0 then ''the model is off''
                    else show_nat (mc_tokens_today c) @ '' of '' @ show_nat (mc_token_budget c) @
                         '' model tokens used'')
      in component @ '': '' @ show_nat (mc_seen_today c) @ '' new today, '' @
         show_nat (mc_triaged_today c) @ '' triaged, '' @ show_nat (mc_reported_today c) @
         '' reported; '' @ show_nat (mc_queued c) @ '' waiting to be sent; '' @ budget @ ''; '' @
         checked @ ''.'')"

definition status :: "(string \<times> mail_counts) list \<Rightarrow> nat \<Rightarrow> string" where
  "status accounts now =
     (if accounts = [] then NO_ACCOUNTS_REPLY
      else join [CHR 0x0A] (map (\<lambda>(component, c). status_line component c now) accounts))"

section \<open>What a parsed command holds\<close>

definition is_code :: "string \<Rightarrow> bool" where
  "is_code c \<longleftrightarrow> length c = CODE_LEN \<and> (\<forall>b \<in> set c. of_char b \<in> set ALPHABET)"

definition is_handle :: "string \<Rightarrow> bool" where
  "is_handle h \<longleftrightarrow> length h = HANDLE_LEN \<and> (\<forall>b \<in> set h. of_char b \<in> set ALPHABET)"

definition addresses_ok :: "ustr list \<Rightarrow> bool" where
  "addresses_ok to \<longleftrightarrow> to \<noteq> [] \<and> length to \<le> MAX_ADDRESSES \<and> list_all plausible to"

definition codes_ok :: "string list \<Rightarrow> bool" where
  "codes_ok cs \<longleftrightarrow> cs \<noteq> [] \<and> length cs \<le> MAX_CODES \<and> distinct cs \<and> list_all is_code cs"

fun command_ok :: "mail_command \<Rightarrow> bool" where
  "command_ok (CmdApprove cs) \<longleftrightarrow> codes_ok cs"
| "command_ok (CmdDeny cs) \<longleftrightarrow> codes_ok cs"
| "command_ok (CmdReply h t) \<longleftrightarrow> is_handle h \<and> ulen t \<le> MAX_TEXT_BYTES"
| "command_ok (CmdForward h to n) \<longleftrightarrow> is_handle h \<and> addresses_ok to \<and> ulen n \<le> MAX_TEXT_BYTES"
| "command_ok (CmdCompose a to t) \<longleftrightarrow> addresses_ok to \<and> t \<noteq> [] \<and> ulen t \<le> MAX_TEXT_BYTES"
| "command_ok (CmdRevise c t) \<longleftrightarrow> is_code c \<and> t \<noteq> [] \<and> ulen t \<le> MAX_TEXT_BYTES"
| "command_ok (CmdMessage h a) \<longleftrightarrow> is_handle h"
| "command_ok _ \<longleftrightarrow> True"

lemma alphabet_range: "c \<in> set ALPHABET \<Longrightarrow> (50 \<le> c \<and> c \<le> 57) \<or> (65 \<le> c \<and> c \<le> 90)"
  by (auto simp: ALPHABET_def lit_def of_char_def)

lemma alphabet_ascii: "c \<in> set ALPHABET \<Longrightarrow> c < 128"
  using alphabet_range[of c] by linarith

lemma ascii_ulen: "\<forall>c \<in> set t. c < 128 \<Longrightarrow> ulen t = length t"
  by (induction t) (auto simp: utf8_len_def)

lemma word_Some:
  assumes "word t len = Some w"
  shows "length w = len" "\<forall>b \<in> set w. of_char b \<in> set ALPHABET"
proof -
  let ?u = "to_ascii_uppercase t"
  have u: "ulen ?u = len" "\<forall>b \<in> set ?u. b \<in> set ALPHABET" "w = map char_of ?u"
    using assms by (auto simp: word_def Let_def list_all_iff split: if_splits)
  have small: "\<forall>b \<in> set ?u. b < 128" using u(2) alphabet_ascii by blast
  show "length w = len" using u(1,3) ascii_ulen[OF small] by simp
  show "\<forall>b \<in> set w. of_char b \<in> set ALPHABET"
    using u(2,3) small by (auto simp: of_char_of)
qed

lemma code_ok: "code t = Some c \<Longrightarrow> is_code c"
  by (simp add: code_def is_code_def word_Some)

lemma handle_ok: "handle_word t = Some h \<Longrightarrow> is_handle h"
  by (simp add: handle_word_def is_handle_def word_Some)

lemma collect_codes_ok:
  "collect_codes found ws = Some cs \<Longrightarrow> distinct found \<Longrightarrow> list_all is_code found \<Longrightarrow>
     distinct cs \<and> list_all is_code cs"
  by (induction found ws rule: collect_codes.induct) (auto split: option.splits if_splits dest: code_ok)

lemma codes_command_ok:
  assumes "codes_command ws mk = Mail c" and "\<And>cs. codes_ok cs \<Longrightarrow> command_ok (mk cs)"
  shows "command_ok c"
  using assms collect_codes_ok[of "[]"]
  by (auto simp: codes_command_def codes_ok_def split: option.splits if_splits)

lemma addresses_Some: "addresses ws = (Some to, rest) \<Longrightarrow> addresses_ok to"
  by (auto simp: addresses_def addresses_ok_def Let_def split: option.splits prod.splits if_splits)

lemmas mail_subcommands = mail_reply_def mail_forward_def mail_compose_def mail_revise_def mail_message_def

lemma mail_ok: "mail ws = Mail c \<Longrightarrow> command_ok c"
  by (auto simp: mail_def mail_subcommands Let_def bind_eq_Some_conv not_less
      dest!: addresses_Some handle_ok code_ok split: option.splits prod.splits if_splits)

lemma parse_ok: "parse t = Mail c \<Longrightarrow> command_ok c"
  by (auto simp: parse_def Let_def dest: mail_ok codes_command_ok split: option.splits prod.splits if_splits)

section \<open>Reading back what was offered\<close>

definition plain_word :: "ustr \<Rightarrow> bool" where
  "plain_word w \<longleftrightarrow> w \<noteq> [] \<and> (\<forall>c \<in> set w. \<not> is_whitespace c)"



lemma is_whitespace_space [simp]: "is_whitespace 32"
  by (simp add: is_whitespace_def)


lemma trim_start_plain: "plain_word w \<Longrightarrow> trim_start (w @ t) = w @ t"
  by (cases w) (auto simp: trim_start_def plain_word_def)




definition closing :: "uchar \<Rightarrow> bool" where
  "closing c \<longleftrightarrow> is_whitespace c \<or> c \<in> set [46, 12290, 33, 65281]"

lemma trims_last:
  assumes "t \<noteq> []" and "\<not> closing (last t)"
  shows "trim_end t = t" "strip_end t = t"
proof -
  obtain u c where t: "t = u @ [c]" using assms(1) by (cases t rule: rev_cases) auto
  show e: "trim_end t = t" using assms(2) t by (simp add: trim_end_def closing_def)
  show "strip_end t = t" using assms(2) t e by (simp add: strip_end_def trim_end_matches_def closing_def)
qed

lemma trim_plain: "plain_word w \<Longrightarrow> \<not> closing (last (w @ t)) \<Longrightarrow> trim (w @ t) = w @ t"
  using trim_start_plain[of w t] trims_last(1)[of "w @ t"]
  by (simp add: trim_def trim_start_def trim_end_def plain_word_def)










section \<open>Commands as they may be typed\<close>

















definition sample_message :: message where
  "sample_message =
     \<lparr>mg_id = ''m1'', mg_sender = ''owner'', mg_text = lit ''approve q7m2kd.'', mg_reply_to = [],
      mg_group = None, mg_media = [], mg_reference = None, mg_sent_ms = Some 1000,
      mg_quoted = False, mg_thread = None\<rparr>"

lemmas chat_eval = command_of_def sample_message_def parse_def Let_def lit_def of_char_def trim_def
  is_whitespace_def next_word_def trim_start_def to_lowercase_def codes_command_def strip_end_def
  trim_end_def trim_end_matches_def code_def word_def to_ascii_uppercase_def ALPHABET_def CODE_LEN_def
  utf8_len_def MAX_CODES_def

lemma sample_command: "command_of sample_message = Mail (CmdApprove [''Q7M2KD''])"
  by (simp add: chat_eval all_words.simps) (simp add: char_of_def bit_0)


section \<open>The properties of the mail chat\<close>

text \<open>
  C37. What a mail chat hands over is bounded and well formed. A message is read as a command only
  when it quotes nothing, refers to nothing and carries no file; then the codes it names are one to
  twenty distinct codes of six characters of the alphabet, handles have four, a command names at
  most ten plausible addresses, and its free text is at most 2 KiB.
\<close>

theorem command_well_formed:
  assumes "command_of m = Mail c"
  shows "\<not> mg_quoted m \<and> mg_reference m = None \<and> mg_media m = [] \<and> command_ok c"
  using assms parse_ok by (auto simp: command_of_def split: if_splits)

theorem command_well_formed_witness:
  "\<not> mg_quoted sample_message \<and> codes_ok [''Q7M2KD'']"
  using command_well_formed[OF sample_command] by simp


end
