(* ===== verification/Hub.thy ===== *)
theory Hub
  imports Mail_Actions Mail_Chat "HOL-Library.AList" "HOL-Library.List_Lexorder"
begin

text \<open>
  What the daemon shares with the chat bridges and email accounts it runs: \<open>hub.rs\<close> of
  scv-channels. One lock guards the hub's maps, so its operations are the steps of a state machine.

  A \<open>HashMap\<close> is a list of pairs with distinct keys. The order Rust iterates in is unspecified;
  the list's order stands for it, and the theorems hold for every order. A bridge's notice channel is
  the list of notices queued in it and whether its receiver is still there; whether a notice was
  stored within the time a caller waits, and how an email account answers, are arguments. The
  last-owner file on disk is written after the change the model makes.
\<close>

section \<open>State\<close>

datatype purpose = ForChat | ForMail

record notice =
  nt_to :: string
  nt_text :: string
  nt_question :: "string option"
  nt_key :: "string option"

datatype notice_kind = Plain "string option" | Keyed string

datatype notify_error = NotRunning | NotStored | WrongPurpose

datatype withdrawal = Settled | Unsent | Unanswered

record hub_origin =
  ho_component :: string
  ho_peer :: string

record last_owner =
  lo_component :: string
  lo_peer :: string
  lo_unix_seconds :: nat

record mail_account =
  ma_id :: nat
  ma_routes :: "string list"
  ma_counts :: mail_counts
  ma_authority :: bool
  ma_codes :: "string set"
  ma_handles :: "string set"
  ma_executing :: nat

record question =
  qs_id :: string
  qs_delivered_ms :: "nat option"

record bridge =
  br_id :: nat
  br_owner :: "string option"
  br_purpose :: purpose
  br_notices :: "notice list"
  br_open :: bool
  br_owner_claims :: nat

record conversation =
  cv_component :: string
  cv_peer :: string
  cv_session :: "string option"
  cv_work :: nat

record hub =
  hb_next :: nat
  hb_bridges :: "(string \<times> bridge) list"
  hb_conversations :: "(nat \<times> conversation) list"
  hb_last_owner :: "last_owner option"
  hb_questions :: "((string \<times> string) \<times> question) list"
  hb_keyed :: "((string \<times> string) \<times> keyed_outcome) list"
  hb_mail :: "(string \<times> mail_account) list"
  hb_restart :: "string option"
  hb_recovered :: "string set"
  hb_low_disk :: bool
  hb_mail_drain :: bool

definition LAST_OWNER_REFRESH :: nat where "LAST_OWNER_REFRESH = 10 * 60"
definition MAX_KEYED_PER_CHAT :: nat where "MAX_KEYED_PER_CHAT = 512"

definition no_counts :: mail_counts where
  "no_counts =
     \<lparr>mc_claimed = 0, mc_queued = 0, mc_seen_today = 0, mc_triaged_today = 0, mc_reported_today = 0,
      mc_tokens_today = 0, mc_token_budget = 0, mc_messages_24h = 0,
      mc_last_check_unix_seconds = None, mc_provider = None, mc_actions = [], mc_actions_open = 0,
      mc_actions_executing = 0, mc_actions_unknown = 0, mc_actions_done_24h = 0\<rparr>"

definition new_hub :: "last_owner option \<Rightarrow> hub" where
  "new_hub lo =
     \<lparr>hb_next = 0, hb_bridges = [], hb_conversations = [], hb_last_owner = lo, hb_questions = [],
      hb_keyed = [], hb_mail = [], hb_restart = None, hb_recovered = {}, hb_low_disk = False,
      hb_mail_drain = False\<rparr>"

text \<open>\<open>get_mut\<close> followed by a change, and nothing where the key is absent.\<close>

definition modify :: "'k \<Rightarrow> ('v \<Rightarrow> 'v) \<Rightarrow> ('k \<times> 'v) list \<Rightarrow> ('k \<times> 'v) list" where
  "modify k f m = (case map_of m k of None \<Rightarrow> m | Some v \<Rightarrow> AList.update k (f v) m)"

section \<open>Reading\<close>

definition hub_session_origin :: "hub \<Rightarrow> string \<Rightarrow> hub_origin option" where
  "hub_session_origin h session =
     map_option (\<lambda>(_, c). \<lparr>ho_component = cv_component c, ho_peer = cv_peer c\<rparr>)
       (List.find (\<lambda>(_, c). cv_session c = Some session) (hb_conversations h))"

definition owner_claims :: "hub \<Rightarrow> nat" where
  "owner_claims h = sum_list (map (br_owner_claims \<circ> snd) (hb_bridges h))"

definition session_work :: "hub \<Rightarrow> string \<Rightarrow> nat" where
  "session_work h session =
     sum_list (map (cv_work \<circ> snd) (filter (\<lambda>(_, c). cv_session c = Some session) (hb_conversations h)))"

definition background_work :: "hub \<Rightarrow> nat" where
  "background_work h = sum_list (map (cv_work \<circ> snd) (hb_conversations h))"

definition hub_owner :: "hub \<Rightarrow> string \<Rightarrow> string option option" where
  "hub_owner h component = map_option br_owner (map_of (hb_bridges h) component)"

definition hub_purpose :: "hub \<Rightarrow> string \<Rightarrow> purpose option" where
  "hub_purpose h component = map_option br_purpose (map_of (hb_bridges h) component)"

definition is_mail_chat :: "hub \<Rightarrow> string \<Rightarrow> bool" where
  "is_mail_chat h component \<longleftrightarrow> hub_purpose h component = Some ForMail"

definition hub_keyed_outcome :: "hub \<Rightarrow> string \<Rightarrow> string \<Rightarrow> keyed_outcome option" where
  "hub_keyed_outcome h component key = map_of (hb_keyed h) (component, key)"

definition chat_owner :: "hub \<Rightarrow> string \<Rightarrow> string option" where
  "chat_owner h route = Option.bind (hub_owner h route) (\<lambda>ow. ow)"

definition mail_executing :: "hub \<Rightarrow> nat" where
  "mail_executing h = sum_list (map (ma_executing \<circ> snd) (hb_mail h))"

text \<open>What the mail ledger sees of the hub.\<close>

definition world_of :: "hub \<Rightarrow> world" where
  "world_of h = \<lparr>wd_owner = chat_owner h, wd_delivered = hub_keyed_outcome h\<rparr>"

section \<open>Bridges and notices\<close>

definition register_as :: "string \<Rightarrow> string option \<Rightarrow> purpose \<Rightarrow> hub \<Rightarrow> nat \<times> hub" where
  "register_as component owner purp h =
     (let n = hb_next h + 1
      in (n, h\<lparr>hb_next := n,
               hb_bridges := AList.update component
                 \<lparr>br_id = n, br_owner = owner, br_purpose = purp, br_notices = [], br_open = True,
                  br_owner_claims = 0\<rparr> (hb_bridges h)\<rparr>))"

definition drop_registration :: "string \<Rightarrow> nat \<Rightarrow> hub \<Rightarrow> hub" where
  "drop_registration component n h =
     (case map_of (hb_bridges h) component of
        Some b \<Rightarrow> if br_id b = n then h\<lparr>hb_bridges := AList.delete component (hb_bridges h)\<rparr> else h
      | None \<Rightarrow> h)"

definition queue_notice ::
  "string \<Rightarrow> string \<Rightarrow> string \<Rightarrow> notice_kind \<Rightarrow> bool \<Rightarrow> hub \<Rightarrow> (notify_error + unit) \<times> hub" where
  "queue_notice component to txt kind stored h =
     (let (quest, key) = (case kind of Plain q \<Rightarrow> (q, None) | Keyed k \<Rightarrow> (None, Some k));
          n = \<lparr>nt_to = to, nt_text = txt, nt_question = quest, nt_key = key\<rparr>
      in case map_of (hb_bridges h) component of
           None \<Rightarrow> (Inl NotRunning, h)
         | Some b \<Rightarrow>
             if (br_purpose b = ForMail) \<noteq> (nt_key n \<noteq> None) then (Inl WrongPurpose, h)
             else if \<not> br_open b then (Inl NotRunning, h)
             else (if stored then Inr () else Inl NotStored,
                   h\<lparr>hb_bridges := AList.update component (b\<lparr>br_notices := br_notices b @ [n]\<rparr>)
                       (hb_bridges h)\<rparr>))"

definition notify where
  "notify component to txt = queue_notice component to txt (Plain None)"

definition send_question where
  "send_question qid component to txt = queue_notice component to txt (Plain (Some qid))"

definition notify_keyed where
  "notify_keyed component to txt key = queue_notice component to txt (Keyed key)"

text \<open>The bridge takes the next notice from its channel, or closes the channel.\<close>

definition receive_notice :: "string \<Rightarrow> hub \<Rightarrow> hub" where
  "receive_notice component h =
     h\<lparr>hb_bridges := modify component (\<lambda>b. b\<lparr>br_notices := tl (br_notices b)\<rparr>) (hb_bridges h)\<rparr>"

definition close_notices :: "string \<Rightarrow> hub \<Rightarrow> hub" where
  "close_notices component h =
     h\<lparr>hb_bridges := modify component (\<lambda>b. b\<lparr>br_open := False\<rparr>) (hb_bridges h)\<rparr>"

definition set_owner_claims :: "string \<Rightarrow> nat \<Rightarrow> nat \<Rightarrow> hub \<Rightarrow> hub" where
  "set_owner_claims component n claims h =
     h\<lparr>hb_bridges := modify component
         (\<lambda>b. if br_id b = n then b\<lparr>br_owner_claims := claims\<rparr> else b) (hb_bridges h)\<rparr>"

definition record_owner :: "string \<Rightarrow> string \<Rightarrow> nat \<Rightarrow> hub \<Rightarrow> hub" where
  "record_owner component peer now h =
     (let fresh = (case hb_last_owner h of
                     None \<Rightarrow> False
                   | Some l \<Rightarrow> lo_component l = component \<and> lo_peer l = peer \<and>
                               now - lo_unix_seconds l < LAST_OWNER_REFRESH)
      in if fresh then h
         else h\<lparr>hb_last_owner := Some \<lparr>lo_component = component, lo_peer = peer, lo_unix_seconds = now\<rparr>\<rparr>)"

definition take_restart :: "string \<Rightarrow> hub \<Rightarrow> string option \<times> hub" where
  "take_restart component h =
     (if component \<notin> hb_recovered h then hb_restart h else None,
      h\<lparr>hb_recovered := insert component (hb_recovered h)\<rparr>)"

section \<open>Questions\<close>

definition question_key :: "hub \<Rightarrow> string option \<Rightarrow> string \<Rightarrow> (string \<times> string) option" where
  "question_key h component qid =
     map_option fst
       (List.find (\<lambda>((holder, _), q). qs_id q = qid \<and>
                     (case component of None \<Rightarrow> True | Some c \<Rightarrow> c = holder)) (hb_questions h))"

definition ask :: "string \<Rightarrow> string \<Rightarrow> string \<Rightarrow> hub \<Rightarrow> bool \<times> hub" where
  "ask qid component peer h =
     (if map_of (hb_questions h) (component, peer) \<noteq> None then (False, h)
      else (True, h\<lparr>hb_questions :=
              AList.update (component, peer) \<lparr>qs_id = qid, qs_delivered_ms = None\<rparr> (hb_questions h)\<rparr>))"

definition withdraw :: "string \<Rightarrow> hub \<Rightarrow> withdrawal \<times> hub" where
  "withdraw qid h =
     (case question_key h None qid of
        None \<Rightarrow> (Settled, h)
      | Some key \<Rightarrow>
          (case map_of (hb_questions h) key of
             Some q \<Rightarrow> if qs_delivered_ms q \<noteq> None then Unanswered else Unsent
           | None \<Rightarrow> Settled,
           h\<lparr>hb_questions := AList.delete key (hb_questions h)\<rparr>))"

definition asking :: "hub \<Rightarrow> string \<Rightarrow> string \<Rightarrow> nat option" where
  "asking h component peer =
     Option.bind (map_of (hb_questions h) (component, peer)) qs_delivered_ms"

text \<open>The question taken, for its asker, and the hub without it.\<close>

definition take_question :: "string \<Rightarrow> string \<Rightarrow> nat \<Rightarrow> hub \<Rightarrow> string option \<times> hub" where
  "take_question component peer sent_ms h =
     (case map_of (hb_questions h) (component, peer) of
        None \<Rightarrow> (None, h)
      | Some q \<Rightarrow>
          (case qs_delivered_ms q of
             None \<Rightarrow> (None, h)
           | Some d \<Rightarrow>
               if d > sent_ms then (None, h)
               else (Some (qs_id q),
                     h\<lparr>hb_questions := AList.delete (component, peer) (hb_questions h)\<rparr>)))"

definition question_waiting :: "hub \<Rightarrow> string \<Rightarrow> string \<Rightarrow> bool" where
  "question_waiting h component qid \<longleftrightarrow> question_key h (Some component) qid \<noteq> None"

definition question_delivered :: "string \<Rightarrow> string \<Rightarrow> nat \<Rightarrow> hub \<Rightarrow> hub" where
  "question_delivered component qid now_ms h =
     (case question_key h (Some component) qid of
        None \<Rightarrow> h
      | Some key \<Rightarrow>
          h\<lparr>hb_questions := modify key
              (\<lambda>q. case qs_delivered_ms q of
                     None \<Rightarrow> q\<lparr>qs_delivered_ms := Some now_ms\<rparr> | Some _ \<Rightarrow> q) (hb_questions h)\<rparr>)"

definition question_undelivered :: "string \<Rightarrow> string \<Rightarrow> hub \<Rightarrow> hub" where
  "question_undelivered component qid h =
     (case question_key h (Some component) qid of
        None \<Rightarrow> h
      | Some key \<Rightarrow> h\<lparr>hb_questions := AList.delete key (hb_questions h)\<rparr>)"

section \<open>Keyed notices\<close>

definition load_keyed :: "string \<Rightarrow> (string \<times> keyed_outcome) list \<Rightarrow> hub \<Rightarrow> hub" where
  "load_keyed component keys h =
     (let kept = filter (\<lambda>((c, _), _). c \<noteq> component) (hb_keyed h)
      in h\<lparr>hb_keyed := fold (\<lambda>(key, outcome). AList.update (component, key) outcome)
                         (take MAX_KEYED_PER_CHAT keys) kept\<rparr>)"

definition record_keyed :: "string \<Rightarrow> string \<Rightarrow> keyed_outcome \<Rightarrow> hub \<Rightarrow> hub" where
  "record_keyed component key outcome h =
     (let held = length (filter (\<lambda>((c, _), _). c = component) (hb_keyed h))
      in if held \<ge> MAX_KEYED_PER_CHAT \<and> map_of (hb_keyed h) (component, key) = None then h
         else h\<lparr>hb_keyed := AList.update (component, key) outcome (hb_keyed h)\<rparr>)"

definition forget_keyed :: "string \<Rightarrow> (string \<Rightarrow> bool) \<Rightarrow> hub \<Rightarrow> hub" where
  "forget_keyed component keep h =
     h\<lparr>hb_keyed := filter (\<lambda>((c, key), _). c \<noteq> component \<or> keep key) (hb_keyed h)\<rparr>"

section \<open>Conversations\<close>

definition track_conversation :: "string \<Rightarrow> string \<Rightarrow> hub \<Rightarrow> nat \<times> hub" where
  "track_conversation component peer h =
     (let n = hb_next h + 1
      in (n, h\<lparr>hb_next := n,
               hb_conversations := AList.update n
                 \<lparr>cv_component = component, cv_peer = peer, cv_session = None, cv_work = 0\<rparr>
                 (hb_conversations h)\<rparr>))"

definition tracker_update :: "nat \<Rightarrow> string option \<Rightarrow> nat \<Rightarrow> hub \<Rightarrow> hub" where
  "tracker_update n session work h =
     h\<lparr>hb_conversations := modify n (\<lambda>c. c\<lparr>cv_session := session, cv_work := work\<rparr>) (hb_conversations h)\<rparr>"

definition drop_tracker :: "nat \<Rightarrow> hub \<Rightarrow> hub" where
  "drop_tracker n h = h\<lparr>hb_conversations := AList.delete n (hb_conversations h)\<rparr>"

section \<open>Email accounts\<close>

definition register_mail :: "string \<Rightarrow> string list \<Rightarrow> hub \<Rightarrow> nat \<times> hub" where
  "register_mail component routes h =
     (let n = hb_next h + 1
      in (n, h\<lparr>hb_next := n,
               hb_mail := AList.update component
                 \<lparr>ma_id = n, ma_routes = routes, ma_counts = no_counts, ma_authority = False,
                  ma_codes = {}, ma_handles = {}, ma_executing = 0\<rparr> (hb_mail h)\<rparr>))"

definition drop_mail_registration :: "string \<Rightarrow> nat \<Rightarrow> hub \<Rightarrow> hub" where
  "drop_mail_registration component n h =
     (case map_of (hb_mail h) component of
        Some a \<Rightarrow> if ma_id a = n then h\<lparr>hb_mail := AList.delete component (hb_mail h)\<rparr> else h
      | None \<Rightarrow> h)"

text \<open>\<open>MailRegistration::with\<close>: change the account's entry, if it is still this registration's.\<close>

definition with_account :: "string \<Rightarrow> nat \<Rightarrow> (mail_account \<Rightarrow> mail_account) \<Rightarrow> hub \<Rightarrow> hub" where
  "with_account component n change h =
     (case map_of (hb_mail h) component of
        Some a \<Rightarrow> if ma_id a = n then h\<lparr>hb_mail := AList.update component (change a) (hb_mail h)\<rparr> else h
      | None \<Rightarrow> h)"

definition set_counts where
  "set_counts component n counts = with_account component n (\<lambda>a. a\<lparr>ma_counts := counts\<rparr>)"

definition serve where
  "serve component n = with_account component n (\<lambda>a. a\<lparr>ma_authority := True\<rparr>)"

definition holds_registration :: "string \<Rightarrow> nat \<Rightarrow> hub \<Rightarrow> bool" where
  "holds_registration component n h \<longleftrightarrow>
     (case map_of (hb_mail h) component of None \<Rightarrow> False | Some a \<Rightarrow> ma_id a = n)"

definition claim_code :: "string \<Rightarrow> nat \<Rightarrow> string \<Rightarrow> hub \<Rightarrow> bool \<times> hub" where
  "claim_code component n c h =
     (if list_ex (\<lambda>(_, a). c \<in> ma_codes a) (hb_mail h) then (False, h)
      else (holds_registration component n h,
            with_account component n (\<lambda>a. a\<lparr>ma_codes := insert c (ma_codes a)\<rparr>) h))"

definition forget_codes where
  "forget_codes component n cs = with_account component n (\<lambda>a. a\<lparr>ma_codes := ma_codes a - set cs\<rparr>)"

definition claim_handle :: "string \<Rightarrow> nat \<Rightarrow> string \<Rightarrow> hub \<Rightarrow> bool \<times> hub" where
  "claim_handle component n c h =
     (if list_ex (\<lambda>(_, a). c \<in> ma_handles a) (hb_mail h) then (False, h)
      else (holds_registration component n h,
            with_account component n (\<lambda>a. a\<lparr>ma_handles := insert c (ma_handles a)\<rparr>) h))"

definition forget_handles where
  "forget_handles component n cs = with_account component n (\<lambda>a. a\<lparr>ma_handles := ma_handles a - set cs\<rparr>)"

definition hub_begin_execution :: "string \<Rightarrow> nat \<Rightarrow> hub \<Rightarrow> bool \<times> hub" where
  "hub_begin_execution component n h =
     (if hb_mail_drain h then (False, h)
      else (holds_registration component n h,
            with_account component n (\<lambda>a. a\<lparr>ma_executing := ma_executing a + 1\<rparr>) h))"

definition end_execution where
  "end_execution component n = with_account component n (\<lambda>a. a\<lparr>ma_executing := ma_executing a - 1\<rparr>)"

definition set_mail_drain :: "bool \<Rightarrow> hub \<Rightarrow> hub" where
  "set_mail_drain drain h = h\<lparr>hb_mail_drain := drain\<rparr>"

definition mail_accounts_for :: "hub \<Rightarrow> string \<Rightarrow> (string \<times> mail_counts) list" where
  "mail_accounts_for h route =
     sort_key (map of_char \<circ> fst :: _ \<Rightarrow> nat list)
       (map (\<lambda>(c, a). (c, ma_counts a)) (filter (\<lambda>(_, a). route \<in> set (ma_routes a)) (hb_mail h)))"

definition mail_authorities :: "hub \<Rightarrow> string list" where
  "mail_authorities h =
     sort_key (map of_char :: _ \<Rightarrow> nat list) (map fst (filter (\<lambda>(_, a). ma_authority a) (hb_mail h)))"

section \<open>Commands from a mail chat\<close>

definition NOT_RUNNING_REPLY :: string where
  "NOT_RUNNING_REPLY = ''Mail actions are not running for any account that reports here; nothing was done.''"

definition STILL_WORKING_REPLY :: string where
  "STILL_WORKING_REPLY = ''Still working on that; SCV will confirm here.''"

definition authorities_for :: "hub \<Rightarrow> string \<Rightarrow> string list" where
  "authorities_for h route =
     sort_key (map of_char :: _ \<Rightarrow> nat list)
       (map fst (filter (\<lambda>(_, a). route \<in> set (ma_routes a) \<and> ma_authority a) (hb_mail h)))"

definition authority_of :: "hub \<Rightarrow> string \<Rightarrow> bool \<Rightarrow> string option \<Rightarrow> string option" where
  "authority_of h key is_hd route =
     map_option fst
       (List.find (\<lambda>(_, a). key \<in> (if is_hd then ma_handles a else ma_codes a) \<and>
          (case route of None \<Rightarrow> True | Some r \<Rightarrow> r \<in> set (ma_routes a)) \<and> ma_authority a) (hb_mail h))"

text \<open>The loop over the codes: which account each goes to, and what is answered at once.\<close>

fun code_loop ::
  "hub \<Rightarrow> string list \<Rightarrow> string list \<Rightarrow> (string \<times> string list) list \<Rightarrow> string list \<Rightarrow>
     (string \<times> string list) list \<times> string list" where
  "code_loop h everyone [] by_account answers = (by_account, answers)"
| "code_loop h everyone (c # cs) by_account answers =
     (case authority_of h c False None of
        Some component \<Rightarrow>
          code_loop h everyone cs
            (case map_of by_account component of
               Some list \<Rightarrow> AList.update component (list @ [c]) by_account
             | None \<Rightarrow> by_account @ [(component, [c])]) answers
      | None \<Rightarrow>
          code_loop h everyone cs by_account
            (answers @ [if everyone = [] then NOT_RUNNING_REPLY
                        else ''No mail action has code '' @ c @ ''.'']))"

definition one_account ::
  "string list \<Rightarrow> mail_command \<Rightarrow> string option \<Rightarrow> string \<Rightarrow> string list \<times> (string \<times> mail_command) list" where
  "one_account everyone cmd found refusal =
     (case found of
        Some component \<Rightarrow> ([], [(component, cmd)])
      | None \<Rightarrow> ([if everyone = [] then NOT_RUNNING_REPLY else refusal], []))"

definition no_handle :: "string \<Rightarrow> string" where
  "no_handle hdl = ''No reported mail has handle #'' @ hdl @ ''; handles work for mail reported in the last days only.''"

definition compose_refusal :: "ustr option \<Rightarrow> string" where
  "compose_refusal account =
     (if account \<noteq> None then ''No mail account by that name takes actions here; nothing was done.''
      else ''Say which account: mail compose ACCOUNT ADDRESS what to write.'')"

fun route_command :: "hub \<Rightarrow> string \<Rightarrow> mail_command \<Rightarrow> string list \<times> (string \<times> mail_command) list" where
  "route_command h route (CmdApprove cs) =
     (case code_loop h (authorities_for h route) cs [] [] of
        (by_account, answers) \<Rightarrow> (answers, map (\<lambda>(c, list). (c, CmdApprove list)) by_account))"
| "route_command h route (CmdDeny cs) =
     (case code_loop h (authorities_for h route) cs [] [] of
        (by_account, answers) \<Rightarrow> (answers, map (\<lambda>(c, list). (c, CmdDeny list)) by_account))"
| "route_command h route (CmdRevise c t) =
     one_account (authorities_for h route) (CmdRevise c t) (authority_of h c False (Some route))
       (''No mail action has code '' @ c @ ''.'')"
| "route_command h route (CmdReply hdl t) =
     one_account (authorities_for h route) (CmdReply hdl t) (authority_of h hdl True (Some route)) (no_handle hdl)"
| "route_command h route (CmdForward hdl to n) =
     one_account (authorities_for h route) (CmdForward hdl to n) (authority_of h hdl True (Some route)) (no_handle hdl)"
| "route_command h route (CmdMessage hdl a) =
     one_account (authorities_for h route) (CmdMessage hdl a) (authority_of h hdl True (Some route)) (no_handle hdl)"
| "route_command h route (CmdCompose account to t) =
     (let everyone = authorities_for h route;
          chosen = (case account of
                      Some name \<Rightarrow> List.find (\<lambda>c. c = ''email:'' @ map char_of name) everyone
                    | None \<Rightarrow> if length everyone = 1 then Some (everyone ! 0) else None)
      in one_account everyone (CmdCompose account to t) chosen (compose_refusal account))"
| "route_command h route CmdDenyAll =
     (let everyone = authorities_for h route
      in (if everyone = [] then [NOT_RUNNING_REPLY] else [], map (\<lambda>c. (c, CmdDenyAll)) everyone))"
| "route_command h route CmdStatus = ([], map (\<lambda>c. (c, CmdStatus)) (authorities_for h route))"

text \<open>How an account took a command and answered it, within the ten seconds the hub waits.\<close>

datatype account_answer = NotTaken | AnsweredText string | AnsweredActions | AnswerLost | NoAnswerYet

definition gather :: "(string \<times> mail_command) list \<Rightarrow> (string \<Rightarrow> mail_command \<Rightarrow> account_answer) \<Rightarrow> string list" where
  "gather work answer =
     concat (map (\<lambda>(c, cmd). if answer c cmd = NotTaken then [NOT_RUNNING_REPLY] else []) work) @
     concat (map (\<lambda>(c, cmd). case answer c cmd of
         AnsweredText t \<Rightarrow> [t] | AnswerLost \<Rightarrow> [NOT_RUNNING_REPLY]
       | NoAnswerYet \<Rightarrow> [STILL_WORKING_REPLY] | _ \<Rightarrow> []) work)"

definition hub_mail_command :: "(string \<Rightarrow> mail_command \<Rightarrow> account_answer) \<Rightarrow> string \<Rightarrow> mail_command \<Rightarrow> hub \<Rightarrow> string" where
  "hub_mail_command answer route cmd h =
     (let (answers, work) = route_command h route cmd
      in join [CHR 0x0A] (dedup (answers @ gather work answer)))"

end
