(* ===== verification/Hub_Theorems.thy ===== *)
theory Hub_Theorems
  imports Hub
begin

text \<open>
  The hub's invariant and its properties: what the channels hold, who holds a code, how a question is
  answered, what draining means, and where an approval goes.
\<close>

section \<open>The hub as a machine\<close>

datatype hub_op =
    HRegister string "string option" purpose
  | HDropRegistration string nat
  | HNotify string string string bool
  | HSendQuestion string string string string bool
  | HNotifyKeyed string string string string bool
  | HReceive string
  | HClose string
  | HOwnerClaims string nat nat
  | HOwnerWrote string string nat
  | HSetRestart "string option"
  | HTakeRestart string
  | HLowDisk bool
  | HAsk string string string
  | HWithdraw string
  | HTake string string nat
  | HDelivered string string nat
  | HUndelivered string string
  | HLoadKeyed string "(string \<times> keyed_outcome) list"
  | HRecordKeyed string string keyed_outcome
  | HForgetKeyed string "string \<Rightarrow> bool"
  | HTrack string string
  | HTracker nat "string option" nat
  | HDropTracker nat
  | HRegisterMail string "string list"
  | HDropMail string nat
  | HSetCounts string nat mail_counts
  | HServe string nat
  | HClaimCode string nat string
  | HForgetCodes string nat "string list"
  | HClaimHandle string nat string
  | HForgetHandles string nat "string list"
  | HBegin string nat
  | HEnd string nat
  | HDrain bool

primrec hub_step :: "hub_op \<Rightarrow> hub \<Rightarrow> hub" where
  "hub_step (HRegister c ow p) h = snd (register_as c ow p h)"
| "hub_step (HDropRegistration c n) h = drop_registration c n h"
| "hub_step (HNotify c to t st) h = snd (notify c to t st h)"
| "hub_step (HSendQuestion q c to t st) h = snd (send_question q c to t st h)"
| "hub_step (HNotifyKeyed c to t k st) h = snd (notify_keyed c to t k st h)"
| "hub_step (HReceive c) h = receive_notice c h"
| "hub_step (HClose c) h = close_notices c h"
| "hub_step (HOwnerClaims c n k) h = set_owner_claims c n k h"
| "hub_step (HOwnerWrote c p now) h = record_owner c p now h"
| "hub_step (HSetRestart r) h = h\<lparr>hb_restart := r\<rparr>"
| "hub_step (HTakeRestart c) h = snd (take_restart c h)"
| "hub_step (HLowDisk b) h = h\<lparr>hb_low_disk := b\<rparr>"
| "hub_step (HAsk q c p) h = snd (ask q c p h)"
| "hub_step (HWithdraw q) h = snd (withdraw q h)"
| "hub_step (HTake c p ms) h = snd (take_question c p ms h)"
| "hub_step (HDelivered c q ms) h = question_delivered c q ms h"
| "hub_step (HUndelivered c q) h = question_undelivered c q h"
| "hub_step (HLoadKeyed c ks) h = load_keyed c ks h"
| "hub_step (HRecordKeyed c k oc) h = record_keyed c k oc h"
| "hub_step (HForgetKeyed c keep) h = forget_keyed c keep h"
| "hub_step (HTrack c p) h = snd (track_conversation c p h)"
| "hub_step (HTracker n s w) h = tracker_update n s w h"
| "hub_step (HDropTracker n) h = drop_tracker n h"
| "hub_step (HRegisterMail c rs) h = snd (register_mail c rs h)"
| "hub_step (HDropMail c n) h = drop_mail_registration c n h"
| "hub_step (HSetCounts c n k) h = set_counts c n k h"
| "hub_step (HServe c n) h = serve c n h"
| "hub_step (HClaimCode c n k) h = snd (claim_code c n k h)"
| "hub_step (HForgetCodes c n ks) h = forget_codes c n ks h"
| "hub_step (HClaimHandle c n k) h = snd (claim_handle c n k h)"
| "hub_step (HForgetHandles c n ks) h = forget_handles c n ks h"
| "hub_step (HBegin c n) h = snd (hub_begin_execution c n h)"
| "hub_step (HEnd c n) h = end_execution c n h"
| "hub_step (HDrain b) h = set_mail_drain b h"

section \<open>Association lists\<close>

lemma keys_modify [simp]: "map fst (modify k f m) = map fst m"
proof (cases "map_of m k")
  case (Some v)
  then have "k \<in> set (map fst m)" by (auto dest: map_of_SomeD intro: rev_image_eqI)
  then show ?thesis using Some by (simp add: modify_def update_keys)
qed (simp add: modify_def)

lemma map_of_modify: "map_of (modify k f m) = (case map_of m k of None \<Rightarrow> map_of m | Some v \<Rightarrow> (map_of m)(k \<mapsto> f v))"
  by (auto simp: modify_def update_conv split: option.split)

lemma set_update_distinct:
  assumes "distinct (map fst m)"
  shows "set (AList.update k v m) = insert (k, v) {p \<in> set m. fst p \<noteq> k}"
  using assms by (induction m) (auto simp: rev_image_eqI)

lemma set_modify_distinct:
  assumes "distinct (map fst m)" and "p \<in> set (modify k f m)"
  shows "p \<in> set m \<or> (\<exists>v. (k, v) \<in> set m \<and> p = (k, f v))"
  using assms by (auto simp: modify_def set_update_distinct split: option.splits dest: map_of_SomeD)

lemma set_delete: "set (AList.delete k m) = {p \<in> set m. fst p \<noteq> k}"
  by (auto simp: AList.delete_eq)

lemmas alist_simps = set_update_distinct set_delete distinct_update distinct_delete map_of_modify

section \<open>The invariant\<close>

text \<open>
  Keys are distinct; only mail chats hold quarantined notices and they hold nothing else; two email
  accounts never hold the same code or handle; a mail chat's mirror of keyed notices is bounded.
\<close>

definition maps_ok :: "hub \<Rightarrow> bool" where
  "maps_ok h \<longleftrightarrow> distinct (map fst (hb_bridges h)) \<and> distinct (map fst (hb_mail h)) \<and>
     distinct (map fst (hb_questions h)) \<and> distinct (map fst (hb_keyed h))"

definition bridge_ok :: "bridge \<Rightarrow> bool" where
  "bridge_ok b \<longleftrightarrow> (\<forall>n \<in> set (br_notices b). (nt_key n \<noteq> None) = (br_purpose b = ForMail))"

definition quarantined :: "hub \<Rightarrow> bool" where
  "quarantined h \<longleftrightarrow> (\<forall>c b. (c, b) \<in> set (hb_bridges h) \<longrightarrow> bridge_ok b)"

definition accounts_apart :: "mail_account \<Rightarrow> mail_account \<Rightarrow> bool" where
  "accounts_apart a b \<longleftrightarrow> ma_codes a \<inter> ma_codes b = {} \<and> ma_handles a \<inter> ma_handles b = {}"

definition names_apart :: "hub \<Rightarrow> bool" where
  "names_apart h \<longleftrightarrow> (\<forall>c a d b. (c, a) \<in> set (hb_mail h) \<longrightarrow> (d, b) \<in> set (hb_mail h) \<longrightarrow>
     c \<noteq> d \<longrightarrow> accounts_apart a b)"

definition keyed_of :: "hub \<Rightarrow> string \<Rightarrow> ((string \<times> string) \<times> keyed_outcome) list" where
  "keyed_of h component = filter (\<lambda>((c, _), _). c = component) (hb_keyed h)"

definition keyed_bounded :: "hub \<Rightarrow> bool" where
  "keyed_bounded h \<longleftrightarrow> (\<forall>c. length (keyed_of h c) \<le> MAX_KEYED_PER_CHAT)"

definition hub_inv :: "hub \<Rightarrow> bool" where
  "hub_inv h \<longleftrightarrow> maps_ok h \<and> quarantined h \<and> names_apart h \<and> keyed_bounded h"

lemmas bridge_defs = register_as_def drop_registration_def queue_notice_def notify_def send_question_def
  notify_keyed_def receive_notice_def close_notices_def set_owner_claims_def

lemmas other_defs = record_owner_def take_restart_def ask_def withdraw_def take_question_def
  question_delivered_def question_undelivered_def load_keyed_def record_keyed_def forget_keyed_def
  track_conversation_def tracker_update_def drop_tracker_def set_mail_drain_def Let_def

lemmas account_defs = register_mail_def drop_mail_registration_def set_counts_def serve_def
  claim_code_def forget_codes_def claim_handle_def forget_handles_def hub_begin_execution_def
  end_execution_def

lemmas op_defs = bridge_defs other_defs account_defs with_account_def

lemma with_account_frame [simp]:
  "hb_bridges (with_account c n f h) = hb_bridges h" "hb_questions (with_account c n f h) = hb_questions h"
  "hb_keyed (with_account c n f h) = hb_keyed h" "hb_mail_drain (with_account c n f h) = hb_mail_drain h"
  by (simp_all add: with_account_def split: option.split)

lemma fold_update_keys:
  "distinct (map fst m) \<Longrightarrow>
     distinct (map fst (fold (\<lambda>(k, v). AList.update (c, k) v) ks m))"
  by (induction ks arbitrary: m) (auto simp: distinct_update)

lemma maps_ok_step: "maps_ok h \<Longrightarrow> maps_ok (hub_step op h)"
  by (cases op)
     (auto simp: maps_ok_def op_defs distinct_update distinct_delete fold_update_keys distinct_map_filter
        split: option.splits)

lemma quarantined_update:
  "maps_ok h \<Longrightarrow> quarantined h \<Longrightarrow> bridge_ok b \<Longrightarrow>
     quarantined (h\<lparr>hb_bridges := AList.update c b (hb_bridges h)\<rparr>)"
  by (auto simp: quarantined_def maps_ok_def set_update_distinct)

lemma quarantined_get: "quarantined h \<Longrightarrow> map_of (hb_bridges h) c = Some b \<Longrightarrow> bridge_ok b"
  by (auto simp: quarantined_def dest: map_of_SomeD)

lemma quarantined_modify:
  assumes "maps_ok h" "quarantined h" and "\<And>b. bridge_ok b \<Longrightarrow> bridge_ok (f b)"
  shows "quarantined (h\<lparr>hb_bridges := modify c f (hb_bridges h)\<rparr>)"
  using assms quarantined_update quarantined_get[OF assms(2), of c]
  by (cases "map_of (hb_bridges h) c") (simp_all add: modify_def)

lemma quarantined_queue:
  assumes "maps_ok h" "quarantined h"
  shows "quarantined (snd (queue_notice c to t kd st h))"
proof (cases "map_of (hb_bridges h) c")
  case None
  then show ?thesis using assms(2) by (simp add: queue_notice_def Let_def split: notice_kind.split)
next
  case (Some b)
  have "bridge_ok (b\<lparr>br_notices := br_notices b @ [n]\<rparr>)"
    if "(nt_key n \<noteq> None) = (br_purpose b = ForMail)" for n
    using quarantined_get[OF assms(2) Some] that by (auto simp: bridge_ok_def)
  then show ?thesis using assms quarantined_update[OF assms] Some
    by (auto simp: queue_notice_def Let_def split: notice_kind.split)
qed

lemma quarantined_step:
  assumes "maps_ok h" and "quarantined h"
  shows "quarantined (hub_step op h)"
proof -
  have same: "quarantined h'" if "hb_bridges h' = hb_bridges h" for h'
    using assms(2) that by (simp add: quarantined_def)
  show ?thesis
  proof (cases op)
    case (HRegister c ow p)
    let ?b = "\<lparr>br_id = hb_next h + 1, br_owner = ow, br_purpose = p, br_notices = [], br_open = True,
      br_owner_claims = 0\<rparr>"
    have "bridge_ok ?b" by (simp add: bridge_ok_def)
    then have "quarantined (h\<lparr>hb_bridges := AList.update c ?b (hb_bridges h)\<rparr>)"
      by (rule quarantined_update[OF assms])
    moreover have "hb_bridges (hub_step op h) = AList.update c ?b (hb_bridges h)"
      using HRegister by (simp add: register_as_def Let_def)
    ultimately show ?thesis by (simp add: quarantined_def)
  next
    case (HDropRegistration c n)
    then show ?thesis using assms(2)
      by (auto simp: drop_registration_def quarantined_def set_delete split: option.split)
  next
    case (HReceive c)
    have "set (tl ns) \<subseteq> set ns" for ns :: "notice list" by (cases ns) auto
    then have "bridge_ok (b\<lparr>br_notices := tl (br_notices b)\<rparr>)" if "bridge_ok b" for b
      using that unfolding bridge_ok_def by auto
    then show ?thesis using assms HReceive by (simp add: receive_notice_def quarantined_modify)
  next
    case (HClose c)
    then show ?thesis using assms by (auto simp: close_notices_def bridge_ok_def intro!: quarantined_modify)
  next
    case (HOwnerClaims c n k)
    then show ?thesis using assms by (auto simp: set_owner_claims_def bridge_ok_def intro!: quarantined_modify)
  next
    case (HNotify c to t st)
    then show ?thesis using assms by (simp add: notify_def quarantined_queue)
  next
    case (HSendQuestion q c to t st)
    then show ?thesis using assms by (simp add: send_question_def quarantined_queue)
  next
    case (HNotifyKeyed c to t k st)
    then show ?thesis using assms by (simp add: notify_keyed_def quarantined_queue)
  qed (rule same, simp add: other_defs account_defs split: option.split)+
qed

lemma accounts_apart_empty:
  "ma_codes a = {} \<Longrightarrow> ma_handles a = {} \<Longrightarrow> accounts_apart a b"
  "ma_codes a = {} \<Longrightarrow> ma_handles a = {} \<Longrightarrow> accounts_apart b a"
  by (simp_all add: accounts_apart_def)

lemma names_apart_with:
  assumes "maps_ok h" and "names_apart h"
    and "\<And>a d b. (c, a) \<in> set (hb_mail h) \<Longrightarrow> (d, b) \<in> set (hb_mail h) \<Longrightarrow> d \<noteq> c \<Longrightarrow>
      accounts_apart a b \<Longrightarrow> accounts_apart (f a) b \<and> accounts_apart b (f a)"
  shows "names_apart (with_account c n f h)"
proof (cases "\<exists>a. map_of (hb_mail h) c = Some a \<and> ma_id a = n")
  case True
  then obtain a where a: "map_of (hb_mail h) c = Some a" "ma_id a = n" by blast
  have d: "distinct (map fst (hb_mail h))" using assms(1) by (simp add: maps_ok_def)
  have in_h: "(c, a) \<in> set (hb_mail h)" using a(1) by (rule map_of_SomeD)
  show ?thesis unfolding names_apart_def
  proof (intro allI impI)
    fix d1 b1 d2 b2
    assume p: "(d1, b1) \<in> set (hb_mail (with_account c n f h))"
      "(d2, b2) \<in> set (hb_mail (with_account c n f h))" "d1 \<noteq> d2"
    then have q: "(d1, b1) = (c, f a) \<or> (d1, b1) \<in> set (hb_mail h) \<and> d1 \<noteq> c"
      "(d2, b2) = (c, f a) \<or> (d2, b2) \<in> set (hb_mail h) \<and> d2 \<noteq> c"
      using a by (auto simp: with_account_def set_update_distinct[OF d])
    have ca: "accounts_apart a b" if "(x, b) \<in> set (hb_mail h)" "x \<noteq> c" for x b
      using assms(2) in_h that by (metis names_apart_def)
    have "accounts_apart b1 b2" if "(d1, b1) \<in> set (hb_mail h)" "(d2, b2) \<in> set (hb_mail h)"
      using assms(2) that p(3) by (metis names_apart_def)
    then show "accounts_apart b1 b2"
      using q p(3) assms(3)[OF in_h] ca by (metis Pair_inject)
  qed
next
  case False
  then have "with_account c n f h = h" by (auto simp: with_account_def split: option.split)
  then show ?thesis using assms(2) by simp
qed

lemma names_apart_step:
  assumes "maps_ok h" and "names_apart h"
  shows "names_apart (hub_step op h)"
proof -
  note with_i = names_apart_with[OF assms]
  have same: "names_apart h'" if "hb_mail h' = hb_mail h" for h'
    using assms(2) that by (simp add: names_apart_def)
  show ?thesis
  proof (cases op)
    case (HRegisterMail c rs)
    then show ?thesis using assms
      by (auto simp: register_mail_def Let_def names_apart_def maps_ok_def set_update_distinct accounts_apart_empty)
  next
    case (HDropMail c n)
    then show ?thesis using assms(2)
      by (auto simp: drop_mail_registration_def names_apart_def set_delete split: option.split)
  next
    case (HClaimCode c n k)
    then show ?thesis using assms(2)
      by (auto simp: claim_code_def list_ex_iff intro!: with_i) (auto simp: accounts_apart_def)
  next
    case (HClaimHandle c n k)
    then show ?thesis using assms(2)
      by (auto simp: claim_handle_def list_ex_iff intro!: with_i) (auto simp: accounts_apart_def)
  next
    case (HForgetCodes c n ks)
    then show ?thesis by (auto simp: forget_codes_def accounts_apart_def intro!: with_i)
  next
    case (HForgetHandles c n ks)
    then show ?thesis by (auto simp: forget_handles_def accounts_apart_def intro!: with_i)
  next
    case (HSetCounts c n k)
    then show ?thesis by (auto simp: set_counts_def accounts_apart_def intro!: with_i)
  next
    case (HServe c n)
    then show ?thesis by (auto simp: serve_def accounts_apart_def intro!: with_i)
  next
    case (HBegin c n)
    then show ?thesis using assms(2) by (auto simp: hub_begin_execution_def accounts_apart_def intro!: with_i)
  next
    case (HEnd c n)
    then show ?thesis by (auto simp: end_execution_def accounts_apart_def intro!: with_i)
  qed (rule same, simp add: bridge_defs other_defs split: option.split notice_kind.split)+
qed

section \<open>The mirror of keyed notices\<close>

lemma length_keyed:
  assumes "distinct (map fst m)"
  shows "length (filter (\<lambda>((c, _), _). c = chat) m) = card {k. (chat, k) \<in> fst ` set m}"
proof -
  let ?f = "filter (\<lambda>((c, _), _). c = chat) m"
  have "fst ` set ?f = {p \<in> fst ` set m. fst p = chat}" by auto
  also have "\<dots> = Pair chat ` {k. (chat, k) \<in> fst ` set m}" by (auto simp: image_iff) (metis fst_conv)
  finally have "fst ` set ?f = Pair chat ` {k. (chat, k) \<in> fst ` set m}" .
  then have "card (fst ` set ?f) = card {k. (chat, k) \<in> fst ` set m}"
    by (simp add: card_image inj_on_def)
  moreover have "distinct (map fst ?f)" using assms by (rule distinct_map_filter)
  then have "card (set (map fst ?f)) = length (map fst ?f)" by (rule distinct_card)
  ultimately show ?thesis by simp
qed

lemma keys_update: "fst ` set (AList.update k v m) = insert k (fst ` set m)"
  by (induction m) auto

lemma keys_fold_update:
  "fst ` set (fold (\<lambda>(k, v). AList.update (c, k) v) ks m) = fst ` set m \<union> Pair c ` fst ` set ks"
  by (induction ks arbitrary: m) (simp_all add: keys_update case_prod_unfold insert_commute)

lemma keyed_bounded_card:
  "maps_ok h \<Longrightarrow> keyed_bounded h \<longleftrightarrow> (\<forall>c. card {k. (c, k) \<in> fst ` set (hb_keyed h)} \<le> MAX_KEYED_PER_CHAT)"
  by (simp add: keyed_bounded_def keyed_of_def length_keyed maps_ok_def)

lemma keyed_bounded_step:
  assumes "maps_ok h" and "keyed_bounded h"
  shows "keyed_bounded (hub_step op h)"
proof -
  have same: "keyed_bounded h'" if "hb_keyed h' = hb_keyed h" for h'
    using assms(2) that by (simp add: keyed_bounded_def keyed_of_def)
  have card: "card {k. (c, k) \<in> fst ` set (hb_keyed h)} \<le> MAX_KEYED_PER_CHAT" for c
    using assms keyed_bounded_card by blast
  have fin: "finite {k. (c, k) \<in> fst ` set m}" for c and m :: "((string \<times> string) \<times> keyed_outcome) list"
    by (rule finite_subset[of _ "snd ` fst ` set m"]) force+
  show ?thesis
  proof (cases op)
    case (HLoadKeyed c ks)
    let ?kept = "filter (\<lambda>((c', _), _). c' \<noteq> c) (hb_keyed h)" and ?new = "take MAX_KEYED_PER_CHAT ks"
    have keys: "fst ` set (hb_keyed (hub_step op h)) = fst ` set ?kept \<union> Pair c ` fst ` set ?new"
      using HLoadKeyed by (simp add: load_keyed_def Let_def keys_fold_update)
    have "card {k. (d, k) \<in> fst ` set (hb_keyed (hub_step op h))} \<le> MAX_KEYED_PER_CHAT" for d
    proof (cases "d = c")
      case True
      have "{k. (d, k) \<in> fst ` set (hb_keyed (hub_step op h))} = fst ` set ?new"
        unfolding keys using True by (auto simp: image_iff)
      then show ?thesis
        by (metis card_image_le card_length dual_order.trans finite_set length_take min.cobounded2)
    next
      case False
      have "{k. (d, k) \<in> fst ` set (hb_keyed (hub_step op h))} = {k. (d, k) \<in> fst ` set (hb_keyed h)}"
        unfolding keys using False by force
      then show ?thesis using card by simp
    qed
    then show ?thesis using keyed_bounded_card[OF maps_ok_step[OF assms(1)]] by blast
  next
    case (HRecordKeyed c k oc)
    show ?thesis
    proof (cases "hub_step op h = h")
      case False
      then have new: "hb_keyed (hub_step op h) = AList.update (c, k) oc (hb_keyed h)"
        and room: "length (keyed_of h c) < MAX_KEYED_PER_CHAT \<or> (c, k) \<in> fst ` set (hb_keyed h)"
        using HRecordKeyed by (auto simp: record_keyed_def Let_def keyed_of_def map_of_eq_None_iff split: if_splits)
      have len: "length (keyed_of h c) = card {k. (c, k) \<in> fst ` set (hb_keyed h)}"
        using assms(1) by (simp add: keyed_of_def length_keyed maps_ok_def)
      have "card {x. (d, x) \<in> fst ` set (hb_keyed (hub_step op h))} \<le> MAX_KEYED_PER_CHAT" for d
      proof -
        have "{x. (d, x) \<in> fst ` set (hb_keyed (hub_step op h))} =
            (if d = c then insert k else id) {x. (d, x) \<in> fst ` set (hb_keyed h)}"
          unfolding new keys_update by auto
        then show ?thesis using card[of d] room len fin[of c "hb_keyed h"]
          by (auto simp: card_insert_if)
      qed
      then show ?thesis using keyed_bounded_card[OF maps_ok_step[OF assms(1)]] by blast
    qed (use assms in simp)
  next
    case (HForgetKeyed c keep)
    have "keyed_of (hub_step op h) d = filter (\<lambda>((c', key), _). c' \<noteq> c \<or> keep key) (keyed_of h d)" for d
      using HForgetKeyed by (simp add: forget_keyed_def keyed_of_def) (rule filter_cong, auto)
    then have "length (keyed_of (hub_step op h) d) \<le> length (keyed_of h d)" for d by simp
    then show ?thesis using assms(2) by (meson dual_order.trans keyed_bounded_def)
  qed (rule same, simp add: bridge_defs other_defs account_defs split: option.split notice_kind.split)+
qed

lemma hub_inv_step: "hub_inv h \<Longrightarrow> hub_inv (hub_step op h)"
  by (simp add: hub_inv_def maps_ok_step quarantined_step names_apart_step keyed_bounded_step)

lemma hub_inv_new: "hub_inv (new_hub lo)"
  by (simp add: hub_inv_def maps_ok_def quarantined_def names_apart_def keyed_bounded_def keyed_of_def new_hub_def)

interpretation hubm: invariant_machine hub_step hub_inv
  by unfold_locales (rule hub_inv_step)

section \<open>Questions over time\<close>

datatype q_event = Asked string string string | Reached string string nat | Taken string string string nat

fun hub_event :: "hub_op \<Rightarrow> hub \<Rightarrow> q_event list" where
  "hub_event (HAsk q c p) h = (if fst (ask q c p h) then [Asked q c p] else [])"
| "hub_event (HDelivered c q ms) h = [Reached c q ms]"
| "hub_event (HTake c p ms) h =
     (case fst (take_question c p ms h) of Some q \<Rightarrow> [Taken q c p ms] | None \<Rightarrow> [])"
| "hub_event _ h = []"

fun hub_trace :: "hub_op list \<Rightarrow> hub \<Rightarrow> q_event list" where
  "hub_trace [] h = []"
| "hub_trace (op # ops) h = hub_event op h @ hub_trace ops (hub_step op h)"

fun is_asked :: "string \<Rightarrow> q_event \<Rightarrow> bool" where
  "is_asked q (Asked q' c p) \<longleftrightarrow> q' = q" | "is_asked q _ \<longleftrightarrow> False"

fun is_taken :: "string \<Rightarrow> q_event \<Rightarrow> bool" where
  "is_taken q (Taken q' c p ms) \<longleftrightarrow> q' = q" | "is_taken q _ \<longleftrightarrow> False"

definition waiting_as :: "string \<Rightarrow> hub \<Rightarrow> nat" where
  "waiting_as q h = length (filter (\<lambda>(_, x). qs_id x = q) (hb_questions h))"

definition events :: "('e \<Rightarrow> bool) \<Rightarrow> 'e list \<Rightarrow> nat" where
  "events p tr = length (filter p tr)"

lemma events_simps [simp]: "events p [] = 0" "events p (tr @ tr') = events p tr + events p tr'"
  "events p (e # tr) = (if p e then 1 else 0) + events p tr"
  by (simp_all add: events_def)

text \<open>What the history says about the questions that wait.\<close>

definition heard :: "q_event list \<Rightarrow> hub \<Rightarrow> bool" where
  "heard tr h \<longleftrightarrow> (\<forall>c p x. ((c, p), x) \<in> set (hb_questions h) \<longrightarrow>
     Asked (qs_id x) c p \<in> set tr \<and> (\<forall>d. qs_delivered_ms x = Some d \<longrightarrow> Reached c (qs_id x) d \<in> set tr))"

definition answers_follow :: "q_event list \<Rightarrow> bool" where
  "answers_follow tr \<longleftrightarrow> (\<forall>before after q c p ms. tr = before @ Taken q c p ms # after \<longrightarrow>
     Asked q c p \<in> set before \<and> (\<exists>d \<le> ms. Reached c q d \<in> set before))"

definition answers_counted :: "q_event list \<Rightarrow> hub \<Rightarrow> bool" where
  "answers_counted tr h \<longleftrightarrow> (\<forall>q. events (is_taken q) tr + waiting_as q h \<le> events (is_asked q) tr)"

lemma answers_follow_snoc:
  assumes "answers_follow tr"
    and "\<And>q c p ms. e = Taken q c p ms \<Longrightarrow> Asked q c p \<in> set tr \<and> (\<exists>d \<le> ms. Reached c q d \<in> set tr)"
  shows "answers_follow (tr @ [e])"
  unfolding answers_follow_def
proof (intro allI impI)
  fix before after q c p ms
  assume eq: "tr @ [e] = before @ Taken q c p ms # after"
  show "Asked q c p \<in> set before \<and> (\<exists>d \<le> ms. Reached c q d \<in> set before)"
  proof (cases after rule: rev_cases)
    case Nil
    then show ?thesis using eq assms(2) by simp
  next
    case (snoc after' x)
    then have "tr = before @ Taken q c p ms # after'" using eq by simp
    then show ?thesis using assms(1) unfolding answers_follow_def by blast
  qed
qed

lemma question_key_Some:
  "question_key h c qid = Some key \<Longrightarrow> \<exists>x. (key, x) \<in> set (hb_questions h) \<and> qs_id x = qid \<and>
     (c \<noteq> None \<longrightarrow> fst key = the c)"
  by (auto simp: question_key_def find_Some_iff split: option.splits) (metis nth_mem)+

lemma waiting_delete:
  "waiting_as q (h\<lparr>hb_questions := AList.delete k (hb_questions h)\<rparr>) \<le> waiting_as q h"
proof -
  have "length (filter P (filter Q xs)) \<le> length (filter P xs)" for P Q and xs :: "'a list"
    by (induction xs) auto
  then show ?thesis by (simp add: waiting_as_def AList.delete_eq)
qed

lemma waiting_delete_found:
  assumes "((k, x)) \<in> set (hb_questions h)"
  shows "waiting_as (qs_id x) (h\<lparr>hb_questions := AList.delete k (hb_questions h)\<rparr>) < waiting_as (qs_id x) h"
proof -
  have "(k, x) \<in> set xs \<Longrightarrow> length (filter (\<lambda>(_, y). qs_id y = qs_id x) (AList.delete k xs)) <
      length (filter (\<lambda>(_, y). qs_id y = qs_id x) xs)" for xs
  proof (induction xs)
    case (Cons p xs)
    have le: "length (filter P (AList.delete k xs)) \<le> length (filter P xs)" for P
      unfolding AList.delete_eq by (induction xs) auto
    show ?case
      using Cons le[of "\<lambda>(_, y). qs_id y = qs_id x"] by (cases p) (auto simp: le_imp_less_Suc)
  qed simp
  then show ?thesis using assms by (simp add: waiting_as_def)
qed

lemma waiting_update_new:
  assumes "map_of (hb_questions h) k = None"
  shows "waiting_as q (h\<lparr>hb_questions := AList.update k x (hb_questions h)\<rparr>) =
    waiting_as q h + (if qs_id x = q then 1 else 0)"
proof -
  have "map_of xs k = None \<Longrightarrow> AList.update k x xs = xs @ [(k, x)]" for xs
    by (induction xs) (auto split: if_splits)
  then show ?thesis using assms by (simp add: waiting_as_def)
qed

lemma waiting_modify:
  assumes "\<And>x. qs_id (f x) = qs_id x"
  shows "waiting_as q (h\<lparr>hb_questions := modify k f (hb_questions h)\<rparr>) = waiting_as q h"
proof -
  have "map_of xs k = Some v \<Longrightarrow> length (filter (\<lambda>(_, y). qs_id y = q) (AList.update k (f v) xs)) =
      length (filter (\<lambda>(_, y). qs_id y = q) xs)" for xs v
    by (induction xs) (auto simp: assms split: if_splits)
  then show ?thesis by (auto simp: waiting_as_def modify_def split: option.split)
qed

definition asked_ok :: "q_event list \<Rightarrow> hub \<Rightarrow> bool" where
  "asked_ok tr h \<longleftrightarrow> maps_ok h \<and> heard tr h \<and> answers_follow tr \<and> answers_counted tr h"

lemma asked_ok_same:
  "asked_ok tr h \<Longrightarrow> maps_ok h' \<Longrightarrow> hb_questions h' = hb_questions h \<Longrightarrow> asked_ok tr h'"
  by (simp add: asked_ok_def heard_def answers_counted_def waiting_as_def)

lemma asked_ok_delete:
  assumes "asked_ok tr h"
  shows "asked_ok tr (h\<lparr>hb_questions := AList.delete k (hb_questions h)\<rparr>)"
proof -
  have "answers_counted tr (h\<lparr>hb_questions := AList.delete k (hb_questions h)\<rparr>)"
    unfolding answers_counted_def
  proof
    fix q
    have "events (is_taken q) tr + waiting_as q h \<le> events (is_asked q) tr"
      using assms by (simp add: asked_ok_def answers_counted_def)
    then show "events (is_taken q) tr + waiting_as q (h\<lparr>hb_questions := AList.delete k (hb_questions h)\<rparr>)
        \<le> events (is_asked q) tr" using waiting_delete[where q = q and h = h and k = k] by linarith
  qed
  then show ?thesis using assms
    by (auto simp: asked_ok_def maps_ok_def heard_def set_delete distinct_delete)
qed

lemma heard_more: "heard tr h \<Longrightarrow> heard (tr @ tr') h"
  by (auto simp: heard_def)

lemma asked_ok_ask:
  assumes "asked_ok tr h" and "fst (ask q c p h)"
  shows "asked_ok (tr @ [Asked q c p]) (snd (ask q c p h))"
proof -
  have new: "map_of (hb_questions h) (c, p) = None" and
    h': "snd (ask q c p h) = h\<lparr>hb_questions := AList.update (c, p) \<lparr>qs_id = q, qs_delivered_ms = None\<rparr> (hb_questions h)\<rparr>"
    using assms(2) by (auto simp: ask_def split: if_splits)
  have ok: "maps_ok h" "heard tr h" "answers_follow tr" "answers_counted tr h"
    using assms(1) by (simp_all add: asked_ok_def)
  have "maps_ok (snd (ask q c p h))" using ok(1) by (simp add: h' maps_ok_def distinct_update)
  moreover have "heard (tr @ [Asked q c p]) (snd (ask q c p h))"
    using ok(1,2) by (auto simp: h' heard_def maps_ok_def set_update_distinct)
  moreover have "answers_follow (tr @ [Asked q c p])" using ok(3) by (rule answers_follow_snoc) simp
  moreover have "answers_counted (tr @ [Asked q c p]) (snd (ask q c p h))"
    using ok(4) by (simp add: h' answers_counted_def waiting_update_new[OF new])
  ultimately show ?thesis by (simp add: asked_ok_def)
qed

lemma asked_ok_take:
  assumes "asked_ok tr h" and "fst (take_question c p ms h) = Some q"
  shows "asked_ok (tr @ [Taken q c p ms]) (snd (take_question c p ms h))"
proof -
  obtain x d where x: "map_of (hb_questions h) (c, p) = Some x" "qs_delivered_ms x = Some d" "d \<le> ms" "q = qs_id x"
    and h': "snd (take_question c p ms h) = h\<lparr>hb_questions := AList.delete (c, p) (hb_questions h)\<rparr>"
    using assms(2) by (auto simp: take_question_def split: option.splits if_splits)
  have in_h: "((c, p), x) \<in> set (hb_questions h)" using x(1) by (rule map_of_SomeD)
  have del: "asked_ok tr (snd (take_question c p ms h))" unfolding h' using assms(1) by (rule asked_ok_delete)
  have "Asked q c p \<in> set tr" "Reached c q d \<in> set tr"
    using assms(1) in_h x by (auto simp: asked_ok_def heard_def)
  then have "answers_follow (tr @ [Taken q c p ms])"
    using del x(3) by (intro answers_follow_snoc) (auto simp: asked_ok_def)
  moreover have "answers_counted (tr @ [Taken q c p ms]) (snd (take_question c p ms h))"
    unfolding answers_counted_def
  proof
    fix r
    have "events (is_taken r) tr + waiting_as r h \<le> events (is_asked r) tr"
      using assms(1) by (simp add: asked_ok_def answers_counted_def)
    then show "events (is_taken r) (tr @ [Taken q c p ms]) + waiting_as r (snd (take_question c p ms h))
        \<le> events (is_asked r) (tr @ [Taken q c p ms])"
      using waiting_delete_found[OF in_h] waiting_delete[where q = r and h = h and k = "(c, p)"] x(4) unfolding h' by auto
  qed
  ultimately show ?thesis using del by (simp add: asked_ok_def heard_more)
qed

lemma asked_ok_delivered:
  assumes "asked_ok tr h"
  shows "asked_ok (tr @ [Reached c q ms]) (question_delivered c q ms h)"
proof -
  have ok: "maps_ok h" "heard tr h" "answers_follow tr" "answers_counted tr h"
    using assms by (simp_all add: asked_ok_def)
  have follow: "answers_follow (tr @ [Reached c q ms])" using ok(3) by (rule answers_follow_snoc) simp
  show ?thesis
  proof (cases "question_key h (Some c) q")
    case None
    then have "question_delivered c q ms h = h" by (simp add: question_delivered_def)
    then show ?thesis using ok follow by (simp add: asked_ok_def heard_more answers_counted_def)
  next
    case (Some key)
    let ?f = "\<lambda>y. case qs_delivered_ms y of None \<Rightarrow> y\<lparr>qs_delivered_ms := Some ms\<rparr> | Some _ \<Rightarrow> y"
    have h': "question_delivered c q ms h = h\<lparr>hb_questions := modify key ?f (hb_questions h)\<rparr>"
      using Some by (simp add: question_delivered_def)
    obtain x where x: "(key, x) \<in> set (hb_questions h)" "qs_id x = q" "fst key = c"
      using question_key_Some[OF Some] by auto
    have dist: "distinct (map fst (hb_questions h))" using ok(1) by (simp add: maps_ok_def)
    have "heard (tr @ [Reached c q ms]) (question_delivered c q ms h)"
      unfolding heard_def h'
    proof (intro allI impI)
      fix c' p y
      assume "((c', p), y) \<in> set (hb_questions (h\<lparr>hb_questions := modify key ?f (hb_questions h)\<rparr>))"
      then consider "((c', p), y) \<in> set (hb_questions h)"
        | v where "(c', p) = key" "(key, v) \<in> set (hb_questions h)" "y = ?f v"
        using set_modify_distinct[OF dist] by fastforce
      then show "Asked (qs_id y) c' p \<in> set (tr @ [Reached c q ms]) \<and>
          (\<forall>d. qs_delivered_ms y = Some d \<longrightarrow> Reached c' (qs_id y) d \<in> set (tr @ [Reached c q ms]))"
      proof cases
        case 1
        then show ?thesis using ok(2) by (auto simp: heard_def)
      next
        case (2 v)
        have "v = x" using 2(2) x(1) dist by (metis eq_key_imp_eq_value)
        then show ?thesis using 2 x ok(2) by (auto simp: heard_def split: option.splits)
      qed
    qed
    moreover have "answers_counted (tr @ [Reached c q ms]) (question_delivered c q ms h)"
      using ok(4) unfolding h' answers_counted_def
      by (subst waiting_modify) (auto split: option.split)
    ultimately show ?thesis using ok(1) follow
      by (simp add: asked_ok_def h' maps_ok_def)
  qed
qed

lemma asked_ok_step:
  assumes "asked_ok tr h"
  shows "asked_ok (tr @ hub_event op h) (hub_step op h)"
proof -
  have maps: "maps_ok (hub_step op h)" using assms by (simp add: asked_ok_def maps_ok_step)
  have same: "asked_ok tr (hub_step op h)" if "hb_questions (hub_step op h) = hb_questions h"
    using asked_ok_same[OF assms maps that] .
  show ?thesis
  proof (cases op)
    case (HAsk q c p)
    then show ?thesis using assms asked_ok_ask[OF assms, of q c p] by (auto simp: ask_def)
  next
    case (HTake c p ms)
    then show ?thesis
      using assms asked_ok_take[OF assms, of c p ms]
      by (auto simp: take_question_def split: option.split)
  next
    case (HDelivered c q ms)
    then show ?thesis using asked_ok_delivered[OF assms] by simp
  next
    case (HWithdraw q)
    then show ?thesis using assms asked_ok_delete by (simp add: withdraw_def split: option.split)
  next
    case (HUndelivered c q)
    then show ?thesis using assms asked_ok_delete by (simp add: question_undelivered_def split: option.split)
  qed (use same in \<open>simp add: bridge_defs record_owner_def take_restart_def load_keyed_def record_keyed_def
       forget_keyed_def track_conversation_def tracker_update_def drop_tracker_def set_mail_drain_def
       Let_def account_defs split: option.split notice_kind.split\<close>)+
qed

lemma asked_ok_trace: "asked_ok tr h \<Longrightarrow> asked_ok (tr @ hub_trace ops h) (fold hub_step ops h)"
proof (induction ops arbitrary: tr h)
  case (Cons op ops)
  then show ?case using Cons.IH[OF asked_ok_step[OF Cons.prems]] by simp
qed simp

section \<open>Draining\<close>

lemma sum_update:
  fixes f :: "'v \<Rightarrow> nat"
  shows "sum_list (map (f \<circ> snd) (AList.update k v m)) + (case map_of m k of None \<Rightarrow> 0 | Some w \<Rightarrow> f w) =
    sum_list (map (f \<circ> snd) m) + f v"
  by (induction m) auto

lemma sum_delete:
  fixes f :: "'v \<Rightarrow> nat"
  shows "sum_list (map (f \<circ> snd) (AList.delete k m)) \<le> sum_list (map (f \<circ> snd) m)"
  unfolding AList.delete_eq by (induction m) auto

lemma executing_with:
  assumes "\<And>a. ma_executing (f a) \<le> ma_executing a"
  shows "mail_executing (with_account c n f h) \<le> mail_executing h"
proof (cases "map_of (hb_mail h) c")
  case (Some a)
  then show ?thesis
    using sum_update[of ma_executing c "f a" "hb_mail h"] assms[of a]
    by (simp add: mail_executing_def with_account_def)
qed (simp add: with_account_def)

lemma executing_step:
  assumes "hb_mail_drain h" and "op \<noteq> HDrain False"
  shows "mail_executing (hub_step op h) \<le> mail_executing h \<and> hb_mail_drain (hub_step op h)"
proof -
  have same: "mail_executing h' = mail_executing h" if "hb_mail h' = hb_mail h" for h'
    using that by (simp add: mail_executing_def)
  have drain: "hb_mail_drain (hub_step op h)"
    using assms by (cases op) (simp_all add: bridge_defs other_defs account_defs split: option.split notice_kind.split)
  have "mail_executing (hub_step op h) \<le> mail_executing h"
  proof (cases op)
    case (HRegisterMail c rs)
    then show ?thesis
      using sum_update[of ma_executing c _ "hb_mail h"]
      by (simp add: register_mail_def Let_def mail_executing_def split: option.split)
         (metis (no_types, lifting) add.right_neutral add_leD1 eq_imp_le mail_account.select_convs(7))
  next
    case (HDropMail c n)
    then show ?thesis using sum_delete[of ma_executing c "hb_mail h"]
      by (simp add: drop_mail_registration_def mail_executing_def split: option.split)
  next
    case (HBegin c n)
    then show ?thesis using assms(1) by (simp add: hub_begin_execution_def)
  qed (simp_all add: account_defs executing_with,
      (rule eq_imp_le, rule same, simp add: bridge_defs other_defs split: option.split notice_kind.split)+)
  with drain show ?thesis by simp
qed

lemma drained_run:
  "hb_mail_drain h \<Longrightarrow> HDrain False \<notin> set ops \<Longrightarrow>
     mail_executing (fold hub_step ops h) \<le> mail_executing h \<and> hb_mail_drain (fold hub_step ops h)"
proof (induction ops arbitrary: h)
  case (Cons op ops)
  then have "mail_executing (hub_step op h) \<le> mail_executing h \<and> hb_mail_drain (hub_step op h)"
    by (intro executing_step) auto
  then show ?case using Cons.IH[of "hub_step op h"] Cons.prems by auto
qed simp

section \<open>Where a command goes\<close>

text \<open>The account that answers for a code or handle is the one account that holds it.\<close>

lemma authority_of_Some:
  assumes "authority_of h key is_hd route = Some c"
  obtains a where "(c, a) \<in> set (hb_mail h)" "key \<in> (if is_hd then ma_handles a else ma_codes a)"
    "ma_authority a" "\<And>r. route = Some r \<Longrightarrow> r \<in> set (ma_routes a)"
proof -
  obtain a where "List.find (\<lambda>(_, a). key \<in> (if is_hd then ma_handles a else ma_codes a) \<and>
      (case route of None \<Rightarrow> True | Some r \<Rightarrow> r \<in> set (ma_routes a)) \<and> ma_authority a) (hb_mail h) = Some (c, a)"
    using assms by (auto simp: authority_of_def)
  then show thesis by (intro that[of a]) (auto simp: find_Some_iff nth_mem split: option.splits)
qed

lemma authority_of_unique:
  assumes "names_apart h" and "(c, a) \<in> set (hb_mail h)" and "k \<in> ma_codes a"
    and "authority_of h k False None = Some d"
  shows "d = c"
proof -
  obtain b where "(d, b) \<in> set (hb_mail h)" "k \<in> ma_codes b" by (rule authority_of_Some[OF assms(4)]) auto
  then show ?thesis using assms(1-3) unfolding names_apart_def accounts_apart_def by (metis disjoint_iff)
qed

lemma authority_of_found:
  assumes "(c, a) \<in> set (hb_mail h)" and "k \<in> ma_codes a" and "ma_authority a"
  shows "authority_of h k False None \<noteq> None"
  using assms by (auto simp: authority_of_def find_None_iff)

definition handed_out :: "hub \<Rightarrow> (string \<times> string list) list \<Rightarrow> bool" where
  "handed_out h by_account \<longleftrightarrow> distinct (map fst by_account) \<and>
     (\<forall>c l. (c, l) \<in> set by_account \<longrightarrow> l \<noteq> [] \<and> (\<forall>k \<in> set l. authority_of h k False None = Some c))"

lemma mset_concat_update:
  assumes "map_of m c = Some l"
  shows "mset (concat (map snd (AList.update c (l @ [k]) m))) = add_mset k (mset (concat (map snd m)))"
  using assms by (induction m) (auto split: if_splits)

lemma code_loop_handed:
  assumes "handed_out h by_account" and "code_loop h ev cs by_account answers = (by', answers')"
  shows "handed_out h by' \<and>
    mset (concat (map snd by')) =
      mset (concat (map snd by_account)) + filter_mset (\<lambda>k. authority_of h k False None \<noteq> None) (mset cs)"
  using assms
proof (induction h ev cs by_account answers rule: code_loop.induct)
  case (2 h ev k cs by_account answers)
  show ?case
  proof (cases "authority_of h k False None")
    case None
    then show ?thesis using 2 by simp
  next
    case (Some c)
    let ?by = "case map_of by_account c of
        Some list \<Rightarrow> AList.update c (list @ [k]) by_account | None \<Rightarrow> by_account @ [(c, [k])]"
    have d: "distinct (map fst by_account)" using "2.prems"(1) by (simp add: handed_out_def)
    have "handed_out h ?by"
      using "2.prems"(1) Some
      by (auto simp: handed_out_def set_update_distinct[OF d] distinct_update map_of_eq_None_iff
          split: option.split dest: map_of_SomeD)
    moreover have "mset (concat (map snd ?by)) = add_mset k (mset (concat (map snd by_account)))"
      by (auto simp: mset_concat_update split: option.split)
    ultimately show ?thesis using "2.IH"(2)[OF Some] "2.prems"(2) Some by simp
  qed
qed simp

section \<open>Sample run\<close>

definition sample_hub_ops :: "hub_op list" where
  "sample_hub_ops =
     [HRegister ''feishu:mail'' (Some ''owner'') ForMail, HRegister ''feishu:main'' (Some ''owner'') ForChat,
      HRegisterMail ''email:work'' [''feishu:mail''], HServe ''email:work'' 3,
      HClaimCode ''email:work'' 3 ''Q7M2KD'', HBegin ''email:work'' 3,
      HNotify ''feishu:main'' ''owner'' ''hello'' True,
      HNotifyKeyed ''feishu:mail'' ''owner'' ''mail'' ''k1'' True,
      HAsk ''q1'' ''feishu:main'' ''owner'', HDelivered ''feishu:main'' ''q1'' 100,
      HTake ''feishu:main'' ''owner'' 150]"

definition sample_hub :: hub where
  "sample_hub = fold hub_step sample_hub_ops (new_hub None)"

lemma sample_hub_inv: "hub_inv sample_hub"
  unfolding sample_hub_def by (rule hubm.inv_run[OF hub_inv_new])

lemmas hub_eval = sample_hub_def sample_hub_ops_def bridge_defs other_defs account_defs with_account_def
  modify_def new_hub_def holds_registration_def question_key_def

lemma sample_mail:
  "hb_mail sample_hub = [(''email:work'', \<lparr>ma_id = 3, ma_routes = [''feishu:mail''], ma_counts = no_counts,
     ma_authority = True, ma_codes = {''Q7M2KD''}, ma_handles = {}, ma_executing = 1\<rparr>)]"
  by (simp add: hub_eval)

lemma sample_trace:
  "hub_trace sample_hub_ops (new_hub None) =
     [Asked ''q1'' ''feishu:main'' ''owner'', Reached ''feishu:main'' ''q1'' 100,
      Taken ''q1'' ''feishu:main'' ''owner'' 150]"
  by (simp add: hub_eval)

section \<open>The properties of the hub\<close>

text \<open>
  C25. Mail never reaches an ordinary chat through the hub. After any operations, every notice that
  waits in a bridge's channel is quarantined mail exactly if the bridge is a mail chat: a mail chat is
  handed nothing but keyed mail notices, and no other chat is ever handed one. At the same time no two
  running email accounts hold the same approval code or message handle, and the record of keyed
  notices stays within 512 per chat.
\<close>

theorem hub_quarantine:
  shows "let h = fold hub_step ops (new_hub lo) in
    (\<forall>c b n. map_of (hb_bridges h) c = Some b \<and> n \<in> set (br_notices b) \<longrightarrow>
       (nt_key n \<noteq> None \<longleftrightarrow> br_purpose b = ForMail)) \<and>
    (\<forall>c a d b. map_of (hb_mail h) c = Some a \<and> map_of (hb_mail h) d = Some b \<and> c \<noteq> d \<longrightarrow>
       ma_codes a \<inter> ma_codes b = {} \<and> ma_handles a \<inter> ma_handles b = {}) \<and>
    (\<forall>c. length (keyed_of h c) \<le> MAX_KEYED_PER_CHAT)"
proof -
  have "hub_inv (fold hub_step ops (new_hub lo))" by (rule hubm.inv_run[OF hub_inv_new])
  then show ?thesis
    unfolding hub_inv_def quarantined_def names_apart_def keyed_bounded_def bridge_ok_def accounts_apart_def Let_def
    by (meson map_of_SomeD)
qed

theorem hub_quarantine_witness:
  "map_of (hb_bridges sample_hub) ''feishu:mail'' =
     Some \<lparr>br_id = 1, br_owner = Some ''owner'', br_purpose = ForMail,
       br_notices = [\<lparr>nt_to = ''owner'', nt_text = ''mail'', nt_question = None, nt_key = Some ''k1''\<rparr>],
       br_open = True, br_owner_claims = 0\<rparr> \<and>
   length (keyed_of sample_hub ''feishu:mail'') \<le> MAX_KEYED_PER_CHAT"
proof -
  have "map_of (hb_bridges sample_hub) ''feishu:mail'' =
     Some \<lparr>br_id = 1, br_owner = Some ''owner'', br_purpose = ForMail,
       br_notices = [\<lparr>nt_to = ''owner'', nt_text = ''mail'', nt_question = None, nt_key = Some ''k1''\<rparr>],
       br_open = True, br_owner_claims = 0\<rparr>"
    by (simp add: hub_eval)
  then show ?thesis
    using hub_quarantine[of sample_hub_ops None] by (simp add: sample_hub_def Let_def)
qed

text \<open>
  C26. A yes or no counts for the question it answers. Over any operations from a new hub, a question
  is taken for answering at most as often as it was asked, and only after it was asked in that chat
  and its text reached that chat, with a message sent no earlier than that.
\<close>

theorem question_answered_once:
  "events (is_taken q) (hub_trace ops (new_hub lo)) \<le> events (is_asked q) (hub_trace ops (new_hub lo)) \<and>
   (\<forall>before after c p ms. hub_trace ops (new_hub lo) = before @ Taken q c p ms # after \<longrightarrow>
      Asked q c p \<in> set before \<and> (\<exists>d \<le> ms. Reached c q d \<in> set before))"
proof -
  have "asked_ok [] (new_hub lo)"
    by (simp add: asked_ok_def maps_ok_def heard_def answers_follow_def answers_counted_def waiting_as_def new_hub_def)
  from asked_ok_trace[OF this, of ops]
  have ok: "answers_follow (hub_trace ops (new_hub lo))"
    "answers_counted (hub_trace ops (new_hub lo)) (fold hub_step ops (new_hub lo))"
    by (simp_all add: asked_ok_def)
  show ?thesis
    using ok(1)[unfolded answers_follow_def] ok(2)[unfolded answers_counted_def, rule_format, of q] by auto
qed

theorem question_answered_once_witness:
  "events (is_taken ''q1'') (hub_trace sample_hub_ops (new_hub None)) = 1 \<and>
   events (is_asked ''q1'') (hub_trace sample_hub_ops (new_hub None)) = 1 \<and>
   (\<exists>d \<le> 150. Reached ''feishu:main'' ''q1'' d \<in>
      set [Asked ''q1'' ''feishu:main'' ''owner'', Reached ''feishu:main'' ''q1'' 100])"
  using question_answered_once[of "''q1''" sample_hub_ops None] unfolding sample_trace by auto

text \<open>
  C28. A planned restart waits for mail actions correctly: once the drain flag is up, whatever
  operations follow until it is lowered, the number of actions under way never grows, so after it is
  zero none starts.
\<close>

theorem drain_holds:
  assumes "hb_mail_drain h" and "HDrain False \<notin> set ops"
  shows "mail_executing (fold hub_step ops h) \<le> mail_executing h \<and>
    fst (hub_begin_execution c n (fold hub_step ops h)) = False"
  using drained_run[OF assms] by (simp add: hub_begin_execution_def)

theorem drain_holds_witness:
  "mail_executing (fold hub_step [HBegin ''email:work'' 3, HEnd ''email:work'' 3]
     (set_mail_drain True sample_hub)) \<le> 1"
proof -
  have "mail_executing (set_mail_drain True sample_hub) = 1"
    by (simp add: mail_executing_def set_mail_drain_def sample_mail)
  then show ?thesis
    using drain_holds[of "set_mail_drain True sample_hub" "[HBegin ''email:work'' 3, HEnd ''email:work'' 3]"
      "''email:work''" 3]
    by (simp add: set_mail_drain_def del: fold_simps)
qed

text \<open>
  C27. The owner's approval reaches the account it is for. For a hub in a reachable state, each code
  of an \<open>approve\<close> that a running account with mail actions holds is handed to that account, exactly
  as often as the message names it, in one command per account; every other code is handed to none.
\<close>

theorem approval_routed:
  assumes "hub_inv h" and "route_command h route (CmdApprove cs) = (answers, work)"
  shows "\<exists>by_account. work = map (\<lambda>(c, l). (c, CmdApprove l)) by_account \<and>
    distinct (map fst by_account) \<and>
    mset (concat (map snd by_account)) =
      filter_mset (\<lambda>k. \<exists>c a. map_of (hb_mail h) c = Some a \<and> k \<in> ma_codes a \<and> ma_authority a) (mset cs) \<and>
    (\<forall>c l k. (c, l) \<in> set by_account \<and> k \<in> set l \<longrightarrow>
       (\<exists>a. map_of (hb_mail h) c = Some a \<and> k \<in> ma_codes a)) \<and>
    (\<forall>c a k. map_of (hb_mail h) c = Some a \<and> k \<in> ma_codes a \<and> ma_authority a \<and> k \<in> set cs \<longrightarrow>
       (\<exists>l. (c, l) \<in> set by_account \<and> k \<in> set l))"
proof -
  have apart: "names_apart h" and d: "distinct (map fst (hb_mail h))"
    using assms(1) by (simp_all add: hub_inv_def maps_ok_def)
  have mem: "map_of (hb_mail h) c = Some a \<longleftrightarrow> (c, a) \<in> set (hb_mail h)" for c a
    using d by (rule map_of_eq_Some_iff)
  have known: "authority_of h k False None \<noteq> None \<longleftrightarrow>
      (\<exists>c a. map_of (hb_mail h) c = Some a \<and> k \<in> ma_codes a \<and> ma_authority a)" for k
    unfolding mem using authority_of_found[of _ _ h k] authority_of_Some[of h k False None] by (metis not_None_eq)
  have empty: "handed_out h []" by (simp add: handed_out_def)
  obtain by_account where loop: "code_loop h (authorities_for h route) cs [] [] = (by_account, answers)"
    and work: "work = map (\<lambda>(c, l). (c, CmdApprove l)) by_account"
    using assms(2) by (auto split: prod.splits)
  have out: "handed_out h by_account" "mset (concat (map snd by_account)) =
      filter_mset (\<lambda>k. authority_of h k False None \<noteq> None) (mset cs)"
    using code_loop_handed[OF empty loop] by simp_all
  have "\<exists>a. map_of (hb_mail h) c = Some a \<and> k \<in> ma_codes a" if "(c, l) \<in> set by_account" "k \<in> set l" for c l k
  proof -
    have "authority_of h k False None = Some c" using out(1) that by (auto simp: handed_out_def)
    then show ?thesis unfolding mem by (rule authority_of_Some) auto
  qed
  moreover have "\<exists>l. (c, l) \<in> set by_account \<and> k \<in> set l"
    if "map_of (hb_mail h) c = Some a" "k \<in> ma_codes a" "ma_authority a" "k \<in> set cs" for c a k
  proof -
    have in_h: "(c, a) \<in> set (hb_mail h)" using that(1) mem by blast
    then have "k \<in># mset (concat (map snd by_account))"
      unfolding out(2) using authority_of_found[OF _ that(2,3)] that(4) by simp
    then obtain d l where l: "(d, l) \<in> set by_account" "k \<in> set l" by auto
    then have "authority_of h k False None = Some d" using out(1) by (auto simp: handed_out_def)
    then have "d = c" by (rule authority_of_unique[OF apart in_h that(2)])
    then show ?thesis using l by blast
  qed
  ultimately show ?thesis using work out unfolding known handed_out_def by blast
qed

theorem approval_routed_witness:
  "\<exists>by_account. [(''email:work'', CmdApprove [''Q7M2KD''])] = map (\<lambda>(c, l). (c, CmdApprove l)) by_account \<and>
     distinct (map fst by_account)"
proof -
  have "route_command sample_hub ''feishu:mail'' (CmdApprove [''Q7M2KD'', ''ABC234'']) =
      ([''No mail action has code ABC234.''], [(''email:work'', CmdApprove [''Q7M2KD''])])"
    by (simp add: sample_mail authority_of_def authorities_for_def)
  from approval_routed[OF sample_hub_inv this] show ?thesis by (elim exE conjE) (intro exI conjI, assumption+)
qed

end
