(* ===== verification/Core_History.thy ===== *)
theory Core_History
  imports Prelude
begin

text \<open>
  What the model sees and what the session keeps: \<open>message.rs\<close> and \<open>history.rs\<close> of scv-core.

  Text is a \<open>ustr\<close>, since notes are cut by characters. serde_json is a library: \<open>sz\<close> is the
  length of a message as it serializes it and \<open>hsz\<close> that of a list of messages. Nothing here
  depends on how they are computed. A JSON value (a tool call's arguments) is kept as its text.
\<close>

section \<open>Messages\<close>

record image_input =
  im_path :: string
  im_mime :: string

record tool_call =
  tc_id :: string
  tc_name :: string
  tc_arguments :: string

datatype msg =
    User ustr "image_input list"
  | Assistant ustr "tool_call list"
  | ToolResult string string ustr bool
  | HistoryNote ustr

record turn_input =
  ti_text :: ustr
  ti_images :: "image_input list"

fun is_user :: "msg \<Rightarrow> bool" where
  "is_user (User c i) \<longleftrightarrow> True"
| "is_user _ \<longleftrightarrow> False"

fun is_note :: "msg \<Rightarrow> bool" where
  "is_note (HistoryNote c) \<longleftrightarrow> True"
| "is_note _ \<longleftrightarrow> False"

definition IMAGE_TOKENS :: nat where "IMAGE_TOKENS = 1600"

fun image_count :: "msg \<Rightarrow> nat" where
  "image_count (User c images) = length images"
| "image_count _ = 0"

definition estimated_tokens :: "(msg \<Rightarrow> nat) \<Rightarrow> nat \<Rightarrow> msg \<Rightarrow> nat" where
  "estimated_tokens sz bytes_per_token m =
     sat_add (sat_add (div_ceil (sz m) bytes_per_token) 4) (sat_mul (image_count m) IMAGE_TOKENS)"

section \<open>Errors and events\<close>

datatype agent_error =
    Cancelled
  | ProviderFailed string
  | ContextLimit string
  | StepLimit
  | HistoryLimit string
  | ResponseLimit string
  | ToolLimit string
  | Internal string

datatype tool_failure =
  Denied | CallCancelled | InvalidArguments | Unavailable | Limit | Failed | UnknownTool

record tool_output =
  to_content :: ustr
  to_failure :: "tool_failure option"
  to_truncated :: bool

datatype core_event =
    AssistantDelta ustr
  | AssistantCompleted ustr
  | ToolProposed string string string
  | ToolStarted string string
  | ToolProgress string ustr
  | ToolCompleted string string tool_output
  | ContextCompacted nat nat nat
  | SessionTrimmed nat nat

section \<open>Cutting text\<close>

definition truncate_chars :: "ustr \<Rightarrow> nat \<Rightarrow> ustr" where
  "truncate_chars v max_chars = take max_chars v"

definition char_tail :: "ustr \<Rightarrow> nat \<Rightarrow> ustr" where
  "char_tail v max_chars = drop (length v - max_chars) v"

definition spaces_for_newlines :: "ustr \<Rightarrow> ustr" where
  "spaces_for_newlines = map (\<lambda>c. if c = 10 then 32 else c)"

fun extract_line :: "nat \<Rightarrow> msg \<Rightarrow> ustr" where
  "extract_line tail (User c i) = lit ''user: '' @ spaces_for_newlines (char_tail c tail) @ [10]"
| "extract_line tail (Assistant c tcs) = lit ''assistant: '' @ spaces_for_newlines (char_tail c tail) @ [10]"
| "extract_line tail (ToolResult cid name c is_error) =
     lit ''tool '' @ lit name @ lit '' ('' @ lit (if is_error then ''failed'' else ''ok'') @ lit ''): '' @
     spaces_for_newlines (char_tail c tail) @ [10]"
| "extract_line tail (HistoryNote c) = lit ''earlier: '' @ spaces_for_newlines (char_tail c tail) @ [10]"

fun note_loop :: "nat \<Rightarrow> nat \<Rightarrow> ustr \<Rightarrow> msg list \<Rightarrow> ustr" where
  "note_loop tail max_chars note [] = note"
| "note_loop tail max_chars note (m # ms) =
     (let note' = note @ extract_line tail m
      in if length note' \<ge> max_chars then note' else note_loop tail max_chars note' ms)"

definition summarize_history_trim :: "msg list \<Rightarrow> nat \<Rightarrow> nat \<Rightarrow> ustr" where
  "summarize_history_trim ms removed max_chars =
     truncate_chars
       (note_loop 160 max_chars
          (lit (''[SCV trimmed '' @ show_nat removed @
                '' earlier canonical messages to enforce session limits.]'') @ [10]) ms) max_chars"

section \<open>Enforcing the limits\<close>

record history_limits =
  hl_max_bytes :: nat
  hl_max_messages :: nat
  hl_note_max_chars :: nat

definition over_limit :: "(msg list \<Rightarrow> nat) \<Rightarrow> history_limits \<Rightarrow> msg list \<Rightarrow> bool" where
  "over_limit hsz lims h \<longleftrightarrow> length h > hl_max_messages lims \<or> hsz h > hl_max_bytes lims"

definition latest_user :: "msg list \<Rightarrow> nat" where
  "latest_user h = (case rposition is_user h of Some i \<Rightarrow> i | None \<Rightarrow> 0)"

definition first_user :: "msg list \<Rightarrow> nat" where
  "first_user h = (case position is_user h of Some i \<Rightarrow> i | None \<Rightarrow> latest_user h)"

text \<open>The history with its first group replaced by a note; \<open>None\<close> when no later group begins.\<close>

definition trim_group :: "history_limits \<Rightarrow> nat \<Rightarrow> msg list \<Rightarrow> (nat \<times> msg list) option" where
  "trim_group lims total_removed h =
     (case position is_user (drop (first_user h + 1) h) of
        None \<Rightarrow> None
      | Some i \<Rightarrow>
          let end = first_user h + 1 + i;
              removed = take end h;
              total = total_removed + length removed;
              note = HistoryNote (summarize_history_trim removed total (hl_note_max_chars lims));
              rest = drop end h;
              rest = (case rest of m # ms \<Rightarrow> if is_note m then ms else rest | [] \<Rightarrow> rest)
          in Some (total, note # rest))"

lemma users_take_drop: "length (filter is_user (take n h)) + length (filter is_user (drop n h)) = length (filter is_user h)"
  by (metis append_take_drop_id filter_append length_append)

lemma first_user_nth:
  "rposition is_user h = Some i \<Longrightarrow> first_user h < length h \<and> is_user (h ! first_user h)"
  using position_None_iff[of is_user h] rposition_Some_D[of is_user h i]
  by (auto simp: first_user_def latest_user_def position_Some_iff split: option.split)

lemma trim_group_fewer:
  assumes "trim_group lims n h = Some (n', h')"
  shows "length (filter is_user h') < length (filter is_user h)"
proof -
  obtain i where i: "position is_user (drop (first_user h + 1) h) = Some i"
    and h': "h' = HistoryNote (summarize_history_trim (take (first_user h + 1 + i) h)
        (n + length (take (first_user h + 1 + i) h)) (hl_note_max_chars lims)) #
      (case drop (first_user h + 1 + i) h of m # ms \<Rightarrow> if is_note m then ms else m # ms | [] \<Rightarrow> [])"
    using assms by (auto simp: trim_group_def Let_def split: option.splits list.splits)
  have some: "\<exists>j. rposition is_user h = Some j"
    using i position_Some_D[OF i] rposition_None_iff[of is_user h]
    by (cases "rposition is_user h") (auto dest: nth_mem simp: less_diff_conv add.commute)
  then have f: "first_user h < length h" "is_user (h ! first_user h)" using first_user_nth by blast+
  have "h ! first_user h \<in> set (take (first_user h + 1 + i) h)"
    using f(1) by (auto simp: in_set_conv_nth intro!: exI[of _ "first_user h"])
  then have "0 < length (filter is_user (take (first_user h + 1 + i) h))"
    using f(2) by (auto simp: filter_empty_conv)
  then have "length (filter is_user (drop (first_user h + 1 + i) h)) < length (filter is_user h)"
    using users_take_drop[of "first_user h + 1 + i" h] by linarith
  moreover have "length (filter is_user h') \<le> length (filter is_user (drop (first_user h + 1 + i) h))"
    unfolding h' by (auto split: list.split)
  ultimately show ?thesis by linarith
qed

function (sequential) enforce_loop ::
  "(msg list \<Rightarrow> nat) \<Rightarrow> history_limits \<Rightarrow> nat \<Rightarrow> msg list \<Rightarrow> agent_error + (nat \<times> msg list)" where
  "enforce_loop hsz lims total_removed h =
     (if \<not> over_limit hsz lims h then Inr (total_removed, h)
      else if over_limit hsz lims (drop (latest_user h) h)
      then Inl (HistoryLimit ''active turn exceeds configured session history limit'')
      else if first_user h = latest_user h
      then (case h of
              HistoryNote c # rest \<Rightarrow> enforce_loop hsz lims (total_removed + 1) rest
            | _ \<Rightarrow> Inl (HistoryLimit ''session history cannot be reduced within its configured limit''))
      else (case trim_group lims total_removed h of
              None \<Rightarrow> Inl (HistoryLimit ''session history has no complete group available to trim'')
            | Some (n, h2) \<Rightarrow> enforce_loop hsz lims n h2))"
  by pat_completeness auto
termination
  by (relation "measures [\<lambda>(hsz, lims, n, h). length (filter is_user h), \<lambda>(hsz, lims, n, h). length h]")
    (auto simp: trim_group_fewer)

declare enforce_loop.simps [simp del]

text \<open>
  \<open>enforce_limits\<close>: the trimmed history and the event it reports, if any. Emitting it is the
  caller's next step.
\<close>

definition enforce_limits ::
  "(msg list \<Rightarrow> nat) \<Rightarrow> history_limits \<Rightarrow> msg list \<Rightarrow> agent_error + (msg list \<times> core_event option)" where
  "enforce_limits hsz lims h =
     res_bind (enforce_loop hsz lims 0 h)
       (\<lambda>(removed, h'). Inr (h', if removed > 0 then Some (SessionTrimmed removed (hsz h')) else None))"

section \<open>What trimming keeps\<close>

text \<open>
  A canonical history begins with a user message, or with one note and then a user message; it has
  no other note. The active turn is what follows the newest user message, with it.
\<close>

definition has_user :: "msg list \<Rightarrow> bool" where
  "has_user h \<longleftrightarrow> (\<exists>m \<in> set h. is_user m)"

definition active_turn :: "msg list \<Rightarrow> msg list" where
  "active_turn h = drop (latest_user h) h"

fun canonical :: "msg list \<Rightarrow> bool" where
  "canonical [] \<longleftrightarrow> True"
| "canonical (m # ms) \<longleftrightarrow> (\<forall>x \<in> set ms. \<not> is_note x) \<and>
     (is_user m \<or> is_note m \<and> (case ms of [] \<Rightarrow> True | x # _ \<Rightarrow> is_user x))"

text \<open>Whole turns were removed from the front, and possibly a note put in their place.\<close>

definition trimmed :: "msg list \<Rightarrow> msg list \<Rightarrow> bool" where
  "trimmed h h' \<longleftrightarrow> h' = h \<or> (\<exists>k \<le> latest_user h. k < length h \<and> is_user (h ! k) \<and>
     (h' = drop k h \<or> (\<exists>c. h' = HistoryNote c # drop k h)))"

lemma latest_user_D:
  assumes "has_user h"
  shows "latest_user h < length h" "is_user (h ! latest_user h)"
    "\<And>j. latest_user h < j \<Longrightarrow> j < length h \<Longrightarrow> \<not> is_user (h ! j)"
proof -
  have "rposition is_user h \<noteq> None" using assms by (auto simp: rposition_None_iff has_user_def)
  then obtain i where i: "rposition is_user h = Some i" by blast
  then show "latest_user h < length h" "is_user (h ! latest_user h)"
    "\<And>j. latest_user h < j \<Longrightarrow> j < length h \<Longrightarrow> \<not> is_user (h ! j)"
    using rposition_Some_D[OF i] by (simp_all add: latest_user_def)
qed

lemma latest_user_eqI:
  assumes "i < length h" "is_user (h ! i)" "\<And>j. i < j \<Longrightarrow> j < length h \<Longrightarrow> \<not> is_user (h ! j)"
  shows "latest_user h = i"
proof -
  have "has_user h" using assms(1,2) by (auto simp: has_user_def)
  from latest_user_D[OF this] show ?thesis using assms by (metis linorder_neqE_nat)
qed

lemma latest_user_drop:
  assumes "has_user h" and "k \<le> latest_user h"
  shows "has_user (drop k h)" "latest_user (drop k h) = latest_user h - k"
proof -
  note d = latest_user_D[OF assms(1)]
  have "is_user (drop k h ! (latest_user h - k))" "latest_user h - k < length (drop k h)"
    using d(1,2) assms(2) by simp_all
  then show "has_user (drop k h)" unfolding has_user_def by (metis nth_mem)
  show "latest_user (drop k h) = latest_user h - k"
    by (rule latest_user_eqI) (use d assms(2) in auto)
qed

lemma latest_user_note:
  assumes "has_user h"
  shows "has_user (HistoryNote c # h)" "latest_user (HistoryNote c # h) = Suc (latest_user h)"
proof -
  show "has_user (HistoryNote c # h)" using assms by (auto simp: has_user_def)
  show "latest_user (HistoryNote c # h) = Suc (latest_user h)"
    by (rule latest_user_eqI) (use latest_user_D[OF assms] in \<open>auto simp: less_Suc_eq_0_disj nth_Cons split: nat.splits\<close>)
qed

lemma first_user_D:
  assumes "has_user h"
  shows "first_user h \<le> latest_user h" "is_user (h ! first_user h)" "\<And>j. j < first_user h \<Longrightarrow> \<not> is_user (h ! j)"
proof -
  have "position is_user h \<noteq> None" using assms by (auto simp: position_None_iff has_user_def)
  then obtain i where i: "position is_user h = Some i" by blast
  note p = i[unfolded position_Some_iff] and d = latest_user_D[OF assms]
  show "first_user h \<le> latest_user h" "is_user (h ! first_user h)" "\<And>j. j < first_user h \<Longrightarrow> \<not> is_user (h ! j)"
    using p d i by (auto simp: first_user_def intro: leI)
qed

lemma trimmed_refl: "trimmed h h"
  by (simp add: trimmed_def)

lemma trimmed_after:
  assumes "has_user h" and "k \<le> latest_user h" and "is_user (h ! k)"
    and "h1 = drop k h \<or> (\<exists>c. h1 = HistoryNote c # drop k h)" and "trimmed h1 h2"
  shows "trimmed h h2"
proof -
  note drop = latest_user_drop[OF assms(1,2)]
  have k: "k < length h" using assms(2) latest_user_D(1)[OF assms(1)] by linarith
  consider (same) "h2 = h1" | (cut) j where "j \<le> latest_user h1" "j < length h1" "is_user (h1 ! j)"
      "h2 = drop j h1 \<or> (\<exists>c. h2 = HistoryNote c # drop j h1)"
    using assms(5) by (auto simp: trimmed_def)
  then show ?thesis
  proof cases
    case same
    then show ?thesis using assms(2-4) k by (auto simp: trimmed_def)
  next
    case (cut j)
    define i where "i = (if h1 = drop k h then k + j else k + (j - 1))"
    have "i \<le> latest_user h \<and> i < length h \<and> is_user (h ! i) \<and> drop j h1 = drop i h"
    proof (cases "h1 = drop k h")
      case True
      then show ?thesis using cut(1-3) drop(2) assms(2) k by (auto simp: i_def add.commute)
    next
      case False
      then obtain c where c: "h1 = HistoryNote c # drop k h" using assms(4) by blast
      obtain j' where j: "j = Suc j'" using cut(3) c by (cases j) auto
      then show ?thesis
        using cut(1-3) c False latest_user_note[OF drop(1), of c] drop(2) assms(2)
        by (auto simp: i_def add.commute)
    qed
    then show ?thesis using cut(4) by (auto simp: trimmed_def)
  qed
qed

lemma trim_group_trims:
  assumes "has_user h" and "canonical h" and "first_user h \<noteq> latest_user h"
  obtains n' k c where "trim_group lims n h = Some (n', HistoryNote c # drop k h)"
    "k \<le> latest_user h" "is_user (h ! k)" "length c \<le> hl_note_max_chars lims" "n < n'"
proof -
  let ?f = "first_user h" and ?l = "latest_user h"
  note f = first_user_D[OF assms(1)] and l = latest_user_D[OF assms(1)]
  have lt: "?f < ?l" using f(1) assms(3) by linarith
  let ?d = "drop (?f + 1) h"
  have in_d: "?d ! (?l - (?f + 1)) = h ! ?l" "?l - (?f + 1) < length ?d" using lt l(1) by auto
  have "position is_user ?d \<noteq> None"
    using in_d l(2) unfolding position_None_iff by (metis nth_mem)
  then obtain i where i: "position is_user ?d = Some i" by blast
  note p = i[unfolded position_Some_iff]
  let ?e = "?f + 1 + i"
  have e_l: "?e \<le> ?l"
  proof (rule ccontr)
    assume "\<not> ?e \<le> ?l"
    then have "?l - (?f + 1) < i" using lt by linarith
    then have "\<not> is_user (?d ! (?l - (?f + 1)))" using p by blast
    then show False using in_d(1) l(2) by simp
  qed
  have "is_user (drop (?f + 1) h ! i)" "i < length h - (?f + 1)" using p by simp_all
  then have user: "is_user (h ! ?e)" by simp
  have "drop ?e h \<noteq> []" using e_l l(1) by simp
  then obtain m ms where d: "drop ?e h = m # ms" by (cases "drop ?e h") auto
  have m: "is_user m" using user d e_l l(1) by (metis hd_drop_conv_nth le_less_trans list.sel(1))
  then have nn: "\<not> is_note m" by (cases m) auto
  let ?c = "summarize_history_trim (take ?e h) (n + length (take ?e h)) (hl_note_max_chars lims)"
  have "trim_group lims n h = Some (n + length (take ?e h), HistoryNote ?c # drop ?e h)"
    using i d nn by (simp add: trim_group_def Let_def)
  moreover have "length ?c \<le> hl_note_max_chars lims"
    by (simp add: summarize_history_trim_def truncate_chars_def)
  ultimately show ?thesis using e_l user l(1) by (intro that) auto
qed

lemma canonical_drop:
  assumes "canonical h" and "k < length h" and "is_user (h ! k)"
  shows "canonical (drop k h)" "canonical (HistoryNote c # drop k h)"
proof -
  obtain m ms where h: "h = m # ms" using assms(2) by (cases h) auto
  have d: "drop k h = h ! k # drop (Suc k) h" using assms(2) by (simp add: Cons_nth_drop_Suc)
  have "set (drop (Suc k) h) \<subseteq> set ms" using h by (simp add: set_drop_subset)
  then have "\<forall>x \<in> set (drop (Suc k) h). \<not> is_note x" using assms(1) h by auto
  moreover have "\<not> is_note (h ! k)" using assms(3) by (cases "h ! k") auto
  ultimately show "canonical (drop k h)" "canonical (HistoryNote c # drop k h)"
    using assms(3) unfolding d by auto
qed

lemma single_turn:
  assumes "canonical h" and "has_user h" and "first_user h = latest_user h"
  shows "active_turn h = h \<or> (\<exists>c. h = HistoryNote c # active_turn h)"
proof -
  obtain m ms where h: "h = m # ms" using assms(2) by (cases h) (auto simp: has_user_def)
  note f = first_user_D[OF assms(2)]
  show ?thesis
  proof (cases "is_user m")
    case True
    then have "first_user h = 0" using f(3)[of 0] h by (metis gr0I nth_Cons_0)
    then show ?thesis using assms(3) by (simp add: active_turn_def)
  next
    case False
    then obtain c where c: "m = HistoryNote c" using assms(1) h by (cases m) auto
    have "ms \<noteq> []" using assms(2) h False by (auto simp: has_user_def)
    then have "is_user (ms ! 0)" using assms(1) h False by (cases ms) auto
    then have "first_user h = 1"
      using f(2,3) h c by (metis One_nat_def is_user.simps(4) le_antisym less_one not_le nth_Cons_0 nth_Cons_Suc)
    then have "latest_user h = Suc 0" using assms(3) by simp
    then have "active_turn h = ms" using h by (simp add: active_turn_def)
    then show ?thesis using h c by simp
  qed
qed

lemma trim_group_counts: "trim_group lims n h = Some (n', h') \<Longrightarrow> n \<le> n'"
  by (auto simp: trim_group_def Let_def split: option.splits)

lemma enforce_loop_counts: "enforce_loop hsz lims n h = Inr (n', h') \<Longrightarrow> n \<le> n'"
proof (induction hsz lims n h rule: enforce_loop.induct)
  case (1 hsz lims n h)
  note eq = enforce_loop.simps[of hsz lims n h]
  consider (fits) "n' = n"
    | (first) c rest where "over_limit hsz lims h" "\<not> over_limit hsz lims (drop (latest_user h) h)"
        "first_user h = latest_user h" "h = HistoryNote c # rest" "enforce_loop hsz lims (n + 1) rest = Inr (n', h')"
    | (group) m h2 where "over_limit hsz lims h" "\<not> over_limit hsz lims (drop (latest_user h) h)"
        "first_user h \<noteq> latest_user h" "trim_group lims n h = Some (m, h2)" "enforce_loop hsz lims m h2 = Inr (n', h')"
    using "1.prems" unfolding eq by (auto split: if_splits list.splits msg.splits option.splits)
  then show ?case
  proof cases
    case first
    then show ?thesis using "1.IH"(1)[OF _ _ first(3,4) refl first(5)] by simp
  next
    case group
    then show ?thesis using "1.IH"(2)[OF _ _ group(3,4) refl group(5)] trim_group_counts[OF group(4)] by simp
  qed simp
qed

lemma enforce_loop_trims:
  assumes "canonical h" and "has_user h"
  shows "case enforce_loop hsz lims n h of
      Inl e \<Rightarrow> e = HistoryLimit ''active turn exceeds configured session history limit'' \<and>
        over_limit hsz lims (active_turn h)
    | Inr (n', h') \<Rightarrow> \<not> over_limit hsz lims h' \<and> trimmed h h' \<and> canonical h' \<and> (n' = n \<longrightarrow> h' = h)"
  using assms
proof (induction hsz lims n h rule: enforce_loop.induct)
  case (1 hsz lims n h)
  note eq = enforce_loop.simps[of hsz lims n h]
  consider (fits) "\<not> over_limit hsz lims h" | (active) "over_limit hsz lims h" "over_limit hsz lims (active_turn h)"
    | (one) "over_limit hsz lims h" "\<not> over_limit hsz lims (active_turn h)" "first_user h = latest_user h"
    | (more) "over_limit hsz lims h" "\<not> over_limit hsz lims (active_turn h)" "first_user h \<noteq> latest_user h"
    by blast
  then show ?case
  proof cases
    case fits
    then show ?thesis using "1.prems" by (simp add: eq trimmed_refl)
  next
    case active
    then show ?thesis by (simp add: eq active_turn_def)
  next
    case one
    then obtain c where c: "h = HistoryNote c # active_turn h" using single_turn "1.prems" by metis
    define ms where "ms = active_turn h"
    have h: "h = HistoryNote c # ms" using c ms_def by simp
    have users: "has_user ms" using "1.prems"(2) h by (auto simp: has_user_def)
    then obtain x xs where x: "ms = x # xs" by (cases ms) (auto simp: has_user_def)
    have ux: "is_user x" "canonical ms" using "1.prems"(1) h x by auto
    have latest: "latest_user h = Suc (latest_user ms)" using latest_user_note[OF users] h by simp
    have "active_turn h = active_turn ms" using h latest by (simp add: active_turn_def)
    moreover have IH: "case enforce_loop hsz lims (n + 1) ms of
        Inl e \<Rightarrow> e = HistoryLimit ''active turn exceeds configured session history limit'' \<and>
          over_limit hsz lims (active_turn ms)
      | Inr (n', h') \<Rightarrow> \<not> over_limit hsz lims h' \<and> trimmed ms h' \<and> canonical h' \<and> (n' = n + 1 \<longrightarrow> h' = ms)"
      using "1.IH"(1)[OF _ _ one(3) h refl] one(1,2) ux(2) users by (simp add: active_turn_def)
    moreover have "trimmed h h'" if "trimmed ms h'" for h'
      by (rule trimmed_after[OF "1.prems"(2), of 1 ms]) (use latest h x ux that in auto)
    moreover have "n < n'" if "enforce_loop hsz lims (n + 1) ms = Inr (n', h')" for n' h'
      using enforce_loop_counts[OF that] by simp
    moreover have "enforce_loop hsz lims n h = enforce_loop hsz lims (n + 1) ms"
      unfolding eq using one by (simp add: active_turn_def) (simp add: h)
    ultimately show ?thesis by (fastforce split: sum.splits)
  next
    case more
    obtain n' k c where t: "trim_group lims n h = Some (n', HistoryNote c # drop k h)"
      "k \<le> latest_user h" "is_user (h ! k)" "length c \<le> hl_note_max_chars lims" "n < n'"
      by (rule trim_group_trims[OF "1.prems"(2,1) more(3), of lims n])
    let ?h = "HistoryNote c # drop k h"
    have k: "k < length h" using t(2) latest_user_D(1)[OF "1.prems"(2)] by linarith
    note drop = latest_user_drop[OF "1.prems"(2) t(2)]
    have can: "canonical ?h" by (rule canonical_drop(2)[OF "1.prems"(1) k t(3)])
    have users: "has_user ?h" "latest_user ?h = Suc (latest_user h - k)"
      using latest_user_note[OF drop(1), of c] drop(2) by simp_all
    have "active_turn ?h = active_turn h" using users(2) t(2) by (simp add: active_turn_def)
    moreover have "case enforce_loop hsz lims n' ?h of
        Inl e \<Rightarrow> e = HistoryLimit ''active turn exceeds configured session history limit'' \<and>
          over_limit hsz lims (active_turn ?h)
      | Inr (n'', h') \<Rightarrow> \<not> over_limit hsz lims h' \<and> trimmed ?h h' \<and> canonical h' \<and> (n'' = n' \<longrightarrow> h' = ?h)"
      using "1.IH"(2)[OF _ _ more(3) t(1) refl can users(1)] more by (simp add: active_turn_def)
    moreover have "trimmed h h'" if "trimmed ?h h'" for h'
      by (rule trimmed_after[OF "1.prems"(2) t(2,3) _ that]) auto
    moreover have "n < n''" if "enforce_loop hsz lims n' ?h = Inr (n'', h')" for n'' h'
      using enforce_loop_counts[OF that] t(5) by simp
    moreover have "enforce_loop hsz lims n h = enforce_loop hsz lims n' ?h"
      using more t(1) by (simp add: eq active_turn_def)
    ultimately show ?thesis by (fastforce split: sum.splits)
  qed
qed

lemma trimmed_active:
  assumes "has_user h" and "trimmed h h'"
  shows "has_user h' \<and> active_turn h' = active_turn h"
proof -
  consider "h' = h" | k where "k \<le> latest_user h" "h' = drop k h \<or> (\<exists>c. h' = HistoryNote c # drop k h)"
    using assms(2) by (auto simp: trimmed_def)
  then show ?thesis
  proof cases
    case (2 k)
    note d = latest_user_drop[OF assms(1) 2(1)]
    show ?thesis using 2 d latest_user_note[OF d(1)] by (auto simp: active_turn_def)
  qed (use assms in simp)
qed

lemma enforce_limits_cases:
  assumes "canonical h" and "has_user h"
  shows "case enforce_limits hsz lims h of
      Inl e \<Rightarrow> e = HistoryLimit ''active turn exceeds configured session history limit'' \<and>
        over_limit hsz lims (active_turn h)
    | Inr (h', ev) \<Rightarrow> \<not> over_limit hsz lims h' \<and> trimmed h h' \<and> canonical h' \<and>
        has_user h' \<and> active_turn h' = active_turn h \<and> (ev = None \<longrightarrow> h' = h)"
  using enforce_loop_trims[OF assms, of hsz lims 0] trimmed_active[OF assms(2)]
  by (auto simp: enforce_limits_def split: sum.splits if_splits)

section \<open>Sample data\<close>

definition sample_history :: "msg list" where
  "sample_history =
     [User (lit ''first'') [], Assistant (lit ''one'') [],
      User (lit ''second'') [], Assistant (lit ''two'') [],
      User (lit ''third'') []]"

definition sample_lims :: history_limits where
  "sample_lims = \<lparr>hl_max_bytes = 1000, hl_max_messages = 4, hl_note_max_chars = 3\<rparr>"

lemma sample_history_ok: "canonical sample_history" "has_user sample_history"
  by (simp_all add: sample_history_def has_user_def)

lemma sample_active: "active_turn sample_history = [User (lit ''third'') []]"
  by (simp add: active_turn_def latest_user_def sample_history_def rposition_def)

lemma sample_trimmed:
  "enforce_loop length sample_lims 0 sample_history =
     Inr (2, [HistoryNote (lit ''[SC''), User (lit ''second'') [], Assistant (lit ''two'') [], User (lit ''third'') []])"
  by (simp add: enforce_loop.simps over_limit_def sample_lims_def sample_history_def latest_user_def
      first_user_def rposition_def trim_group_def Let_def summarize_history_trim_def truncate_chars_def
      lit_def note_loop.simps of_char_def)

section \<open>The property of the history\<close>

text \<open>
  C24. Trimming ends and keeps the active turn. On a canonical history with a user message,
  \<open>enforce_limits\<close> either fails because the active turn alone exceeds the limits, or returns a
  history within them that is the old one, or the old one less whole turns at its front with at most
  one note in their place: the active turn is unchanged, the history canonical, and an unreported
  trim does not happen.
\<close>

theorem enforce_limits_keeps_turns:
  assumes "canonical h" and "has_user h"
  shows "(enforce_limits hsz lims h = Inl (HistoryLimit ''active turn exceeds configured session history limit'') \<and>
      over_limit hsz lims (active_turn h)) \<or>
    (\<exists>h' ev. enforce_limits hsz lims h = Inr (h', ev) \<and> \<not> over_limit hsz lims h' \<and> canonical h' \<and>
      active_turn h' = active_turn h \<and> (ev = None \<longrightarrow> h' = h) \<and>
      (h' = h \<or> (\<exists>k. k < length h \<and> is_user (h ! k) \<and>
         (h' = drop k h \<or> (\<exists>c. h' = HistoryNote c # drop k h)))))"
  using enforce_limits_cases[OF assms, of hsz lims]
  by (cases "enforce_limits hsz lims h") (auto simp: trimmed_def split: prod.splits)

theorem enforce_limits_keeps_turns_witness:
  "\<exists>h'. enforce_limits length sample_lims sample_history = Inr (h', Some (SessionTrimmed 2 4)) \<and>
     active_turn h' = [User (lit ''third'') []]"
proof -
  have "enforce_limits length sample_lims sample_history =
      Inr ([HistoryNote (lit ''[SC''), User (lit ''second'') [], Assistant (lit ''two'') [], User (lit ''third'') []],
        Some (SessionTrimmed 2 4))"
    by (simp add: enforce_limits_def sample_trimmed)
  then show ?thesis
    using enforce_limits_keeps_turns[OF sample_history_ok, of length sample_lims] by (auto simp: sample_active)
qed

end
