(* ===== verification/Core_Context.thy ===== *)
theory Core_Context
  imports Core_History
begin

text \<open>
  Choosing the history that fits the model's context window: \<open>context.rs\<close> of scv-core. As in
  \<open>Core_History\<close>, the lengths serde_json gives are arguments: \<open>sz\<close> for a message and
  \<open>tools_bytes\<close> for the tool schemas. Sums of token estimates stay far below \<open>usize::MAX\<close>; they
  are sums of \<open>nat\<close>, and the saturating operations are kept where the source has them.
\<close>

record context_config =
  cc_max_tokens :: nat
  cc_reserve_output_tokens :: nat
  cc_safety_margin_tokens :: nat
  cc_bytes_per_token :: nat
  cc_summary_max_chars :: nat

record context_selection =
  cs_messages :: "msg list"
  cs_before_tokens :: nat
  cs_after_tokens :: nat
  cs_removed_messages :: nat

definition new_policy :: "context_config \<Rightarrow> string + context_config" where
  "new_policy cfg =
     (if cc_bytes_per_token cfg = 0 then Inl ''context.bytes_per_token must be positive''
      else if sat_add (cc_reserve_output_tokens cfg) (cc_safety_margin_tokens cfg) \<ge> cc_max_tokens cfg
      then Inl ''context reserve and safety margin consume the model window''
      else Inr cfg)"

definition string_tokens :: "context_config \<Rightarrow> ustr \<Rightarrow> nat" where
  "string_tokens cfg v = div_ceil (ulen v) (cc_bytes_per_token cfg)"

definition cost :: "(msg \<Rightarrow> nat) \<Rightarrow> context_config \<Rightarrow> msg list \<Rightarrow> nat" where
  "cost sz cfg ms = sum_list (map (estimated_tokens sz (cc_bytes_per_token cfg)) ms)"

text \<open>\<open>grp\<close> is the slice from \<open>start\<close> to the message at hand; \<open>index > start\<close> says it is not empty.\<close>

fun group_loop :: "msg list \<Rightarrow> msg list \<Rightarrow> msg list list" where
  "group_loop grp [] = (if grp = [] then [] else [grp])"
| "group_loop grp (m # ms) =
     (if grp \<noteq> [] \<and> is_user m then grp # group_loop [m] ms else group_loop (grp @ [m]) ms)"

definition group_messages :: "msg list \<Rightarrow> msg list list" where
  "group_messages h = group_loop [] h"

definition summarize :: "context_config \<Rightarrow> msg list \<Rightarrow> ustr" where
  "summarize cfg ms =
     truncate_chars
       (note_loop 240 (cc_summary_max_chars cfg)
          (lit (''[SCV compacted '' @ show_nat (length ms) @ '' earlier messages. Bounded extracts follow.]'') @ [10])
          ms) (cc_summary_max_chars cfg)"

text \<open>The binary search; \<open>None\<close> in \<open>best\<close> until a candidate fits.\<close>

function fit_loop_note ::
  "(msg \<Rightarrow> nat) \<Rightarrow> ustr \<Rightarrow> nat \<Rightarrow> nat \<Rightarrow> nat \<Rightarrow> nat \<Rightarrow> msg option \<Rightarrow> msg option" where
  "fit_loop_note sz chars available bpt low high best =
     (if low \<le> high
      then let middle = low + (high - low) div 2;
               candidate = HistoryNote (take middle chars)
           in if estimated_tokens sz bpt candidate \<le> available
              then fit_loop_note sz chars available bpt (middle + 1) high (Some candidate)
              else if middle = 0 then best
              else fit_loop_note sz chars available bpt low (middle - 1) best
      else best)"
  by auto
termination
  by (relation "measure (\<lambda>(sz, chars, available, bpt, low, high, best). high + 1 - low)") auto

declare fit_loop_note.simps [simp del]

definition fit_history_note :: "(msg \<Rightarrow> nat) \<Rightarrow> ustr \<Rightarrow> nat \<Rightarrow> nat \<Rightarrow> msg option" where
  "fit_history_note sz content available bpt =
     fit_loop_note sz content available bpt 0 (length content) None"

text \<open>Older groups, newest first, kept while they fit.\<close>

fun keep_older ::
  "(msg \<Rightarrow> nat) \<Rightarrow> context_config \<Rightarrow> nat \<Rightarrow> msg list list \<Rightarrow> msg list list \<Rightarrow> nat \<Rightarrow> msg list list \<times> nat" where
  "keep_older sz cfg budget [] selected selected_cost = (selected, selected_cost)"
| "keep_older sz cfg budget (g # gs) selected selected_cost =
     (let c = cost sz cfg g
      in if sat_add selected_cost c > budget then (selected, selected_cost)
         else keep_older sz cfg budget gs (g # selected) (selected_cost + c))"

text \<open>The loop that makes room for the note; it returns the note, the groups kept, their cost with
  the note's, and the number of messages left out.\<close>

fun note_room ::
  "(msg \<Rightarrow> nat) \<Rightarrow> context_config \<Rightarrow> nat \<Rightarrow> msg list \<Rightarrow> msg list list \<Rightarrow> nat \<Rightarrow> nat \<Rightarrow>
     string + msg \<times> msg list list \<times> nat \<times> nat" where
  "note_room sz cfg budget h [] selected_cost removed = Inl ''no group is selected''"
| "note_room sz cfg budget h (g # gs) selected_cost removed =
     (let summary = summarize cfg (take removed h);
          nt = HistoryNote summary;
          note_cost = estimated_tokens sz (cc_bytes_per_token cfg) nt
      in if sat_add selected_cost note_cost \<le> budget
         then Inr (nt, g # gs, selected_cost + note_cost, removed)
         else if gs = []
         then (case fit_history_note sz summary (budget - selected_cost) (cc_bytes_per_token cfg) of
                 None \<Rightarrow> Inl ''compaction note cannot fit context budget''
               | Some nt' \<Rightarrow>
                   Inr (nt', g # gs, selected_cost + estimated_tokens sz (cc_bytes_per_token cfg) nt', removed))
         else note_room sz cfg budget h gs (selected_cost - cost sz cfg g) (removed + length g))"

definition select :: "(msg \<Rightarrow> nat) \<Rightarrow> context_config \<Rightarrow> nat \<Rightarrow> msg list \<Rightarrow> ustr \<Rightarrow> string + context_selection" where
  "select sz cfg tools_bytes h system_prompt =
     (if h = [] then Inr \<lparr>cs_messages = [], cs_before_tokens = 0, cs_after_tokens = 0, cs_removed_messages = 0\<rparr>
      else
        let static_tokens = sat_add (sat_add (sat_add (string_tokens cfg system_prompt)
                              (div_ceil tools_bytes (cc_bytes_per_token cfg)))
                              (cc_reserve_output_tokens cfg)) (cc_safety_margin_tokens cfg)
        in if static_tokens \<ge> cc_max_tokens cfg then Inl ''system prompt and tool schemas exceed context budget''
           else
             let budget = cc_max_tokens cfg - static_tokens;
                 before_tokens = sat_add static_tokens (cost sz cfg h);
                 groups = group_messages h;
                 newest = last groups;
                 older = butlast groups;
                 newest_cost = cost sz cfg newest
             in if newest_cost > budget then Inl ''newest turn exceeds context budget''
                else
                  let (selected, selected_cost) = keep_older sz cfg budget (rev older) [newest] newest_cost;
                      kept_messages = sum_list (map length selected);
                      removed_messages = length h - kept_messages
                  in if removed_messages = 0
                     then Inr \<lparr>cs_messages = concat selected, cs_before_tokens = before_tokens,
                               cs_after_tokens = sat_add static_tokens selected_cost, cs_removed_messages = 0\<rparr>
                     else (case note_room sz cfg budget h selected selected_cost removed_messages of
                             Inl e \<Rightarrow> Inl e
                           | Inr (nt, kept, c, removed) \<Rightarrow>
                               Inr \<lparr>cs_messages = nt # concat kept, cs_before_tokens = before_tokens,
                                    cs_after_tokens = sat_add static_tokens c, cs_removed_messages = removed\<rparr>))"

section \<open>Groups\<close>

lemma concat_group_loop: "concat (group_loop g ms) = g @ ms"
  by (induction g ms rule: group_loop.induct) auto

lemma concat_groups: "concat (group_messages h) = h"
  by (simp add: group_messages_def concat_group_loop)

lemma group_loop_heads:
  "g \<noteq> [] \<Longrightarrow> \<exists>g1 gs. group_loop g ms = (g @ g1) # gs \<and> (\<forall>x \<in> set gs. x \<noteq> [] \<and> is_user (hd x))"
proof (induction g ms rule: group_loop.induct)
  case (2 g m ms)
  show ?case
  proof (cases "is_user m")
    case True
    then obtain g1 gs where "group_loop [m] ms = ([m] @ g1) # gs" "\<forall>x \<in> set gs. x \<noteq> [] \<and> is_user (hd x)"
      using 2 by fastforce
    then show ?thesis using True 2(3) by auto
  next
    case False
    then show ?thesis using 2 by auto
  qed
qed auto

lemma groups_heads:
  assumes "h \<noteq> []"
  shows "group_messages h \<noteq> []" "[] \<notin> set (group_messages h)"
    "\<And>x. x \<in> set (tl (group_messages h)) \<Longrightarrow> is_user (hd x)"
proof -
  obtain m ms where h: "h = m # ms" using assms by (cases h) auto
  have "group_messages h = group_loop [m] ms" by (simp add: group_messages_def h)
  then obtain g1 gs where g: "group_messages h = ([m] @ g1) # gs" "\<forall>x \<in> set gs. x \<noteq> [] \<and> is_user (hd x)"
    using group_loop_heads[of "[m]" ms] by auto
  then show "group_messages h \<noteq> []" "[] \<notin> set (group_messages h)"
    "\<And>x. x \<in> set (tl (group_messages h)) \<Longrightarrow> is_user (hd x)" by auto
qed

text \<open>A suffix of the groups is a suffix of the history that begins at a user message.\<close>

lemma group_suffix:
  assumes "h \<noteq> []" and "group_messages h = pre @ kept" and "kept \<noteq> []"
  shows "concat kept = drop (length (concat pre)) h" "length (concat pre) < length h"
    "pre \<noteq> [] \<Longrightarrow> is_user (h ! length (concat pre))"
proof -
  have h: "h = concat pre @ concat kept" using concat_groups[of h] assms(2) by simp
  then show "concat kept = drop (length (concat pre)) h" by simp
  obtain g gs where kept: "kept = g # gs" using assms(3) by (cases kept) auto
  have g: "g \<noteq> []" using groups_heads(2)[OF assms(1)] assms(2) kept by auto
  then show "length (concat pre) < length h" using h kept by (cases g) auto
  show "is_user (h ! length (concat pre))" if "pre \<noteq> []"
  proof -
    have "g \<in> set (tl (group_messages h))" using that assms(2) kept by (cases pre) auto
    then have "is_user (hd g)" by (rule groups_heads(3)[OF assms(1)])
    moreover have "h ! length (concat pre) = hd g" using h kept g by (cases g) (auto simp: nth_append)
    ultimately show ?thesis by simp
  qed
qed

lemma cost_append [simp]: "cost sz cfg (xs @ ys) = cost sz cfg xs + cost sz cfg ys"
  by (simp add: cost_def)

lemma cost_Nil [simp]: "cost sz cfg [] = 0"
  by (simp add: cost_def)

section \<open>Cutting the note\<close>

definition note_fits :: "(msg \<Rightarrow> nat) \<Rightarrow> ustr \<Rightarrow> nat \<Rightarrow> nat \<Rightarrow> nat \<Rightarrow> bool" where
  "note_fits sz content available bpt n \<longleftrightarrow>
     estimated_tokens sz bpt (HistoryNote (take n content)) \<le> available"

text \<open>The reference: try every length from the longest down.\<close>

definition longest_note :: "(msg \<Rightarrow> nat) \<Rightarrow> ustr \<Rightarrow> nat \<Rightarrow> nat \<Rightarrow> msg option" where
  "longest_note sz content available bpt =
     map_option (\<lambda>n. HistoryNote (take n content))
       (List.find (note_fits sz content available bpt) (rev [0..<Suc (length content)]))"

lemma fit_loop_sound:
  assumes "\<And>m. best = Some m \<Longrightarrow> \<exists>n. m = HistoryNote (take n chars) \<and> note_fits sz chars available bpt n"
    and "fit_loop_note sz chars available bpt low high best = Some m"
  shows "\<exists>n. m = HistoryNote (take n chars) \<and> note_fits sz chars available bpt n"
  using assms
proof (induction sz chars available bpt low high best rule: fit_loop_note.induct)
  case (1 sz chars available bpt low high best)
  let ?mid = "low + (high - low) div 2"
  note eq = fit_loop_note.simps[of sz chars available bpt low high best]
  show ?case
  proof (cases "low \<le> high")
    case True
    show ?thesis
    proof (cases "note_fits sz chars available bpt ?mid")
      case fits: True
      have "fit_loop_note sz chars available bpt (?mid + 1) high (Some (HistoryNote (take ?mid chars))) = Some m"
        using "1.prems"(2) True fits by (simp add: eq Let_def note_fits_def)
      then show ?thesis using "1.IH"(1)[OF True refl refl] fits by (auto simp: note_fits_def)
    next
      case False
      then show ?thesis using "1.prems" "1.IH"(2)[OF True refl refl] True
        by (auto simp: eq Let_def note_fits_def split: if_splits)
    qed
  next
    case False
    then show ?thesis using "1.prems" by (simp add: eq)
  qed
qed

lemma fit_loop_longest:
  assumes mono: "\<And>n m. n \<le> m \<Longrightarrow> note_fits sz chars available bpt m \<Longrightarrow> note_fits sz chars available bpt n"
    and "low \<le> high + 1" and "high \<le> length chars"
    and "\<And>n. n < low \<Longrightarrow> note_fits sz chars available bpt n"
    and "\<And>n. high < n \<Longrightarrow> n \<le> length chars \<Longrightarrow> \<not> note_fits sz chars available bpt n"
    and "best = (if low = 0 then None else Some (HistoryNote (take (low - 1) chars)))"
  shows "\<exists>k \<le> Suc (length chars). (\<forall>n < k. note_fits sz chars available bpt n) \<and>
    (\<forall>n. k \<le> n \<and> n \<le> length chars \<longrightarrow> \<not> note_fits sz chars available bpt n) \<and>
    fit_loop_note sz chars available bpt low high best =
      (if k = 0 then None else Some (HistoryNote (take (k - 1) chars)))"
  using assms
proof (induction sz chars available bpt low high best rule: fit_loop_note.induct)
  case (1 sz chars available bpt low high best)
  let ?mid = "low + (high - low) div 2" and ?fits = "note_fits sz chars available bpt"
  note eq = fit_loop_note.simps[of sz chars available bpt low high best]
  show ?case
  proof (cases "low \<le> high")
    case True
    show ?thesis
    proof (cases "?fits ?mid")
      case fits: True
      have "\<exists>k \<le> Suc (length chars). (\<forall>n < k. ?fits n) \<and> (\<forall>n. k \<le> n \<and> n \<le> length chars \<longrightarrow> \<not> ?fits n) \<and>
          fit_loop_note sz chars available bpt (?mid + 1) high (Some (HistoryNote (take ?mid chars))) =
            (if k = 0 then None else Some (HistoryNote (take (k - 1) chars)))"
      proof (rule "1.IH"(1)[OF True refl refl])
        show "estimated_tokens sz bpt (HistoryNote (take ?mid chars)) \<le> available"
          using fits by (simp add: note_fits_def)
        show "?mid + 1 \<le> high + 1" using True by linarith
        show "?fits n" if "n < ?mid + 1" for n using "1.prems"(1)[OF _ fits, of n] that by simp
      qed (use "1.prems" in auto)
      then show ?thesis using True fits by (simp add: eq Let_def note_fits_def)
    next
      case nofit: False
      show ?thesis
      proof (cases "?mid = 0")
        case zero: True
        then have low: "low = 0" by simp
        have none: "\<not> ?fits n" for n using "1.prems"(1)[of 0 n] nofit zero by auto
        have "fit_loop_note sz chars available bpt low high best = best"
          unfolding eq Let_def zero using True nofit[unfolded zero note_fits_def] by simp
        then show ?thesis using none low "1.prems"(6) by (intro exI[of _ 0]) simp
      next
        case False
        have "\<exists>k \<le> Suc (length chars). (\<forall>n < k. ?fits n) \<and> (\<forall>n. k \<le> n \<and> n \<le> length chars \<longrightarrow> \<not> ?fits n) \<and>
            fit_loop_note sz chars available bpt low (?mid - 1) best =
              (if k = 0 then None else Some (HistoryNote (take (k - 1) chars)))"
        proof (rule "1.IH"(2)[OF True refl refl _ False])
          show "\<not> estimated_tokens sz bpt (HistoryNote (take ?mid chars)) \<le> available"
            using nofit by (simp add: note_fits_def)
          show "\<not> ?fits n" if "?mid - 1 < n" for n
            using "1.prems"(1)[of ?mid n] nofit that by linarith
          show "low \<le> ?mid - 1 + 1" using False by linarith
          show "?mid - 1 \<le> length chars" using "1.prems"(3) True by linarith
        qed (use "1.prems" in auto)
        moreover have "fit_loop_note sz chars available bpt low high best =
            fit_loop_note sz chars available bpt low (?mid - 1) best"
          unfolding eq Let_def using True nofit[unfolded note_fits_def] False by (simp only: if_True if_False)
        ultimately show ?thesis by (simp only:)
      qed
    qed
  next
    case False
    then have "low = high + 1" using "1.prems"(2) by linarith
    moreover have "fit_loop_note sz chars available bpt low high best = best"
      unfolding eq using False by (simp only: if_False)
    ultimately show ?thesis using "1.prems"(3-6) by (intro exI[of _ low]) auto
  qed
qed

lemma find_rev_upt:
  assumes "\<forall>n < k. P n" and "\<forall>n. k \<le> n \<and> n \<le> len \<longrightarrow> \<not> P n" and "k \<le> Suc len"
  shows "List.find P (rev [0..<Suc len]) = (if k = 0 then None else Some (k - 1))"
  using assms
proof (induction len)
  case 0
  then show ?case by (cases k) auto
next
  case (Suc len)
  show ?case
  proof (cases "k = Suc (Suc len)")
    case True
    then show ?thesis using Suc.prems(1) by simp
  next
    case False
    then have "\<not> P (Suc len)" using Suc.prems by auto
    then show ?thesis using Suc.IH Suc.prems False by simp
  qed
qed

lemma fit_history_note_longest:
  assumes "\<And>n m. n \<le> m \<Longrightarrow> sz (HistoryNote (take n content)) \<le> sz (HistoryNote (take m content))"
  shows "fit_history_note sz content available bpt = longest_note sz content available bpt"
proof -
  have "estimated_tokens sz bpt (HistoryNote (take n content)) \<le> estimated_tokens sz bpt (HistoryNote (take m content))"
    if "n \<le> m" for n m
    unfolding estimated_tokens_def
    by (intro sat_add_mono div_ceil_mono assms that) simp_all
  then have mono: "\<And>n m. n \<le> m \<Longrightarrow> note_fits sz content available bpt m \<Longrightarrow> note_fits sz content available bpt n"
    unfolding note_fits_def by (meson dual_order.trans)
  have "\<exists>k \<le> Suc (length content). (\<forall>n < k. note_fits sz content available bpt n) \<and>
      (\<forall>n. k \<le> n \<and> n \<le> length content \<longrightarrow> \<not> note_fits sz content available bpt n) \<and>
      fit_loop_note sz content available bpt 0 (length content) None =
        (if k = 0 then None else Some (HistoryNote (take (k - 1) content)))"
    by (rule fit_loop_longest) (use mono in auto)
  then obtain k where "k \<le> Suc (length content)" "\<forall>n < k. note_fits sz content available bpt n"
    "\<forall>n. k \<le> n \<and> n \<le> length content \<longrightarrow> \<not> note_fits sz content available bpt n"
    "fit_loop_note sz content available bpt 0 (length content) None =
      (if k = 0 then None else Some (HistoryNote (take (k - 1) content)))"
    by blast
  then show ?thesis using find_rev_upt[of k "note_fits sz content available bpt" "length content"]
    by (simp add: fit_history_note_def longest_note_def)
qed

section \<open>What is selected\<close>

lemma keep_older_spec:
  assumes "keep_older sz cfg budget gs selected c = (selected', c')" and "c = cost sz cfg (concat selected)"
    and "c \<le> budget" and "budget < usize_max" and "selected \<noteq> []"
  shows "\<exists>pre. rev gs @ selected = pre @ selected' \<and> selected' \<noteq> [] \<and> c' = cost sz cfg (concat selected') \<and>
    c' \<le> budget \<and> (cost sz cfg (concat (rev gs @ selected)) \<le> budget \<longrightarrow> pre = [])"
  using assms
proof (induction sz cfg budget gs selected c rule: keep_older.induct)
  case (2 sz cfg budget g gs selected c)
  show ?case
  proof (cases "sat_add c (cost sz cfg g) > budget")
    case True
    then have "budget < c + cost sz cfg g" using "2.prems"(4) sat_add_gt_iff by blast
    then show ?thesis using "2.prems" True
      by (intro exI[of _ "rev (g # gs)"]) (auto simp: Let_def)
  next
    case False
    then have le: "c + cost sz cfg g \<le> budget" using "2.prems"(4) sat_add_bound by auto
    have "keep_older sz cfg budget gs (g # selected) (c + cost sz cfg g) = (selected', c')"
      using "2.prems"(1) False by (simp add: Let_def)
    from "2.IH"[OF refl False this] show ?thesis using "2.prems"(2,4) le by simp
  qed
qed auto

lemma note_room_spec:
  assumes "note_room sz cfg budget h selected c removed = Inr (nt, kept, c', removed')"
    and "c = cost sz cfg (concat selected)" and "c \<le> budget" and "budget < usize_max"
    and "removed = length (concat pre)"
  shows "\<exists>pre'. pre @ selected = pre' @ kept \<and> kept \<noteq> [] \<and> length pre \<le> length pre' \<and>
    removed' = length (concat pre') \<and>
    c' = cost sz cfg (nt # concat kept) \<and> c' \<le> budget \<and>
    (\<exists>t. nt = HistoryNote t \<and> length t \<le> cc_summary_max_chars cfg)"
  using assms
proof (induction selected arbitrary: pre c removed)
  case (Cons g gs)
  let ?sum = "summarize cfg (take removed h)"
  let ?est = "estimated_tokens sz (cc_bytes_per_token cfg)"
  have short: "length (take n ?sum) \<le> cc_summary_max_chars cfg" for n
    by (auto simp: summarize_def truncate_chars_def)
  have cost_note: "cost sz cfg (m # ms) = ?est m + cost sz cfg ms" for m ms by (simp add: cost_def)
  consider (room) "sat_add c (?est (HistoryNote ?sum)) \<le> budget" "nt = HistoryNote ?sum" "kept = g # gs"
      "c' = c + ?est (HistoryNote ?sum)" "removed' = removed"
    | (cut) "gs = []" "fit_history_note sz ?sum (budget - c) (cc_bytes_per_token cfg) = Some nt" "kept = g # gs"
      "c' = c + ?est nt" "removed' = removed"
    | (drop) "gs \<noteq> []" "note_room sz cfg budget h gs (c - cost sz cfg g) (removed + length g) = Inr (nt, kept, c', removed')"
  proof (cases "sat_add c (?est (HistoryNote ?sum)) \<le> budget")
    case True
    with Cons.prems(1) show ?thesis unfolding note_room.simps Let_def
      by (simp only: if_True sum.inject prod.inject) (rule room, auto)
  next
    case no: False
    show ?thesis
    proof (cases "gs = []")
      case True
      obtain x where x: "fit_history_note sz ?sum (budget - c) (cc_bytes_per_token cfg) = Some x"
        using Cons.prems(1) no True unfolding note_room.simps Let_def
        by (cases "fit_history_note sz ?sum (budget - c) (cc_bytes_per_token cfg)")
           (simp_all only: if_True if_False option.simps sum.distinct simp_thms)
      with Cons.prems(1) no True show ?thesis unfolding note_room.simps Let_def
        by (simp only: if_True if_False option.simps sum.inject prod.inject) (rule cut, auto)
    next
      case False
      with Cons.prems(1) no show ?thesis unfolding note_room.simps Let_def
        by (simp only: if_True if_False) (rule drop, auto)
    qed
  qed
  then show ?case
  proof cases
    case room
    have le: "c' \<le> budget" using sat_add_bound[OF room(1)] Cons.prems(4) room(4) by linarith
    have "length ?sum \<le> cc_summary_max_chars cfg" using short[of "length ?sum"] by simp
    then have "\<exists>t. nt = HistoryNote t \<and> length t \<le> cc_summary_max_chars cfg" using room(2) by blast
    moreover have "c' = cost sz cfg (nt # concat kept)"
      unfolding room(2-4) cost_note Cons.prems(2) by (rule add.commute)
    ultimately show ?thesis using le room(3,5) Cons.prems(5) by blast
  next
    case cut
    have "\<exists>n. nt = HistoryNote (take n ?sum) \<and> note_fits sz ?sum (budget - c) (cc_bytes_per_token cfg) n"
      by (rule fit_loop_sound[OF _ cut(2)[unfolded fit_history_note_def]]) simp
    then obtain n where n: "nt = HistoryNote (take n ?sum)" "?est nt \<le> budget - c"
      by (auto simp: note_fits_def)
    then have le: "c' \<le> budget" using cut(4) Cons.prems(3) by linarith
    have "\<exists>t. nt = HistoryNote t \<and> length t \<le> cc_summary_max_chars cfg" using n(1) short[of n] by blast
    moreover have "c' = cost sz cfg (nt # concat kept)"
      unfolding cut(3,4) cost_note Cons.prems(2) by (rule add.commute)
    ultimately show ?thesis using le cut(3,5) Cons.prems(5) by blast
  next
    case drop
    have "c - cost sz cfg g = cost sz cfg (concat gs)" using Cons.prems(2) by simp
    then have "\<exists>pre'. (pre @ [g]) @ gs = pre' @ kept \<and> kept \<noteq> [] \<and> length (pre @ [g]) \<le> length pre' \<and>
        removed' = length (concat pre') \<and> c' = cost sz cfg (nt # concat kept) \<and> c' \<le> budget \<and>
        (\<exists>t. nt = HistoryNote t \<and> length t \<le> cc_summary_max_chars cfg)"
      using Cons.IH[OF drop(2), of "pre @ [g]"] Cons.prems(3-5) by simp
    then show ?thesis by fastforce
  qed
qed simp

definition static_of :: "context_config \<Rightarrow> nat \<Rightarrow> ustr \<Rightarrow> nat" where
  "static_of cfg tools_bytes prompt =
     sat_add (sat_add (sat_add (string_tokens cfg prompt) (div_ceil tools_bytes (cc_bytes_per_token cfg)))
       (cc_reserve_output_tokens cfg)) (cc_safety_margin_tokens cfg)"

lemma select_spec:
  assumes "h \<noteq> []" and "cc_max_tokens cfg < usize_max" and "select sz cfg tools_bytes h prompt = Inr sel"
  obtains k where "k < length h" "k = 0 \<or> is_user (h ! k)" "cs_removed_messages sel = k"
    "(k = 0 \<and> cs_messages sel = h) \<or>
     (\<exists>t. k > 0 \<and> length t \<le> cc_summary_max_chars cfg \<and> cs_messages sel = HistoryNote t # drop k h)"
    "cs_after_tokens sel = static_of cfg tools_bytes prompt + cost sz cfg (cs_messages sel)"
    "cs_after_tokens sel \<le> cc_max_tokens cfg"
    "static_of cfg tools_bytes prompt + cost sz cfg h \<le> cc_max_tokens cfg \<Longrightarrow> k = 0"
    "last (group_messages h) = drop (length h - length (last (group_messages h))) h"
    "k \<le> length h - length (last (group_messages h))"
proof -
  let ?st = "static_of cfg tools_bytes prompt"
  let ?budget = "cc_max_tokens cfg - ?st"
  let ?gs = "group_messages h"
  let ?new = "last ?gs" and ?old = "butlast ?gs"
  have st: "?st < cc_max_tokens cfg" and new: "cost sz cfg ?new \<le> ?budget"
    using assms by (auto simp: select_def Let_def static_of_def split: if_splits)
  obtain selected c where ko: "keep_older sz cfg ?budget (rev ?old) [?new] (cost sz cfg ?new) = (selected, c)"
    by fastforce
  have gs: "?gs \<noteq> []" by (rule groups_heads(1)[OF assms(1)])
  then have split: "?old @ [?new] = ?gs" by simp
  have small: "?budget < usize_max" using assms(2) by linarith
  obtain pre where pre: "?gs = pre @ selected" "selected \<noteq> []" "c = cost sz cfg (concat selected)" "c \<le> ?budget"
    "cost sz cfg (concat ?gs) \<le> ?budget \<Longrightarrow> pre = []"
    using keep_older_spec[OF ko _ new small] split by auto
  have hc: "h = concat pre @ concat selected" using concat_groups[of h] pre(1) by simp
  have kept: "length h - sum_list (map length selected) = length (concat pre)"
    by (subst hc) (simp add: length_concat)
  have last_suffix: "?new = drop (length h - length ?new) h"
  proof -
    have "h = concat ?old @ ?new" using concat_groups[of h] split by (metis concat.simps(1,2) concat_append append_Nil2)
    then show ?thesis by (metis append_eq_conv_conj diff_add_inverse2 length_append)
  qed
  have ended: "length (concat pre') \<le> length h - length ?new" if "?gs = pre' @ kept'" "kept' \<noteq> []" for pre' kept'
  proof -
    have "?new = last kept'" using that by simp
    then have "length ?new \<le> length (concat kept')"
      using that(2) by (metis concat_append append_butlast_last_id concat.simps length_append append_Nil2 le_add2)
    then show ?thesis using concat_groups[of h] that(1) by (metis concat_append length_append diff_le_mono2 diff_add_inverse2 le_diff_conv2 add_le_cancel_left le_add2 Nat.le_diff_conv2)
  qed
  show ?thesis
  proof (cases "length (concat pre) = 0")
    case True
    have "pre = []" using groups_heads(2)[OF assms(1)] pre(1) True by (cases pre) auto
    then have sel: "sel = \<lparr>cs_messages = h, cs_before_tokens = sat_add ?st (cost sz cfg h),
        cs_after_tokens = sat_add ?st c, cs_removed_messages = 0\<rparr>"
      using assms(1,3) st new ko kept hc by (simp add: select_def Let_def static_of_def split: if_splits)
    have "sat_add ?st c = ?st + c" using pre(4) assms(2) st by (intro sat_add_exact) linarith
    then show ?thesis using that[of 0] sel st pre(3,4) hc \<open>pre = []\<close> assms(1) last_suffix by simp
  next
    case False
    obtain nt kp c' removed where nr: "note_room sz cfg ?budget h selected c (length (concat pre)) = Inr (nt, kp, c', removed)"
      and sel: "cs_messages sel = nt # concat kp" "cs_after_tokens sel = sat_add ?st c'" "cs_removed_messages sel = removed"
      using assms(1,3) st new ko kept False
      by (auto simp: select_def Let_def static_of_def split: if_splits sum.splits)
    obtain pre' t where p: "?gs = pre' @ kp" "kp \<noteq> []" "length pre \<le> length pre'" "removed = length (concat pre')"
      "c' = cost sz cfg (nt # concat kp)" "c' \<le> ?budget" "nt = HistoryNote t" "length t \<le> cc_summary_max_chars cfg"
      using note_room_spec[OF nr pre(3,4) small refl] pre(1) by auto
    have "pre' \<noteq> []" using p(3) False by (cases pre) auto
    note suf = group_suffix[OF assms(1) p(1,2)]
    have "?st + c' \<le> cc_max_tokens cfg" using p(6) st by linarith
    then have "sat_add ?st c' = ?st + c'" using assms(2) by (intro sat_add_exact) linarith
    then have after: "cs_after_tokens sel = ?st + cost sz cfg (cs_messages sel)" using sel p(5) by simp
    have pos: "removed > 0" using p(1,4) \<open>pre' \<noteq> []\<close> groups_heads(2)[OF assms(1)] by (cases pre') auto
    have big: "\<not> cost sz cfg h \<le> ?budget" using pre(5) False concat_groups[of h] by auto
    have whole: "cs_messages sel = HistoryNote t # drop removed h" using sel(1) p(4,7) suf by simp
    show ?thesis
    proof (rule that[of removed])
      show "removed < length h" using suf p(4) by simp
      show "removed = 0 \<or> is_user (h ! removed)" using suf p(4) \<open>pre' \<noteq> []\<close> by simp
      show "cs_removed_messages sel = removed" by (rule sel(3))
      show "(removed = 0 \<and> cs_messages sel = h) \<or>
          (\<exists>t. removed > 0 \<and> length t \<le> cc_summary_max_chars cfg \<and> cs_messages sel = HistoryNote t # drop removed h)"
        using pos p(8) whole by blast
      show "cs_after_tokens sel = ?st + cost sz cfg (cs_messages sel)" by (rule after)
      show "cs_after_tokens sel \<le> cc_max_tokens cfg"
        using after p(5,6) st sel(1) by simp
      show "removed = 0" if "?st + cost sz cfg h \<le> cc_max_tokens cfg" using big that by linarith
      show "?new = drop (length h - length ?new) h" by (rule last_suffix)
      show "removed \<le> length h - length ?new" using ended[OF p(1,2)] p(4) by simp
    qed
  qed
qed

section \<open>The properties of the context policy\<close>

definition sample_config :: context_config where
  "sample_config = \<lparr>cc_max_tokens = 65, cc_reserve_output_tokens = 10, cc_safety_margin_tokens = 5,
     cc_bytes_per_token = 3, cc_summary_max_chars = 4\<rparr>"

fun sample_size :: "msg \<Rightarrow> nat" where
  "sample_size (User c i) = 30 + ulen c"
| "sample_size (Assistant c tcs) = 30 + ulen c"
| "sample_size (ToolResult i n c e) = 60 + ulen c"
| "sample_size (HistoryNote c) = 38 + ulen c"

lemma select_facts:
  assumes "h \<noteq> []" and "cc_max_tokens cfg < usize_max" and "select sz cfg tools_bytes h prompt = Inr sel"
  shows "\<exists>k. cs_removed_messages sel = k \<and> k < length h \<and> (k = 0 \<or> is_user (h ! k)) \<and>
    (cs_messages sel = drop k h \<and> k = 0 \<or>
     (\<exists>t. cs_messages sel = HistoryNote t # drop k h \<and> length t \<le> cc_summary_max_chars cfg)) \<and>
    suffix (last (group_messages h)) (cs_messages sel) \<and>
    cs_after_tokens sel = static_of cfg tools_bytes prompt + cost sz cfg (cs_messages sel) \<and>
    cs_after_tokens sel \<le> cc_max_tokens cfg \<and>
    (static_of cfg tools_bytes prompt + cost sz cfg h \<le> cc_max_tokens cfg \<longrightarrow> cs_messages sel = h)"
proof -
  from assms obtain k where k: "k < length h" "k = 0 \<or> is_user (h ! k)" "cs_removed_messages sel = k"
    "(k = 0 \<and> cs_messages sel = h) \<or>
     (\<exists>t. k > 0 \<and> length t \<le> cc_summary_max_chars cfg \<and> cs_messages sel = HistoryNote t # drop k h)"
    "cs_after_tokens sel = static_of cfg tools_bytes prompt + cost sz cfg (cs_messages sel)"
    "cs_after_tokens sel \<le> cc_max_tokens cfg"
    "static_of cfg tools_bytes prompt + cost sz cfg h \<le> cc_max_tokens cfg \<Longrightarrow> k = 0"
    and new: "last (group_messages h) = drop (length h - length (last (group_messages h))) h"
    "k \<le> length h - length (last (group_messages h))"
    by (rule select_spec) blast
  let ?d = "length h - length (last (group_messages h))"
  have "drop ?d h = drop (?d - k) (drop k h)"
    unfolding drop_drop using new(2) by (simp only: le_add_diff_inverse2)
  then have "suffix (last (group_messages h)) (drop k h)" using new(1) by (metis suffix_drop)
  then have "suffix (last (group_messages h)) (cs_messages sel)" using k(4) by (auto intro: suffix_ConsI)
  then show ?thesis using k by auto
qed

text \<open>
  A request fits the model's window. Whatever the history, a selection's messages with the
  system prompt, the tool schemas, the output reserve and the safety margin are estimated at no more
  than \<open>max_tokens\<close>; the messages are the history, or one note of at most \<open>summary_max_chars\<close>
  characters followed by a suffix of the history that begins at a user message, so no tool result is
  sent without the call it answers; the newest turn is always whole; and nothing is left out when
  everything fits.
\<close>

theorem select_fits_window:
  assumes "h \<noteq> []" and "cc_max_tokens cfg < usize_max" and "select sz cfg tools_bytes h prompt = Inr sel"
  shows "\<exists>k. cs_removed_messages sel = k \<and> k < length h \<and> (k = 0 \<or> is_user (h ! k)) \<and>
    (cs_messages sel = drop k h \<and> k = 0 \<or>
     (\<exists>t. cs_messages sel = HistoryNote t # drop k h \<and> length t \<le> cc_summary_max_chars cfg)) \<and>
    suffix (last (group_messages h)) (cs_messages sel) \<and>
    cs_after_tokens sel = static_of cfg tools_bytes prompt + cost sz cfg (cs_messages sel) \<and>
    cs_after_tokens sel \<le> cc_max_tokens cfg \<and>
    (static_of cfg tools_bytes prompt + cost sz cfg h \<le> cc_max_tokens cfg \<longrightarrow> cs_messages sel = h)"
  by (rule select_facts[OF assms])

lemma note_loop_keeps: "\<exists>more. note_loop tail n nt ms = nt @ more"
  by (induction tail n nt ms rule: note_loop.induct) (auto simp: Let_def)

lemma sample_summary: "summarize sample_config ms = lit ''[SCV''"
proof -
  obtain more where "note_loop 240 4 (lit (''[SCV compacted '' @ show_nat (length ms) @
      '' earlier messages. Bounded extracts follow.]'') @ [10]) ms =
    (lit (''[SCV compacted '' @ show_nat (length ms) @ '' earlier messages. Bounded extracts follow.]'') @ [10]) @ more"
    using note_loop_keeps by blast
  then show ?thesis by (simp add: summarize_def sample_config_def truncate_chars_def lit_def)
qed

lemma sample_groups:
  "group_messages sample_history =
    [[User (lit ''first'') [], Assistant (lit ''one'') []], [User (lit ''second'') [], Assistant (lit ''two'') []],
     [User (lit ''third'') []]]"
  by (simp add: group_messages_def sample_history_def)

lemma sample_ulen: "ulen (lit ''first'') = 5" "ulen (lit ''one'') = 3" "ulen (lit ''second'') = 6"
  "ulen (lit ''two'') = 3" "ulen (lit ''third'') = 5" "ulen (lit ''[SCV'') = 4"
  by (simp_all add: lit_def of_char_def utf8_len_def)

lemma sample_costs:
  "estimated_tokens sample_size 3 (User (lit ''first'') []) = 16"
  "estimated_tokens sample_size 3 (Assistant (lit ''one'') []) = 15"
  "estimated_tokens sample_size 3 (User (lit ''second'') []) = 16"
  "estimated_tokens sample_size 3 (Assistant (lit ''two'') []) = 15"
  "estimated_tokens sample_size 3 (User (lit ''third'') []) = 16"
  "estimated_tokens sample_size 3 (HistoryNote (lit ''[SCV'')) = 18"
  by (simp_all add: estimated_tokens_def sample_ulen div_ceil_def sat_add_def sat_mul_def usize_max_def)

lemma sample_select:
  "select sample_size sample_config 0 sample_history [] =
     Inr \<lparr>cs_messages = [HistoryNote (lit ''[SCV''), User (lit ''third'') []],
          cs_before_tokens = 93, cs_after_tokens = 49, cs_removed_messages = 4\<rparr>"
proof -
  have cfg: "cc_max_tokens sample_config = 65" "cc_reserve_output_tokens sample_config = 10"
    "cc_safety_margin_tokens sample_config = 5" "cc_bytes_per_token sample_config = 3"
    by (simp_all add: sample_config_def)
  have len: "length sample_history = 5" by (simp add: sample_history_def)
  have ne: "sample_history \<noteq> []" by (simp add: sample_history_def)
  have all: "cost sample_size sample_config sample_history = 78"
    by (simp add: cost_def cfg sample_costs sample_history_def)
  show ?thesis
    using all by (simp add: select_def ne cfg len Let_def string_tokens_def div_ceil_def
        sat_add_def usize_max_def sample_groups cost_def sample_costs sample_summary)
qed

theorem select_fits_window_witness:
  "\<exists>sel. select sample_size sample_config 0 sample_history [] = Inr sel \<and>
     cs_after_tokens sel \<le> 65 \<and> cs_removed_messages sel = 4"
proof -
  have "sample_history \<noteq> []" "cc_max_tokens sample_config < usize_max"
    by (simp_all add: sample_history_def sample_config_def usize_max_def)
  from select_fits_window[OF this sample_select] show ?thesis
    using sample_select by (auto simp: sample_config_def)
qed

text \<open>
  Cutting the note by binary search is exact: for a serializer under which a longer prefix of a
  note is not shorter, \<open>fit_history_note\<close> gives the note that trying every length from the longest
  down gives, and none exactly if not even the empty note fits.
\<close>

theorem fit_history_note_exact:
  assumes "\<And>n m. n \<le> m \<Longrightarrow> sz (HistoryNote (take n content)) \<le> sz (HistoryNote (take m content))"
  shows "fit_history_note sz content available bpt =
    map_option (\<lambda>n. HistoryNote (take n content))
      (List.find (\<lambda>n. estimated_tokens sz bpt (HistoryNote (take n content)) \<le> available)
        (rev [0..<Suc (length content)]))"
  using fit_history_note_longest[of sz content available bpt, OF assms] by (simp add: longest_note_def note_fits_def[abs_def])

theorem fit_history_note_exact_witness:
  "fit_history_note sample_size (lit ''[SCV compacted'') 20 3 =
    map_option (\<lambda>n. HistoryNote (take n (lit ''[SCV compacted'')))
      (List.find (\<lambda>n. estimated_tokens sample_size 3 (HistoryNote (take n (lit ''[SCV compacted''))) \<le> 20)
        (rev [0..<Suc (length (lit ''[SCV compacted''))]))"
  by (rule fit_history_note_exact) (simp add: ulen_take_mono)

end
