(* ===== verification/Core_Runtime.thy ===== *)
theory Core_Runtime
  imports Core_Context "HOL-Library.List_Lexorder" "HOL-Library.Char_ord"
begin

text \<open>
  One user turn of the agent: \<open>runtime.rs\<close> of scv-core with the traits it calls (\<open>provider.rs\<close>,
  \<open>tool.rs\<close>, \<open>approval.rs\<close>, \<open>event.rs\<close>).

  What the turn talks to (the model, the tools, the approval gate, the event sink, the
  cancellation token) is a function on a state \<open>'w\<close> of the world outside, which every call may
  change in any way; so a cancellation may come between any two steps. A turn is a function of the
  history and the world, and returns a result with the history and the world after it. A tool's run
  is an \<open>execution\<close>: the ticks at which its progress is forwarded, and its result.
\<close>

section \<open>Tools\<close>

datatype tool_risk = ReadOnly | Filesystem | Process | Delegate | Network

fun risk_str :: "tool_risk \<Rightarrow> string" where
  "risk_str ReadOnly = ''read_only''"
| "risk_str Filesystem = ''filesystem''"
| "risk_str Process = ''process''"
| "risk_str Delegate = ''delegate''"
| "risk_str Network = ''network''"

definition risk_parse :: "string \<Rightarrow> tool_risk option" where
  "risk_parse v = List.find (\<lambda>r. risk_str r = v) [ReadOnly, Filesystem, Process, Delegate, Network]"

record tool_spec =
  ts_name :: string
  ts_description :: string
  ts_parameters :: string

record tool_error =
  te_kind :: tool_failure
  te_message :: ustr

definition success :: "ustr \<Rightarrow> tool_output" where
  "success c = \<lparr>to_content = c, to_failure = None, to_truncated = False\<rparr>"

definition failed :: "tool_failure \<Rightarrow> ustr \<Rightarrow> tool_output" where
  "failed f c = \<lparr>to_content = c, to_failure = Some f, to_truncated = False\<rparr>"

definition is_error :: "tool_output \<Rightarrow> bool" where
  "is_error out \<longleftrightarrow> to_failure out \<noteq> None"

definition output_of_error :: "tool_error \<Rightarrow> tool_output" where
  "output_of_error e = failed (te_kind e) (te_message e)"

record tool_context =
  tx_call_id :: string
  tx_workspace :: string
  tx_background_job :: bool
  tx_job :: "string option"

text \<open>
  \<open>Tick w text k\<close>: the run has brought the world to \<open>w\<close> when the ticker fires with \<open>text\<close>
  pending, and goes on as \<open>k\<close> from the world after the tick. \<open>Finished w r paced text\<close>: it ends
  with \<open>r\<close>, \<open>text\<close> pending, the last event at least an interval ago if \<open>paced\<close>.
\<close>

datatype 'w execution =
    Finished 'w "tool_error + tool_output" bool "ustr option"
  | Tick 'w "ustr option" "'w \<Rightarrow> 'w execution"

record 'w tool =
  t_spec :: tool_spec
  t_risk :: "string \<Rightarrow> tool_error + tool_risk"
  t_summary :: "string \<Rightarrow> tool_error + ustr"
  t_command :: "string \<Rightarrow> ustr option"
  t_execute :: "string \<Rightarrow> tool_context \<Rightarrow> 'w \<Rightarrow> 'w execution"

text \<open>The registry is a \<open>HashMap\<close> by name: an association list in no particular order.\<close>

type_synonym 'w tool_registry = "(string \<times> 'w tool) list"

definition register :: "'w tool_registry \<Rightarrow> 'w tool \<Rightarrow> tool_error + 'w tool_registry" where
  "register tools t =
     (let name = ts_name (t_spec t)
      in if map_of tools name \<noteq> None
         then Inl \<lparr>te_kind = Failed, te_message = lit (''duplicate tool name: '' @ name)\<rparr>
         else Inr ((name, t) # tools))"

definition get_tool :: "'w tool_registry \<Rightarrow> string \<Rightarrow> 'w tool option" where
  "get_tool tools name = map_of tools name"

definition specs :: "'w tool_registry \<Rightarrow> tool_spec list" where
  "specs tools = sort_key ts_name (map (\<lambda>(n, t). t_spec t) tools)"

section \<open>The model and the approval gate\<close>

record usage =
  input_tokens :: "nat option"
  output_tokens :: "nat option"

fun add_optional :: "nat option \<Rightarrow> nat option \<Rightarrow> nat option" where
  "add_optional None None = None"
| "add_optional l r = Some (sat_add (case l of Some a \<Rightarrow> a | None \<Rightarrow> 0) (case r of Some b \<Rightarrow> b | None \<Rightarrow> 0))"

definition no_usage :: usage where
  "no_usage = \<lparr>input_tokens = None, output_tokens = None\<rparr>"

definition usage_add :: "usage \<Rightarrow> usage \<Rightarrow> usage" where
  "usage_add u v =
     \<lparr>input_tokens = add_optional (input_tokens u) (input_tokens v),
      output_tokens = add_optional (output_tokens u) (output_tokens v)\<rparr>"

record provider_request =
  pr_system_prompt :: ustr
  pr_messages :: "msg list"
  pr_tools :: "tool_spec list"

record assistant_response =
  as_content :: ustr
  as_tool_calls :: "tool_call list"
  as_usage :: usage

datatype provider_error_kind = PeProvider | PeResponseLimit | PeToolLimit | PeCancelled

record provider_error =
  pe_kind :: provider_error_kind
  pe_message :: string

definition map_provider_error :: "provider_error \<Rightarrow> agent_error" where
  "map_provider_error e =
     (case pe_kind e of
        PeProvider \<Rightarrow> ProviderFailed (pe_message e)
      | PeResponseLimit \<Rightarrow> ResponseLimit (pe_message e)
      | PeToolLimit \<Rightarrow> ToolLimit (pe_message e)
      | PeCancelled \<Rightarrow> Cancelled)"

fun error_text :: "agent_error \<Rightarrow> string" where
  "error_text Cancelled = ''turn cancelled''"
| "error_text StepLimit = ''agent reached its maximum step count''"
| "error_text (ProviderFailed m) = m"
| "error_text (ContextLimit m) = m"
| "error_text (HistoryLimit m) = m"
| "error_text (ResponseLimit m) = m"
| "error_text (ToolLimit m) = m"
| "error_text (Internal m) = m"

text \<open>What a refused delta tells the provider: \<open>ForwardDeltas::push\<close>.\<close>

fun delta_error :: "agent_error \<Rightarrow> provider_error" where
  "delta_error Cancelled = \<lparr>pe_kind = PeCancelled, pe_message = ''turn cancelled''\<rparr>"
| "delta_error (ResponseLimit m) = \<lparr>pe_kind = PeResponseLimit, pe_message = m\<rparr>"
| "delta_error (ToolLimit m) = \<lparr>pe_kind = PeToolLimit, pe_message = m\<rparr>"
| "delta_error e = \<lparr>pe_kind = PeProvider, pe_message = error_text e\<rparr>"

definition push_delta ::
  "(core_event \<Rightarrow> 'w \<Rightarrow> (agent_error + unit) \<times> 'w) \<Rightarrow> ustr \<Rightarrow> 'w \<Rightarrow> (provider_error + unit) \<times> 'w" where
  "push_delta send delta w =
     (case send (AssistantDelta delta) w of
        (Inl e, w') \<Rightarrow> (Inl (delta_error e), w')
      | (Inr u, w') \<Rightarrow> (Inr u, w'))"

record approval_request =
  aq_call_id :: string
  aq_name :: string
  aq_risk :: tool_risk
  aq_cwd :: string
  aq_summary :: ustr
  aq_command :: "ustr option"

text \<open>
  \<open>ToolApprovals\<close>: what a running tool asks on a nested agent's behalf. \<open>in_time\<close> says whether the
  gate answers before the deadline, \<open>withdraw\<close> is what it does in the second it then gets.
\<close>

type_synonym 'w gate = "approval_request \<Rightarrow> 'w \<Rightarrow> (agent_error + bool) \<times> 'w"

record 'w tool_approvals =
  ta_gate :: "'w gate option"
  ta_call_id :: string

definition relay_request ::
  "'w tool_approvals \<Rightarrow> string \<Rightarrow> tool_risk \<Rightarrow> string \<Rightarrow> ustr \<Rightarrow> ustr option \<Rightarrow> 'w \<Rightarrow> (agent_error + bool) \<times> 'w" where
  "relay_request ta name risk cwd summary command w =
     (case ta_gate ta of
        None \<Rightarrow> (Inr False, w)
      | Some g \<Rightarrow> g \<lparr>aq_call_id = ta_call_id ta, aq_name = name, aq_risk = risk, aq_cwd = cwd,
                     aq_summary = summary, aq_command = command\<rparr> w)"

definition relay_request_until ::
  "('w \<Rightarrow> nat \<Rightarrow> bool) \<Rightarrow> ('w \<Rightarrow> 'w) \<Rightarrow> 'w tool_approvals \<Rightarrow> string \<Rightarrow> tool_risk \<Rightarrow> string \<Rightarrow> ustr \<Rightarrow>
     ustr option \<Rightarrow> nat option \<Rightarrow> 'w \<Rightarrow> (agent_error + bool) \<times> 'w" where
  "relay_request_until in_time withdraw ta name risk cwd summary command deadline w =
     (case deadline of
        None \<Rightarrow> relay_request ta name risk cwd summary command w
      | Some d \<Rightarrow>
          if in_time w d then relay_request ta name risk cwd summary command w
          else (Inl (ToolLimit ''the approval wait timed out''), withdraw w))"

section \<open>The runtime\<close>

record agent_config =
  ac_system_prompt :: ustr
  ac_max_steps :: nat
  ac_history_limits :: history_limits

record turn_outcome =
  tu_steps :: nat
  tu_usage :: usage

record 'w agent_runtime =
  ar_complete :: "provider_request \<Rightarrow> 'w \<Rightarrow> (provider_error + assistant_response) \<times> 'w"
  ar_tools :: "'w tool_registry"
  ar_select :: "msg list \<Rightarrow> ustr \<Rightarrow> tool_spec list \<Rightarrow> string + context_selection"
  ar_config :: agent_config
  ar_workspace :: string
  ar_history_bytes :: "msg list \<Rightarrow> nat"

record 'w turn_ports =
  tp_emit :: "core_event \<Rightarrow> 'w \<Rightarrow> (agent_error + unit) \<times> 'w"
  tp_approve :: "'w gate"
  tp_cancelled :: "'w \<Rightarrow> bool \<times> 'w"

type_synonym ('w, 'a) turn = "msg list \<Rightarrow> 'w \<Rightarrow> (agent_error + 'a) \<times> msg list \<times> 'w"

definition seq :: "('w, 'a) turn \<Rightarrow> ('a \<Rightarrow> ('w, 'b) turn) \<Rightarrow> ('w, 'b) turn" where
  "seq m k h w = (case m h w of (Inl e, h', w') \<Rightarrow> (Inl e, h', w') | (Inr a, h', w') \<Rightarrow> k a h' w')"

definition ret :: "'a \<Rightarrow> ('w, 'a) turn" where
  "ret a h w = (Inr a, h, w)"

definition fail :: "agent_error \<Rightarrow> ('w, 'a) turn" where
  "fail e h w = (Inl e, h, w)"

definition push :: "msg \<Rightarrow> ('w, unit) turn" where
  "push m h w = (Inr (), h @ [m], w)"

definition emit :: "'w turn_ports \<Rightarrow> core_event \<Rightarrow> ('w, unit) turn" where
  "emit ports ev h w = (case tp_emit ports ev w of (r, w') \<Rightarrow> (r, h, w'))"

definition check_cancelled :: "'w turn_ports \<Rightarrow> ('w, unit) turn" where
  "check_cancelled ports h w =
     (case tp_cancelled ports w of (c, w') \<Rightarrow> (if c then Inl Cancelled else Inr (), h, w'))"

text \<open>On a history it cannot reduce, \<open>enforce_limits\<close> leaves what it trimmed so far; the turn fails
  and the history is put back, so the model leaves the history as it was.\<close>

definition enforce_history_limits :: "'w agent_runtime \<Rightarrow> 'w turn_ports \<Rightarrow> ('w, unit) turn" where
  "enforce_history_limits rt ports h w =
     (case enforce_limits (ar_history_bytes rt) (ac_history_limits (ar_config rt)) h of
        Inl e \<Rightarrow> (Inl e, h, w)
      | Inr (h', None) \<Rightarrow> (Inr (), h', w)
      | Inr (h', Some ev) \<Rightarrow> emit ports ev h' w)"

primrec forward_progress ::
  "(core_event \<Rightarrow> 'w \<Rightarrow> (agent_error + unit) \<times> 'w) \<Rightarrow> string \<Rightarrow> 'w execution \<Rightarrow> bool \<Rightarrow> bool \<Rightarrow>
     (tool_error + tool_output) \<times> 'w" where
  "forward_progress send call_id (Finished w r paced text) forwarding sent =
     (if forwarding \<and> (\<not> sent \<or> paced)
      then (case text of
              Some t \<Rightarrow> (r, snd (send (ToolProgress call_id t) w))
            | None \<Rightarrow> (r, w))
      else (r, w))"
| "forward_progress send call_id (Tick w text k) forwarding sent =
     (if forwarding
      then (case text of
              Some t \<Rightarrow>
                forward_progress send call_id (k (snd (send (ToolProgress call_id t) w)))
                  (fst (send (ToolProgress call_id t) w) = Inr ()) True
            | None \<Rightarrow> forward_progress send call_id (k w) True sent)
      else forward_progress send call_id (k w) False sent)"

definition record_tool_error :: "'w turn_ports \<Rightarrow> tool_call \<Rightarrow> tool_error \<Rightarrow> ('w, unit) turn" where
  "record_tool_error ports call e =
     (let output = output_of_error e
      in seq (emit ports (ToolCompleted (tc_id call) (tc_name call) output)) (\<lambda>_.
         push (ToolResult (tc_id call) (tc_name call) (to_content output) True)))"

definition DENIED :: ustr where
  "DENIED = lit ''tool call denied by policy or user''"

definition execute_tool ::
  "'w agent_runtime \<Rightarrow> 'w turn_ports \<Rightarrow> 'w tool \<Rightarrow> tool_call \<Rightarrow> ('w, tool_output) turn" where
  "execute_tool rt ports tool call h w =
     (case forward_progress (tp_emit ports) (tc_id call)
             (t_execute tool (tc_arguments call)
                \<lparr>tx_call_id = tc_id call, tx_workspace = ar_workspace rt, tx_background_job = False, tx_job = None\<rparr> w)
             True False of
        (r, w') \<Rightarrow> (Inr (case r of Inl e \<Rightarrow> output_of_error e | Inr out \<Rightarrow> out), h, w'))"

definition ask_approval ::
  "'w agent_runtime \<Rightarrow> 'w turn_ports \<Rightarrow> 'w tool \<Rightarrow> tool_call \<Rightarrow> tool_risk \<Rightarrow> ustr \<Rightarrow> ('w, bool) turn" where
  "ask_approval rt ports tool call risk summary h w =
     (case tp_approve ports
             \<lparr>aq_call_id = tc_id call, aq_name = tc_name call, aq_risk = risk, aq_cwd = ar_workspace rt,
              aq_summary = summary, aq_command = t_command tool (tc_arguments call)\<rparr> w of
        (r, w') \<Rightarrow> (r, h, w'))"

text \<open>The call once its tool has named the risk and the summary.\<close>

definition decided_call ::
  "'w agent_runtime \<Rightarrow> 'w turn_ports \<Rightarrow> 'w tool \<Rightarrow> tool_call \<Rightarrow> tool_risk \<Rightarrow> ustr \<Rightarrow> ('w, unit) turn" where
  "decided_call rt ports tool call risk summary =
     seq (ask_approval rt ports tool call risk summary) (\<lambda>approved.
     seq (if approved
          then seq (emit ports (ToolStarted (tc_id call) (tc_name call))) (\<lambda>_. execute_tool rt ports tool call)
          else ret (failed Denied DENIED)) (\<lambda>output.
     seq (emit ports (ToolCompleted (tc_id call) (tc_name call) output)) (\<lambda>_.
     push (ToolResult (tc_id call) (tc_name call) (to_content output) (is_error output)))))"

definition run_call :: "'w agent_runtime \<Rightarrow> 'w turn_ports \<Rightarrow> tool_call \<Rightarrow> ('w, unit) turn" where
  "run_call rt ports call =
     seq (check_cancelled ports) (\<lambda>_.
     seq (emit ports (ToolProposed (tc_id call) (tc_name call) (tc_arguments call))) (\<lambda>_.
     seq (case get_tool (ar_tools rt) (tc_name call) of
            None \<Rightarrow> record_tool_error ports call
                      \<lparr>te_kind = UnknownTool, te_message = lit ''unknown tool: '' @ lit (tc_name call)\<rparr>
          | Some tool \<Rightarrow>
              (case t_risk tool (tc_arguments call) of
                 Inl e \<Rightarrow> record_tool_error ports call e
               | Inr risk \<Rightarrow>
                   (case t_summary tool (tc_arguments call) of
                      Inl e \<Rightarrow> record_tool_error ports call e
                    | Inr summary \<Rightarrow> decided_call rt ports tool call risk summary)))
       (\<lambda>_. enforce_history_limits rt ports)))"

fun run_calls :: "'w agent_runtime \<Rightarrow> 'w turn_ports \<Rightarrow> tool_call list \<Rightarrow> ('w, unit) turn" where
  "run_calls rt ports [] = ret ()"
| "run_calls rt ports (c # cs) = seq (run_call rt ports c) (\<lambda>_. run_calls rt ports cs)"

definition select_context :: "'w agent_runtime \<Rightarrow> ('w, context_selection) turn" where
  "select_context rt h w =
     (case ar_select rt h (ac_system_prompt (ar_config rt)) (specs (ar_tools rt)) of
        Inl m \<Rightarrow> (Inl (ContextLimit m), h, w)
      | Inr sel \<Rightarrow> (Inr sel, h, w))"

definition complete :: "'w agent_runtime \<Rightarrow> msg list \<Rightarrow> ('w, assistant_response) turn" where
  "complete rt messages h w =
     (case ar_complete rt
             \<lparr>pr_system_prompt = ac_system_prompt (ar_config rt), pr_messages = messages,
              pr_tools = specs (ar_tools rt)\<rparr> w of
        (Inl e, w') \<Rightarrow> (Inl (map_provider_error e), h, w')
      | (Inr resp, w') \<Rightarrow> (Inr resp, h, w'))"

text \<open>One model request, up to the answer's place in the history.\<close>

definition ask_model :: "'w agent_runtime \<Rightarrow> 'w turn_ports \<Rightarrow> ('w, assistant_response) turn" where
  "ask_model rt ports =
     seq (check_cancelled ports) (\<lambda>_.
     seq (select_context rt) (\<lambda>selection.
     seq (if cs_removed_messages selection > 0
          then emit ports (ContextCompacted (cs_before_tokens selection) (cs_after_tokens selection)
                 (cs_removed_messages selection))
          else ret ()) (\<lambda>_.
     seq (complete rt (cs_messages selection)) (\<lambda>response.
     seq (emit ports (AssistantCompleted (as_content response))) (\<lambda>_.
     seq (push (Assistant (as_content response) (as_tool_calls response))) (\<lambda>_.
     seq (enforce_history_limits rt ports) (\<lambda>_. ret response)))))))"

text \<open>The loop over the steps; the third argument counts the steps left.\<close>

fun step_loop :: "'w agent_runtime \<Rightarrow> 'w turn_ports \<Rightarrow> nat \<Rightarrow> nat \<Rightarrow> usage \<Rightarrow> ('w, turn_outcome) turn" where
  "step_loop rt ports 0 step use = fail StepLimit"
| "step_loop rt ports (Suc n) step use =
     seq (ask_model rt ports) (\<lambda>response.
     let use' = usage_add use (as_usage response)
     in if as_tool_calls response = [] then ret \<lparr>tu_steps = step, tu_usage = use'\<rparr>
        else seq (run_calls rt ports (as_tool_calls response)) (\<lambda>_. step_loop rt ports n (step + 1) use'))"

definition run_turn_inner :: "'w agent_runtime \<Rightarrow> 'w turn_ports \<Rightarrow> turn_input \<Rightarrow> ('w, turn_outcome) turn" where
  "run_turn_inner rt ports prompt =
     seq (check_cancelled ports) (\<lambda>_.
     seq (push (User (ti_text prompt) (ti_images prompt))) (\<lambda>_.
     seq (enforce_history_limits rt ports) (\<lambda>_.
     step_loop rt ports (ac_max_steps (ar_config rt)) 1 no_usage)))"

definition run_turn :: "'w agent_runtime \<Rightarrow> 'w turn_ports \<Rightarrow> turn_input \<Rightarrow> ('w, turn_outcome) turn" where
  "run_turn rt ports prompt h w =
     (case run_turn_inner rt ports prompt h w of
        (Inl e, h', w') \<Rightarrow> (Inl e, h, w')
      | (Inr out, h', w') \<Rightarrow> (Inr out, h', w'))"

end
