(* ===== verification/Core_Turn.thy ===== *)
theory Core_Turn
  imports Core_Runtime
begin

text \<open>
  What a turn of \<open>Core_Runtime\<close> guarantees: contracts of its pieces (\<open>ensures\<close>), the shape of the
  history it leaves, and the trace of what it does, for whatever world it runs in.
\<close>

section \<open>Contracts\<close>

text \<open>
  A contract for a turn: from a history and a world with \<open>P\<close>, it returns \<open>a\<close> with \<open>Q a\<close> or
  fails with \<open>E\<close>. Turns are total functions, so the contract says also that they end.
\<close>

definition ensures ::
  "(msg list \<Rightarrow> 'w \<Rightarrow> bool) \<Rightarrow> ('w, 'a) turn \<Rightarrow> ('a \<Rightarrow> msg list \<Rightarrow> 'w \<Rightarrow> bool) \<Rightarrow> (agent_error \<Rightarrow> 'w \<Rightarrow> bool) \<Rightarrow> bool" where
  "ensures P m Q E \<longleftrightarrow> (\<forall>h w. P h w \<longrightarrow>
     (case m h w of (Inl e, h', w') \<Rightarrow> E e w' | (Inr a, h', w') \<Rightarrow> Q a h' w'))"

lemma ensuresI:
  "(\<And>h w. P h w \<Longrightarrow> case m h w of (Inl e, h', w') \<Rightarrow> E e w' | (Inr a, h', w') \<Rightarrow> Q a h' w') \<Longrightarrow> ensures P m Q E"
  by (simp add: ensures_def)

lemma ensuresE:
  assumes "ensures P m Q E" "P h w"
  obtains (failure) e h' w' where "m h w = (Inl e, h', w')" "E e w'"
    | (result) a h' w' where "m h w = (Inr a, h', w')" "Q a h' w'"
proof -
  obtain r h' w' where r: "m h w = (r, h', w')" by (cases "m h w")
  have "case m h w of (Inl e, h', w') \<Rightarrow> E e w' | (Inr a, h', w') \<Rightarrow> Q a h' w'"
    by (rule assms(1)[unfolded ensures_def, rule_format, OF assms(2)])
  then show ?thesis using r that by (cases r) simp_all
qed

lemma ensures_seq:
  assumes "ensures P m R E" and "\<And>a. ensures (R a) (k a) Q E"
  shows "ensures P (seq m k) Q E"
proof (rule ensuresI)
  fix h w assume "P h w"
  with assms(1) show "case seq m k h w of (Inl e, h', w') \<Rightarrow> E e w' | (Inr a, h', w') \<Rightarrow> Q a h' w'"
  proof (cases rule: ensuresE)
    case (failure e h' w')
    then show ?thesis by (simp add: seq_def)
  next
    case (result a h' w')
    from assms(2) result(2) show ?thesis
      by (cases rule: ensuresE) (simp_all add: seq_def result(1))
  qed
qed

lemma ensures_pre: "ensures P m Q E \<Longrightarrow> (\<And>h w. P' h w \<Longrightarrow> P h w) \<Longrightarrow> ensures P' m Q E"
  by (simp add: ensures_def)

lemma ensures_post:
  assumes "ensures P m Q E" and "\<And>a h w. Q a h w \<Longrightarrow> Q' a h w"
  shows "ensures P m Q' E"
proof (rule ensuresI)
  fix h w assume "P h w"
  with assms(1) show "case m h w of (Inl e, h', w') \<Rightarrow> E e w' | (Inr a, h', w') \<Rightarrow> Q' a h' w'"
    by (cases rule: ensuresE) (simp_all add: assms(2))
qed

lemma ensures_ex: "(\<And>x. ensures (\<lambda>h w. P x h w) m Q E) \<Longrightarrow> ensures (\<lambda>h w. \<exists>x. P x h w) m Q E"
proof (rule ensuresI)
  fix h w
  assume each: "\<And>x. ensures (\<lambda>h w. P x h w) m Q E" and "\<exists>x. P x h w"
  then obtain x where "P x h w" by blast
  with each[of x] show "case m h w of (Inl e, h', w') \<Rightarrow> E e w' | (Inr a, h', w') \<Rightarrow> Q a h' w'"
    by (cases rule: ensuresE) simp_all
qed

lemma ensures_ret: "ensures (Q a) (ret a) Q E"
  by (simp add: ensures_def ret_def)

lemma ensures_fail: "ensures (\<lambda>h w. E e w) (fail e) Q E"
  by (simp add: ensures_def fail_def)

lemma ensures_push: "ensures (\<lambda>h w. Q () (h @ [m]) w) (push m) Q E"
  by (simp add: ensures_def push_def)

lemma ensures_if:
  "(b \<Longrightarrow> ensures P m Q E) \<Longrightarrow> (\<not> b \<Longrightarrow> ensures P m' Q E) \<Longrightarrow> ensures P (if b then m else m') Q E"
  by simp

section \<open>The history of a turn\<close>

text \<open>
  \<open>rounds n ms\<close>: \<open>ms\<close> is \<open>n\<close> answers with tool calls, each followed by one result per call, in
  order. \<open>in_turn h0 u ms h\<close>: \<open>h\<close> is \<open>h0\<close>, the user's message \<open>u\<close> and \<open>ms\<close>, with whole earlier
  turns trimmed at most.
\<close>

definition answered :: "tool_call list \<Rightarrow> msg list \<Rightarrow> bool" where
  "answered calls rs \<longleftrightarrow>
     list_all2 (\<lambda>c m. \<exists>t e. m = ToolResult (tc_id c) (tc_name c) t e) calls rs"

inductive rounds :: "nat \<Rightarrow> msg list \<Rightarrow> bool" where
  start: "rounds 0 []"
| round: "rounds n ms \<Longrightarrow> calls \<noteq> [] \<Longrightarrow> answered calls rs \<Longrightarrow> rounds (Suc n) (ms @ Assistant c calls # rs)"

inductive_cases roundsE: "rounds n ms"

definition plain :: "msg list \<Rightarrow> bool" where
  "plain ms \<longleftrightarrow> (\<forall>m \<in> set ms. \<not> is_user m \<and> \<not> is_note m)"

definition in_turn :: "msg list \<Rightarrow> msg \<Rightarrow> msg list \<Rightarrow> msg list \<Rightarrow> bool" where
  "in_turn h0 u ms h \<longleftrightarrow> is_user u \<and> plain ms \<and> trimmed (h0 @ u # ms) h \<and> canonical h"

definition within :: "'w agent_runtime \<Rightarrow> msg list \<Rightarrow> bool" where
  "within rt h \<longleftrightarrow> \<not> over_limit (ar_history_bytes rt) (ac_history_limits (ar_config rt)) h"

lemma plain_simps [simp]:
  "plain []" "plain (a @ b) \<longleftrightarrow> plain a \<and> plain b" "plain (m # a) \<longleftrightarrow> \<not> is_user m \<and> \<not> is_note m \<and> plain a"
  by (auto simp: plain_def)

lemma trimmed_trans:
  assumes "has_user h" "trimmed h h1" "trimmed h1 h2"
  shows "trimmed h h2"
  using assms(2) trimmed_after[OF assms(1)] assms(3) unfolding trimmed_def[of h h1] by blast

lemma latest_user_turn:
  assumes "is_user u" "plain ms"
  shows "has_user (h0 @ u # ms)" "latest_user (h0 @ u # ms) = length h0"
proof -
  show "has_user (h0 @ u # ms)" using assms by (auto simp: has_user_def)
  have "\<not> is_user ((h0 @ u # ms) ! j)" if "length h0 < j" "j < length (h0 @ u # ms)" for j
  proof -
    have "(h0 @ u # ms) ! j = ms ! (j - Suc (length h0))" using that(1) by (simp add: nth_append nth_Cons')
    moreover have "j - Suc (length h0) < length ms" using that by simp
    ultimately show ?thesis using assms(2) by (simp add: plain_def)
  qed
  then show "latest_user (h0 @ u # ms) = length h0"
    using assms(1) by (intro latest_user_eqI) auto
qed

lemma trimmed_snoc:
  assumes "is_user u" "plain ms" "trimmed (h0 @ u # ms) h" "plain [m]"
  shows "trimmed (h0 @ u # ms @ [m]) (h @ [m])"
proof -
  have "plain (ms @ [m])" using assms(2,4) by simp
  note old = latest_user_turn(2)[OF assms(1,2), of h0] and new = latest_user_turn(2)[OF assms(1) this, of h0]
  show ?thesis
  proof (cases "h = h0 @ u # ms")
    case True
    then show ?thesis by (simp add: trimmed_def)
  next
    case False
    then obtain k where k: "k \<le> length h0" "is_user ((h0 @ u # ms) ! k)"
      "h = drop k (h0 @ u # ms) \<or> (\<exists>c. h = HistoryNote c # drop k (h0 @ u # ms))"
      using assms(3) old by (auto simp: trimmed_def)
    have "drop k (h0 @ u # ms) @ [m] = drop k (h0 @ u # ms @ [m])" using k(1) by simp
    moreover have "(h0 @ u # ms @ [m]) ! k = (h0 @ u # ms) ! k"
      using k(1) by (auto simp: nth_append nth_Cons')
    ultimately show ?thesis using k new by (auto simp: trimmed_def intro!: exI[of _ k])
  qed
qed

lemma canonical_snoc: "canonical h \<Longrightarrow> h \<noteq> [] \<Longrightarrow> has_user h \<Longrightarrow> plain [m] \<Longrightarrow> canonical (h @ [m])"
  by (cases h) (auto simp: has_user_def split: list.splits)

lemma canonical_push_user: "canonical h \<Longrightarrow> is_user u \<Longrightarrow> canonical (h @ [u])"
  by (cases h; cases u) (auto split: list.splits)

lemma in_turn_user: "in_turn h0 u ms h \<Longrightarrow> has_user h"
  using trimmed_active latest_user_turn(1) unfolding in_turn_def by blast

lemma in_turn_snoc: "in_turn h0 u ms h \<Longrightarrow> plain [m] \<Longrightarrow> in_turn h0 u (ms @ [m]) (h @ [m])"
proof -
  assume t: "in_turn h0 u ms h" and m: "plain [m]"
  have "has_user h" by (rule in_turn_user[OF t])
  moreover from this have "h \<noteq> []" by (auto simp: has_user_def)
  ultimately have "canonical (h @ [m])" using t m by (auto simp: in_turn_def intro: canonical_snoc)
  then show ?thesis using t m trimmed_snoc[of u ms h0 h m] by (simp add: in_turn_def)
qed

lemma in_turn_enforce:
  assumes "in_turn h0 u ms h" "enforce_limits hsz lims h = Inr (h', ev)"
  shows "in_turn h0 u ms h'" "\<not> over_limit hsz lims h'"
proof -
  have "canonical h" "has_user h" using assms(1) in_turn_user by (auto simp: in_turn_def)
  from enforce_limits_cases[OF this, of hsz lims] show "in_turn h0 u ms h'" "\<not> over_limit hsz lims h'"
    using assms latest_user_turn(1)[of u ms h0] by (auto simp: in_turn_def intro: trimmed_trans)
qed

text \<open>\<open>whatever\<close>: nothing is said of a failed turn's world.\<close>

abbreviation whatever :: "agent_error \<Rightarrow> 'w \<Rightarrow> bool" where
  "whatever \<equiv> (\<lambda>_ _. True)"

lemma ensures_emit_history: "ensures (\<lambda>h w. R h) (emit ports ev) (\<lambda>_ h w. R h) whatever"
  by (auto simp: ensures_def emit_def split: prod.splits sum.splits)

lemma ensures_check_history: "ensures (\<lambda>h w. R h) (check_cancelled ports) (\<lambda>_ h w. R h) whatever"
  by (auto simp: ensures_def check_cancelled_def split: prod.splits)

lemma ensures_select_history: "ensures (\<lambda>h w. R h) (select_context rt) (\<lambda>_ h w. R h) whatever"
  by (auto simp: ensures_def select_context_def split: sum.splits)

lemma ensures_complete_history: "ensures (\<lambda>h w. R h) (complete rt ms) (\<lambda>_ h w. R h) whatever"
  by (auto simp: ensures_def complete_def split: prod.splits sum.splits)

lemma ensures_ask_history: "ensures (\<lambda>h w. R h) (ask_approval rt ports tool call risk s) (\<lambda>_ h w. R h) whatever"
  by (auto simp: ensures_def ask_approval_def split: prod.splits sum.splits)

lemma ensures_execute_history: "ensures (\<lambda>h w. R h) (execute_tool rt ports tool call) (\<lambda>_ h w. R h) whatever"
  by (auto simp: ensures_def execute_tool_def split: prod.splits)

lemmas history_frames = ensures_emit_history ensures_check_history ensures_select_history
  ensures_complete_history ensures_ask_history ensures_execute_history

lemma ensures_enforce_history:
  "ensures (\<lambda>h w. in_turn h0 u ms h) (enforce_history_limits rt ports)
     (\<lambda>_ h w. in_turn h0 u ms h \<and> within rt h) whatever"
  using in_turn_enforce
  by (fastforce simp: ensures_def enforce_history_limits_def emit_def within_def
      split: sum.splits prod.splits option.splits)

lemma ensures_push_result:
  "ensures (\<lambda>h w. in_turn h0 u ms h) (push (ToolResult i n t e))
     (\<lambda>_ h w. \<exists>t e. in_turn h0 u (ms @ [ToolResult i n t e]) h) whatever"
proof (rule ensuresI)
  fix h and w :: 'a
  assume "in_turn h0 u ms h"
  then have "in_turn h0 u (ms @ [ToolResult i n t e]) (h @ [ToolResult i n t e])" by (rule in_turn_snoc) simp
  then show "case push (ToolResult i n t e) h w of (Inl e, h', w') \<Rightarrow> True
      | (Inr a, h', w') \<Rightarrow> \<exists>t e. in_turn h0 u (ms @ [ToolResult i n t e]) h'"
    by (auto simp: push_def)
qed

lemma record_tool_error_history:
  "ensures (\<lambda>h w. in_turn h0 u ms h) (record_tool_error ports call e)
     (\<lambda>_ h w. \<exists>t e. in_turn h0 u (ms @ [ToolResult (tc_id call) (tc_name call) t e]) h) whatever"
  unfolding record_tool_error_def Let_def
  by (rule ensures_seq[OF ensures_emit_history ensures_push_result])

lemma decided_call_history:
  "ensures (\<lambda>h w. in_turn h0 u ms h) (decided_call rt ports tool call risk summary)
     (\<lambda>_ h w. \<exists>t e. in_turn h0 u (ms @ [ToolResult (tc_id call) (tc_name call) t e]) h) whatever"
  unfolding decided_call_def
proof (rule ensures_seq[OF ensures_ask_history])
  fix approved
  have "ensures (\<lambda>h w. in_turn h0 u ms h)
      (if approved then seq (emit ports (ToolStarted (tc_id call) (tc_name call))) (\<lambda>_. execute_tool rt ports tool call)
       else ret (failed Denied DENIED)) (\<lambda>_ h w. in_turn h0 u ms h) whatever"
    by (intro ensures_if ensures_seq[OF ensures_emit_history ensures_execute_history] ensures_ret)
  then show "ensures (\<lambda>h w. in_turn h0 u ms h)
      (seq (if approved then seq (emit ports (ToolStarted (tc_id call) (tc_name call))) (\<lambda>_. execute_tool rt ports tool call)
            else ret (failed Denied DENIED)) (\<lambda>output.
        seq (emit ports (ToolCompleted (tc_id call) (tc_name call) output)) (\<lambda>_.
        push (ToolResult (tc_id call) (tc_name call) (to_content output) (is_error output)))))
      (\<lambda>_ h w. \<exists>t e. in_turn h0 u (ms @ [ToolResult (tc_id call) (tc_name call) t e]) h) whatever"
    by (rule ensures_seq[OF _ ensures_seq[OF ensures_emit_history ensures_push_result]])
qed

lemma run_call_history:
  "ensures (\<lambda>h w. in_turn h0 u ms h) (run_call rt ports call)
     (\<lambda>_ h w. \<exists>t e. in_turn h0 u (ms @ [ToolResult (tc_id call) (tc_name call) t e]) h \<and> within rt h) whatever"
  unfolding run_call_def
proof (rule ensures_seq[OF ensures_check_history], rule ensures_seq[OF ensures_emit_history])
  let ?call = "case get_tool (ar_tools rt) (tc_name call) of
            None \<Rightarrow> record_tool_error ports call
                      \<lparr>te_kind = UnknownTool, te_message = lit ''unknown tool: '' @ lit (tc_name call)\<rparr>
          | Some tool \<Rightarrow>
              (case t_risk tool (tc_arguments call) of
                 Inl e \<Rightarrow> record_tool_error ports call e
               | Inr risk \<Rightarrow>
                   (case t_summary tool (tc_arguments call) of
                      Inl e \<Rightarrow> record_tool_error ports call e
                    | Inr summary \<Rightarrow> decided_call rt ports tool call risk summary))"
  have "ensures (\<lambda>h w. in_turn h0 u ms h) ?call
      (\<lambda>_ h w. \<exists>t e. in_turn h0 u (ms @ [ToolResult (tc_id call) (tc_name call) t e]) h) whatever"
    by (auto split: option.split sum.split intro: record_tool_error_history decided_call_history)
  moreover have "ensures (\<lambda>h w. \<exists>t e. in_turn h0 u (ms @ [ToolResult (tc_id call) (tc_name call) t e]) h)
      (enforce_history_limits rt ports)
      (\<lambda>_ h w. \<exists>t e. in_turn h0 u (ms @ [ToolResult (tc_id call) (tc_name call) t e]) h \<and> within rt h) whatever"
    by (intro ensures_ex) (rule ensures_post[OF ensures_enforce_history], blast)
  ultimately show "ensures (\<lambda>h w. in_turn h0 u ms h) (seq ?call (\<lambda>_. enforce_history_limits rt ports))
      (\<lambda>_ h w. \<exists>t e. in_turn h0 u (ms @ [ToolResult (tc_id call) (tc_name call) t e]) h \<and> within rt h) whatever"
    by (rule ensures_seq)
qed

lemma answered_simps [simp]:
  "answered [] rs \<longleftrightarrow> rs = []"
  "answered (c # cs) (ToolResult (tc_id c) (tc_name c) t e # rs) \<longleftrightarrow> answered cs rs"
  by (auto simp: answered_def)

lemma run_calls_history:
  "ensures (\<lambda>h w. in_turn h0 u ms h \<and> within rt h) (run_calls rt ports calls)
     (\<lambda>_ h w. \<exists>rs. answered calls rs \<and> in_turn h0 u (ms @ rs) h \<and> within rt h) whatever"
proof (induction calls arbitrary: ms)
  case Nil
  show ?case by (simp add: ensures_def ret_def)
next
  case (Cons c cs)
  have "ensures (\<lambda>h w. in_turn h0 u ms h \<and> within rt h) (run_call rt ports c)
     (\<lambda>_ h w. \<exists>t e. in_turn h0 u (ms @ [ToolResult (tc_id c) (tc_name c) t e]) h \<and> within rt h) whatever"
    by (rule ensures_pre[OF run_call_history]) simp
  moreover have "ensures (\<lambda>h w. \<exists>t e. in_turn h0 u (ms @ [ToolResult (tc_id c) (tc_name c) t e]) h \<and> within rt h)
      (run_calls rt ports cs)
      (\<lambda>_ h w. \<exists>rs. answered (c # cs) rs \<and> in_turn h0 u (ms @ rs) h \<and> within rt h) whatever"
  proof (intro ensures_ex)
    fix t e
    show "ensures (\<lambda>h w. in_turn h0 u (ms @ [ToolResult (tc_id c) (tc_name c) t e]) h \<and> within rt h)
      (run_calls rt ports cs)
      (\<lambda>_ h w. \<exists>rs. answered (c # cs) rs \<and> in_turn h0 u (ms @ rs) h \<and> within rt h) whatever"
    proof (rule ensures_post[OF Cons.IH])
      fix h :: "msg list" and w :: 'a
      assume "\<exists>rs. answered cs rs \<and> in_turn h0 u ((ms @ [ToolResult (tc_id c) (tc_name c) t e]) @ rs) h \<and> within rt h"
      then obtain rs where "answered cs rs" "in_turn h0 u ((ms @ [ToolResult (tc_id c) (tc_name c) t e]) @ rs) h"
        "within rt h" by blast
      then show "\<exists>rs. answered (c # cs) rs \<and> in_turn h0 u (ms @ rs) h \<and> within rt h"
        by (intro exI[of _ "ToolResult (tc_id c) (tc_name c) t e # rs"]) simp
    qed
  qed
  ultimately show ?case by (simp add: ensures_seq)
qed

lemma push_assistant_history:
  "ensures (\<lambda>h w. in_turn h0 u ms h) (push (Assistant c calls))
     (\<lambda>_ h w. in_turn h0 u (ms @ [Assistant c calls]) h) whatever"
proof -
  have "in_turn h0 u ms h \<Longrightarrow> in_turn h0 u (ms @ [Assistant c calls]) (h @ [Assistant c calls])" for h
    by (erule in_turn_snoc) simp
  then show ?thesis by (rule ensures_pre[OF ensures_push])
qed

lemma ask_model_history:
  "ensures (\<lambda>h w. in_turn h0 u ms h) (ask_model rt ports)
     (\<lambda>resp h w. in_turn h0 u (ms @ [Assistant (as_content resp) (as_tool_calls resp)]) h \<and> within rt h) whatever"
  unfolding ask_model_def
proof (rule ensures_seq[OF ensures_check_history], rule ensures_seq[OF ensures_select_history],
    rule ensures_seq[where R = "\<lambda>_ h w. in_turn h0 u ms h"], goal_cases)
  case (1 _ sel)
  show ?case by (rule ensures_if[OF ensures_emit_history ensures_ret])
next
  case (2 _ sel _)
  show ?case
  proof (rule ensures_seq[OF ensures_complete_history], rule ensures_seq[OF ensures_emit_history],
      rule ensures_seq[OF push_assistant_history], rule ensures_seq[OF ensures_enforce_history], goal_cases)
    case (1 resp)
    show ?case by (rule ensures_ret)
  qed
qed

lemma step_loop_history:
  "rounds k ms \<Longrightarrow> ensures (\<lambda>h w. in_turn h0 u ms h) (step_loop rt ports n (Suc k) use)
     (\<lambda>out h w. \<exists>ms c. rounds (tu_steps out - 1) ms \<and> in_turn h0 u (ms @ [Assistant c []]) h \<and> within rt h \<and>
        k < tu_steps out \<and> tu_steps out \<le> k + n) whatever"
proof (induction n arbitrary: k ms use)
  case 0
  show ?case by (simp add: ensures_def fail_def)
next
  case (Suc n)
  show ?case unfolding step_loop.simps(2) Let_def
  proof (rule ensures_seq[OF ask_model_history], rule ensures_if, goal_cases)
    case (1 resp)
    let ?out = "\<lparr>tu_steps = Suc k, tu_usage = usage_add use (as_usage resp)\<rparr>"
    have "in_turn h0 u (ms @ [Assistant (as_content resp) (as_tool_calls resp)]) h \<and> within rt h \<Longrightarrow>
      \<exists>ms c. rounds (tu_steps ?out - 1) ms \<and> in_turn h0 u (ms @ [Assistant c []]) h \<and> within rt h \<and>
        k < tu_steps ?out \<and> tu_steps ?out \<le> k + Suc n" for h
      using Suc.prems 1 by auto
    then show ?case by (rule ensures_pre[OF ensures_ret])
  next
    case (2 resp)
    let ?a = "Assistant (as_content resp) (as_tool_calls resp)"
    show ?case
    proof (rule ensures_seq[OF run_calls_history], rule ensures_ex, goal_cases)
      case (1 _ rs)
      show ?case
      proof (cases "answered (as_tool_calls resp) rs")
        case True
        note ih = Suc.IH[OF round[OF Suc.prems 2 True, of "as_content resp"]]
        show ?thesis unfolding add_Suc_right add_0_right One_nat_def
          by (rule ensures_pre[OF ensures_post[OF ih]]) auto
      qed (simp add: ensures_def)
    qed
  qed
qed

section \<open>What a turn does, as a trace\<close>

text \<open>
  The same runtime in a world that also keeps the list of what was done: every check of the
  cancellation, event, model request, question to the gate and tool run, with its result. The code
  is the same, instantiated at instrumented ports.
\<close>

datatype act =
    Checked bool
  | Emitted core_event "agent_error + unit"
  | Requested provider_request "provider_error + assistant_response"
  | Consulted approval_request "agent_error + bool"
  | Executed string string tool_context

type_synonym 'w traced = "'w \<times> act list"

definition log_call :: "('a \<Rightarrow> 'w \<Rightarrow> 'r \<times> 'w) \<Rightarrow> ('a \<Rightarrow> 'r \<Rightarrow> act) \<Rightarrow> 'a \<Rightarrow> 'w traced \<Rightarrow> 'r \<times> 'w traced" where
  "log_call f entry a w = (case f a (fst w) of (r, w') \<Rightarrow> (r, w', snd w @ [entry a r]))"

primrec traced_execution :: "'w execution \<Rightarrow> act list \<Rightarrow> 'w traced execution" where
  "traced_execution (Finished w r paced text) tr = Finished (w, tr) r paced text"
| "traced_execution (Tick w text k) tr = Tick (w, tr) text (\<lambda>wt. traced_execution (k (fst wt)) (snd wt))"

definition traced_tool :: "string \<Rightarrow> 'w tool \<Rightarrow> 'w traced tool" where
  "traced_tool name t =
     \<lparr>t_spec = t_spec t, t_risk = t_risk t, t_summary = t_summary t, t_command = t_command t,
      t_execute = (\<lambda>args ctx w. traced_execution (t_execute t args ctx (fst w)) (snd w @ [Executed name args ctx]))\<rparr>"

definition traced_runtime :: "'w agent_runtime \<Rightarrow> 'w traced agent_runtime" where
  "traced_runtime rt =
     \<lparr>ar_complete = log_call (ar_complete rt) Requested,
      ar_tools = map (\<lambda>(n, t). (n, traced_tool n t)) (ar_tools rt),
      ar_select = ar_select rt, ar_config = ar_config rt, ar_workspace = ar_workspace rt,
      ar_history_bytes = ar_history_bytes rt\<rparr>"

definition traced_ports :: "'w turn_ports \<Rightarrow> 'w traced turn_ports" where
  "traced_ports ports =
     \<lparr>tp_emit = log_call (tp_emit ports) Emitted, tp_approve = log_call (tp_approve ports) Consulted,
      tp_cancelled = (\<lambda>w. case tp_cancelled ports (fst w) of (c, w') \<Rightarrow> (c, w', snd w @ [Checked c]))\<rparr>"

lemma traced_sel [simp]:
  "ar_select (traced_runtime rt) = ar_select rt" "ar_config (traced_runtime rt) = ar_config rt"
  "ar_workspace (traced_runtime rt) = ar_workspace rt" "ar_history_bytes (traced_runtime rt) = ar_history_bytes rt"
  "ar_complete (traced_runtime rt) = log_call (ar_complete rt) Requested"
  "tp_emit (traced_ports ports) = log_call (tp_emit ports) Emitted"
  "tp_approve (traced_ports ports) = log_call (tp_approve ports) Consulted"
  by (simp_all add: traced_runtime_def traced_ports_def)

lemma traced_tool_sel [simp]:
  "t_spec (traced_tool n t) = t_spec t" "t_risk (traced_tool n t) = t_risk t"
  "t_summary (traced_tool n t) = t_summary t" "t_command (traced_tool n t) = t_command t"
  by (simp_all add: traced_tool_def)

lemma traced_get_tool [simp]:
  "get_tool (ar_tools (traced_runtime rt)) name = map_option (traced_tool name) (get_tool (ar_tools rt) name)"
proof -
  have "map_of (map (\<lambda>(n, t). (n, traced_tool n t)) ts) name = map_option (traced_tool name) (map_of ts name)" for ts
    by (induction ts) auto
  then show ?thesis by (simp add: get_tool_def traced_runtime_def)
qed

lemma traced_specs [simp]: "specs (ar_tools (traced_runtime rt)) = specs (ar_tools rt)"
proof -
  have "map (\<lambda>(n, t). t_spec t) (map (\<lambda>(n, t). (n, traced_tool n t)) ts) = map (\<lambda>(n, t). t_spec t) ts" for ts :: "'a tool_registry"
    by (induction ts) auto
  then show ?thesis by (simp add: specs_def traced_runtime_def del: map_map)
qed

text \<open>The error a failed action ends the turn with; a lost progress event ends nothing.\<close>

fun fatal :: "act \<Rightarrow> agent_error option" where
  "fatal (Checked c) = (if c then Some Cancelled else None)"
| "fatal (Emitted (ToolProgress i t) r) = None"
| "fatal (Emitted ev (Inl e)) = Some e"
| "fatal (Requested req (Inl e)) = Some (map_provider_error e)"
| "fatal (Consulted req (Inl e)) = Some e"
| "fatal _ = None"

fun response_of :: "act \<Rightarrow> assistant_response list" where
  "response_of (Requested req (Inr resp)) = [resp]"
| "response_of _ = []"

fun is_request :: "act \<Rightarrow> bool" where
  "is_request (Requested req r) = True"
| "is_request _ = False"

definition responses :: "act list \<Rightarrow> assistant_response list" where
  "responses tr = concat (map response_of tr)"

definition requests :: "act list \<Rightarrow> nat" where
  "requests tr = length (filter is_request tr)"

text \<open>
  What the actions add to the turn's messages: the model's answers, with their calls, and the tool results announced.
\<close>

fun message_of :: "act \<Rightarrow> msg list" where
  "message_of (Requested req (Inr resp)) = [Assistant (as_content resp) (as_tool_calls resp)]"
| "message_of (Emitted (ToolCompleted i n out) r) = [ToolResult i n (to_content out) (is_error out)]"
| "message_of _ = []"

definition said :: "act list \<Rightarrow> msg list" where
  "said tr = concat (map message_of tr)"

definition steady :: "act list \<Rightarrow> bool" where
  "steady tr \<longleftrightarrow> (\<forall>a \<in> set tr. fatal a = None)"

text \<open>A tool runs right after the gate said yes to that very call, one the model's last answer makes.\<close>

definition may_execute :: "'w agent_runtime \<Rightarrow> act list \<Rightarrow> string \<Rightarrow> string \<Rightarrow> tool_context \<Rightarrow> bool" where
  "may_execute rt pre name args ctx \<longleftrightarrow>
     (\<exists>pre' req tool call.
        pre = pre' @ [Consulted req (Inr True), Emitted (ToolStarted (tx_call_id ctx) name) (Inr ())] \<and>
        aq_call_id req = tx_call_id ctx \<and> aq_name req = name \<and>
        get_tool (ar_tools rt) name = Some tool \<and> t_risk tool args = Inr (aq_risk req) \<and>
        t_summary tool args = Inr (aq_summary req) \<and> t_command tool args = aq_command req \<and>
        responses pre \<noteq> [] \<and> call \<in> set (as_tool_calls (last (responses pre))) \<and>
        tc_id call = tx_call_id ctx \<and> tc_name call = name \<and> tc_arguments call = args)"

definition authorised :: "'w agent_runtime \<Rightarrow> act list \<Rightarrow> bool" where
  "authorised rt tr \<longleftrightarrow>
     (\<forall>pre name args ctx suf. tr = pre @ Executed name args ctx # suf \<longrightarrow> may_execute rt pre name args ctx)"

text \<open>A request holds what the context policy selects from the history, which holds all of the turn so far.\<close>

definition may_request :: "'w agent_runtime \<Rightarrow> msg list \<Rightarrow> msg \<Rightarrow> act list \<Rightarrow> provider_request \<Rightarrow> bool" where
  "may_request rt h0 u pre req \<longleftrightarrow>
     (\<exists>h sel. in_turn h0 u (said pre) h \<and>
        ar_select rt h (ac_system_prompt (ar_config rt)) (specs (ar_tools rt)) = Inr sel \<and>
        pr_messages req = cs_messages sel)"

definition selected :: "'w agent_runtime \<Rightarrow> msg list \<Rightarrow> msg \<Rightarrow> act list \<Rightarrow> bool" where
  "selected rt h0 u tr \<longleftrightarrow>
     (\<forall>pre req r suf. tr = pre @ Requested req r # suf \<longrightarrow> may_request rt h0 u pre req)"

fun is_limit :: "agent_error \<Rightarrow> bool" where
  "is_limit StepLimit = True"
| "is_limit (ContextLimit m) = True"
| "is_limit (HistoryLimit m) = True"
| "is_limit _ = False"

text \<open>A turn under way with the answers \<open>rs\<close> so far and the messages \<open>owed\<close> still to be pushed, and one that
  stopped with \<open>e\<close> after at most \<open>N\<close> requests.\<close>

text \<open>Every answer of the gate in the trace is one the gate gave.\<close>

definition consulted :: "'w turn_ports \<Rightarrow> act list \<Rightarrow> bool" where
  "consulted ports tr \<longleftrightarrow>
     (\<forall>req r. Consulted req r \<in> set tr \<longrightarrow> (\<exists>v v'. tp_approve ports req v = (r, v')))"

definition safe_trace :: "'w agent_runtime \<Rightarrow> 'w turn_ports \<Rightarrow> msg list \<Rightarrow> msg \<Rightarrow> act list \<Rightarrow> bool" where
  "safe_trace rt ports h0 u tr \<longleftrightarrow> authorised rt tr \<and> selected rt h0 u tr \<and> consulted ports tr"

definition going ::
  "'w agent_runtime \<Rightarrow> 'w turn_ports \<Rightarrow> msg list \<Rightarrow> msg \<Rightarrow> assistant_response list \<Rightarrow> msg list \<Rightarrow> msg list \<Rightarrow> 'w traced \<Rightarrow> bool" where
  "going rt ports h0 u rs owed h w \<longleftrightarrow> (\<exists>ms. in_turn h0 u ms h \<and> said (snd w) = ms @ owed) \<and> safe_trace rt ports h0 u (snd w) \<and> steady (snd w) \<and>
     responses (snd w) = rs"

definition stopped :: "'w agent_runtime \<Rightarrow> 'w turn_ports \<Rightarrow> msg list \<Rightarrow> msg \<Rightarrow> nat \<Rightarrow> agent_error \<Rightarrow> 'w traced \<Rightarrow> bool" where
  "stopped rt ports h0 u N e w \<longleftrightarrow> safe_trace rt ports h0 u (snd w) \<and> requests (snd w) \<le> N \<and>
     ((\<exists>pre a. snd w = pre @ [a] \<and> steady pre \<and> fatal a = Some e) \<or> (steady (snd w) \<and> is_limit e))"

lemma trace_simps [simp]:
  "responses [] = []" "responses (a @ b) = responses a @ responses b" "responses (x # a) = response_of x @ responses a"
  "requests [] = 0" "requests (a @ b) = requests a + requests b" "requests [x] = (if is_request x then 1 else 0)"
  "said [] = []" "said (a @ b) = said a @ said b" "said (x # a) = message_of x @ said a"
  "steady []" "steady (a @ b) \<longleftrightarrow> steady a \<and> steady b" "steady (x # a) \<longleftrightarrow> fatal x = None \<and> steady a"
  by (auto simp: responses_def requests_def said_def steady_def)

lemma steady_requests: "steady tr \<Longrightarrow> requests tr = length (responses tr)"
proof (induction tr)
  case (Cons a tr)
  then have IH: "requests tr = length (responses tr)" and q: "fatal a = None" by simp_all
  have "requests (a # tr) = requests [a] + requests tr" using trace_simps(5)[of "[a]" tr] by simp
  moreover have "requests [a] = length (response_of a)" using q by (cases a rule: response_of.cases) auto
  ultimately show ?case using IH by simp
qed simp

fun is_executed :: "act \<Rightarrow> bool" where
  "is_executed (Executed n a c) = True"
| "is_executed _ = False"

lemma snoc_split: "xs @ [x] = pre @ y # suf \<longleftrightarrow> (suf = [] \<and> pre = xs \<and> x = y) \<or> (\<exists>suf'. suf = suf' @ [x] \<and> xs = pre @ y # suf')"
  by (cases suf rule: rev_cases) auto

lemma authorised_snoc:
  "authorised rt (tr @ [a]) \<longleftrightarrow> authorised rt tr \<and>
     (case a of Executed n args ctx \<Rightarrow> may_execute rt tr n args ctx | _ \<Rightarrow> True)"
  by (cases a) (auto simp: authorised_def snoc_split)

lemma selected_snoc:
  "selected rt h0 u (tr @ [a]) \<longleftrightarrow> selected rt h0 u tr \<and> (case a of Requested req r \<Rightarrow> may_request rt h0 u tr req | _ \<Rightarrow> True)"
  by (cases a) (auto simp: selected_def snoc_split)

lemma consulted_simps [simp]:
  "consulted ports []" "consulted ports (a @ b) \<longleftrightarrow> consulted ports a \<and> consulted ports b"
  by (auto simp: consulted_def)

lemma consulted_other [simp]:
  "consulted ports [Emitted ev e]" "consulted ports [Checked c]" "consulted ports [Requested q ans]"
  "consulted ports [Executed n args ctx]"
  by (auto simp: consulted_def)

lemma safe_snoc:
  "\<not> is_executed a \<Longrightarrow> \<not> is_request a \<Longrightarrow> consulted ports [a] \<Longrightarrow> safe_trace rt ports h0 u tr \<Longrightarrow> safe_trace rt ports h0 u (tr @ [a])"
  by (cases a) (auto simp: safe_trace_def authorised_snoc selected_snoc)

text \<open>An action that is neither a request nor a tool run: it goes on, or it was fatal.\<close>

lemma going_snoc:
  assumes "going rt ports h0 u rs owed h (w, tr)" "\<not> is_executed a" "\<not> is_request a" "consulted ports [a]"
  shows "fatal a = None \<Longrightarrow> going rt ports h0 u rs (owed @ message_of a) h (w', tr @ [a])"
    and "fatal a = Some e \<Longrightarrow> length rs \<le> N \<Longrightarrow> stopped rt ports h0 u N e (w', tr @ [a])"
proof -
  have none: "response_of a = []" using assms(3) by (cases a) simp_all
  show "fatal a = None \<Longrightarrow> going rt ports h0 u rs (owed @ message_of a) h (w', tr @ [a])"
    using assms none by (simp add: going_def safe_snoc)
  show "stopped rt ports h0 u N e (w', tr @ [a])" if "fatal a = Some e" "length rs \<le> N"
    using assms that by (auto simp: going_def stopped_def safe_snoc steady_requests)
qed

text \<open>The pieces of a turn, from \<open>going\<close> to \<open>going\<close> or \<open>stopped\<close>.\<close>

lemma going_history: "in_turn h0 u (said (snd w)) h' \<Longrightarrow> going rt ports h0 u rs [] h w \<Longrightarrow> going rt ports h0 u rs [] h' w"
  by (auto simp: going_def)

lemma going_limit: "going rt ports h0 u rs owed h w \<Longrightarrow> is_limit e \<Longrightarrow> length rs \<le> N \<Longrightarrow> stopped rt ports h0 u N e w"
  by (auto simp: going_def stopped_def steady_requests)

fun announced :: "core_event \<Rightarrow> msg list" where
  "announced (ToolCompleted i n out) = [ToolResult i n (to_content out) (is_error out)]"
| "announced _ = []"

lemma emit_going:
  assumes "length rs \<le> N" and "\<And>i t. ev \<noteq> ToolProgress i t"
  shows "ensures (going rt ports h0 u rs owed) (emit (traced_ports ports) ev) (\<lambda>_. going rt ports h0 u rs (owed @ announced ev)) (stopped rt ports h0 u N)"
proof (rule ensuresI)
  fix h and w :: "'a traced"
  assume g: "going rt ports h0 u rs owed h w"
  obtain v tr where w: "w = (v, tr)" by (cases w)
  obtain r v' where r: "tp_emit ports ev v = (r, v')" by (cases "tp_emit ports ev v")
  have "fatal (Emitted ev r) = (case r of Inl e \<Rightarrow> Some e | Inr u \<Rightarrow> None)"
    using assms(2) by (cases ev; cases r) auto
  then show "case emit (traced_ports ports) ev h w of (Inl e, h', w') \<Rightarrow> stopped rt ports h0 u N e w'
      | (Inr a, h', w') \<Rightarrow> going rt ports h0 u rs (owed @ announced ev) h' w'"
    using going_snoc[OF g[unfolded w], of "Emitted ev r"] assms(1) w r
    by (cases r; cases ev) (simp_all add: emit_def log_call_def)
qed

lemma check_going:
  assumes "length rs \<le> N"
  shows "ensures (going rt ports h0 u rs []) (check_cancelled (traced_ports ports)) (\<lambda>_. going rt ports h0 u rs []) (stopped rt ports h0 u N)"
proof (rule ensuresI)
  fix h and w :: "'a traced"
  assume g: "going rt ports h0 u rs [] h w"
  obtain v tr where w: "w = (v, tr)" by (cases w)
  obtain c v' where c: "tp_cancelled ports v = (c, v')" by (cases "tp_cancelled ports v")
  show "case check_cancelled (traced_ports ports) h w of (Inl e, h', w') \<Rightarrow> stopped rt ports h0 u N e w'
      | (Inr a, h', w') \<Rightarrow> going rt ports h0 u rs [] h' w'"
    using going_snoc[OF g[unfolded w], of "Checked c"] assms w c
    by (cases c) (simp_all add: check_cancelled_def traced_ports_def)
qed

lemma push_going:
  assumes "plain [m]"
  shows "ensures (going rt ports h0 u rs (m # owed)) (push m) (\<lambda>_. going rt ports h0 u rs owed) E"
proof (rule ensuresI)
  fix h and w :: "'a traced"
  assume g: "going rt ports h0 u rs (m # owed) h w"
  then obtain ms where "in_turn h0 u ms h" "said (snd w) = ms @ m # owed" by (auto simp: going_def)
  then have "in_turn h0 u (ms @ [m]) (h @ [m]) \<and> said (snd w) = (ms @ [m]) @ owed" using in_turn_snoc[OF _ assms] by simp
  then have "going rt ports h0 u rs owed (h @ [m]) w" using g unfolding going_def by blast
  then show "case push m h w of (Inl e, h', w') \<Rightarrow> E e w' | (Inr a, h', w') \<Rightarrow> going rt ports h0 u rs owed h' w'"
    by (simp add: push_def)
qed

lemma enforce_going:
  assumes "length rs \<le> N"
  shows "ensures (going rt ports h0 u rs []) (enforce_history_limits (traced_runtime rt) (traced_ports ports))
     (\<lambda>_. going rt ports h0 u rs []) (stopped rt ports h0 u N)"
proof (rule ensuresI)
  fix h and w :: "'a traced"
  assume g: "going rt ports h0 u rs [] h w"
  then have ms: "in_turn h0 u (said (snd w)) h" by (auto simp: going_def)
  then have h: "canonical h" "has_user h" using in_turn_user by (auto simp: in_turn_def)
  let ?lims = "enforce_limits (ar_history_bytes rt) (ac_history_limits (ar_config rt)) h"
  show "case enforce_history_limits (traced_runtime rt) (traced_ports ports) h w of
      (Inl e, h', w') \<Rightarrow> stopped rt ports h0 u N e w' | (Inr a, h', w') \<Rightarrow> going rt ports h0 u rs [] h' w'"
  proof (cases ?lims)
    case (Inl e)
    then have "is_limit e"
      using enforce_limits_cases[OF h, of "ar_history_bytes rt" "ac_history_limits (ar_config rt)"] by simp
    then show ?thesis using Inl going_limit[OF g _ assms] by (simp add: enforce_history_limits_def)
  next
    case (Inr p)
    obtain h' ev where p: "p = (h', ev)" by (cases p)
    have g': "going rt ports h0 u rs [] h' w"
      by (rule going_history[OF in_turn_enforce(1)[OF ms Inr[unfolded p]] g])
    show ?thesis
    proof (cases ev)
      case None
      then show ?thesis using Inr p g' by (simp add: enforce_history_limits_def)
    next
      case (Some v)
      have "\<And>i t. v \<noteq> ToolProgress i t"
        using Inr p Some by (auto simp: enforce_limits_def res_bind_Inr_iff split: if_splits)
      moreover have "announced v = []" using Inr p Some by (auto simp: enforce_limits_def res_bind_Inr_iff split: if_splits)
      ultimately have "ensures (going rt ports h0 u rs []) (emit (traced_ports ports) v) (\<lambda>_. going rt ports h0 u rs [])
          (stopped rt ports h0 u N)" using emit_going[OF assms, of v rt ports h0 u "[]"] by simp
      from this g' have "case emit (traced_ports ports) v h' w of (Inl e, h', w') \<Rightarrow> stopped rt ports h0 u N e w'
          | (Inr a, h', w') \<Rightarrow> going rt ports h0 u rs [] h' w'"
        by (cases rule: ensuresE) simp_all
      then show ?thesis using Inr p Some by (simp add: enforce_history_limits_def)
    qed
  qed
qed

lemma completed_going:
  assumes "length rs \<le> N"
  shows "ensures (going rt ports h0 u rs []) (seq (emit (traced_ports ports) (ToolCompleted i n out)) (\<lambda>_.
      push (ToolResult i n (to_content out) (is_error out)))) (\<lambda>_. going rt ports h0 u rs []) (stopped rt ports h0 u N)"
  using emit_going[OF assms, of "ToolCompleted i n out" rt ports h0 u "[]"] by (intro ensures_seq[OF _ push_going]) simp_all

lemma record_error_going:
  assumes "length rs \<le> N"
  shows "ensures (going rt ports h0 u rs []) (record_tool_error (traced_ports ports) call e) (\<lambda>_. going rt ports h0 u rs []) (stopped rt ports h0 u N)"
  unfolding record_tool_error_def Let_def
  using completed_going[OF assms, of rt ports h0 u "tc_id call" "tc_name call" "output_of_error e"]
  by (simp add: output_of_error_def failed_def is_error_def)

text \<open>A run of a tool adds only its progress events.\<close>

definition only_progress :: "act list \<Rightarrow> bool" where
  "only_progress ps \<longleftrightarrow> (\<forall>a \<in> set ps. \<exists>i t r. a = Emitted (ToolProgress i t) r)"

lemma only_progress_simps [simp]:
  "only_progress []" "only_progress (Emitted (ToolProgress i t) r # ps) \<longleftrightarrow> only_progress ps"
  by (auto simp: only_progress_def)

lemma forward_progress_adds:
  "\<exists>ps. snd (snd (forward_progress (log_call f Emitted) i (traced_execution x tr) fwd sent)) = tr @ ps \<and> only_progress ps"
proof (induction x arbitrary: tr fwd sent)
  case (Finished w r paced pend)
  show ?case
    by (cases "fwd \<and> (\<not> sent \<or> paced)"; cases pend) (auto simp: log_call_def split: prod.splits)
next
  case (Tick w pend k)
  show ?case
  proof (cases "fwd \<and> pend \<noteq> None")
    case True
    then obtain t where t: "pend = Some t" by blast
    obtain r w' where r: "f (ToolProgress i t) w = (r, w')" by (cases "f (ToolProgress i t) w")
    from Tick.IH[OF rangeI, of w' "tr @ [Emitted (ToolProgress i t) r]" "r = Inr ()" True]
    show ?thesis using True t r by (auto simp: log_call_def)
  next
    case False
    then show ?thesis using Tick.IH[OF rangeI, of w tr] by (cases fwd; cases pend) auto
  qed
qed

lemma safe_progress:
  "only_progress ps \<Longrightarrow> safe_trace rt ports h0 u tr \<Longrightarrow> safe_trace rt ports h0 u (tr @ ps) \<and> steady ps \<and> responses ps = [] \<and> said ps = []"
proof (induction ps arbitrary: tr)
  case (Cons a ps)
  then obtain i t r where a: "a = Emitted (ToolProgress i t) r" by (auto simp: only_progress_def)
  then have "safe_trace rt ports h0 u (tr @ [a])" using Cons.prems(2) by (intro safe_snoc) simp_all
  with Cons.IH[of "tr @ [a]"] Cons.prems(1) a show ?case by simp
qed simp

text \<open>Right after the gate said yes, and after the start was announced.\<close>

definition agreed :: "'w agent_runtime \<Rightarrow> tool_call \<Rightarrow> tool_risk \<Rightarrow> ustr \<Rightarrow> ustr option \<Rightarrow> act" where
  "agreed rt call risk summary cmd =
     Consulted \<lparr>aq_call_id = tc_id call, aq_name = tc_name call, aq_risk = risk, aq_cwd = ar_workspace rt,
            aq_summary = summary, aq_command = cmd\<rparr> (Inr True)"

lemma ask_going:
  assumes "length rs \<le> N"
  shows "ensures (going rt ports h0 u rs [])
     (ask_approval (traced_runtime rt) (traced_ports ports) (traced_tool name tool) call risk summary)
     (\<lambda>approved h w. going rt ports h0 u rs [] h w \<and>
        (approved \<longrightarrow> (\<exists>pre. snd w = pre @ [agreed rt call risk summary (t_command tool (tc_arguments call))])))
     (stopped rt ports h0 u N)"
proof (rule ensuresI)
  fix h and w :: "'a traced"
  assume g: "going rt ports h0 u rs [] h w"
  obtain v tr where w: "w = (v, tr)" by (cases w)
  let ?req = "\<lparr>aq_call_id = tc_id call, aq_name = tc_name call, aq_risk = risk, aq_cwd = ar_workspace rt,
     aq_summary = summary, aq_command = t_command tool (tc_arguments call)\<rparr>"
  obtain r v' where r: "tp_approve ports ?req v = (r, v')" by (cases "tp_approve ports ?req v")
  then have asked: "consulted ports [Consulted ?req r]" unfolding consulted_def by auto
  show "case ask_approval (traced_runtime rt) (traced_ports ports) (traced_tool name tool) call risk summary h w of
      (Inl e, h', w') \<Rightarrow> stopped rt ports h0 u N e w'
    | (Inr approved, h', w') \<Rightarrow> going rt ports h0 u rs [] h' w' \<and>
        (approved \<longrightarrow> (\<exists>pre. snd w' = pre @ [agreed rt call risk summary (t_command tool (tc_arguments call))]))"
    using going_snoc[OF g[unfolded w], of "Consulted ?req r"] assms w r asked
    by (cases r) (auto simp: ask_approval_def log_call_def agreed_def)
qed

lemma start_going:
  assumes "length rs \<le> N"
  shows "ensures (\<lambda>h w. going rt ports h0 u rs [] h w \<and> (\<exists>pre. snd w = pre @ [a]))
     (emit (traced_ports ports) (ToolStarted i n))
     (\<lambda>_ h w. going rt ports h0 u rs [] h w \<and> (\<exists>pre. snd w = pre @ [a, Emitted (ToolStarted i n) (Inr ())])) (stopped rt ports h0 u N)"
proof (rule ensuresI)
  fix h and w :: "'a traced"
  assume g: "going rt ports h0 u rs [] h w \<and> (\<exists>pre. snd w = pre @ [a])"
  obtain v tr where w: "w = (v, tr)" by (cases w)
  obtain r v' where r: "tp_emit ports (ToolStarted i n) v = (r, v')" by (cases "tp_emit ports (ToolStarted i n) v")
  show "case emit (traced_ports ports) (ToolStarted i n) h w of (Inl e, h', w') \<Rightarrow> stopped rt ports h0 u N e w'
    | (Inr b, h', w') \<Rightarrow> going rt ports h0 u rs [] h' w' \<and> (\<exists>pre. snd w' = pre @ [a, Emitted (ToolStarted i n) (Inr ())])"
    using going_snoc[of rt ports h0 u rs "[]" h v tr "Emitted (ToolStarted i n) r"] g assms w r
    by (cases r) (auto simp: emit_def log_call_def)
qed

lemma execute_going:
  assumes "get_tool (ar_tools rt) (tc_name call) = Some tool" "t_risk tool (tc_arguments call) = Inr risk"
    "t_summary tool (tc_arguments call) = Inr summary" "rs \<noteq> []" "call \<in> set (as_tool_calls (last rs))"
  shows "ensures (\<lambda>h w. going rt ports h0 u rs [] h w \<and>
       (\<exists>pre. snd w = pre @ [agreed rt call risk summary (t_command tool (tc_arguments call)),
          Emitted (ToolStarted (tc_id call) (tc_name call)) (Inr ())]))
     (execute_tool (traced_runtime rt) (traced_ports ports) (traced_tool (tc_name call) tool) call)
     (\<lambda>_. going rt ports h0 u rs []) E"
proof (rule ensuresI)
  fix h and w :: "'a traced"
  assume g: "going rt ports h0 u rs [] h w \<and>
       (\<exists>pre. snd w = pre @ [agreed rt call risk summary (t_command tool (tc_arguments call)),
          Emitted (ToolStarted (tc_id call) (tc_name call)) (Inr ())])"
  obtain v tr where w: "w = (v, tr)" by (cases w)
  let ?ctx = "\<lparr>tx_call_id = tc_id call, tx_workspace = ar_workspace rt, tx_background_job = False, tx_job = None\<rparr>"
  have "may_execute rt tr (tc_name call) (tc_arguments call) ?ctx"
    using g w assms unfolding may_execute_def going_def by (auto simp: agreed_def)
  then have safe: "safe_trace rt ports h0 u (tr @ [Executed (tc_name call) (tc_arguments call) ?ctx])"
    using g w by (simp add: safe_trace_def going_def authorised_snoc selected_snoc)
  let ?run = "traced_execution (t_execute tool (tc_arguments call) ?ctx v) (tr @ [Executed (tc_name call) (tc_arguments call) ?ctx])"
  obtain r v' tr' where r: "forward_progress (log_call (tp_emit ports) Emitted) (tc_id call) ?run True False = (r, v', tr')"
    by (metis prod.exhaust)
  then obtain ps where ps: "tr' = (tr @ [Executed (tc_name call) (tc_arguments call) ?ctx]) @ ps" "only_progress ps"
    using forward_progress_adds[of "tp_emit ports" "tc_id call" "t_execute tool (tc_arguments call) ?ctx v"
        "tr @ [Executed (tc_name call) (tc_arguments call) ?ctx]" True False] by auto
  from safe_progress[OF ps(2) safe] have "going rt ports h0 u rs [] h (v', tr')"
    using g w ps(1) by (simp add: going_def)
  then show "case execute_tool (traced_runtime rt) (traced_ports ports) (traced_tool (tc_name call) tool) call h w of
      (Inl e, h', w') \<Rightarrow> E e w' | (Inr a, h', w') \<Rightarrow> going rt ports h0 u rs [] h' w'"
    using r w by (simp add: execute_tool_def traced_tool_def)
qed

lemma decided_going:
  assumes "get_tool (ar_tools rt) (tc_name call) = Some tool" "t_risk tool (tc_arguments call) = Inr risk"
    "t_summary tool (tc_arguments call) = Inr summary" "rs \<noteq> []" "call \<in> set (as_tool_calls (last rs))"
    and N: "length rs \<le> N"
  shows "ensures (going rt ports h0 u rs [])
     (decided_call (traced_runtime rt) (traced_ports ports) (traced_tool (tc_name call) tool) call risk summary)
     (\<lambda>_. going rt ports h0 u rs []) (stopped rt ports h0 u N)"
  unfolding decided_call_def
proof (rule ensures_seq[OF ask_going[OF N]])
  fix approved
  let ?a = "agreed rt call risk summary (t_command tool (tc_arguments call))"
  have "ensures (\<lambda>h w. going rt ports h0 u rs [] h w \<and> (approved \<longrightarrow> (\<exists>pre. snd w = pre @ [?a])))
     (if approved
      then seq (emit (traced_ports ports) (ToolStarted (tc_id call) (tc_name call)))
             (\<lambda>_. execute_tool (traced_runtime rt) (traced_ports ports) (traced_tool (tc_name call) tool) call)
      else ret (failed Denied DENIED))
     (\<lambda>_. going rt ports h0 u rs []) (stopped rt ports h0 u N)"
  proof (rule ensures_if)
    assume "approved"
    then show "ensures (\<lambda>h w. going rt ports h0 u rs [] h w \<and> (approved \<longrightarrow> (\<exists>pre. snd w = pre @ [?a])))
      (seq (emit (traced_ports ports) (ToolStarted (tc_id call) (tc_name call)))
         (\<lambda>_. execute_tool (traced_runtime rt) (traced_ports ports) (traced_tool (tc_name call) tool) call))
      (\<lambda>_. going rt ports h0 u rs []) (stopped rt ports h0 u N)"
      by (simp only: simp_thms) (rule ensures_seq[OF start_going[OF N] execute_going[OF assms(1-5)]])
  qed (rule ensures_pre[OF ensures_ret], simp)
  then show "ensures (\<lambda>h w. going rt ports h0 u rs [] h w \<and> (approved \<longrightarrow> (\<exists>pre. snd w = pre @ [?a])))
     (seq (if approved
           then seq (emit (traced_ports ports) (ToolStarted (tc_id call) (tc_name call)))
                  (\<lambda>_. execute_tool (traced_runtime rt) (traced_ports ports) (traced_tool (tc_name call) tool) call)
           else ret (failed Denied DENIED)) (\<lambda>output.
      seq (emit (traced_ports ports) (ToolCompleted (tc_id call) (tc_name call) output)) (\<lambda>_.
      push (ToolResult (tc_id call) (tc_name call) (to_content output) (is_error output)))))
     (\<lambda>_. going rt ports h0 u rs []) (stopped rt ports h0 u N)"
    by (rule ensures_seq[OF _ completed_going[OF N]])
qed

lemma run_call_going:
  assumes "rs \<noteq> []" "call \<in> set (as_tool_calls (last rs))" and N: "length rs \<le> N"
  shows "ensures (going rt ports h0 u rs []) (run_call (traced_runtime rt) (traced_ports ports) call)
     (\<lambda>_. going rt ports h0 u rs []) (stopped rt ports h0 u N)"
  unfolding run_call_def
proof (rule ensures_seq[OF check_going[OF N]], rule ensures_seq[OF emit_going[OF N]], goal_cases)
  case 2
  show ?case
    by (rule ensures_seq[OF _ enforce_going[OF N]])
       (auto split: option.split sum.split intro: record_error_going[OF N] decided_going[OF _ _ _ assms])
qed simp

lemma run_calls_going:
  assumes "rs \<noteq> []" and N: "length rs \<le> N"
  shows "set calls \<subseteq> set (as_tool_calls (last rs)) \<Longrightarrow>
    ensures (going rt ports h0 u rs []) (run_calls (traced_runtime rt) (traced_ports ports) calls)
     (\<lambda>_. going rt ports h0 u rs []) (stopped rt ports h0 u N)"
  by (induction calls) (auto intro: ensures_ret ensures_seq[OF run_call_going[OF assms(1) _ N]])

text \<open>The history the selection was made from is still there when the model is asked.\<close>

definition chosen :: "'w agent_runtime \<Rightarrow> context_selection \<Rightarrow> msg list \<Rightarrow> bool" where
  "chosen rt sel h \<longleftrightarrow> ar_select rt h (ac_system_prompt (ar_config rt)) (specs (ar_tools rt)) = Inr sel"

lemma complete_going:
  assumes "length rs < N"
  shows "ensures (\<lambda>h w. going rt ports h0 u rs [] h w \<and> chosen rt sel h) (complete (traced_runtime rt) (cs_messages sel))
     (\<lambda>resp. going rt ports h0 u (rs @ [resp]) [Assistant (as_content resp) (as_tool_calls resp)]) (stopped rt ports h0 u N)"
proof (rule ensuresI)
  fix h and w :: "'a traced"
  assume "going rt ports h0 u rs [] h w \<and> chosen rt sel h"
  then have g: "going rt ports h0 u rs [] h w" and sel: "chosen rt sel h" by simp_all
  obtain v tr where w: "w = (v, tr)" by (cases w)
  let ?req = "\<lparr>pr_system_prompt = ac_system_prompt (ar_config rt), pr_messages = cs_messages sel,
     pr_tools = specs (ar_tools rt)\<rparr>"
  obtain r v' where r: "ar_complete rt ?req v = (r, v')" by (cases "ar_complete rt ?req v")
  have "may_request rt h0 u tr ?req"
    using g sel w unfolding may_request_def going_def chosen_def by auto
  then have safe: "safe_trace rt ports h0 u (tr @ [Requested ?req r])"
    using g w by (simp add: safe_trace_def going_def authorised_snoc selected_snoc)
  have tr: "steady tr" "responses tr = rs" "requests tr = length rs"
    using g w steady_requests[of tr] by (auto simp: going_def)
  show "case complete (traced_runtime rt) (cs_messages sel) h w of (Inl e, h', w') \<Rightarrow> stopped rt ports h0 u N e w'
    | (Inr resp, h', w') \<Rightarrow> going rt ports h0 u (rs @ [resp]) [Assistant (as_content resp) (as_tool_calls resp)] h' w'"
  proof (cases r)
    case (Inl e)
    have "stopped rt ports h0 u N (map_provider_error e) (v', tr @ [Requested ?req r])"
      using safe tr assms(1) Inl by (auto simp: stopped_def)
    then show ?thesis using w r Inl by (simp add: complete_def log_call_def)
  next
    case (Inr resp)
    have "going rt ports h0 u (rs @ [resp]) [Assistant (as_content resp) (as_tool_calls resp)] h (v', tr @ [Requested ?req r])"
      using safe tr g w Inr by (simp add: going_def)
    then show ?thesis using w r Inr by (simp add: complete_def log_call_def)
  qed
qed

lemma select_going:
  assumes "length rs \<le> N"
  shows "ensures (going rt ports h0 u rs []) (select_context (traced_runtime rt))
     (\<lambda>sel h w. going rt ports h0 u rs [] h w \<and> chosen rt sel h) (stopped rt ports h0 u N)"
proof (rule ensuresI)
  fix h and w :: "'a traced"
  assume g: "going rt ports h0 u rs [] h w"
  show "case select_context (traced_runtime rt) h w of (Inl e, h', w') \<Rightarrow> stopped rt ports h0 u N e w'
    | (Inr sel, h', w') \<Rightarrow> going rt ports h0 u rs [] h' w' \<and> chosen rt sel h'"
  proof (cases "ar_select rt h (ac_system_prompt (ar_config rt)) (specs (ar_tools rt))")
    case (Inl m)
    then show ?thesis using going_limit[OF g _ assms] by (simp add: select_context_def)
  next
    case (Inr sel)
    then show ?thesis using g by (simp add: select_context_def chosen_def)
  qed
qed

lemma ensures_conj:
  assumes "ensures P m Q E" "ensures P' m Q' whatever"
  shows "ensures (\<lambda>h w. P h w \<and> P' h w) m (\<lambda>a h w. Q a h w \<and> Q' a h w) E"
proof (rule ensuresI)
  fix h w assume "P h w \<and> P' h w"
  then have p: "P h w" "P' h w" by simp_all
  show "case m h w of (Inl e, h', w') \<Rightarrow> E e w' | (Inr a, h', w') \<Rightarrow> Q a h' w' \<and> Q' a h' w'"
    by (rule ensuresE[OF assms(1) p(1)]; rule ensuresE[OF assms(2) p(2)]) auto
qed

lemma compacted_going:
  assumes "length rs \<le> N"
  shows "ensures (\<lambda>h w. going rt ports h0 u rs [] h w \<and> chosen rt sel h)
     (if cs_removed_messages sel > 0
      then emit (traced_ports ports) (ContextCompacted (cs_before_tokens sel) (cs_after_tokens sel) (cs_removed_messages sel))
      else ret ())
     (\<lambda>_ h w. going rt ports h0 u rs [] h w \<and> chosen rt sel h) (stopped rt ports h0 u N)"
proof (rule ensures_if)
  let ?ev = "ContextCompacted (cs_before_tokens sel) (cs_after_tokens sel) (cs_removed_messages sel)"
  have "ensures (going rt ports h0 u rs []) (emit (traced_ports ports) ?ev) (\<lambda>_. going rt ports h0 u rs [])
      (stopped rt ports h0 u N)" using emit_going[OF assms, of ?ev rt ports h0 u "[]"] by simp
  from ensures_conj[OF this ensures_emit_history[where R = "chosen rt sel"]]
  show "ensures (\<lambda>h w. going rt ports h0 u rs [] h w \<and> chosen rt sel h) (emit (traced_ports ports) ?ev)
     (\<lambda>_ h w. going rt ports h0 u rs [] h w \<and> chosen rt sel h) (stopped rt ports h0 u N)" .
qed (rule ensures_pre[OF ensures_ret], simp)

lemma ask_model_going:
  assumes "length rs < N"
  shows "ensures (going rt ports h0 u rs []) (ask_model (traced_runtime rt) (traced_ports ports))
     (\<lambda>resp. going rt ports h0 u (rs @ [resp]) []) (stopped rt ports h0 u N)"
proof -
  have N: "length rs \<le> N" and N': "\<And>resp. length (rs @ [resp]) \<le> N" using assms by simp_all
  have said: "ensures (going rt ports h0 u (rs @ [resp]) owed)
      (emit (traced_ports ports) (AssistantCompleted c)) (\<lambda>_. going rt ports h0 u (rs @ [resp]) owed) (stopped rt ports h0 u N)"
    for resp owed c using emit_going[OF N', where ev = "AssistantCompleted c" and owed = owed and resp1 = resp and rt = rt] by simp
  show ?thesis unfolding ask_model_def
    by (rule ensures_seq[OF check_going[OF N]], rule ensures_seq[OF select_going[OF N]], rule ensures_seq[OF compacted_going[OF N]],
        rule ensures_seq[OF complete_going[OF assms]], rule ensures_seq[OF said], rule ensures_seq[OF push_going],
        simp, rule ensures_seq[OF enforce_going[OF N']], rule ensures_ret)
qed

lemma step_loop_going:
  "length rs + n = N \<Longrightarrow>
   ensures (going rt ports h0 u rs []) (step_loop (traced_runtime rt) (traced_ports ports) n (Suc (length rs)) use)
     (\<lambda>out h w. \<exists>qs. qs \<noteq> [] \<and> going rt ports h0 u (rs @ qs) [] h w \<and> length (rs @ qs) \<le> N \<and>
        tu_steps out = length (rs @ qs) \<and> tu_usage out = foldl usage_add use (map as_usage qs))
     (stopped rt ports h0 u N)"
proof (induction n arbitrary: rs use)
  case 0
  then show ?case
    by (auto simp: ensures_def fail_def intro: going_limit)
next
  case (Suc n)
  then have lt: "length rs < N" by simp
  show ?case unfolding step_loop.simps(2) Let_def
  proof (rule ensures_seq[OF ask_model_going[OF lt]], rule ensures_if, goal_cases)
    case (1 resp)
    show ?case
    proof (rule ensures_pre[OF ensures_ret], goal_cases)
      case (1 h w)
      then show ?case using Suc.prems by (intro exI[of _ "[resp]"]) simp
    qed
  next
    case (2 resp)
    have n: "length (rs @ [resp]) \<le> N" "length (rs @ [resp]) + n = N" using Suc.prems by simp_all
    note ih = Suc.IH[OF n(2), of "usage_add use (as_usage resp)"]
    have s: "Suc (length rs) + 1 = Suc (length (rs @ [resp]))" by simp
    show ?case
    proof (rule ensures_seq[OF run_calls_going[OF _ n(1)]], simp, simp, unfold s, rule ensures_post[OF ih], goal_cases)
      case (1 _ out h w)
      then obtain qs where "qs \<noteq> []" "going rt ports h0 u ((rs @ [resp]) @ qs) [] h w" "length ((rs @ [resp]) @ qs) \<le> N"
        "tu_steps out = length ((rs @ [resp]) @ qs)"
        "tu_usage out = foldl usage_add (usage_add use (as_usage resp)) (map as_usage qs)" by blast
      then show ?case by (intro exI[of _ "resp # qs"]) simp
    qed
  qed
qed

section \<open>The whole turn\<close>

lemma in_turn_begin: "canonical h \<Longrightarrow> is_user u \<Longrightarrow> in_turn h u [] (h @ [u])"
  by (simp add: in_turn_def trimmed_refl canonical_push_user)

lemma run_turn_trace:
  assumes "canonical h"
    and "run_turn (traced_runtime rt) (traced_ports ports) prompt h (w, []) = (r, h', w', tr)"
  shows "case r of
      Inl e \<Rightarrow> stopped rt ports h (User (ti_text prompt) (ti_images prompt)) (ac_max_steps (ar_config rt)) e (w', tr)
    | Inr out \<Rightarrow>
        going rt ports h (User (ti_text prompt) (ti_images prompt)) (responses tr) [] h' (w', tr) \<and>
        length (responses tr) \<le> ac_max_steps (ar_config rt) \<and> responses tr \<noteq> [] \<and>
        tu_steps out = length (responses tr) \<and> tu_usage out = foldl usage_add no_usage (map as_usage (responses tr))"
proof -
  let ?u = "User (ti_text prompt) (ti_images prompt)" and ?N = "ac_max_steps (ar_config rt)"
  have loop: "ensures (going rt ports h ?u [] []) (step_loop (traced_runtime rt) (traced_ports ports) ?N 1 no_usage)
      (\<lambda>out h2 w. \<exists>qs. qs \<noteq> [] \<and> going rt ports h ?u qs [] h2 w \<and> length qs \<le> ?N \<and>
         tu_steps out = length qs \<and> tu_usage out = foldl usage_add no_usage (map as_usage qs)) (stopped rt ports h ?u ?N)"
    using step_loop_going[of "[]" ?N ?N rt ports h ?u no_usage] by simp
  have steps: "ensures (going rt ports h ?u [] [])
      (seq (enforce_history_limits (traced_runtime rt) (traced_ports ports))
        (\<lambda>_. step_loop (traced_runtime rt) (traced_ports ports) ?N 1 no_usage))
      (\<lambda>out h2 w. \<exists>qs. qs \<noteq> [] \<and> going rt ports h ?u qs [] h2 w \<and> length qs \<le> ?N \<and>
         tu_steps out = length qs \<and> tu_usage out = foldl usage_add no_usage (map as_usage qs)) (stopped rt ports h ?u ?N)"
    by (rule ensures_seq[OF enforce_going loop]) simp
  obtain c v where c: "tp_cancelled ports w = (c, v)" by (cases "tp_cancelled ports w")
  have empty: "safe_trace rt ports h ?u [Checked c]"
    by (simp add: safe_trace_def authorised_def selected_def Cons_eq_append_conv)
  show ?thesis
  proof (cases c)
    case True
    then have "r = Inl Cancelled" "tr = [Checked True]" "h' = h"
      using assms(2) c by (simp_all add: run_turn_def run_turn_inner_def seq_def check_cancelled_def traced_ports_def)
    then show ?thesis using empty True
      by (auto simp: stopped_def intro!: exI[of _ "[]"])
  next
    case False
    have "going rt ports h ?u [] [] (h @ [?u]) (v, [Checked c])"
      using empty False in_turn_begin[OF assms(1), of ?u] by (auto simp: going_def)
    with steps show ?thesis
      using assms(2) c False
      by (cases rule: ensuresE)
         (auto simp: run_turn_def run_turn_inner_def seq_def check_cancelled_def traced_ports_def push_def going_def)
  qed
qed

lemma executed_was_granted:
  assumes "canonical h"
    and "run_turn (traced_runtime rt) (traced_ports ports) prompt h (w, []) = (r, h', w', tr)"
    and "tr = pre @ Executed name args ctx # suf"
  shows "\<exists>req tool v v'. tp_approve ports req v = (Inr True, v') \<and> get_tool (ar_tools rt) name = Some tool \<and>
    t_risk tool args = Inr (aq_risk req) \<and> t_command tool args = aq_command req"
proof -
  have safe: "authorised rt tr" "consulted ports tr"
    using run_turn_trace[OF assms(1,2)] by (auto simp: stopped_def going_def safe_trace_def split: sum.splits)
  then have "may_execute rt pre name args ctx" using assms(3) unfolding authorised_def by blast
  then obtain pre' req tool where req: "pre = pre' @ [Consulted req (Inr True), Emitted (ToolStarted (tx_call_id ctx) name) (Inr ())]"
    "get_tool (ar_tools rt) name = Some tool" "t_risk tool args = Inr (aq_risk req)" "t_command tool args = aq_command req"
    unfolding may_execute_def by blast
  then have "Consulted req (Inr True) \<in> set tr" using assms(3) by simp
  then show ?thesis using safe(2) req(2-4) unfolding consulted_def by blast
qed

lemma last_group:
  assumes "has_user ms"
  shows "last (group_loop grp ms) = active_turn ms \<and> group_loop grp ms \<noteq> []"
  using assms
proof (induction ms arbitrary: grp)
  case (Cons m ms)
  have alone: "\<not> has_user ms \<Longrightarrow> g \<noteq> [] \<Longrightarrow> group_loop g ms = [g @ ms]" for g
    by (induction ms arbitrary: g) (auto simp: has_user_def)
  show ?case
  proof (cases "has_user ms")
    case True
    have "latest_user (m # ms) = Suc (latest_user ms)"
      by (rule latest_user_eqI) (use latest_user_D[OF True] in \<open>auto simp: nth_Cons split: nat.splits\<close>)
    then show ?thesis using Cons.IH[OF True] by (simp add: active_turn_def)
  next
    case False
    then have u: "is_user m" using Cons.prems by (auto simp: has_user_def)
    have "latest_user (m # ms) = 0"
      by (rule latest_user_eqI) (use False u in \<open>auto simp: has_user_def nth_Cons split: nat.splits\<close>)
    then show ?thesis using alone[OF False] u by (simp add: active_turn_def)
  qed
qed (simp add: has_user_def)

text \<open>
  What the runtime expects of its context policy: a selection fits, and holds all that follows the
  newest user message. Then so does every request of a turn.
\<close>

locale context_policy =
  fixes pick :: "msg list \<Rightarrow> ustr \<Rightarrow> tool_spec list \<Rightarrow> string + context_selection"
    and fits :: "ustr \<Rightarrow> tool_spec list \<Rightarrow> msg list \<Rightarrow> bool"
  assumes pick_fits: "h \<noteq> [] \<Longrightarrow> pick h p s = Inr sel \<Longrightarrow> fits p s (cs_messages sel)"
    and pick_newest: "has_user h \<Longrightarrow> pick h p s = Inr sel \<Longrightarrow> suffix (active_turn h) (cs_messages sel)"
begin

lemma requests_fit:
  assumes "ar_select rt = pick" "selected rt h0 u tr" "tr = pre @ Requested req r # suf"
  shows "fits (ac_system_prompt (ar_config rt)) (specs (ar_tools rt)) (pr_messages req) \<and>
    suffix (u # said pre) (pr_messages req)"
proof -
  have "may_request rt h0 u pre req" using assms(2,3) unfolding selected_def by blast
  then obtain h sel where h: "in_turn h0 u (said pre) h" "pr_messages req = cs_messages sel"
    "pick h (ac_system_prompt (ar_config rt)) (specs (ar_tools rt)) = Inr sel"
    unfolding may_request_def assms(1) by blast
  have user: "has_user h" by (rule in_turn_user[OF h(1)])
  then have ne: "h \<noteq> []" by (auto simp: has_user_def)
  have t: "is_user u" "plain (said pre)" "trimmed (h0 @ u # said pre) h" using h(1) by (simp_all add: in_turn_def)
  have "active_turn h = u # said pre"
    using trimmed_active[OF latest_user_turn(1)[OF t(1,2)] t(3)] latest_user_turn(2)[OF t(1,2), of h0]
    by (simp add: active_turn_def)
  then show ?thesis using pick_fits[OF ne h(3)] pick_newest[OF user h(3)] h(2) by auto
qed

end

text \<open>The policy of \<open>Core_Context\<close> keeps that contract; \<open>tb\<close> is the length of the serialized specs.\<close>

lemma select_context_facts:
  assumes "cc_max_tokens cfg < usize_max" "h \<noteq> []" "select sz cfg n h p = Inr sel"
  shows "static_of cfg n p + cost sz cfg (cs_messages sel) \<le> cc_max_tokens cfg"
    and "has_user h \<Longrightarrow> suffix (active_turn h) (cs_messages sel)"
  using select_facts[OF assms(2,1,3)] last_group[of h "[]"] by (auto simp: group_messages_def)

text \<open>Windows below \<open>usize::MAX\<close>, where no saturating sum of the policy saturates unseen.\<close>

definition bounded :: "context_config \<Rightarrow> context_config" where
  "bounded cfg = cfg\<lparr>cc_max_tokens := min (cc_max_tokens cfg) (usize_max - 1)\<rparr>"

lemma bounded_less: "cc_max_tokens (bounded cfg) < usize_max"
  by (simp add: bounded_def usize_max_def)

lemma bounded_same: "cc_max_tokens cfg < usize_max \<Longrightarrow> bounded cfg = cfg"
  by (cases cfg) (simp add: bounded_def)

interpretation window: context_policy
  "\<lambda>h p s. select sz (bounded cfg) (tb s) h p"
  "\<lambda>p s ms. static_of (bounded cfg) (tb s) p + cost sz (bounded cfg) ms \<le> cc_max_tokens (bounded cfg)"
  for sz cfg and tb :: "tool_spec list \<Rightarrow> nat"
proof
  fix h p s sel
  assume sel: "select sz (bounded cfg) (tb s) h p = Inr sel"
  show "static_of (bounded cfg) (tb s) p + cost sz (bounded cfg) (cs_messages sel) \<le> cc_max_tokens (bounded cfg)"
    if "h \<noteq> []" using select_context_facts(1)[OF bounded_less that sel] .
  show "suffix (active_turn h) (cs_messages sel)" if "has_user h"
  proof -
    have "h \<noteq> []" using that by (auto simp: has_user_def)
    from select_context_facts(2)[OF bounded_less this sel that] show ?thesis .
  qed
qed

section \<open>A sample turn\<close>

text \<open>The model asks for one tool call, then answers; the world counts its requests.\<close>

definition sample_call :: tool_call where
  "sample_call = \<lparr>tc_id = ''c1'', tc_name = ''echo'', tc_arguments = ''x''\<rparr>"

definition sample_tool :: "nat tool" where
  "sample_tool =
     \<lparr>t_spec = \<lparr>ts_name = ''echo'', ts_description = [], ts_parameters = []\<rparr>,
      t_risk = (\<lambda>_. Inr ReadOnly), t_summary = (\<lambda>_. Inr [82]), t_command = (\<lambda>_. None),
      t_execute = (\<lambda>args ctx w. Tick w (Some [46]) (\<lambda>w. Finished w (Inr (success [120])) False None))\<rparr>"

definition sample_answer :: "nat \<Rightarrow> assistant_response" where
  "sample_answer n =
     \<lparr>as_content = [], as_tool_calls = (if n = 0 then [sample_call] else []),
      as_usage = \<lparr>input_tokens = Some 7, output_tokens = None\<rparr>\<rparr>"

definition sample_runtime :: "nat agent_runtime" where
  "sample_runtime =
     \<lparr>ar_complete = (\<lambda>req w. (Inr (sample_answer w), Suc w)),
      ar_tools = [(''echo'', sample_tool)],
      ar_select = (\<lambda>h p s. Inr \<lparr>cs_messages = h, cs_before_tokens = 0, cs_after_tokens = 0, cs_removed_messages = 0\<rparr>),
      ar_config = \<lparr>ac_system_prompt = [], ac_max_steps = 3,
        ac_history_limits = \<lparr>hl_max_bytes = 9, hl_max_messages = 9, hl_note_max_chars = 9\<rparr>\<rparr>,
      ar_workspace = ''w'', ar_history_bytes = length\<rparr>"

definition sample_ports :: "nat turn_ports" where
  "sample_ports = \<lparr>tp_emit = (\<lambda>ev w. (Inr (), w)), tp_approve = (\<lambda>req w. (Inr True, w)), tp_cancelled = (\<lambda>w. (False, w))\<rparr>"

definition sample_prompt :: turn_input where
  "sample_prompt = \<lparr>ti_text = [104], ti_images = []\<rparr>"

definition sample_turn_history :: "msg list" where
  "sample_turn_history =
     [User [104] [], Assistant [] [sample_call], ToolResult ''c1'' ''echo'' [120] False, Assistant [] []]"

definition sample_trace :: "act list" where
  "sample_trace =
     (let req = (\<lambda>n. \<lparr>pr_system_prompt = [], pr_messages = take n sample_turn_history, pr_tools = [t_spec sample_tool]\<rparr>);
          ctx = \<lparr>tx_call_id = ''c1'', tx_workspace = ''w'', tx_background_job = False, tx_job = None\<rparr>;
          quest = \<lparr>aq_call_id = ''c1'', aq_name = ''echo'', aq_risk = ReadOnly, aq_cwd = ''w'',
                 aq_summary = [82], aq_command = None\<rparr>
      in [Checked False, Checked False, Requested (req 1) (Inr (sample_answer 0)), Emitted (AssistantCompleted []) (Inr ()),
          Checked False, Emitted (ToolProposed ''c1'' ''echo'' ''x'') (Inr ()), Consulted quest (Inr True),
          Emitted (ToolStarted ''c1'' ''echo'') (Inr ()), Executed ''echo'' ''x'' ctx,
          Emitted (ToolProgress ''c1'' [46]) (Inr ()),
          Emitted (ToolCompleted ''c1'' ''echo'' (success [120])) (Inr ()),
          Checked False, Requested (req 3) (Inr (sample_answer 1)), Emitted (AssistantCompleted []) (Inr ())])"

lemmas turn_defs = run_turn_def run_turn_inner_def seq_def check_cancelled_def push_def emit_def
  enforce_history_limits_def enforce_limits_def enforce_loop.simps over_limit_def ask_model_def select_context_def
  complete_def ret_def run_call_def decided_call_def ask_approval_def execute_tool_def log_call_def
  traced_ports_def traced_tool_def

lemma sample_run:
  "run_turn (traced_runtime sample_runtime) (traced_ports sample_ports) sample_prompt [] (0, []) =
     (Inr \<lparr>tu_steps = 2, tu_usage = \<lparr>input_tokens = Some 14, output_tokens = None\<rparr>\<rparr>,
      sample_turn_history, 2, sample_trace)"
  by (simp add: turn_defs sample_runtime_def sample_ports_def sample_prompt_def sample_answer_def
      sample_turn_history_def sample_trace_def Let_def numeral_3_eq_3 get_tool_def sample_call_def sample_tool_def
      specs_def traced_runtime_def no_usage_def usage_add_def sat_add_def usize_max_def success_def is_error_def)

text \<open>The same with the context policy of scv-core, for a serializer of three bytes a message.\<close>

definition three :: "msg \<Rightarrow> nat" where
  "three m = 3"

definition windowed :: "nat agent_runtime" where
  "windowed = sample_runtime\<lparr>ar_select := (\<lambda>h p s. select three sample_config 0 h p)\<rparr>"

lemma sample_window:
  "select three sample_config 0 [User [104] []] [] =
     Inr \<lparr>cs_messages = [User [104] []], cs_before_tokens = 20, cs_after_tokens = 20, cs_removed_messages = 0\<rparr>"
  "select three sample_config 0 [User [104] [], Assistant [] [c], ToolResult i n t e] [] =
     Inr \<lparr>cs_messages = [User [104] [], Assistant [] [c], ToolResult i n t e],
          cs_before_tokens = 30, cs_after_tokens = 30, cs_removed_messages = 0\<rparr>"
  by (simp_all add: select_def sample_config_def Let_def string_tokens_def div_ceil_def sat_add_def usize_max_def
      sat_mul_def group_messages_def cost_def estimated_tokens_def three_def)

lemma sample_windowed_run:
  "run_turn (traced_runtime windowed) (traced_ports sample_ports) sample_prompt [] (0, []) =
     (Inr \<lparr>tu_steps = 2, tu_usage = \<lparr>input_tokens = Some 14, output_tokens = None\<rparr>\<rparr>,
      sample_turn_history, 2, sample_trace)"
  by (simp add: turn_defs windowed_def sample_window sample_runtime_def sample_ports_def sample_prompt_def sample_answer_def
      sample_turn_history_def sample_trace_def Let_def numeral_3_eq_3 get_tool_def sample_call_def sample_tool_def
      specs_def traced_runtime_def no_usage_def usage_add_def sat_add_def usize_max_def success_def is_error_def)

lemma sample_untraced:
  "run_turn sample_runtime sample_ports sample_prompt [] 0 =
     (Inr \<lparr>tu_steps = 2, tu_usage = \<lparr>input_tokens = Some 14, output_tokens = None\<rparr>\<rparr>, sample_turn_history, 2)"
  by (simp add: turn_defs sample_runtime_def sample_ports_def sample_prompt_def sample_answer_def
      sample_turn_history_def Let_def numeral_3_eq_3 get_tool_def sample_call_def sample_tool_def
      specs_def no_usage_def usage_add_def sat_add_def usize_max_def success_def is_error_def)

lemma sample_executed:
  "sample_trace = take 8 sample_trace @ Executed ''echo'' ''x''
     \<lparr>tx_call_id = ''c1'', tx_workspace = ''w'', tx_background_job = False, tx_job = None\<rparr> # drop 9 sample_trace"
  by (simp add: sample_trace_def Let_def)

lemma sample_requested:
  "sample_trace = take 12 sample_trace @
     Requested \<lparr>pr_system_prompt = [], pr_messages = take 3 sample_turn_history, pr_tools = [t_spec sample_tool]\<rparr>
       (Inr (sample_answer 1)) # drop 13 sample_trace"
  "said (take 12 sample_trace) = [Assistant [] [sample_call], ToolResult ''c1'' ''echo'' [120] False]"
  by (simp_all add: sample_trace_def Let_def sample_answer_def success_def is_error_def)

section \<open>The properties of a turn\<close>

text \<open>
  C19. A turn happens whole or not at all. Whatever the model, the tools, the gate and the sink do,
  a failed turn leaves the session's history as it was. A turn that succeeds ends within the step
  limit and leaves a canonical history within its limits: the earlier history and the user's
  message, then for each answer with tool calls one result per call, in order, and at last an
  answer without calls; at most whole earlier turns are replaced by a note.
\<close>

theorem run_turn_all_or_nothing:
  assumes "canonical h" and "run_turn rt ports prompt h w = (r, h', w')"
  shows "case r of
      Inl e \<Rightarrow> h' = h
    | Inr out \<Rightarrow> 1 \<le> tu_steps out \<and> tu_steps out \<le> ac_max_steps (ar_config rt) \<and> canonical h' \<and>
        \<not> over_limit (ar_history_bytes rt) (ac_history_limits (ar_config rt)) h' \<and>
        (\<exists>ms c. rounds (tu_steps out - 1) ms \<and>
           trimmed (h @ User (ti_text prompt) (ti_images prompt) # ms @ [Assistant c []]) h')"
proof -
  let ?u = "User (ti_text prompt) (ti_images prompt)" and ?N = "ac_max_steps (ar_config rt)"
  let ?post = "\<lambda>out h2 w. \<exists>ms c. rounds (tu_steps out - 1) ms \<and> in_turn h ?u (ms @ [Assistant c []]) h2 \<and> within rt h2 \<and>
      0 < tu_steps out \<and> tu_steps out \<le> 0 + ?N"
  have "ensures (\<lambda>h2 w. in_turn h ?u [] h2 \<and> within rt h2) (step_loop rt ports ?N (Suc 0) no_usage) ?post whatever"
    by (rule ensures_pre[OF step_loop_history[OF start]]) simp
  from ensures_seq[OF ensures_enforce_history this]
  have steps: "ensures (\<lambda>h2 w. in_turn h ?u [] h2)
      (seq (enforce_history_limits rt ports) (\<lambda>_. step_loop rt ports ?N 1 no_usage)) ?post whatever" by simp
  obtain c v where c: "tp_cancelled ports w = (c, v)" by (cases "tp_cancelled ports w")
  have begun: "in_turn h ?u [] (h @ [?u])" using in_turn_begin[OF assms(1)] by simp
  show ?thesis
  proof (cases c)
    case True
    then show ?thesis
      using assms(2) c by (auto simp: run_turn_def run_turn_inner_def seq_def check_cancelled_def)
  next
    case False
    note run = assms(2) c False
    show ?thesis
    proof (rule ensuresE[OF steps, where h = "h @ [?u]" and w = v, OF begun], goal_cases)
      case 1
      then show ?case
        using run by (auto simp: run_turn_def run_turn_inner_def seq_def check_cancelled_def push_def)
    next
      case (2 out h2 w2)
      then have r: "r = Inr out" "h' = h2"
        using run by (auto simp: run_turn_def run_turn_inner_def seq_def check_cancelled_def push_def)
      from 2(2) obtain ms a where ms: "rounds (tu_steps out - 1) ms" "in_turn h ?u (ms @ [Assistant a []]) h2" "within rt h2"
        "0 < tu_steps out" "tu_steps out \<le> ?N" by auto
      then have "trimmed (h @ ?u # ms @ [Assistant a []]) h2" by (simp add: in_turn_def)
      then have "\<exists>ms c. rounds (tu_steps out - 1) ms \<and> trimmed (h @ ?u # ms @ [Assistant c []]) h2"
        using ms(1) by blast
      then show ?case using r ms(2-5) by (simp add: in_turn_def within_def Suc_le_eq)
    qed
  qed
qed

theorem run_turn_all_or_nothing_witness:
  "\<exists>ms c. rounds 1 ms \<and> trimmed (User [104] [] # ms @ [Assistant c []]) sample_turn_history \<and> canonical sample_turn_history"
  using run_turn_all_or_nothing[of "[]", OF _ sample_untraced] by (simp add: sample_prompt_def)

text \<open>
  C18. No tool runs unasked. In every turn, each run of a tool comes right after the approval gate
  answered yes to a request for that very call, with the risk, the summary and the command the
  tool itself names for those arguments, and after its start was announced; and the call is one
  the model's last answer makes.
\<close>

theorem tool_runs_only_approved:
  assumes "canonical h"
    and "run_turn (traced_runtime rt) (traced_ports ports) prompt h (w, []) = (r, h', w', tr)"
    and "tr = pre @ Executed name args ctx # suf"
  shows "\<exists>pre' req tool call.
    pre = pre' @ [Consulted req (Inr True), Emitted (ToolStarted (tx_call_id ctx) name) (Inr ())] \<and>
    aq_call_id req = tx_call_id ctx \<and> aq_name req = name \<and>
    get_tool (ar_tools rt) name = Some tool \<and> t_risk tool args = Inr (aq_risk req) \<and>
    t_summary tool args = Inr (aq_summary req) \<and> t_command tool args = aq_command req \<and>
    responses pre \<noteq> [] \<and> call \<in> set (as_tool_calls (last (responses pre))) \<and>
    tc_id call = tx_call_id ctx \<and> tc_name call = name \<and> tc_arguments call = args"
proof -
  have "authorised rt tr"
    using run_turn_trace[OF assms(1,2)] by (auto simp: stopped_def going_def safe_trace_def split: sum.splits)
  then show ?thesis using assms(3) unfolding authorised_def may_execute_def by blast
qed

theorem tool_runs_only_approved_witness:
  "\<exists>req. take 8 sample_trace = take 6 sample_trace @ [Consulted req (Inr True), Emitted (ToolStarted ''c1'' ''echo'') (Inr ())] \<and>
     aq_name req = ''echo'' \<and> aq_risk req = ReadOnly"
  using tool_runs_only_approved[of "[]", OF _ sample_run sample_executed]
  by (auto simp: sample_runtime_def get_tool_def sample_tool_def sample_trace_def Let_def)

text \<open>
  C21. Why a turn fails. A turn succeeds only if nothing it did failed: it was never found cancelled,
  no event (but a progress event) was refused, no request and no question to the gate failed. If it
  fails, the first such failure was the last thing it did and is its error, or else a limit was
  reached. What a tool does or returns never fails a turn.
\<close>

theorem turn_error_reason:
  assumes "canonical h"
    and "run_turn (traced_runtime rt) (traced_ports ports) prompt h (w, []) = (r, h', w', tr)"
  shows "case r of
      Inr out \<Rightarrow> \<forall>a \<in> set tr. fatal a = None
    | Inl e \<Rightarrow> (\<exists>pre a. tr = pre @ [a] \<and> (\<forall>b \<in> set pre. fatal b = None) \<and> fatal a = Some e) \<or>
        ((\<forall>a \<in> set tr. fatal a = None) \<and> is_limit e)"
  using run_turn_trace[OF assms] by (auto simp: stopped_def going_def steady_def split: sum.splits)

theorem turn_error_reason_witness: "list_all (\<lambda>a. fatal a = None) sample_trace"
  using turn_error_reason[of "[]", OF _ sample_run] by (simp add: list_all_iff)

text \<open>
  C22. What a turn costs. A turn makes at most \<open>max_steps\<close> model requests, whether it succeeds or
  fails; when it succeeds it reports as steps the number it made and as usage the saturating sum
  of what the model reported.
\<close>

theorem turn_requests_bounded:
  assumes "canonical h"
    and "run_turn (traced_runtime rt) (traced_ports ports) prompt h (w, []) = (r, h', w', tr)"
  shows "length (filter is_request tr) \<le> ac_max_steps (ar_config rt) \<and>
    (case r of Inl e \<Rightarrow> True
     | Inr out \<Rightarrow> tu_steps out = length (filter is_request tr) \<and>
         tu_usage out = foldl usage_add no_usage (map as_usage (responses tr)))"
  using run_turn_trace[OF assms] steady_requests[of tr]
  by (auto simp: stopped_def going_def requests_def split: sum.splits)

theorem turn_requests_bounded_witness: "length (filter is_request sample_trace) \<le> 3"
  using turn_requests_bounded[of "[]", OF _ sample_run] by (simp add: sample_runtime_def)

text \<open>
  C23. What the model is sent. With the context policy of scv-core every request of a turn fits the
  model's window with the system prompt, the tools, the output reserve and the safety margin, and ends with the
  whole of the turn so far: the user's message and then every answer the model gave in the turn, with its calls, and
  every tool result announced in it, in the order of the trace before the request.
\<close>

theorem requests_fit_window:
  assumes "canonical h" and "cc_max_tokens cfg < usize_max"
    and "ar_select rt = (\<lambda>h p s. select sz cfg (tb s) h p)"
    and "run_turn (traced_runtime rt) (traced_ports ports) prompt h (w, []) = (r, h', w', tr)"
    and "tr = pre @ Requested req ans # suf"
  shows "static_of cfg (tb (specs (ar_tools rt))) (ac_system_prompt (ar_config rt)) + cost sz cfg (pr_messages req)
      \<le> cc_max_tokens cfg \<and>
    suffix (User (ti_text prompt) (ti_images prompt) # said pre) (pr_messages req)"
proof -
  have "ar_select rt = (\<lambda>h p s. select sz (bounded cfg) (tb s) h p)"
    using assms(3) bounded_same[OF assms(2)] by simp
  moreover have "selected rt h (User (ti_text prompt) (ti_images prompt)) tr"
    using run_turn_trace[OF assms(1,4)] by (auto simp: stopped_def going_def safe_trace_def split: sum.splits)
  ultimately show ?thesis
    using window.requests_fit[OF _ _ assms(5)] bounded_same[OF assms(2)] by metis
qed

theorem requests_fit_window_witness:
  "static_of sample_config 0 [] + cost three sample_config (take 3 sample_turn_history) \<le> 65 \<and>
   suffix [User [104] [], Assistant [] [sample_call], ToolResult ''c1'' ''echo'' [120] False] (take 3 sample_turn_history)"
  using requests_fit_window[of "[]" sample_config windowed three "\<lambda>s. 0", OF _ _ _ sample_windowed_run sample_requested(1)]
  by (simp add: sample_requested(2) sample_config_def usize_max_def windowed_def sample_runtime_def sample_prompt_def
      sample_turn_history_def sample_tool_def specs_def)

end
