(* ===== verification/Gate.thy ===== *)
theory Gate
  imports Core_Turn
begin

text \<open>
  Who may let a tool run: \<open>approval.rs\<close> of scv-server. A built-in gate on the command a call runs comes
  first, then the policy's mode; what is left goes to the client or to the owner. A shell command is
  text, so words are \<open>ustr\<close>.

  The approval broker is a map of the requests a client still has to answer. What happens while a
  gate waits (the client's answer, a lost sender, a cancellation, the owner's answer in chat) and the
  result of sending the request are functions on the world, as in \<open>Core_Runtime\<close>.
\<close>

section \<open>Reading a command line\<close>

text \<open>\<open>end_word\<close>: the word under way, if there is one, joins the last command.\<close>

definition end_word :: "ustr list list \<Rightarrow> ustr \<Rightarrow> bool \<Rightarrow> ustr list list \<times> ustr" where
  "end_word commands word in_word =
     (if in_word then (butlast commands @ [last commands @ [word]], []) else (commands, word))"

definition separators :: ustr where
  "separators = [59, 38, 124, 40, 41, 10]"

fun words_loop :: "ustr \<Rightarrow> ustr list list \<Rightarrow> ustr \<Rightarrow> bool \<Rightarrow> uchar option \<Rightarrow> ustr list list" where
  "words_loop [] commands word in_word quote = fst (end_word commands word in_word)"
| "words_loop (c # cs) commands word in_word (Some q) =
     (if c = q then words_loop cs commands word in_word None
      else if q = 34 \<and> c = 92
      then (case cs of
              [] \<Rightarrow> words_loop [] commands word in_word (Some q)
            | d # ds \<Rightarrow> words_loop ds commands (word @ [d]) in_word (Some q))
      else words_loop cs commands (word @ [c]) in_word (Some q))"
| "words_loop (c # cs) commands word in_word None =
     (if c = 39 \<or> c = 34 then words_loop cs commands word True (Some c)
      else if c = 92
      then (case cs of
              [] \<Rightarrow> words_loop [] commands word True None
            | d # ds \<Rightarrow> words_loop ds commands (word @ [d]) True None)
      else if c \<in> set separators
      then (case end_word commands word in_word of (commands', word') \<Rightarrow> words_loop cs (commands' @ [[]]) word' False None)
      else if is_whitespace c
      then (case end_word commands word in_word of (commands', word') \<Rightarrow> words_loop cs commands' word' False None)
      else words_loop cs commands (word @ [c]) True None)"

definition simple_commands :: "ustr \<Rightarrow> ustr list list" where
  "simple_commands cmd = filter (\<lambda>ws. ws \<noteq> []) (words_loop cmd [[]] [] False None)"

section \<open>The built-in gates\<close>

text \<open>\<open>rsplit(c).next()\<close>: what follows the last \<open>c\<close>.\<close>

definition after_last :: "uchar \<Rightarrow> ustr \<Rightarrow> ustr" where
  "after_last c w = rev (takeWhile (\<lambda>x. x \<noteq> c) (rev w))"

definition arguments_of :: "ustr list \<Rightarrow> string \<Rightarrow> ustr list option" where
  "arguments_of ws program =
     map_option (\<lambda>at. drop (at + 1) ws) (position (\<lambda>w. after_last 47 w = lit program) ws)"

definition starts_with :: "string \<Rightarrow> ustr \<Rightarrow> bool" where
  "starts_with p w \<longleftrightarrow> prefix (lit p) w"

text \<open>Options with a value, then the subcommand and what follows it.\<close>

fun subcommand :: "(ustr \<Rightarrow> bool) \<Rightarrow> (ustr \<Rightarrow> bool) \<Rightarrow> ustr list \<Rightarrow> (ustr \<times> ustr list) option" where
  "subcommand valued skipped [] = None"
| "subcommand valued skipped (w # ws) =
     (if valued w then (case ws of [] \<Rightarrow> None | v # ws' \<Rightarrow> subcommand valued skipped ws')
      else if skipped w then subcommand valued skipped ws
      else Some (w, ws))"

definition git_valued :: "ustr \<Rightarrow> bool" where
  "git_valued w \<longleftrightarrow> w \<in> set (map lit [''-C'', ''-c'', ''--git-dir'', ''--work-tree'', ''--namespace''])"

definition push_valued :: "ustr \<Rightarrow> bool" where
  "push_valued w \<longleftrightarrow> w \<in> set (map lit [''-o'', ''--push-option'', ''--repo'', ''--receive-pack'', ''--exec''])"

text \<open>The arguments of \<open>push\<close>: whether it forces, and its positional arguments.\<close>

fun push_loop :: "ustr list \<Rightarrow> bool \<Rightarrow> ustr list \<Rightarrow> bool \<times> ustr list" where
  "push_loop [] force positional = (force, positional)"
| "push_loop (a # rest) force positional =
     (if a = lit ''--'' then (force, positional @ rest)
      else if a = lit ''-f'' \<or> a = lit ''--force'' then push_loop rest True positional
      else if starts_with ''--force-with-lease'' a then push_loop rest True positional
      else if push_valued a then push_loop (drop 1 rest) force positional
      else if starts_with ''--'' a then push_loop rest force positional
      else if starts_with ''-'' a
      then push_loop (if a \<noteq> [] \<and> last a = 111 then drop 1 rest else rest) (force \<or> 102 \<in> set a) positional
      else push_loop rest force (positional @ [a]))"

definition forces :: "bool \<Rightarrow> ustr \<Rightarrow> bool" where
  "forces force refspec =
     (let (forced, r) = (case strip_prefix [43] refspec of Some r \<Rightarrow> (True, r) | None \<Rightarrow> (force, refspec));
          destination = after_last 58 r
      in forced \<and> (destination = lit ''main'' \<or> destination = lit ''refs/heads/main''))"

definition forces_main :: "ustr list \<Rightarrow> bool" where
  "forces_main ws =
     (case arguments_of ws ''git'' of
        None \<Rightarrow> False
      | Some arguments \<Rightarrow>
          (case subcommand git_valued (starts_with ''-'') arguments of
             None \<Rightarrow> False
           | Some (sub, rest) \<Rightarrow>
               if sub \<noteq> lit ''push'' then False
               else (case push_loop rest False [] of
                       (force, positional) \<Rightarrow> list_ex (forces force) (drop 1 positional))))"

definition cargo_valued :: "ustr \<Rightarrow> bool" where
  "cargo_valued w \<longleftrightarrow> w \<in> set (map lit [''-Z'', ''--config'', ''-C'', ''--color''])"

definition cargo_publish :: "ustr list \<Rightarrow> bool" where
  "cargo_publish ws =
     (case arguments_of ws ''cargo'' of
        None \<Rightarrow> False
      | Some arguments \<Rightarrow>
          (case subcommand cargo_valued (\<lambda>w. starts_with ''-'' w \<or> starts_with ''+'' w) arguments of
             None \<Rightarrow> False
           | Some (sub, rest) \<Rightarrow> sub = lit ''publish''))"

section \<open>The policy\<close>

datatype approval_mode = PmAuto | PmOnRisk | PmAlways | PmReadOnly

fun strictness :: "approval_mode \<Rightarrow> nat" where
  "strictness PmAuto = 0"
| "strictness PmOnRisk = 1"
| "strictness PmAlways = 2"
| "strictness PmReadOnly = 3"

datatype decision = Allow | Deny | AskClient | AskOwner

definition FORCE_PUSH_MAIN :: ustr where
  "FORCE_PUSH_MAIN = lit ''Force-pushing main is never allowed''"

definition CARGO_PUBLISH :: ustr where
  "CARGO_PUBLISH = lit (''A direct cargo publish needs the owner'' @ [CHR 39] @ ''s yes (feature-flow'' @ [CHR 39] @
     ''s publish script is the path that counts crates.io'' @ [CHR 39] @ ''s daily limit)'')"

definition command_gate :: "approval_request \<Rightarrow> (decision \<times> ustr) option" where
  "command_gate req =
     Option.bind (aq_command req) (\<lambda>cmd.
       let commands = simple_commands cmd
       in if list_ex forces_main commands then Some (Deny, FORCE_PUSH_MAIN)
          else if list_ex cargo_publish commands then Some (AskOwner, CARGO_PUBLISH)
          else None)"

definition decide :: "approval_mode \<Rightarrow> approval_request \<Rightarrow> decision" where
  "decide mode req =
     (case command_gate req of
        Some (d, _) \<Rightarrow> d
      | None \<Rightarrow>
          (case mode of
             PmAuto \<Rightarrow> Allow
           | PmOnRisk \<Rightarrow> if aq_risk req = ReadOnly then Allow else AskClient
           | PmReadOnly \<Rightarrow> if aq_risk req = ReadOnly then Allow else Deny
           | PmAlways \<Rightarrow> AskClient))"

definition owner_question :: "approval_request \<Rightarrow> ustr" where
  "owner_question req =
     (case command_gate req of None \<Rightarrow> lit ''This needs the owner'' @ [39] @ lit ''s yes'' | Some (_, reason) \<Rightarrow> reason) @
     lit ''. An agent asks to run this:'' @ [10, 10] @ take 3000 (aq_summary req)"

section \<open>The gates\<close>

text \<open>\<open>OwnerQuestions::ask\<close>: without a confirmer nobody is asked.\<close>

type_synonym 'w asker = "ustr \<Rightarrow> 'w \<Rightarrow> bool \<times> 'w"

definition ask_owner_question :: "'w asker option \<Rightarrow> approval_request \<Rightarrow> 'w \<Rightarrow> bool \<times> 'w" where
  "ask_owner_question confirmer req w =
     (case confirmer of None \<Rightarrow> (False, w) | Some ask \<Rightarrow> ask (owner_question req) w)"

definition unattended_approve :: "approval_mode \<Rightarrow> bool \<Rightarrow> 'w asker option \<Rightarrow> 'w gate" where
  "unattended_approve mode client_approves_all confirmer req w =
     (case decide mode req of
        Allow \<Rightarrow> (Inr True, w)
      | Deny \<Rightarrow> (Inr False, w)
      | AskClient \<Rightarrow> (Inr client_approves_all, w)
      | AskOwner \<Rightarrow> (case ask_owner_question confirmer req w of (yes, w') \<Rightarrow> (Inr yes, w')))"

definition policy_first_approve :: "approval_mode \<Rightarrow> 'w gate \<Rightarrow> 'w asker option \<Rightarrow> 'w gate" where
  "policy_first_approve mode attended confirmer req w =
     (case decide mode req of
        Allow \<Rightarrow> (Inr True, w)
      | Deny \<Rightarrow> (Inr False, w)
      | AskClient \<Rightarrow> attended req w
      | AskOwner \<Rightarrow> (case ask_owner_question confirmer req w of (yes, w') \<Rightarrow> (Inr yes, w')))"

text \<open>The approval the client is asked for, and the session's part of the gate.\<close>

record turn_meta =
  tm_request_id :: string
  tm_session_id :: string
  tm_turn_id :: string

record approval_event =
  av_meta :: turn_meta
  av_seq :: nat
  av_approval_id :: string
  av_call_id :: string
  av_name :: string
  av_risk :: string
  av_cwd :: string
  av_summary :: ustr

datatype agent_state = AwaitingInput "ustr option" | Working

record 'w broker_state =
  bs_pending :: "string set"
  bs_seq :: nat
  bs_workbench :: bool
  bs_state :: agent_state
  bs_world :: 'w

definition broker_insert :: "string \<Rightarrow> 'w broker_state \<Rightarrow> 'w broker_state" where
  "broker_insert i s = s\<lparr>bs_pending := insert i (bs_pending s)\<rparr>"

definition broker_remove :: "string \<Rightarrow> 'w broker_state \<Rightarrow> 'w broker_state" where
  "broker_remove i s = s\<lparr>bs_pending := bs_pending s - {i}\<rparr>"

text \<open>The client's answer; \<open>listening\<close> says whether the gate still waits for it.\<close>

definition broker_resolve :: "string \<Rightarrow> bool \<Rightarrow> 'w broker_state \<Rightarrow> bool \<times> 'w broker_state" where
  "broker_resolve i listening s = (i \<in> bs_pending s \<and> listening, broker_remove i s)"

text \<open>How the wait ends: the client answered through \<open>broker_resolve\<close>, the sender was dropped without
  an answer, or the turn was cancelled.\<close>

datatype wait_end = Answered bool | SenderLost | WaitCancelled

definition next_seq :: "'w broker_state \<Rightarrow> nat \<times> 'w broker_state" where
  "next_seq s = (bs_seq s + 1, s\<lparr>bs_seq := bs_seq s + 1\<rparr>)"

definition waiting_state :: "ustr \<Rightarrow> agent_state" where
  "waiting_state summary = AwaitingInput (Some (lit ''waiting for approval: '' @ take 200 summary))"

text \<open>Only a session with a place in the workbench is shown waiting there.\<close>

definition show_state :: "agent_state \<Rightarrow> 'w broker_state \<Rightarrow> 'w broker_state" where
  "show_state st s = (if bs_workbench s then s\<lparr>bs_state := st\<rparr> else s)"

definition ask_client ::
  "turn_meta \<Rightarrow> ('w \<Rightarrow> string \<times> 'w) \<Rightarrow> (approval_event \<Rightarrow> 'w \<Rightarrow> (agent_error + unit) \<times> 'w) \<Rightarrow>
     (string \<Rightarrow> 'w \<Rightarrow> wait_end \<times> 'w) \<Rightarrow> approval_request \<Rightarrow> 'w broker_state \<Rightarrow>
     (agent_error + bool) \<times> 'w broker_state" where
  "ask_client meta draw send wait req s =
     (let (i, w1) = draw (bs_world s);
          s = show_state (waiting_state (aq_summary req)) (broker_insert i s);
          (n, s) = next_seq s;
          event = \<lparr>av_meta = meta, av_seq = n, av_approval_id = i, av_call_id = aq_call_id req,
                   av_name = aq_name req, av_risk = risk_str (aq_risk req), av_cwd = aq_cwd req,
                   av_summary = aq_summary req\<rparr>
      in case send event w1 of
           (Inl e, w2) \<Rightarrow> (Inl e, (show_state Working (broker_remove i s))\<lparr>bs_world := w2\<rparr>)
         | (Inr _, w2) \<Rightarrow>
             (case wait i w2 of
                (Answered yes, w3) \<Rightarrow> (Inr yes, (show_state Working (snd (broker_resolve i True s)))\<lparr>bs_world := w3\<rparr>)
              | (SenderLost, w3) \<Rightarrow> (Inl Cancelled, (show_state Working (broker_remove i s))\<lparr>bs_world := w3\<rparr>)
              | (WaitCancelled, w3) \<Rightarrow> (Inl Cancelled, (show_state Working (broker_remove i s))\<lparr>bs_world := w3\<rparr>)))"

definition protocol_approve ::
  "approval_mode \<Rightarrow> bool \<Rightarrow> 'w broker_state asker option \<Rightarrow> turn_meta \<Rightarrow> ('w \<Rightarrow> string \<times> 'w) \<Rightarrow>
     (approval_event \<Rightarrow> 'w \<Rightarrow> (agent_error + unit) \<times> 'w) \<Rightarrow> (string \<Rightarrow> 'w \<Rightarrow> wait_end \<times> 'w) \<Rightarrow>
     'w broker_state gate" where
  "protocol_approve mode owner_at_client confirmer meta draw send wait req s =
     (case decide mode req of
        Allow \<Rightarrow> (Inr True, s)
      | Deny \<Rightarrow> (Inr False, s)
      | AskClient \<Rightarrow> ask_client meta draw send wait req s
      | AskOwner \<Rightarrow>
          if owner_at_client
          then ask_client meta draw send wait
                 (case command_gate req of
                    Some (_, reason) \<Rightarrow> req\<lparr>aq_summary := reason @ lit ''. '' @ aq_summary req\<rparr>
                  | None \<Rightarrow> req) s
          else (case ask_owner_question confirmer req s of (yes, s') \<Rightarrow> (Inr yes, s')))"

end
