(* ===== verification/Gate_Theorems.thy ===== *)
theory Gate_Theorems
  imports Gate
begin

text \<open>
  What the approval gates guarantee: the command gate reads a plainly spelled command line as the shell
  does, whatever its quoting; no gate lets a plainly spelled forced push of \<open>main\<close> through, so no turn runs one; and a
  direct publish is the owner's to allow, whatever blanket answers there are. At the end, what the gate misses.
\<close>

section \<open>Spellings of a command line\<close>

text \<open>
  A word is a sequence of pieces: bare and escaped characters, and quoted texts; a command is words
  after blanks; a line is commands with separators between them. \<open>piece_ok\<close> keeps to what a shell reads
  the same way: an escaped newline is a line continuation there, and in double quotes a backslash only
  escapes the quote, itself, the dollar sign and the backquote.
\<close>

datatype dquoted = DPlain uchar | DSlashed uchar

datatype piece = Bare uchar | Escaped uchar | Single ustr | Double "dquoted list"

fun dq_text :: "dquoted \<Rightarrow> ustr" where
  "dq_text (DPlain c) = [c]"
| "dq_text (DSlashed c) = [92, c]"

fun dq_value :: "dquoted \<Rightarrow> uchar" where
  "dq_value (DPlain c) = c"
| "dq_value (DSlashed c) = c"

fun dq_ok :: "dquoted \<Rightarrow> bool" where
  "dq_ok (DPlain c) \<longleftrightarrow> c \<noteq> 34 \<and> c \<noteq> 92"
| "dq_ok (DSlashed c) \<longleftrightarrow> c \<in> {34, 92, 36, 96}"

fun piece_text :: "piece \<Rightarrow> ustr" where
  "piece_text (Bare c) = [c]"
| "piece_text (Escaped c) = [92, c]"
| "piece_text (Single s) = [39] @ s @ [39]"
| "piece_text (Double ds) = [34] @ concat (map dq_text ds) @ [34]"

fun piece_value :: "piece \<Rightarrow> ustr" where
  "piece_value (Bare c) = [c]"
| "piece_value (Escaped c) = [c]"
| "piece_value (Single s) = s"
| "piece_value (Double ds) = map dq_value ds"

definition blank :: "uchar \<Rightarrow> bool" where
  "blank c \<longleftrightarrow> is_whitespace c \<and> c \<notin> set separators"

fun piece_ok :: "piece \<Rightarrow> bool" where
  "piece_ok (Bare c) \<longleftrightarrow> c \<noteq> 39 \<and> c \<noteq> 34 \<and> c \<noteq> 92 \<and> c \<notin> set separators \<and> \<not> is_whitespace c"
| "piece_ok (Escaped c) \<longleftrightarrow> c \<noteq> 10"
| "piece_ok (Single s) \<longleftrightarrow> 39 \<notin> set s"
| "piece_ok (Double ds) \<longleftrightarrow> list_all dq_ok ds"

type_synonym spelled = "piece list"

definition word_text :: "spelled \<Rightarrow> ustr" where
  "word_text ps = concat (map piece_text ps)"

definition word_value :: "spelled \<Rightarrow> ustr" where
  "word_value ps = concat (map piece_value ps)"

text \<open>A command: each word with the blanks before it; only the first may have none.\<close>

type_synonym spelled_command = "(ustr \<times> spelled) list"

definition command_text :: "spelled_command \<Rightarrow> ustr" where
  "command_text ws = concat (map (\<lambda>(g, w). g @ word_text w) ws)"

definition command_value :: "spelled_command \<Rightarrow> ustr list" where
  "command_value ws = map (\<lambda>(g, w). word_value w) ws"

definition command_ok :: "spelled_command \<Rightarrow> bool" where
  "command_ok ws \<longleftrightarrow>
     (\<forall>(g, w) \<in> set ws. list_all blank g \<and> w \<noteq> [] \<and> list_all piece_ok w) \<and>
     (\<forall>(g, w) \<in> set (tl ws). g \<noteq> [])"

text \<open>A line: its first command, and the others with the separator before each.\<close>

type_synonym spelled_line = "spelled_command \<times> (uchar \<times> spelled_command) list"

definition line_text :: "spelled_line \<Rightarrow> ustr" where
  "line_text l = command_text (fst l) @ concat (map (\<lambda>(s, c). s # command_text c) (snd l))"

definition line_commands :: "spelled_line \<Rightarrow> spelled_command list" where
  "line_commands l = fst l # map snd (snd l)"

definition line_ok :: "spelled_line \<Rightarrow> bool" where
  "line_ok l \<longleftrightarrow> (\<forall>c \<in> set (line_commands l). command_ok c) \<and> (\<forall>(s, c) \<in> set (snd l). s \<in> set separators)"

lemma separators_simps [simp]: "39 \<notin> set separators" "34 \<notin> set separators" "92 \<notin> set separators"
  by (simp_all add: separators_def)

lemma quotes_not_white [simp]: "\<not> is_whitespace 39" "\<not> is_whitespace 34" "\<not> is_whitespace 92"
  by (simp_all add: is_whitespace_def)

lemma words_single:
  "39 \<notin> set s \<Longrightarrow> words_loop (s @ 39 # rest) cmds w b (Some 39) = words_loop rest cmds (w @ s) b None"
  by (induction s arbitrary: w) auto

lemma words_double:
  "list_all dq_ok ds \<Longrightarrow>
   words_loop (concat (map dq_text ds) @ 34 # rest) cmds w b (Some 34) = words_loop rest cmds (w @ map dq_value ds) b None"
proof (induction ds arbitrary: w)
  case (Cons d ds)
  then show ?case by (cases d) auto
qed simp

lemma words_piece:
  assumes "piece_ok p"
  shows "words_loop (piece_text p @ rest) cmds w b None = words_loop rest cmds (w @ piece_value p) True None"
  using assms words_single[of _ rest cmds w True] words_double[of _ rest cmds w True]
  by (cases p) auto

lemma words_word:
  "list_all piece_ok ps \<Longrightarrow>
   words_loop (word_text ps @ rest) cmds w b None = words_loop rest cmds (w @ word_value ps) (b \<or> ps \<noteq> []) None"
proof (induction ps arbitrary: w b)
  case (Cons p ps)
  then show ?case using words_piece[of p "word_text ps @ rest" cmds w b] by (simp add: word_text_def word_value_def)
qed (simp add: word_text_def word_value_def)

text \<open>The state between words: nothing is under way, or one word is.\<close>

definition ended :: "ustr list list \<Rightarrow> ustr \<Rightarrow> bool \<Rightarrow> ustr list list" where
  "ended cmds w b = (if b then butlast cmds @ [last cmds @ [w]] else cmds)"

lemma end_word_ended: "b \<or> w = [] \<Longrightarrow> end_word cmds w b = (ended cmds w b, [])"
  by (auto simp: end_word_def ended_def)

lemma words_blanks:
  assumes "b \<or> w = []" and "list_all blank g" and "g \<noteq> []"
  shows "words_loop (g @ rest) cmds w b None = words_loop rest (ended cmds w b) [] False None"
proof -
  have blanks: "list_all blank g \<Longrightarrow> words_loop (g @ rest) c [] False None = words_loop rest c [] False None" for g c
  proof (induction g)
    case (Cons x g)
    then have "x \<noteq> 39" "x \<noteq> 34" "x \<noteq> 92" "x \<notin> set separators" "is_whitespace x"
      by (auto simp: blank_def is_whitespace_def)
    then show ?case using Cons by (simp add: end_word_def)
  qed simp
  obtain x g' where g: "g = x # g'" using assms(3) by (cases g) auto
  then have "x \<noteq> 39" "x \<noteq> 34" "x \<noteq> 92" "x \<notin> set separators" "is_whitespace x" "list_all blank g'"
    using assms(2) by (auto simp: blank_def is_whitespace_def)
  then show ?thesis using g blanks[of g' "ended cmds w b"] end_word_ended[OF assms(1)] by simp
qed

lemma ended_snoc: "ended (pre @ [ws]) w b = pre @ [ws @ (if b then [w] else [])]"
  by (simp add: ended_def)

lemma words_command:
  assumes "\<forall>(g, w) \<in> set cs. list_all blank g \<and> w \<noteq> [] \<and> list_all piece_ok w" and "\<forall>(g, w) \<in> set cs. g \<noteq> []"
    and "b \<or> w = []"
  shows "\<exists>ws' w' b'. (b' \<or> w' = []) \<and>
    words_loop (command_text cs @ rest) (pre @ [ws]) w b None = words_loop rest (pre @ [ws']) w' b' None \<and>
    ws' @ (if b' then [w'] else []) = ws @ (if b then [w] else []) @ command_value cs"
  using assms
proof (induction cs arbitrary: ws w b)
  case Nil
  then show ?case
    by (intro exI[of _ ws] exI[of _ w] exI[of _ b]) (auto simp: command_text_def command_value_def)
next
  case (Cons gv cs)
  obtain g v where gv: "gv = (g, v)" by (cases gv)
  let ?ws = "ws @ (if b then [w] else [])"
  have ok: "list_all blank g" "g \<noteq> []" "v \<noteq> []" "list_all piece_ok v" using Cons.prems(1,2) gv by auto
  have "command_text (gv # cs) @ rest = g @ word_text v @ command_text cs @ rest"
    by (simp add: gv command_text_def)
  then have "words_loop (command_text (gv # cs) @ rest) (pre @ [ws]) w b None =
      words_loop (command_text cs @ rest) (pre @ [?ws]) (word_value v) True None"
    using words_blanks[OF Cons.prems(3) ok(1,2)] words_word[OF ok(4)] ok(3) by (simp add: ended_snoc)
  moreover from Cons.IH[of True "word_value v" ?ws] Cons.prems(1,2)
  obtain ws' w' b' where "b' \<or> w' = []"
    "words_loop (command_text cs @ rest) (pre @ [?ws]) (word_value v) True None = words_loop rest (pre @ [ws']) w' b' None"
    "ws' @ (if b' then [w'] else []) = ?ws @ [word_value v] @ command_value cs" by auto
  ultimately show ?case
    by (intro exI[of _ ws'] exI[of _ w'] exI[of _ b']) (simp add: gv command_value_def)
qed

lemma words_first:
  assumes "command_ok cs"
  shows "\<exists>ws' w' b'. (b' \<or> w' = []) \<and>
    words_loop (command_text cs @ rest) (pre @ [[]]) [] False None = words_loop rest (pre @ [ws']) w' b' None \<and>
    ws' @ (if b' then [w'] else []) = command_value cs"
proof (cases "\<exists>v vs. cs = ([], v) # vs")
  case True
  then obtain v vs where cs: "cs = ([], v) # vs" by blast
  then have ok: "v \<noteq> []" "list_all piece_ok v" "\<forall>(g, w) \<in> set vs. list_all blank g \<and> w \<noteq> [] \<and> list_all piece_ok w"
    "\<forall>(g, w) \<in> set vs. g \<noteq> []" using assms by (auto simp: command_ok_def)
  have "command_text cs @ rest = word_text v @ command_text vs @ rest" by (simp add: cs command_text_def)
  then have "words_loop (command_text cs @ rest) (pre @ [[]]) [] False None =
      words_loop (command_text vs @ rest) (pre @ [[]]) (word_value v) True None"
    using words_word[OF ok(2)] ok(1) by simp
  moreover have "command_value cs = word_value v # command_value vs" by (simp add: cs command_value_def)
  ultimately show ?thesis using words_command[OF ok(3,4), of True "word_value v" rest pre "[]"] by simp
next
  case False
  have "\<forall>(g, w) \<in> set cs. g \<noteq> []"
  proof (cases cs)
    case (Cons gv vs)
    then show ?thesis using False assms by (cases gv) (auto simp: command_ok_def)
  qed simp
  then show ?thesis
    using words_command[of cs False "[]" rest pre "[]"] assms by (simp add: command_ok_def)
qed

lemma words_line:
  "command_ok c \<Longrightarrow> \<forall>(s, c) \<in> set others. s \<in> set separators \<and> command_ok c \<Longrightarrow>
   words_loop (command_text c @ concat (map (\<lambda>(s, c). s # command_text c) others)) (pre @ [[]]) [] False None =
     pre @ command_value c # map (\<lambda>(s, c). command_value c) others"
proof (induction others arbitrary: pre c)
  case Nil
  from words_first[OF Nil(1), of "[]" pre] obtain ws' w' b' where
    "b' \<or> w' = []" "words_loop (command_text c) (pre @ [[]]) [] False None = words_loop [] (pre @ [ws']) w' b' None"
    "ws' @ (if b' then [w'] else []) = command_value c" by auto
  then show ?case using end_word_ended[of b' w' "pre @ [ws']"] by (simp add: ended_snoc)
next
  case (Cons sc others)
  obtain s d where sc: "sc = (s, d)" by (cases sc)
  have s: "s \<in> set separators" "command_ok d" using Cons.prems(2) sc by auto
  then have plain: "s \<noteq> 39" "s \<noteq> 34" "s \<noteq> 92" by (auto simp: separators_def)
  from words_first[OF Cons.prems(1), of "s # command_text d @ concat (map (\<lambda>(s, c). s # command_text c) others)" pre]
  obtain ws' w' b' where st: "b' \<or> w' = []" "ws' @ (if b' then [w'] else []) = command_value c"
    "words_loop (command_text c @ s # command_text d @ concat (map (\<lambda>(s, c). s # command_text c) others)) (pre @ [[]]) [] False None =
     words_loop (s # command_text d @ concat (map (\<lambda>(s, c). s # command_text c) others)) (pre @ [ws']) w' b' None" by auto
  have "words_loop (s # command_text d @ concat (map (\<lambda>(s, c). s # command_text c) others)) (pre @ [ws']) w' b' None =
      words_loop (command_text d @ concat (map (\<lambda>(s, c). s # command_text c) others)) ((pre @ [command_value c]) @ [[]]) [] False None"
    using plain s(1) end_word_ended[OF st(1), of "pre @ [ws']"] st(2) by (simp add: ended_snoc)
  then show ?case
    using Cons.IH[OF s(2), of "pre @ [command_value c]"] Cons.prems(2) st(3) sc by simp
qed

lemma simple_commands_line:
  assumes "line_ok l"
  shows "simple_commands (line_text l) = filter (\<lambda>ws. ws \<noteq> []) (map command_value (line_commands l))"
proof -
  have "words_loop (line_text l) ([] @ [[]]) [] False None =
      [] @ command_value (fst l) # map (\<lambda>(s, c). command_value c) (snd l)"
    unfolding line_text_def
    by (rule words_line) (use assms in \<open>auto simp: line_ok_def line_commands_def\<close>)
  moreover have "map (\<lambda>(s, c). command_value c) (snd l) = map command_value (map snd (snd l))" by auto
  ultimately show ?thesis by (simp add: simple_commands_def line_commands_def)
qed

section \<open>A forced push of main\<close>

fun git_options :: "ustr list \<Rightarrow> bool" where
  "git_options [] = True"
| "git_options (w # ws) =
     (if git_valued w then (case ws of [] \<Rightarrow> False | v # ws' \<Rightarrow> git_options ws')
      else starts_with ''-'' w \<and> git_options ws)"

text \<open>
  The arguments of \<open>push\<close>: an option without a value, an option with one (by its name, or a cluster of short options
  that ends in \<open>o\<close>), or a remote or refspec.
\<close>

datatype push_argument = Flag ustr | Valued ustr ustr | Place ustr

fun argument_words :: "push_argument \<Rightarrow> ustr list" where
  "argument_words (Flag f) = [f]"
| "argument_words (Valued f v) = [f, v]"
| "argument_words (Place x) = [x]"

definition short_cluster :: "ustr \<Rightarrow> bool" where
  "short_cluster f \<longleftrightarrow> starts_with ''-'' f \<and> \<not> starts_with ''--'' f"

fun argument_ok :: "push_argument \<Rightarrow> bool" where
  "argument_ok (Flag f) \<longleftrightarrow> starts_with ''-'' f \<and> f \<noteq> lit ''--'' \<and> \<not> push_valued f \<and> (starts_with ''--'' f \<or> last f \<noteq> 111)"
| "argument_ok (Valued f v) \<longleftrightarrow> push_valued f \<or> (short_cluster f \<and> last f = 111)"
| "argument_ok (Place x) \<longleftrightarrow> \<not> starts_with ''-'' x"

fun forcing :: "push_argument \<Rightarrow> bool" where
  "forcing (Flag f) \<longleftrightarrow> f = lit ''--force'' \<or> starts_with ''--force-with-lease'' f \<or> (short_cluster f \<and> 102 \<in> set f)"
| "forcing (Valued f v) \<longleftrightarrow> short_cluster f \<and> 102 \<in> set f"
| "forcing (Place x) \<longleftrightarrow> False"

definition places :: "push_argument list \<Rightarrow> ustr list" where
  "places as = concat (map (\<lambda>a. case a of Place x \<Rightarrow> [x] | _ \<Rightarrow> []) as)"

definition names_main :: "ustr \<Rightarrow> bool" where
  "names_main r \<longleftrightarrow> after_last 58 r = lit ''main'' \<or> after_last 58 r = lit ''refs/heads/main''"

text \<open>
  The words of a command that pushes \<open>main\<close> with force: words before \<open>git\<close> of which none names it,
  \<open>git\<close>, which may be a path, git's own options, \<open>push\<close>, and its arguments in any order, a forcing option before,
  between or after the remote and the refspecs, and perhaps \<open>--\<close> and what follows it. The first place is the remote;
  one of the others names \<open>main\<close>, and an option or its own plus sign forces it.
\<close>

definition forced_push :: "ustr list \<Rightarrow> bool" where
  "forced_push ws \<longleftrightarrow>
     (\<exists>pre prog opts as ending more r.
        ws = pre @ prog # opts @ lit ''push'' # concat (map argument_words as) @ ending \<and>
        (ending = [] \<and> more = [] \<or> ending = lit ''--'' # more) \<and>
        (\<forall>p \<in> set pre. after_last 47 p \<noteq> lit ''git'') \<and> after_last 47 prog = lit ''git'' \<and>
        git_options opts \<and> (\<forall>a \<in> set as. argument_ok a) \<and> r \<in> set (drop 1 (places as @ more)) \<and>
        ((\<exists>a \<in> set as. forcing a) \<and> names_main r \<or> (\<exists>r'. r = 43 # r' \<and> names_main r')))"

lemma lit_words [simp]:
  "lit ''push'' = [112, 117, 115, 104]" "lit ''-'' = [45]" "lit ''--'' = [45, 45]" "lit ''-f'' = [45, 102]"
  "lit ''--force'' = [45, 45, 102, 111, 114, 99, 101]"
  "lit ''main'' = [109, 97, 105, 110]" "lit ''git'' = [103, 105, 116]"
  "lit ''--force-with-lease'' = [45, 45, 102, 111, 114, 99, 101, 45, 119, 105, 116, 104, 45, 108, 101, 97, 115, 101]"
  "lit ''refs/heads/main'' = [114, 101, 102, 115, 47, 104, 101, 97, 100, 115, 47, 109, 97, 105, 110]"
  by (simp_all add: lit_def of_char_def)

lemma position_first: "\<forall>x \<in> set xs. \<not> p x \<Longrightarrow> p y \<Longrightarrow> position p (xs @ y # ys) = Some (length xs)"
  by (induction xs) auto

lemma subcommand_push: "git_options opts \<Longrightarrow>
    subcommand git_valued (starts_with ''-'') (opts @ lit ''push'' # rest) = Some (lit ''push'', rest)"
proof (induction opts rule: git_options.induct)
  case 1
  show ?case by (simp add: git_valued_def lit_def of_char_def starts_with_def)
next
  case (2 w ws)
  then show ?case by (auto split: if_splits list.splits)
qed

lemma not_an_option:
  assumes "\<not> starts_with ''-'' x"
  shows "x \<noteq> lit ''--''" "x \<noteq> lit ''-f''" "x \<noteq> lit ''--force''" "\<not> starts_with ''--'' x" "\<not> starts_with ''--force-with-lease'' x"
    "\<not> push_valued x"
  using assms by (auto simp: starts_with_def prefix_def push_valued_def lit_def of_char_def)

lemma valued_options:
  assumes "push_valued f"
  shows "f \<noteq> lit ''--''" "f \<noteq> lit ''-f''" "f \<noteq> lit ''--force''" "\<not> starts_with ''--force-with-lease'' f"
    "\<not> (short_cluster f \<and> 102 \<in> set f)"
  using assms by (auto simp: push_valued_def starts_with_def short_cluster_def prefix_def lit_def of_char_def)

lemma push_argument:
  assumes "argument_ok a"
  shows "push_loop (argument_words a @ rest) force pos = push_loop rest (force \<or> forcing a) (pos @ places [a])"
proof (cases a)
  case (Flag f)
  then have f: "starts_with ''-'' f" "f \<noteq> lit ''--''" "\<not> push_valued f" "starts_with ''--'' f \<or> last f \<noteq> 111" using assms by auto
  then have "f \<noteq> []" by (auto simp: starts_with_def)
  then show ?thesis using Flag f by (auto simp: short_cluster_def starts_with_def places_def)
next
  case (Valued f v)
  show ?thesis
  proof (cases "push_valued f")
    case True
    then show ?thesis using Valued valued_options[OF True] by (auto simp: places_def simp del: lit_words)
  next
    case False
    then have f: "short_cluster f" "last f = 111" using assms Valued by auto
    then have "f \<noteq> []" "f \<noteq> lit ''--''" "f \<noteq> lit ''--force''" "f \<noteq> lit ''-f''" "\<not> starts_with ''--force-with-lease'' f"
      by (auto simp: short_cluster_def starts_with_def prefix_def)
    then show ?thesis using Valued f False by (simp add: short_cluster_def places_def del: lit_words)
  qed
next
  case (Place x)
  then show ?thesis using not_an_option[of x] assms by (simp add: places_def del: lit_words)
qed

lemma push_arguments: "\<forall>a \<in> set as. argument_ok a \<Longrightarrow>
    push_loop (concat (map argument_words as) @ rest) force pos = push_loop rest (force \<or> (\<exists>a \<in> set as. forcing a)) (pos @ places as)"
proof (induction as arbitrary: force pos)
  case (Cons a as)
  have "places (a # as) = places [a] @ places as" by (simp add: places_def)
  then show ?case using Cons push_argument[of a "concat (map argument_words as) @ rest" force pos] by simp
qed (simp add: places_def)

lemma after_last_Cons: "after_last c (x # w) = (if c \<in> set w then after_last c w else if x = c then w else x # w)"
proof (cases "c \<in> set w")
  case True
  then have "\<exists>y \<in> set (rev w). \<not> y \<noteq> c" by simp
  then show ?thesis using True by (simp add: after_last_def takeWhile_append1)
next
  case False
  then have "takeWhile (\<lambda>y. y \<noteq> c) (rev w @ [x]) = rev w @ takeWhile (\<lambda>y. y \<noteq> c) [x]"
    by (intro takeWhile_append2) auto
  then show ?thesis using False by (simp add: after_last_def)
qed

lemma after_last_Nil: "after_last c [] = []"
  by (simp add: after_last_def)

lemma forced_push_forces: "forced_push ws \<Longrightarrow> forces_main ws"
proof -
  assume "forced_push ws"
  then obtain pre prog opts as ending more r where
    ws: "ws = pre @ prog # opts @ lit ''push'' # concat (map argument_words as) @ ending"
    and ending: "ending = [] \<and> more = [] \<or> ending = lit ''--'' # more"
    and pre: "\<forall>p \<in> set pre. after_last 47 p \<noteq> lit ''git''" "after_last 47 prog = lit ''git''"
    and o: "git_options opts" and ok: "\<forall>a \<in> set as. argument_ok a"
    and r: "r \<in> set (drop 1 (places as @ more))" "(\<exists>a \<in> set as. forcing a) \<and> names_main r \<or> (\<exists>r'. r = 43 # r' \<and> names_main r')"
    unfolding forced_push_def by blast
  let ?rest = "concat (map argument_words as) @ ending"
  have "position (\<lambda>w. after_last 47 w = lit ''git'') ws = Some (length pre)"
    unfolding ws by (rule position_first) (use pre in auto)
  then have "arguments_of ws ''git'' = Some (opts @ lit ''push'' # ?rest)" by (simp add: arguments_of_def ws)
  moreover have "push_loop ?rest False [] = ((\<exists>a \<in> set as. forcing a), places as @ more)"
    using push_arguments[OF ok, of ending False "[]"] ending by auto
  moreover have "forces (\<exists>a \<in> set as. forcing a) r"
    using r(2) by (auto simp: forces_def names_main_def strip_prefix_def prefix_def after_last_Cons split: if_splits)
  ultimately show ?thesis using subcommand_push[OF o] r(1)
    by (auto simp: forces_main_def list_ex_iff simp del: lit_words)
qed

section \<open>A direct publish\<close>

fun cargo_options :: "ustr list \<Rightarrow> bool" where
  "cargo_options [] = True"
| "cargo_options (w # ws) =
     (if cargo_valued w then (case ws of [] \<Rightarrow> False | v # ws' \<Rightarrow> cargo_options ws')
      else (starts_with ''-'' w \<or> starts_with ''+'' w) \<and> cargo_options ws)"

text \<open>The words of a command that publishes: words before \<open>cargo\<close> of which none names it, \<open>cargo\<close>, which may be a
  path, its options and toolchain, and \<open>publish\<close>.\<close>

definition publishes :: "ustr list \<Rightarrow> bool" where
  "publishes ws \<longleftrightarrow>
     (\<exists>pre prog opts rest. ws = pre @ prog # opts @ lit ''publish'' # rest \<and>
        (\<forall>p \<in> set pre. after_last 47 p \<noteq> lit ''cargo'') \<and> after_last 47 prog = lit ''cargo'' \<and> cargo_options opts)"

lemma subcommand_publish: "cargo_options opts \<Longrightarrow>
    subcommand cargo_valued (\<lambda>w. starts_with ''-'' w \<or> starts_with ''+'' w) (opts @ lit ''publish'' # rest) = Some (lit ''publish'', rest)"
proof (induction opts rule: cargo_options.induct)
  case 1
  show ?case by (simp add: cargo_valued_def lit_def of_char_def starts_with_def)
next
  case (2 w ws)
  then show ?case by (auto split: if_splits list.splits)
qed

lemma publishes_gated: "publishes ws \<Longrightarrow> cargo_publish ws"
proof -
  assume "publishes ws"
  then obtain pre prog opts rest where ws: "ws = pre @ prog # opts @ lit ''publish'' # rest"
    and pre: "\<forall>p \<in> set pre. after_last 47 p \<noteq> lit ''cargo''" "after_last 47 prog = lit ''cargo''" and o: "cargo_options opts"
    unfolding publishes_def by blast
  have "position (\<lambda>w. after_last 47 w = lit ''cargo'') ws = Some (length pre)"
    unfolding ws by (rule position_first) (use pre in auto)
  then have "arguments_of ws ''cargo'' = Some (opts @ lit ''publish'' # rest)" by (simp add: arguments_of_def ws)
  then show ?thesis using subcommand_publish[OF o, of rest] by (simp add: cargo_publish_def)
qed

text \<open>What the built-in gates make of a line.\<close>

lemma gated_line:
  assumes "aq_command req = Some (line_text l)" and "line_ok l"
  shows "command_gate req =
    (if \<exists>c \<in> set (line_commands l). forces_main (command_value c) then Some (Deny, FORCE_PUSH_MAIN)
     else if \<exists>c \<in> set (line_commands l). cargo_publish (command_value c) then Some (AskOwner, CARGO_PUBLISH) else None)"
proof -
  have nonempty: "list_ex P (simple_commands (line_text l)) \<longleftrightarrow> (\<exists>c \<in> set (line_commands l). P (command_value c))"
    if "\<not> P []" for P
    unfolding simple_commands_line[OF assms(2)] list_ex_iff using that by (simp, metis)
  have "\<not> forces_main []" "\<not> cargo_publish []" by (simp_all add: forces_main_def cargo_publish_def arguments_of_def)
  note nonempty[of forces_main, OF this(1)] nonempty[of cargo_publish, OF this(2)]
  then show ?thesis using assms(1) by (simp add: command_gate_def Let_def)
qed

section \<open>The gates as one interface\<close>

text \<open>What every gate of the server keeps: a yes is never against the policy's decision.\<close>

locale approval_gate =
  fixes approve :: "'w gate" and mode :: approval_mode
  assumes yes_permitted: "approve req w = (Inr True, w') \<Longrightarrow> decide mode req \<noteq> Deny"
begin

lemma run_permitted:
  assumes "canonical h" and "tp_approve ports = approve"
    and "run_turn (traced_runtime rt) (traced_ports ports) prompt h (w, []) = (r, h', w', tr)"
    and "Executed name args ctx \<in> set tr"
  shows "\<exists>req tool. decide mode req \<noteq> Deny \<and> get_tool (ar_tools rt) name = Some tool \<and>
    t_risk tool args = Inr (aq_risk req) \<and> t_command tool args = aq_command req"
proof -
  obtain pre suf where "tr = pre @ Executed name args ctx # suf" using assms(4) by (meson split_list)
  from executed_was_granted[OF assms(1,3) this] show ?thesis using yes_permitted assms(2) by metis
qed

lemma never_forced:
  assumes "canonical h" and "tp_approve ports = approve"
    and "run_turn (traced_runtime rt) (traced_ports ports) prompt h (w, []) = (r, h', w', tr)"
    and "get_tool (ar_tools rt) name = Some tool" and "t_command tool args = Some (line_text l)"
    and "line_ok l" and "c \<in> set (line_commands l)" and "forced_push (command_value c)"
  shows "Executed name args ctx \<notin> set tr"
proof
  assume "Executed name args ctx \<in> set tr"
  from run_permitted[OF assms(1-3) this] obtain req where req: "decide mode req \<noteq> Deny"
    "aq_command req = Some (line_text l)" using assms(4,5) by auto
  have "forces_main (command_value c)" by (rule forced_push_forces[OF assms(8)])
  then have "decide mode req = Deny" using gated_line[OF req(2) assms(6)] assms(7) by (auto simp: decide_def)
  then show False using req(1) by blast
qed

end

interpretation client_gate: approval_gate "protocol_approve mode at_client confirmer meta draw send wait" mode
  for mode at_client confirmer meta draw send wait
  by unfold_locales (auto simp: protocol_approve_def)

interpretation background_gate: approval_gate "unattended_approve mode all confirmer" mode for mode all confirmer
  by unfold_locales (auto simp: unattended_approve_def)

interpretation workbench_gate: approval_gate "policy_first_approve mode attended confirmer" mode
  for mode attended confirmer
  by unfold_locales (auto simp: policy_first_approve_def)

section \<open>A sample\<close>

text \<open>\<open>cd x; env "git" push origin 'main' \<backslash>-f\<close>, as an agent's tool would run it.\<close>

definition bare :: "string \<Rightarrow> spelled" where
  "bare s = map Bare (lit s)"

definition sample_push :: spelled_command where
  "sample_push = [([32], bare ''env''), ([32], [Double (map DPlain (lit ''git''))]), ([32], bare ''push''),
         ([32], bare ''origin''), ([32], [Single (lit ''main'')]), ([32], Escaped 45 # bare ''f'')]"

definition sample_line :: spelled_line where
  "sample_line = ([([], bare ''cd''), ([32], bare ''x'')], [(59, sample_push)])"

lemma sample_line_ok: "line_ok sample_line" "sample_push \<in> set (line_commands sample_line)"
  by (simp_all add: line_ok_def sample_line_def line_commands_def sample_push_def command_ok_def bare_def lit_def of_char_def
      blank_def is_whitespace_def separators_def)

lemma sample_names_main: "names_main (lit ''main'')"
  by (simp add: names_main_def after_last_Cons after_last_Nil)

lemma sample_push_forced: "forced_push (command_value sample_push)"
  unfolding forced_push_def
proof (intro exI conjI)
  let ?as = "[Place (lit ''origin''), Place (lit ''main''), Flag (lit ''-f'')]"
  show "command_value sample_push = [lit ''env''] @ lit ''git'' # [] @ lit ''push'' # concat (map argument_words ?as) @ []"
    by (simp add: sample_push_def command_value_def word_value_def bare_def lit_def of_char_def)
  show "[] = [] \<and> [] = [] \<or> [] = lit ''--'' # []" by simp
  show "lit ''main'' \<in> set (drop 1 (places ?as @ []))" by (simp add: places_def)
  show "(\<exists>a \<in> set ?as. forcing a) \<and> names_main (lit ''main'') \<or> (\<exists>r'. lit ''main'' = 43 # r' \<and> names_main r')"
    using sample_names_main by (simp add: short_cluster_def starts_with_def)
qed (simp_all add: push_valued_def starts_with_def after_last_Cons after_last_Nil lit_def of_char_def)

section \<open>The properties of the gates\<close>

text \<open>
  C17. No turn force-pushes \<open>main\<close> in plain spelling. In a turn whose gate is the client's, a background job's or the
  workbench's, under any policy and whoever answers, no tool runs that says its command is a line in which some simple
  command is \<open>git push\<close> forcing \<open>main\<close>: a forcing option anywhere among the arguments, or a plus sign before the
  refspec, and a refspec after the remote whose destination is \<open>main\<close>. The line's words may be quoted or
  escaped in any way but by a backslash and a line break or, in double quotes, a backslash before what it does not escape
  there; any words may stand before \<open>git\<close> that do not themselves name it, and any path and git options around it. A
  shell the command runs (\<open>bash -c\<close>, a script), an expansion, and a push that names no refspec are not plain
  spellings.
\<close>

theorem no_turn_forces_main:
  assumes "canonical h"
    and "tp_approve ports \<in> {protocol_approve mode at_client cf meta draw send wait, unattended_approve mode all cf,
           policy_first_approve mode attended cf}"
    and "run_turn (traced_runtime rt) (traced_ports ports) prompt h (w, []) = (r, h', w', tr)"
    and "get_tool (ar_tools rt) name = Some tool" and "t_command tool args = Some (line_text l)"
    and "line_ok l" and "c \<in> set (line_commands l)" and "forced_push (command_value c)"
  shows "Executed name args ctx \<notin> set tr"
proof -
  consider "tp_approve ports = protocol_approve mode at_client cf meta draw send wait"
    | "tp_approve ports = unattended_approve mode all cf" | "tp_approve ports = policy_first_approve mode attended cf"
    using assms(2) by blast
  then show ?thesis
  proof cases
    case 1
    then show ?thesis by (rule client_gate.never_forced[OF assms(1) _ assms(3-8)])
  next
    case 2
    then show ?thesis by (rule background_gate.never_forced[OF assms(1) _ assms(3-8)])
  next
    case 3
    then show ?thesis by (rule workbench_gate.never_forced[OF assms(1) _ assms(3-8)])
  qed
qed

text \<open>An agent that tries it, in a session whose client answers yes to everything.\<close>

definition pushing_tool :: "nat broker_state tool" where
  "pushing_tool =
     \<lparr>t_spec = \<lparr>ts_name = ''echo'', ts_description = [], ts_parameters = []\<rparr>, t_risk = (\<lambda>_. Inr Process),
      t_summary = (\<lambda>_. Inr []), t_command = (\<lambda>_. Some (line_text sample_line)),
      t_execute = (\<lambda>args ctx w. Finished w (Inr (success [])) False None)\<rparr>"

definition pushing_runtime :: "nat broker_state agent_runtime" where
  "pushing_runtime =
     \<lparr>ar_complete = (\<lambda>req s. (Inr (sample_answer (bs_world s)), s\<lparr>bs_world := Suc (bs_world s)\<rparr>)),
      ar_tools = [(''echo'', pushing_tool)], ar_select = ar_select sample_runtime, ar_config = ar_config sample_runtime,
      ar_workspace = ''w'', ar_history_bytes = length\<rparr>"

definition yes_ports :: "nat broker_state turn_ports" where
  "yes_ports =
     \<lparr>tp_emit = (\<lambda>ev w. (Inr (), w)),
      tp_approve = protocol_approve PmAuto True None \<lparr>tm_request_id = ''r'', tm_session_id = ''s'', tm_turn_id = ''t''\<rparr>
        (\<lambda>w. (''id'', w)) (\<lambda>e w. (Inr (), w)) (\<lambda>i w. (Answered True, w)),
      tp_cancelled = (\<lambda>w. (False, w))\<rparr>"

theorem no_turn_forces_main_witness:
  "\<exists>r h' s' tr. run_turn (traced_runtime pushing_runtime) (traced_ports yes_ports) sample_prompt []
       (\<lparr>bs_pending = {}, bs_seq = 0, bs_workbench = True, bs_state = Working, bs_world = 0\<rparr>, []) = (r, h', s', tr) \<and>
     Executed ''echo'' ''x'' \<lparr>tx_call_id = ''c1'', tx_workspace = ''w'', tx_background_job = False, tx_job = None\<rparr> \<notin> set tr"
proof -
  let ?ctx = "\<lparr>tx_call_id = ''c1'', tx_workspace = ''w'', tx_background_job = False, tx_job = None\<rparr>"
  obtain r h' s' tr where
    run: "run_turn (traced_runtime pushing_runtime) (traced_ports yes_ports) sample_prompt []
       (\<lparr>bs_pending = {}, bs_seq = 0, bs_workbench = True, bs_state = Working, bs_world = 0\<rparr>, []) = (r, h', s', tr)"
    by (metis prod.exhaust)
  have "get_tool (ar_tools pushing_runtime) ''echo'' = Some pushing_tool" "t_command pushing_tool ''x'' = Some (line_text sample_line)"
    by (simp_all add: pushing_runtime_def get_tool_def pushing_tool_def)
  from no_turn_forces_main[OF _ _ run this sample_line_ok sample_push_forced, of PmAuto True None
      "\<lparr>tm_request_id = ''r'', tm_session_id = ''s'', tm_turn_id = ''t''\<rparr>"
      "\<lambda>w. (''id'', w)" "\<lambda>e w. (Inr (), w)" "\<lambda>i w. (Answered True, w)"]
  have "Executed ''echo'' ''x'' ?ctx \<notin> set tr" by (simp add: yes_ports_def)
  then show ?thesis using run by blast
qed

text \<open>\<open>env cargo +nightly publish\<close> after another command.\<close>

definition sample_publish :: spelled_command where
  "sample_publish = [([], bare ''env''), ([32], [Double (map DPlain (lit ''cargo''))]), ([32], bare ''+nightly''), ([32], bare ''publish'')]"

definition publish_line :: spelled_line where
  "publish_line = ([([], bare ''cd''), ([32], bare ''x'')], [(59, sample_publish)])"

lemma publish_line_ok: "line_ok publish_line" "sample_publish \<in> set (line_commands publish_line)"
  by (simp_all add: line_ok_def publish_line_def line_commands_def sample_publish_def command_ok_def bare_def lit_def of_char_def
      blank_def is_whitespace_def separators_def)

lemma sample_publishes: "publishes (command_value sample_publish)"
  unfolding publishes_def
proof (intro exI conjI)
  show "command_value sample_publish = [lit ''env''] @ lit ''cargo'' # [lit ''+nightly''] @ lit ''publish'' # []"
    by (simp add: sample_publish_def command_value_def word_value_def bare_def lit_def of_char_def)
qed (simp_all add: cargo_valued_def starts_with_def after_last_Cons after_last_Nil lit_def of_char_def)

lemma publish_not_forced: "\<not> (\<exists>c \<in> set (line_commands publish_line). forces_main (command_value c))"
  by (simp add: line_commands_def publish_line_def sample_publish_def command_value_def word_value_def bare_def forces_main_def
      arguments_of_def after_last_Cons after_last_Nil lit_def of_char_def)

definition publish_request :: approval_request where
  "publish_request = \<lparr>aq_call_id = ''c1'', aq_name = ''bash'', aq_risk = Process, aq_cwd = ''w'', aq_summary = [104],
     aq_command = Some (line_text publish_line)\<rparr>"

text \<open>What the owner makes of a question: without anyone to ask, no.\<close>

definition owner_answers :: "ustr \<Rightarrow> 'w asker option \<Rightarrow> 'w \<Rightarrow> (agent_error + bool) \<times> 'w" where
  "owner_answers q confirmer w =
     (case confirmer of None \<Rightarrow> (Inr False, w) | Some ask \<Rightarrow> (Inr (fst (ask q w)), snd (ask q w)))"

text \<open>
  C29. Only the owner lets a direct \<open>cargo publish\<close> through. Under any policy, for a request whose command is a line in
  which some simple command is a \<open>cargo publish\<close> (and none forces \<open>main\<close>), the gate of a background job, of the
  workbench and of a client that is not the owner's put one question to the owner, which says why and shows the call's
  summary, and answer what the owner answers: the client's blanket yes, the attended gate and the client are not asked,
  and where nobody can ask the owner the answer is no. At the owner's own client it is that client's prompt, with the
  reason before the summary.
\<close>

theorem publish_asks_owner:
  assumes "aq_command req = Some (line_text l)" and "line_ok l"
    and "c \<in> set (line_commands l)" and "publishes (command_value c)"
    and "\<not> (\<exists>c \<in> set (line_commands l). forces_main (command_value c))"
  defines "q \<equiv> CARGO_PUBLISH @ lit ''. An agent asks to run this:'' @ [10, 10] @ take 3000 (aq_summary req)"
  shows "unattended_approve mode all cf req w = owner_answers q cf w \<and>
    policy_first_approve mode attended cf req w = owner_answers q cf w \<and>
    protocol_approve mode False cf' meta draw send wait req s = owner_answers q cf' s \<and>
    protocol_approve mode True cf' meta draw send wait req s =
      ask_client meta draw send wait (req\<lparr>aq_summary := CARGO_PUBLISH @ lit ''. '' @ aq_summary req\<rparr>) s"
proof -
  have "cargo_publish (command_value c)" by (rule publishes_gated[OF assms(4)])
  then have gate: "command_gate req = Some (AskOwner, CARGO_PUBLISH)"
    using gated_line[OF assms(1,2)] assms(3,5) by auto
  then have decided: "decide mode req = AskOwner" by (simp add: decide_def)
  have "owner_question req = q" using gate by (simp add: owner_question_def q_def)
  then show ?thesis
    using decided gate by (simp add: unattended_approve_def policy_first_approve_def protocol_approve_def owner_answers_def
        ask_owner_question_def split_beta split: option.split)
qed

theorem publish_asks_owner_witness:
  "unattended_approve PmAuto True None publish_request (7::nat) = (Inr False, 7) \<and>
   unattended_approve PmAuto False (Some (\<lambda>q n. (q \<noteq> [], Suc n))) publish_request 0 = (Inr True, 1)"
proof -
  have "aq_command publish_request = Some (line_text publish_line)" by (simp add: publish_request_def)
  note asks = publish_asks_owner[OF this publish_line_ok sample_publishes publish_not_forced]
  show ?thesis
    using asks[THEN conjunct1, of PmAuto True None "7::nat"]
      asks[THEN conjunct1, of PmAuto False "Some (\<lambda>q n. (q \<noteq> [], Suc n))" 0]
    by (simp add: owner_answers_def)
qed

definition sample_request :: approval_request where
  "sample_request = \<lparr>aq_call_id = ''c1'', aq_name = ''bash'', aq_risk = Process, aq_cwd = ''w'', aq_summary = [], aq_command = None\<rparr>"

fun decision_rank :: "decision \<Rightarrow> nat" where
  "decision_rank Allow = 0"
| "decision_rank AskClient = 1"
| "decision_rank AskOwner = 2"
| "decision_rank Deny = 3"

text \<open>
  A stricter mode grants nothing more, for calls with effects. For a call that is not read-only,
  raising the policy's mode in the order of \<open>strictness\<close> never moves its decision towards being
  allowed, and what the built-in gates decide no mode changes. (For a read-only call it can:
  \<open>read-only\<close> allows what \<open>always\<close> asks about.)
\<close>

theorem stricter_grants_less:
  assumes "strictness mode \<le> strictness mode'" and "aq_risk req \<noteq> ReadOnly"
  shows "decision_rank (decide mode req) \<le> decision_rank (decide mode' req) \<and>
    (command_gate req \<noteq> None \<longrightarrow> decide mode req = decide mode' req)"
  using assms by (cases mode; cases mode') (auto simp: decide_def split: option.splits)

theorem stricter_grants_less_witness:
  "decision_rank (decide PmOnRisk sample_request) \<le> decision_rank (decide PmReadOnly sample_request)"
  using stricter_grants_less[of PmOnRisk PmReadOnly sample_request] by (simp add: sample_request_def)

text \<open>What the command gate misses: a wrapper's argument that is the word \<open>git\<close>, and a line
  continuation after \<open>git\<close>.\<close>

lemma wrapper_named_git_hides:
  "\<not> forces_main (map lit [''sudo'', ''-u'', ''git'', ''git'', ''push'', ''--force'', ''origin'', ''main''])"
  by (simp add: forces_main_def arguments_of_def after_last_Cons after_last_Nil git_valued_def starts_with_def
      lit_def of_char_def)

lemma continuation_hides:
  "\<not> list_ex forces_main (simple_commands (lit ''git '' @ [92, 10] @ lit '' push --force origin main''))"
  by (simp add: simple_commands_def separators_def is_whitespace_def end_word_def forces_main_def arguments_of_def
      after_last_Cons after_last_Nil git_valued_def starts_with_def lit_def of_char_def)

lemma read_only_wider_than_always:
  assumes "command_gate req = None" and "aq_risk req = ReadOnly"
  shows "strictness PmAlways < strictness PmReadOnly" and "decide PmAlways req = AskClient" and "decide PmReadOnly req = Allow"
  using assms by (simp_all add: decide_def)

end
