(* ===== verification/Confirm.thy ===== *)
theory Confirm
  imports Hub_Theorems
begin

text \<open>
  Yes/no questions to the owner in chat: \<open>confirm.rs\<close> of scv-server, over the hub of \<open>Hub\<close>.

  A question lives in three places: its entry, its place in the hub, and the channel the hub's answer
  comes back through (\<open>cf_answers\<close>). The task that follows it is \<open>cf_follow\<close>; its passes are
  operations, so they interleave with the bridge's and the asker's. Time and the drawn ID are
  arguments; an \<open>Instant\<close> is its milliseconds. Text is bytes, as the code only measures it.
\<close>

section \<open>State\<close>

datatype confirm_state = CsPending | CsYes | CsNo | CsExpired | CsWithdrawn | CsFailed

record confirm_info =
  ci_id :: string
  ci_state :: confirm_state
  ci_chat :: string
  ci_deadline :: nat

record entry =
  en_info :: confirm_info
  en_polled :: nat
  en_settled :: "nat option"

text \<open>The receiving end of the question's channel.\<close>

datatype answer_slot = Awaited | Given bool | Lost

record follower =
  fo_chat :: hub_origin
  fo_text :: string
  fo_sent :: bool

record confirmer =
  cf_hub :: hub
  cf_entries :: "(string \<times> entry) list"
  cf_answers :: "(string \<times> answer_slot) list"
  cf_follow :: "(string \<times> follower) list"

definition MAX_QUESTION_BYTES :: nat where "MAX_QUESTION_BYTES = 4 * 1024"
definition LEASE :: nat where "LEASE = 60 * 1000"
definition KEEP_SETTLED :: nat where "KEEP_SETTLED = 10 * 60 * 1000"
definition DEFAULT_CONFIRM_SECONDS :: nat where "DEFAULT_CONFIRM_SECONDS = 30 * 60"
definition MAX_CONFIRM_SECONDS :: nat where "MAX_CONFIRM_SECONDS = 4 * 60 * 60"

definition NO_ANSWER :: string where "NO_ANSWER = ''No answer, so stopped.''"
definition WITHDRAWN :: string where "WITHDRAWN = ''The question was withdrawn, so stopped.''"

definition new_confirmer :: "hub \<Rightarrow> confirmer" where
  "new_confirmer h = \<lparr>cf_hub = h, cf_entries = [], cf_answers = [], cf_follow = []\<rparr>"

definition question_text :: "string \<Rightarrow> nat \<Rightarrow> string" where
  "question_text q seconds =
     (let minutes = max (div_ceil seconds 60) 1;
          unit = (if minutes = 1 then ''minute'' else ''minutes'')
      in q @ [CHR 0x0A, CHR 0x0A] @ ''Reply yes or no. No answer in '' @ show_nat minutes @ '' '' @ unit @ '' counts as no.'')"

section \<open>Asking\<close>

definition prune_settled :: "nat \<Rightarrow> (string \<times> entry) list \<Rightarrow> (string \<times> entry) list" where
  "prune_settled now =
     filter (\<lambda>(_, e). case en_settled e of None \<Rightarrow> True | Some t \<Rightarrow> now - t < KEEP_SETTLED)"

text \<open>The owner's direct chat to ask in; \<open>owner_chat\<close> is the notify target.\<close>

definition confirm_chat :: "hub \<Rightarrow> string option \<Rightarrow> hub_origin option \<Rightarrow> string + hub_origin" where
  "confirm_chat h session owner_chat =
     (case (case Option.bind session (hub_session_origin h) of Some c \<Rightarrow> Some c | None \<Rightarrow> owner_chat) of
        None \<Rightarrow> Inl ''no owner chat to ask in: this work did not start in a chat, and no [notify] owner account (or the owner's last chat) is connected''
      | Some c \<Rightarrow>
          if is_mail_chat h (ho_component c)
          then Inl (ho_component c @ '' is a mail chat, which carries only mail and takes no questions'')
          else (case hub_owner h (ho_component c) of
                 Some (Some owner) \<Rightarrow>
                   if owner = ho_peer c then Inr c
                   else Inl (''only the account owner's direct chat can answer, and the chat on '' @ ho_component c @ '' is not it'')
               | Some None \<Rightarrow>
                   Inl (''only the account owner's direct chat can answer, and the chat on '' @ ho_component c @ '' is not it'')
               | None \<Rightarrow> Inl (ho_component c @ '' is not running'')))"

definition ask_in ::
  "string \<Rightarrow> string option \<Rightarrow> nat option \<Rightarrow> string \<Rightarrow> hub_origin option \<Rightarrow> nat \<Rightarrow> nat \<Rightarrow> confirmer \<Rightarrow>
     (string + confirm_info) \<times> confirmer" where
  "ask_in q session timeout_seconds qid owner_chat now unix_now s =
     (let q = trim_bytes q
      in if q = [] then (Inl ''the question is empty'', s)
         else if length q > MAX_QUESTION_BYTES
         then (Inl (''the question is longer than '' @ show_nat MAX_QUESTION_BYTES @ '' bytes''), s)
         else
           let seconds = max 1 (min MAX_CONFIRM_SECONDS
                 (case timeout_seconds of Some t \<Rightarrow> t | None \<Rightarrow> DEFAULT_CONFIRM_SECONDS))
           in case confirm_chat (cf_hub s) session owner_chat of
                Inl e \<Rightarrow> (Inl e, s)
              | Inr chat \<Rightarrow>
                  (case ask qid (ho_component chat) (ho_peer chat) (cf_hub s) of
                     (False, _) \<Rightarrow>
                       (Inl (''a question is already waiting for the owner's answer on '' @ ho_component chat), s)
                   | (True, h) \<Rightarrow>
                       let info = \<lparr>ci_id = qid, ci_state = CsPending, ci_chat = ho_component chat,
                                   ci_deadline = unix_now + seconds\<rparr>
                       in (Inr info,
                           s\<lparr>cf_hub := h,
                             cf_entries := AList.update qid \<lparr>en_info = info, en_polled = now, en_settled = None\<rparr>
                               (prune_settled now (cf_entries s)),
                             cf_answers := AList.update qid Awaited (cf_answers s),
                             cf_follow := AList.update qid
                               \<lparr>fo_chat = chat, fo_text = question_text q seconds, fo_sent = False\<rparr> (cf_follow s)\<rparr>)))"

definition confirm_status :: "string \<Rightarrow> nat \<Rightarrow> confirmer \<Rightarrow> (string + confirm_info) \<times> confirmer" where
  "confirm_status qid now s =
     (let kept = prune_settled now (cf_entries s)
      in case map_of kept qid of
           None \<Rightarrow>
             (Inl (''no question '' @ qid @ '' is known here; the daemon may have restarted since it was asked''),
              s\<lparr>cf_entries := kept\<rparr>)
         | Some e \<Rightarrow> (Inr (en_info e), s\<lparr>cf_entries := AList.update qid (e\<lparr>en_polled := now\<rparr>) kept\<rparr>))"

section \<open>Following a question\<close>

definition settle_question :: "string \<Rightarrow> confirm_state \<Rightarrow> nat \<Rightarrow> confirmer \<Rightarrow> confirmer" where
  "settle_question qid st now s =
     s\<lparr>cf_entries := modify qid
         (\<lambda>e. e\<lparr>en_info := (en_info e)\<lparr>ci_state := st\<rparr>, en_settled := Some now\<rparr>) (cf_entries s)\<rparr>"

definition stop_following :: "string \<Rightarrow> confirmer \<Rightarrow> confirmer" where
  "stop_following qid s = s\<lparr>cf_follow := AList.delete qid (cf_follow s)\<rparr>"

definition withdraw_question :: "string \<Rightarrow> confirmer \<Rightarrow> confirmer" where
  "withdraw_question qid s = s\<lparr>cf_hub := snd (withdraw qid (cf_hub s))\<rparr>"

text \<open>The daemon stops, at any of the places the task waits.\<close>

definition follow_cancelled :: "string \<Rightarrow> confirmer \<Rightarrow> confirmer" where
  "follow_cancelled qid s =
     (case map_of (cf_follow s) qid of None \<Rightarrow> s | Some f \<Rightarrow> stop_following qid (withdraw_question qid s))"

text \<open>The question goes to the bridge; \<open>stored\<close> says whether it was stored in time.\<close>

definition follow_sent :: "string \<Rightarrow> bool \<Rightarrow> nat \<Rightarrow> confirmer \<Rightarrow> confirmer" where
  "follow_sent qid stored now s =
     (case map_of (cf_follow s) qid of
        None \<Rightarrow> s
      | Some f \<Rightarrow>
          if fo_sent f then s
          else (case send_question qid (ho_component (fo_chat f)) (ho_peer (fo_chat f)) (fo_text f) stored (cf_hub s) of
                 (Inr _, h) \<Rightarrow> s\<lparr>cf_hub := h, cf_follow := AList.update qid (f\<lparr>fo_sent := True\<rparr>) (cf_follow s)\<rparr>
               | (Inl _, h) \<Rightarrow>
                   stop_following qid (settle_question qid CsFailed now (withdraw_question qid (s\<lparr>cf_hub := h\<rparr>)))))"

text \<open>A pass that finds the channel ready.\<close>

definition follow_answered :: "string \<Rightarrow> nat \<Rightarrow> confirmer \<Rightarrow> confirmer" where
  "follow_answered qid now s =
     (case map_of (cf_follow s) qid of
        None \<Rightarrow> s
      | Some f \<Rightarrow>
          if \<not> fo_sent f then s
          else (case map_of (cf_answers s) qid of
                 Some (Given yes) \<Rightarrow>
                   stop_following qid (settle_question qid (if yes then CsYes else CsNo) now s)
               | Some Lost \<Rightarrow> stop_following qid (settle_question qid CsFailed now s)
               | _ \<Rightarrow> s))"

definition overdue :: "string \<Rightarrow> nat \<Rightarrow> nat \<Rightarrow> confirmer \<Rightarrow> (confirm_state \<times> string) option" where
  "overdue qid now unix_now s =
     Option.bind (map_of (cf_entries s) qid) (\<lambda>e.
       if unix_now \<ge> ci_deadline (en_info e) then Some (CsExpired, NO_ANSWER)
       else if now - en_polled e \<ge> LEASE then Some (CsWithdrawn, WITHDRAWN)
       else None)"

text \<open>
  A pass after a tick; \<open>told\<close> says whether the closing notice was stored, or is none where the
  daemon stops before it is queued.
\<close>

definition follow_tick :: "string \<Rightarrow> nat \<Rightarrow> nat \<Rightarrow> bool option \<Rightarrow> confirmer \<Rightarrow> confirmer" where
  "follow_tick qid now unix_now told s =
     (case map_of (cf_follow s) qid of
        None \<Rightarrow> s
      | Some f \<Rightarrow>
          if \<not> fo_sent f then s
          else (case overdue qid now unix_now s of
                 None \<Rightarrow> s
               | Some (st, reply) \<Rightarrow>
                   (case withdraw qid (cf_hub s) of
                      (Settled, h) \<Rightarrow> s\<lparr>cf_hub := h\<rparr>
                    | (Unanswered, h) \<Rightarrow>
                        stop_following qid
                          (settle_question qid st now
                            (s\<lparr>cf_hub := (case told of
                                 None \<Rightarrow> h
                               | Some stored \<Rightarrow> snd (notify (ho_component (fo_chat f)) (ho_peer (fo_chat f)) reply stored h))\<rparr>))
                    | (Unsent, h) \<Rightarrow>
                        stop_following qid
                          (settle_question qid (if st = CsExpired then CsFailed else st) now (s\<lparr>cf_hub := h\<rparr>)))))"

section \<open>The bridge's side\<close>

text \<open>The bridge takes the question; \<open>give\<close> is the answer it hands on, or none if it drops it.\<close>

definition bridge_takes :: "string \<Rightarrow> string \<Rightarrow> nat \<Rightarrow> bool option \<Rightarrow> confirmer \<Rightarrow> confirmer" where
  "bridge_takes component peer sent_ms give s =
     (case take_question component peer sent_ms (cf_hub s) of
        (None, h) \<Rightarrow> s
      | (Some qid, h) \<Rightarrow>
          s\<lparr>cf_hub := h,
            cf_answers := AList.update qid (case give of Some yes \<Rightarrow> Given yes | None \<Rightarrow> Lost) (cf_answers s)\<rparr>)"

text \<open>The platform refuses the question's text, which drops its sender.\<close>

definition bridge_refused :: "string \<Rightarrow> string \<Rightarrow> confirmer \<Rightarrow> confirmer" where
  "bridge_refused component qid s =
     (if question_waiting (cf_hub s) component qid
      then s\<lparr>cf_hub := question_undelivered component qid (cf_hub s),
             cf_answers := AList.update qid Lost (cf_answers s)\<rparr>
      else s)"

section \<open>The asker\<close>

text \<open>
  \<open>ask_owner\<close>: each poll of the question is an element; the list ends where the wait is cancelled.
\<close>

fun owner_verdict :: "(string + confirm_info) list \<Rightarrow> bool" where
  "owner_verdict [] = False"
| "owner_verdict (Inl e # polls) = False"
| "owner_verdict (Inr info # polls) =
     (if ci_state info = CsPending then owner_verdict polls else ci_state info = CsYes)"

section \<open>The confirmer as a machine\<close>

text \<open>Everything else the hub does is \<open>CHub\<close>; only the confirmer asks and withdraws, and only the
  operations above take a question or drop its sender.\<close>

datatype confirm_op =
    CAsk string "string option" "nat option" string "hub_origin option" nat nat
  | CStatus string nat
  | CSent string bool nat
  | CAnswered string nat
  | CTick string nat nat "bool option"
  | CCancelled string
  | CTakes string string nat "bool option"
  | CRefused string string
  | CHub hub_op

fun elsewhere :: "hub_op \<Rightarrow> bool" where
  "elsewhere (HAsk q c p) = False"
| "elsewhere (HWithdraw q) = False"
| "elsewhere (HTake c p ms) = False"
| "elsewhere (HUndelivered c q) = False"
| "elsewhere op = True"

fun confirm_step :: "confirm_op \<Rightarrow> confirmer \<Rightarrow> confirmer" where
  "confirm_step (CAsk q session t qid oc now unix) s = snd (ask_in q session t qid oc now unix s)"
| "confirm_step (CStatus qid now) s = snd (confirm_status qid now s)"
| "confirm_step (CSent qid stored now) s = follow_sent qid stored now s"
| "confirm_step (CAnswered qid now) s = follow_answered qid now s"
| "confirm_step (CTick qid now unix told) s = follow_tick qid now unix told s"
| "confirm_step (CCancelled qid) s = follow_cancelled qid s"
| "confirm_step (CTakes c p ms give) s = bridge_takes c p ms give s"
| "confirm_step (CRefused c qid) s = bridge_refused c qid s"
| "confirm_step (CHub op) s = (if elsewhere op then s\<lparr>cf_hub := hub_step op (cf_hub s)\<rparr> else s)"

text \<open>What each operation tells: the hub's events, to whom a question was put and whose chat that was,
  and the answers handed on.\<close>

datatype confirm_event =
    HubDid q_event
  | Posed string string string "string option option" bool
  | Gave string bool

fun event_of :: "confirm_op \<Rightarrow> confirmer \<Rightarrow> confirm_event list" where
  "event_of (CAsk q session t qid oc now unix) s =
     (case (fst (ask_in q session t qid oc now unix s), confirm_chat (cf_hub s) session oc) of
        (Inr info, Inr c) \<Rightarrow>
          [Posed qid (ho_component c) (ho_peer c) (hub_owner (cf_hub s) (ho_component c))
             (is_mail_chat (cf_hub s) (ho_component c)),
           HubDid (Asked qid (ho_component c) (ho_peer c))]
      | _ \<Rightarrow> [])"
| "event_of (CTakes c p ms give) s =
     (case fst (take_question c p ms (cf_hub s)) of
        None \<Rightarrow> []
      | Some qid \<Rightarrow> HubDid (Taken qid c p ms) # (case give of Some yes \<Rightarrow> [Gave qid yes] | None \<Rightarrow> []))"
| "event_of (CHub op) s = (if elsewhere op then map HubDid (hub_event op (cf_hub s)) else [])"
| "event_of _ s = []"

fun confirm_trace :: "confirm_op list \<Rightarrow> confirmer \<Rightarrow> confirm_event list" where
  "confirm_trace [] s = []"
| "confirm_trace (op # ops) s = event_of op s @ confirm_trace ops (confirm_step op s)"

fun hub_did :: "confirm_event \<Rightarrow> q_event list" where
  "hub_did (HubDid e) = [e]"
| "hub_did _ = []"

definition hub_part :: "confirm_event list \<Rightarrow> q_event list" where
  "hub_part tr = concat (map hub_did tr)"

lemma hub_part_simps [simp]:
  "hub_part [] = []" "hub_part (a @ b) = hub_part a @ hub_part b" "hub_part (e # a) = hub_did e @ hub_part a"
  "hub_part (map HubDid es) = es"
proof -
  show "hub_part (map HubDid es) = es" by (induction es) (simp_all add: hub_part_def)
qed (simp_all add: hub_part_def)

lemma hub_part_mem: "e \<in> set (hub_part tr) \<longleftrightarrow> HubDid e \<in> set tr"
proof -
  have "e \<in> set (hub_did x) \<longleftrightarrow> x = HubDid e" for x by (cases x) auto
  then show ?thesis by (auto simp: hub_part_def)
qed

text \<open>The owner may be asked there: it is their direct chat, and no mail chat.\<close>

fun well_posed :: "confirm_event \<Rightarrow> bool" where
  "well_posed (Posed q c p ow inmail) \<longleftrightarrow> ow = Some (Some p) \<and> \<not> inmail"
| "well_posed _ \<longleftrightarrow> True"

definition posed_ok :: "confirm_event list \<Rightarrow> bool" where
  "posed_ok tr \<longleftrightarrow> list_all well_posed tr"

definition asked_posed :: "confirm_event list \<Rightarrow> bool" where
  "asked_posed tr \<longleftrightarrow> (\<forall>q c p. HubDid (Asked q c p) \<in> set tr \<longrightarrow> (\<exists>ow inmail. Posed q c p ow inmail \<in> set tr))"

definition answered_by_owner :: "string \<Rightarrow> bool \<Rightarrow> confirm_event list \<Rightarrow> bool" where
  "answered_by_owner q yes tr \<longleftrightarrow>
     (\<exists>pre post c p ms. tr = pre @ HubDid (Taken q c p ms) # Gave q yes # post)"

definition slots_ok :: "confirm_event list \<Rightarrow> confirmer \<Rightarrow> bool" where
  "slots_ok tr s \<longleftrightarrow> (\<forall>q yes. map_of (cf_answers s) q = Some (Given yes) \<longrightarrow> answered_by_owner q yes tr)"

definition entries_ok :: "confirm_event list \<Rightarrow> confirmer \<Rightarrow> bool" where
  "entries_ok tr s \<longleftrightarrow> (\<forall>(q, e) \<in> set (cf_entries s).
     (ci_state (en_info e) = CsYes \<longrightarrow> answered_by_owner q True tr) \<and>
     (ci_state (en_info e) = CsNo \<longrightarrow> answered_by_owner q False tr))"

definition confirm_ok :: "confirm_event list \<Rightarrow> confirmer \<Rightarrow> bool" where
  "confirm_ok tr s \<longleftrightarrow> asked_ok (hub_part tr) (cf_hub s) \<and> posed_ok tr \<and> asked_posed tr \<and> slots_ok tr s \<and> entries_ok tr s"

lemma answered_by_owner_more: "answered_by_owner q yes tr \<Longrightarrow> answered_by_owner q yes (tr @ tr')"
  unfolding answered_by_owner_def by fastforce

lemma posed_ok_simps [simp]: "posed_ok []" "posed_ok (a @ b) \<longleftrightarrow> posed_ok a \<and> posed_ok b" "posed_ok (map HubDid es)"
  "posed_ok (HubDid e # a) \<longleftrightarrow> posed_ok a" "posed_ok (Gave q y # a) \<longleftrightarrow> posed_ok a"
  "posed_ok (Posed q c p ow inmail # a) \<longleftrightarrow> ow = Some (Some p) \<and> \<not> inmail \<and> posed_ok a"
  by (auto simp: posed_ok_def list.pred_map list.pred_True comp_def)

lemma asked_posed_more:
  "asked_posed tr \<Longrightarrow> (\<And>q c p. HubDid (Asked q c p) \<in> set es \<Longrightarrow> \<exists>ow inmail. Posed q c p ow inmail \<in> set es) \<Longrightarrow>
   asked_posed (tr @ es)"
  unfolding asked_posed_def by (metis Un_iff set_append)

lemma slots_ok_more: "slots_ok tr s \<Longrightarrow> cf_answers s' = cf_answers s \<Longrightarrow> slots_ok (tr @ es) s'"
  by (auto simp: slots_ok_def answered_by_owner_more)

lemma entries_ok_more: "entries_ok tr s \<Longrightarrow> set (cf_entries s') \<subseteq> set (cf_entries s) \<Longrightarrow> entries_ok (tr @ es) s'"
  by (fastforce simp: entries_ok_def answered_by_owner_more)

lemma set_update_subset: "set (AList.update k v m) \<subseteq> insert (k, v) (set m)"
  by (induction m) auto

lemma set_modify_subset: "set (modify k f m) \<subseteq> set m \<union> {(k, f v) | v. (k, v) \<in> set m}"
  using set_update_subset[of k _ m] map_of_SomeD[of m k]
  by (fastforce simp: modify_def split: option.splits)

lemma entries_ok_settle:
  assumes "entries_ok tr s" and "st = CsYes \<Longrightarrow> answered_by_owner q True tr" and "st = CsNo \<Longrightarrow> answered_by_owner q False tr"
  shows "entries_ok tr (settle_question q st now s)"
  using assms set_modify_subset[of q "\<lambda>e. e\<lparr>en_info := (en_info e)\<lparr>ci_state := st\<rparr>, en_settled := Some now\<rparr>" "cf_entries s"]
  unfolding entries_ok_def settle_question_def by fastforce


lemma settle_frame [simp]:
  "cf_hub (settle_question q st now s) = cf_hub s" "cf_answers (settle_question q st now s) = cf_answers s"
  by (simp_all add: settle_question_def)

lemma stop_frame [simp]:
  "cf_hub (stop_following q s) = cf_hub s" "cf_answers (stop_following q s) = cf_answers s"
  "cf_entries (stop_following q s) = cf_entries s"
  by (simp_all add: stop_following_def)

lemma withdraw_frame [simp]:
  "cf_hub (withdraw_question q s) = hub_step (HWithdraw q) (cf_hub s)"
  "cf_answers (withdraw_question q s) = cf_answers s" "cf_entries (withdraw_question q s) = cf_entries s"
  by (simp_all add: withdraw_question_def)

text \<open>The three parts of the invariant that a quiet operation, one with no event, has to keep.\<close>

lemma confirm_ok_quiet:
  assumes "confirm_ok tr s" and "asked_ok (hub_part tr) (cf_hub s')" and "cf_answers s' = cf_answers s" and "entries_ok tr s'"
  shows "confirm_ok tr s'"
  using assms slots_ok_more[of tr s s' "[]"] by (simp add: confirm_ok_def)

lemma asked_ok_quiet:
  "asked_ok tr h \<Longrightarrow> hub_event op h = [] \<Longrightarrow> asked_ok tr (hub_step op h)"
  using asked_ok_step[of tr h op] by simp

lemma entries_ok_same: "entries_ok tr s \<Longrightarrow> cf_entries s' = cf_entries s \<Longrightarrow> entries_ok tr s'"
  by (simp add: entries_ok_def)

lemma confirm_ok_settle:
  assumes "confirm_ok tr s" and "st = CsYes \<Longrightarrow> answered_by_owner q True tr" and "st = CsNo \<Longrightarrow> answered_by_owner q False tr"
  shows "confirm_ok tr (stop_following q (settle_question q st now s))"
  using assms entries_ok_settle[of tr s st q now]
  by (intro confirm_ok_quiet[OF assms(1)]) (auto simp: confirm_ok_def intro: entries_ok_same)

lemma confirm_ok_hub:
  assumes "confirm_ok tr s" and "hub_event op (cf_hub s) = []"
  shows "confirm_ok tr (s\<lparr>cf_hub := hub_step op (cf_hub s)\<rparr>)"
  using assms by (intro confirm_ok_quiet[OF assms(1)]) (auto simp: confirm_ok_def asked_ok_quiet intro: entries_ok_same)

lemma confirm_ok_withdraw: "confirm_ok tr s \<Longrightarrow> confirm_ok tr (withdraw_question q s)"
  using confirm_ok_hub[of tr s "HWithdraw q"] by (simp add: withdraw_question_def)

lemma confirm_ok_follow: "confirm_ok tr s \<Longrightarrow> confirm_ok tr (s\<lparr>cf_follow := f\<rparr>)"
  by (auto simp: confirm_ok_def slots_ok_def entries_ok_def)

lemma confirm_ok_stop: "confirm_ok tr s \<Longrightarrow> confirm_ok tr (stop_following q s)"
  by (simp add: stop_following_def confirm_ok_follow)

lemma confirm_ok_sent:
  assumes "confirm_ok tr s"
  shows "confirm_ok tr (follow_sent q stored now s)"
proof (cases "map_of (cf_follow s) q")
  case (Some f)
  obtain r h where r: "send_question q (ho_component (fo_chat f)) (ho_peer (fo_chat f)) (fo_text f) stored (cf_hub s) = (r, h)"
    by fastforce
  have ok: "confirm_ok tr (s\<lparr>cf_hub := h\<rparr>)"
    using confirm_ok_hub[OF assms, of "HSendQuestion q (ho_component (fo_chat f)) (ho_peer (fo_chat f)) (fo_text f) stored"] r by simp
  show ?thesis
    using assms Some r confirm_ok_follow[OF ok] confirm_ok_settle[OF confirm_ok_withdraw[OF ok], of CsFailed]
    by (auto simp: follow_sent_def split: sum.split)
qed (simp add: follow_sent_def assms)

lemma confirm_ok_answered:
  assumes "confirm_ok tr s"
  shows "confirm_ok tr (follow_answered q now s)"
proof -
  have "answered_by_owner q yes tr" if "map_of (cf_answers s) q = Some (Given yes)" for yes
    using assms that by (simp add: confirm_ok_def slots_ok_def)
  then show ?thesis
    using assms by (auto simp: follow_answered_def split: option.split answer_slot.split intro!: confirm_ok_settle)
qed

lemma overdue_states: "overdue q now unix s = Some (st, reply) \<Longrightarrow> st \<in> {CsExpired, CsWithdrawn}"
  by (auto simp: overdue_def split: if_splits bind_splits)

lemma confirm_ok_tick:
  assumes "confirm_ok tr s"
  shows "confirm_ok tr (follow_tick q now unix told s)"
proof (cases "\<exists>f st reply. map_of (cf_follow s) q = Some f \<and> fo_sent f \<and> overdue q now unix s = Some (st, reply)")
  case True
  then obtain f st reply where f: "map_of (cf_follow s) q = Some f" "fo_sent f" "overdue q now unix s = Some (st, reply)"
    by blast
  have st: "st \<noteq> CsYes" "st \<noteq> CsNo" using overdue_states[OF f(3)] by auto
  obtain w h where w: "withdraw q (cf_hub s) = (w, h)" by fastforce
  have ok: "confirm_ok tr (s\<lparr>cf_hub := h\<rparr>)" using confirm_ok_hub[OF assms, of "HWithdraw q"] w by simp
  have "confirm_ok tr (s\<lparr>cf_hub := snd (notify (ho_component (fo_chat f)) (ho_peer (fo_chat f)) reply stored h)\<rparr>)" for stored
    using confirm_ok_hub[OF ok, of "HNotify (ho_component (fo_chat f)) (ho_peer (fo_chat f)) reply stored"] by simp
  then show ?thesis
    using f w ok st by (auto simp: follow_tick_def split: withdrawal.split option.split intro!: confirm_ok_settle)
next
  case False
  then show ?thesis using assms by (auto simp: follow_tick_def split: option.split)
qed

lemma confirm_ok_cancelled: "confirm_ok tr s \<Longrightarrow> confirm_ok tr (follow_cancelled q s)"
  by (auto simp: follow_cancelled_def confirm_ok_withdraw confirm_ok_stop split: option.split)

lemma prune_subset: "set (prune_settled now m) \<subseteq> set m"
  by (auto simp: prune_settled_def)

lemma confirm_ok_status:
  assumes "confirm_ok tr s"
  shows "confirm_ok tr (snd (confirm_status q now s))"
proof -
  have "entries_ok tr (snd (confirm_status q now s))"
  proof (cases "map_of (prune_settled now (cf_entries s)) q")
    case None
    then show ?thesis using assms prune_subset[of now "cf_entries s"] by (auto simp: confirm_status_def entries_ok_def confirm_ok_def)
  next
    case (Some e)
    then have "(q, e) \<in> set (cf_entries s)" using prune_subset map_of_SomeD by fast
    then show ?thesis
      using assms Some prune_subset[of now "cf_entries s"] set_update_subset[of q "e\<lparr>en_polled := now\<rparr>" "prune_settled now (cf_entries s)"]
      by (fastforce simp: confirm_status_def entries_ok_def confirm_ok_def)
  qed
  then show ?thesis using assms
    by (intro confirm_ok_quiet[OF assms]) (auto simp: confirm_status_def Let_def confirm_ok_def split: option.split)
qed


lemma confirm_chat_owner:
  assumes "confirm_chat h session oc = Inr c"
  shows "hub_owner h (ho_component c) = Some (Some (ho_peer c))" and "\<not> is_mail_chat h (ho_component c)"
  using assms by (auto simp: confirm_chat_def split: option.splits if_splits)

lemma ask_in_Inl: "fst (ask_in q session t qid oc now unix s) = Inl e \<Longrightarrow> snd (ask_in q session t qid oc now unix s) = s"
  by (auto simp: ask_in_def Let_def split: if_splits sum.splits prod.splits bool.splits)

lemma ask_in_Inr:
  assumes "fst (ask_in q session t qid oc now unix s) = Inr info"
  obtains c f where "confirm_chat (cf_hub s) session oc = Inr c" and "ci_state info = CsPending"
    and "fst (ask qid (ho_component c) (ho_peer c) (cf_hub s))"
    and "snd (ask_in q session t qid oc now unix s) =
      s\<lparr>cf_hub := snd (ask qid (ho_component c) (ho_peer c) (cf_hub s)),
        cf_entries := AList.update qid \<lparr>en_info = info, en_polled = now, en_settled = None\<rparr> (prune_settled now (cf_entries s)),
        cf_answers := AList.update qid Awaited (cf_answers s), cf_follow := f\<rparr>"
  using assms by (fastforce simp: ask_in_def Let_def split: if_splits sum.splits prod.splits bool.splits)

lemma slots_ok_update:
  assumes "slots_ok tr s" and "cf_answers s' = AList.update q slot (cf_answers s)"
    and "\<And>yes. slot = Given yes \<Longrightarrow> answered_by_owner q yes (tr @ es)"
  shows "slots_ok (tr @ es) s'"
  using assms by (auto simp: slots_ok_def map_of_Cons_code answered_by_owner_more update_conv' split: if_splits)

lemma confirm_ok_ask:
  assumes "confirm_ok tr s"
  shows "confirm_ok (tr @ event_of (CAsk q session t qid oc now unix) s) (snd (ask_in q session t qid oc now unix s))"
proof (cases "fst (ask_in q session t qid oc now unix s)")
  case (Inl e)
  then show ?thesis using assms by (simp add: ask_in_Inl)
next
  case (Inr info)
  let ?s' = "snd (ask_in q session t qid oc now unix s)"
  from ask_in_Inr[OF Inr] obtain c f where c: "confirm_chat (cf_hub s) session oc = Inr c" "ci_state info = CsPending"
      "fst (ask qid (ho_component c) (ho_peer c) (cf_hub s))"
    and s': "?s' = s\<lparr>cf_hub := snd (ask qid (ho_component c) (ho_peer c) (cf_hub s)),
        cf_entries := AList.update qid \<lparr>en_info = info, en_polled = now, en_settled = None\<rparr> (prune_settled now (cf_entries s)),
        cf_answers := AList.update qid Awaited (cf_answers s), cf_follow := f\<rparr>" by metis
  let ?es = "event_of (CAsk q session t qid oc now unix) s"
  have es: "?es = [Posed qid (ho_component c) (ho_peer c) (hub_owner (cf_hub s) (ho_component c))
             (is_mail_chat (cf_hub s) (ho_component c)), HubDid (Asked qid (ho_component c) (ho_peer c))]"
    using Inr c(1) by simp
  have "asked_ok (hub_part (tr @ ?es)) (cf_hub ?s')"
    unfolding es s' using assms c(3) by (simp add: confirm_ok_def asked_ok_ask)
  moreover have "posed_ok (tr @ ?es)"
    using assms confirm_chat_owner[OF c(1)] unfolding es by (simp add: confirm_ok_def)
  moreover have "asked_posed (tr @ ?es)" unfolding es using assms by (intro asked_posed_more) (auto simp: confirm_ok_def)
  moreover have "slots_ok (tr @ ?es) ?s'" using assms by (intro slots_ok_update[where slot = Awaited and q = qid]) (auto simp: confirm_ok_def s')
  moreover have "entries_ok (tr @ ?es) ?s'"
  proof -
    have "set (cf_entries ?s') \<subseteq> insert (qid, \<lparr>en_info = info, en_polled = now, en_settled = None\<rparr>) (set (cf_entries s))"
      unfolding s' using set_update_subset prune_subset by fastforce
    then show ?thesis using assms c(2) by (fastforce simp: confirm_ok_def entries_ok_def answered_by_owner_more)
  qed
  ultimately show ?thesis by (simp add: confirm_ok_def)
qed

lemma confirm_ok_takes:
  assumes "confirm_ok tr s"
  shows "confirm_ok (tr @ event_of (CTakes c p ms give) s) (bridge_takes c p ms give s)"
proof (cases "fst (take_question c p ms (cf_hub s))")
  case None
  then have "bridge_takes c p ms give s = s" by (auto simp: bridge_takes_def split: prod.splits)
  then show ?thesis using None assms by simp
next
  case (Some q)
  let ?es = "event_of (CTakes c p ms give) s"
  let ?slot = "case give of Some yes \<Rightarrow> Given yes | None \<Rightarrow> Lost"
  have s': "bridge_takes c p ms give s = s\<lparr>cf_hub := snd (take_question c p ms (cf_hub s)),
      cf_answers := AList.update q ?slot (cf_answers s)\<rparr>"
    using Some by (auto simp: bridge_takes_def split: prod.splits)
  have es: "?es = HubDid (Taken q c p ms) # (case give of Some yes \<Rightarrow> [Gave q yes] | None \<Rightarrow> [])" using Some by simp
  have "asked_ok (hub_part (tr @ ?es)) (cf_hub (bridge_takes c p ms give s))"
    unfolding es s' using assms asked_ok_take[OF _ Some] by (auto simp: confirm_ok_def split: option.split)
  moreover have "posed_ok (tr @ ?es)" unfolding es using assms by (simp add: confirm_ok_def split: option.split)
  moreover have "asked_posed (tr @ ?es)" unfolding es using assms
    by (intro asked_posed_more) (auto simp: confirm_ok_def split: option.splits)
  moreover have "slots_ok (tr @ ?es) (bridge_takes c p ms give s)"
  proof (rule slots_ok_update[where slot = ?slot and q = q])
    fix yes assume "?slot = Given yes"
    then have "give = Some yes" by (cases give) simp_all
    then have "tr @ ?es = tr @ HubDid (Taken q c p ms) # Gave q yes # []" unfolding es by simp
    then show "answered_by_owner q yes (tr @ ?es)" unfolding answered_by_owner_def by blast
  qed (use assms s' in \<open>auto simp: confirm_ok_def\<close>)
  moreover have "entries_ok (tr @ ?es) (bridge_takes c p ms give s)"
    using assms by (intro entries_ok_more) (auto simp: confirm_ok_def s')
  ultimately show ?thesis by (simp add: confirm_ok_def)
qed

lemma confirm_ok_refused:
  assumes "confirm_ok tr s"
  shows "confirm_ok tr (bridge_refused c q s)"
proof (cases "question_waiting (cf_hub s) c q")
  case True
  have "asked_ok (hub_part tr) (question_undelivered c q (cf_hub s))"
    using assms asked_ok_quiet[of "hub_part tr" "cf_hub s" "HUndelivered c q"] by (simp add: confirm_ok_def)
  moreover have "slots_ok (tr @ []) (bridge_refused c q s)"
    using assms True by (intro slots_ok_update[where slot = Lost and q = q]) (auto simp: confirm_ok_def bridge_refused_def)
  ultimately show ?thesis using assms True
    by (auto simp: confirm_ok_def bridge_refused_def intro: entries_ok_same)
qed (simp add: bridge_refused_def assms)

lemma hub_event_reached: "elsewhere op \<Longrightarrow> e \<in> set (hub_event op h) \<Longrightarrow> \<exists>c q ms. e = Reached c q ms"
  by (cases op) auto

lemma confirm_ok_elsewhere:
  assumes "confirm_ok tr s" and "elsewhere op"
  shows "confirm_ok (tr @ map HubDid (hub_event op (cf_hub s))) (s\<lparr>cf_hub := hub_step op (cf_hub s)\<rparr>)"
proof -
  let ?es = "map HubDid (hub_event op (cf_hub s))" and ?s' = "s\<lparr>cf_hub := hub_step op (cf_hub s)\<rparr>"
  have "asked_ok (hub_part (tr @ ?es)) (cf_hub ?s')" using assms(1) asked_ok_step by (simp add: confirm_ok_def)
  moreover have "asked_posed (tr @ ?es)"
    using assms hub_event_reached[OF assms(2)] by (intro asked_posed_more) (fastforce simp: confirm_ok_def)+
  moreover have "slots_ok (tr @ ?es) ?s'" "entries_ok (tr @ ?es) ?s'"
    using assms by (auto simp: confirm_ok_def intro!: slots_ok_more entries_ok_more)
  ultimately show ?thesis using assms(1) by (simp add: confirm_ok_def)
qed

lemma confirm_ok_step: "confirm_ok tr s \<Longrightarrow> confirm_ok (tr @ event_of op s) (confirm_step op s)"
  by (cases op) (simp_all del: event_of.simps(1,2) add: confirm_ok_ask confirm_ok_status confirm_ok_sent confirm_ok_answered
      confirm_ok_tick confirm_ok_cancelled confirm_ok_takes confirm_ok_refused confirm_ok_elsewhere)

lemma confirm_ok_run: "confirm_ok tr s \<Longrightarrow> confirm_ok (tr @ confirm_trace ops s) (fold confirm_step ops s)"
proof (induction ops arbitrary: tr s)
  case (Cons op ops)
  then show ?case using Cons.IH[OF confirm_ok_step[OF Cons.prems]] by simp
qed simp

lemma confirm_ok_new: "confirm_ok [] (new_confirmer (new_hub lo))"
  by (simp add: confirm_ok_def asked_ok_def maps_ok_def heard_def answers_follow_def answers_counted_def waiting_as_def
      new_hub_def new_confirmer_def asked_posed_def slots_ok_def entries_ok_def)


section \<open>The property\<close>

lemma confirm_trace_append:
  "confirm_trace (a @ b) s = confirm_trace a s @ confirm_trace b (fold confirm_step a s)"
  by (induction a arbitrary: s) simp_all

lemma owner_verdict_yes: "owner_verdict polls \<Longrightarrow> \<exists>info. Inr info \<in> set polls \<and> ci_state info = CsYes"
  by (induction polls rule: owner_verdict.induct) (auto split: if_splits)

lemma status_entry:
  assumes "fst (confirm_status q now s) = Inr info"
  shows "\<exists>e. (q, e) \<in> set (cf_entries s) \<and> en_info e = info"
  using assms map_of_SomeD[of "prune_settled now (cf_entries s)" q] prune_subset[of now "cf_entries s"]
  by (fastforce simp: confirm_status_def Let_def split: option.splits)

text \<open>What the answers of \<open>confirm status\<close> say at the given points of a run, each with its time.\<close>

definition polls :: "string \<Rightarrow> (nat \<times> nat) list \<Rightarrow> confirm_op list \<Rightarrow> confirmer \<Rightarrow> (string + confirm_info) list" where
  "polls q points ops s = map (\<lambda>(k, now). fst (confirm_status q now (fold confirm_step (take k ops) s))) points"

lemma polls_mem:
  "Inr info \<in> set (polls q points ops s) \<Longrightarrow>
   \<exists>k now. fst (confirm_status q now (fold confirm_step (take k ops) s)) = Inr info"
  by (fastforce simp: polls_def)

definition sample_confirm_ops :: "confirm_op list" where
  "sample_confirm_ops =
     [CHub (HRegister ''feishu:main'' (Some ''owner'') ForChat),
      CAsk ''Push?'' None None ''q1'' (Some \<lparr>ho_component = ''feishu:main'', ho_peer = ''owner''\<rparr>) 0 0,
      CSent ''q1'' True 1, CHub (HDelivered ''feishu:main'' ''q1'' 100),
      CTakes ''feishu:main'' ''owner'' 150 (Some True), CAnswered ''q1'' 200]"

lemmas confirm_eval = sample_confirm_ops_def new_confirmer_def ask_in_def confirm_chat_def Let_def trim_bytes_def
  hub_owner_def hub_purpose_def is_mail_chat_def follow_sent_def follow_answered_def bridge_takes_def settle_question_def
  stop_following_def polls_def confirm_status_def prune_settled_def modify_def MAX_QUESTION_BYTES_def
  hub_session_origin_def question_delivered_def

text \<open>
  C20. The owner's yes is the owner's. Over any operations from a new daemon, when an asker that polls
  its question with \<open>confirm status\<close> is told yes, a yes for that question was handed on by a chat
  bridge; the message with it was taken in the chat the question was asked in, after its text had
  reached that chat, and sent no earlier; and that chat was, when asked, the direct chat of the owner
  of a running account that carries no mail. In every other case (no answer, an answer to something
  else, a failed delivery, a restart, the asker's wait cut off) the asker is not told yes.
\<close>

theorem owner_yes_needed:
  assumes "owner_verdict (polls q points ops (new_confirmer (new_hub lo)))"
  shows "\<exists>pre post c p ms. confirm_trace ops (new_confirmer (new_hub lo)) =
      pre @ HubDid (Taken q c p ms) # Gave q True # post \<and>
      HubDid (Asked q c p) \<in> set pre \<and> (\<exists>d \<le> ms. HubDid (Reached c q d) \<in> set pre) \<and>
      Posed q c p (Some (Some p)) False \<in> set (confirm_trace ops (new_confirmer (new_hub lo)))"
proof -
  let ?s0 = "new_confirmer (new_hub lo)"
  obtain info where i: "Inr info \<in> set (polls q points ops ?s0)" "ci_state info = CsYes" using owner_verdict_yes[OF assms] by blast
  then obtain k now where k0: "fst (confirm_status q now (fold confirm_step (take k ops) ?s0)) = Inr info" using polls_mem by blast
  note k = k0 i(2)
  let ?tr = "confirm_trace (take k ops) ?s0"
  have ok: "confirm_ok ?tr (fold confirm_step (take k ops) ?s0)" using confirm_ok_run[OF confirm_ok_new] by simp
  have "answered_by_owner q True ?tr"
    using status_entry[OF k(1)] k(2) ok by (fastforce simp: confirm_ok_def entries_ok_def)
  then obtain pre post c p ms where tr: "?tr = pre @ HubDid (Taken q c p ms) # Gave q True # post"
    unfolding answered_by_owner_def by blast
  have "answers_follow (hub_part ?tr)" using ok by (simp add: confirm_ok_def asked_ok_def)
  then have before: "Asked q c p \<in> set (hub_part pre)" "\<exists>d \<le> ms. Reached c q d \<in> set (hub_part pre)"
    unfolding answers_follow_def tr by auto
  have "\<exists>ow inmail. Posed q c p ow inmail \<in> set ?tr"
    using ok before(1) by (auto simp: confirm_ok_def asked_posed_def tr hub_part_mem)
  then have "Posed q c p (Some (Some p)) False \<in> set ?tr"
    using ok by (fastforce simp: confirm_ok_def posed_ok_def list_all_iff)
  moreover have "confirm_trace ops ?s0 = ?tr @ confirm_trace (drop k ops) (fold confirm_step (take k ops) ?s0)"
    using confirm_trace_append[of "take k ops" "drop k ops" ?s0] by simp
  ultimately show ?thesis using tr before by (fastforce simp: hub_part_mem)
qed

lemma sample_asked:
  "owner_verdict (polls ''q1'' [(3, 120), (6, 250)] sample_confirm_ops (new_confirmer (new_hub None)))"
  by (simp add: confirm_eval hub_eval trim_bytes_def whitespace_bytes_def KEEP_SETTLED_def)

theorem owner_yes_needed_witness:
  "\<exists>pre post c p ms. confirm_trace sample_confirm_ops (new_confirmer (new_hub None)) =
      pre @ HubDid (Taken ''q1'' c p ms) # Gave ''q1'' True # post"
  using owner_yes_needed[OF sample_asked] by blast

end
