(* ===== verification/Bridge_State.thy ===== *)
theory Bridge_State
  imports Hub
begin

text \<open>
  What a chat bridge keeps for an account, and how it builds the messages it sends: the delivery state
  of \<open>state.rs\<close> and the functions of scv-channels' \<open>lib.rs\<close> that change it without waiting. The
  machine that uses them is \<open>Bridge\<close>.

  Texts are code points (\<open>ustr\<close>), measured by \<open>ulen\<close> in the bytes of their UTF-8; IDs, keys and
  handles are byte strings. The IDs \<open>Uuid::new_v4\<close> draws are an argument: \<open>draw i\<close> is the \<open>i\<close>th
  one an operation takes. Job handles, agent names, journal IDs and versions are ASCII, so \<open>lit\<close> reads
  them as text.
\<close>

section \<open>The delivery state\<close>

record held_reply =
  hr_key :: string
  hr_to :: string
  hr_reply :: ustr
  hr_held_at :: nat

record pending_file =
  pf_path :: string
  pf_name :: string
  pf_mime :: string
  pf_kind :: media_kind
  pf_client_id :: string

record pending_delivery =
  pd_message_id :: string
  pd_to :: string
  pd_context :: string
  pd_reply :: ustr
  pd_client_ids :: "string list"
  pd_next_chunk :: nat
  pd_key :: string
  pd_carried :: "held_reply list"
  pd_own :: "ustr option"
  pd_transient :: bool
  pd_files :: "pending_file list"
  pd_next_file :: nat
  pd_question :: "string option"
  pd_notice_key :: "string option"
  pd_reaction :: "string option"

record in_flight =
  if_message_id :: string
  if_to :: string
  if_context :: string
  if_key :: string
  if_reaction :: "string option"

record reaction =
  re_message_id :: string
  re_reaction :: string

record recent_key =
  rk_key :: string
  rk_outcome :: keyed_outcome
  rk_stored_at :: nat

record running_job =
  rj_to :: string
  rj_key :: string
  rj_reply_to :: string
  rj_job :: string
  rj_tool :: string
  rj_agent :: string
  rj_task :: ustr
  rj_journal :: string
  rj_started_at :: nat

record bridge_state =
  bg_fingerprint :: "string option"
  bg_cursor :: string
  bg_seen :: "string list"
  bg_pending :: "pending_delivery list"
  bg_in_flight :: "in_flight list"
  bg_held :: "held_reply list"
  bg_jobs :: "running_job list"
  bg_mail_chat :: bool
  bg_recent_keys :: "recent_key list"
  bg_removing :: "reaction list"

definition new_bridge_state :: bridge_state where
  "new_bridge_state =
     \<lparr>bg_fingerprint = None, bg_cursor = [], bg_seen = [], bg_pending = [], bg_in_flight = [], bg_held = [],
      bg_jobs = [], bg_mail_chat = False, bg_recent_keys = [], bg_removing = []\<rparr>"

definition MAX_REPLY_BYTES :: nat where "MAX_REPLY_BYTES = 16 * 1024"
definition MAX_HELD_REPLY_BYTES :: nat where "MAX_HELD_REPLY_BYTES = MAX_REPLY_BYTES div 2"
definition HELD_MAX_AGE :: nat where "HELD_MAX_AGE = 7 * 24 * 60 * 60"
definition HELD_MAX_PER_CONVERSATION :: nat where "HELD_MAX_PER_CONVERSATION = 4"
definition HELD_MAX_BYTES_PER_CONVERSATION :: nat where
  "HELD_MAX_BYTES_PER_CONVERSATION = 4 * MAX_HELD_REPLY_BYTES"
definition HELD_MAX_TOTAL :: nat where "HELD_MAX_TOTAL = 128"
definition MAX_RECENT_KEYS :: nat where "MAX_RECENT_KEYS = 512"
definition RECENT_KEY_SECONDS :: nat where "RECENT_KEY_SECONDS = 7 * 24 * 60 * 60"
definition MAX_SEEN :: nat where "MAX_SEEN = 4096"

definition ordinary :: "bridge_state \<Rightarrow> bool" where
  "ordinary s \<longleftrightarrow> bg_cursor s \<noteq> [] \<or> bg_seen s \<noteq> [] \<or> bg_pending s \<noteq> [] \<or> bg_in_flight s \<noteq> [] \<or>
     bg_held s \<noteq> [] \<or> bg_jobs s \<noteq> [] \<or> bg_removing s \<noteq> []"

definition prune_recent_keys :: "nat \<Rightarrow> bridge_state \<Rightarrow> bridge_state" where
  "prune_recent_keys now s =
     (let kept = filter (\<lambda>r. now - rk_stored_at r < RECENT_KEY_SECONDS) (bg_recent_keys s)
      in s\<lparr>bg_recent_keys := drop (length kept - MAX_RECENT_KEYS) kept\<rparr>)"

text \<open>The oldest IDs go when there are more than 4096; an ID marked again is the newest again.\<close>

definition mark_seen :: "string \<Rightarrow> bridge_state \<Rightarrow> bridge_state" where
  "mark_seen i s =
     (let others = (case position (\<lambda>x. x = i) (bg_seen s) of None \<Rightarrow> bg_seen s | Some n \<Rightarrow> remove_at n (bg_seen s));
          seen = others @ [i]
      in s\<lparr>bg_seen := drop (length seen - MAX_SEEN) seen\<rparr>)"

text \<open>An empty key, as older releases wrote it, is the direct chat.\<close>

definition conversation_key :: "string \<Rightarrow> string \<Rightarrow> string" where
  "conversation_key key to = (if key = [] then to else key)"

section \<open>Parts of a message\<close>

text \<open>How many characters of a text fit in so many bytes.\<close>

fun chars_within :: "nat \<Rightarrow> ustr \<Rightarrow> nat" where
  "chars_within n [] = 0"
| "chars_within n (c # s) = (if utf8_len c \<le> n then Suc (chars_within (n - utf8_len c) s) else 0)"

function split_rest :: "nat \<Rightarrow> ustr \<Rightarrow> ustr list" where
  "split_rest limit rest =
     (if ulen rest > limit
      then let n = max 1 (chars_within limit rest) in take n rest # split_rest limit (drop n rest)
      else if rest = [] then [] else [rest])"
  by auto
termination
proof (relation "measure (length \<circ> snd)", goal_cases)
  case (2 limit rest n)
  then have "rest \<noteq> []" by auto
  then show ?case using 2 by simp
qed simp

declare split_rest.simps [simp del]

definition split_utf8 :: "ustr \<Rightarrow> nat \<Rightarrow> ustr list" where
  "split_utf8 v limit = (case split_rest (max limit 1) v of [] \<Rightarrow> [[]] | parts \<Rightarrow> parts)"

text \<open>The longest run of backticks.\<close>

fun backticks :: "nat \<Rightarrow> ustr \<Rightarrow> nat" where
  "backticks n [] = n"
| "backticks n (c # s) = (if c = 96 then backticks (Suc n) s else max n (backticks 0 s))"

text \<open>One block per part; each but the last fills its part.\<close>

function blocks_of :: "ustr \<Rightarrow> nat \<Rightarrow> ustr \<Rightarrow> ustr list" where
  "blocks_of fence room rest =
     (if ulen rest > room \<and> 4 \<le> room
      then let n = chars_within room rest
           in (fence @ [10] @ take n rest @ [10] @ fence @ replicate (room - ulen (take n rest)) 32) #
              blocks_of fence room (drop n rest)
      else [fence @ [10] @ rest @ [10] @ fence])"
  by auto
termination
proof (relation "measure (\<lambda>(_, _, rest). length rest)", goal_cases)
  case (2 fence room rest n)
  then have "rest \<noteq> []" by auto
  then obtain c s where "rest = c # s" by (cases rest) auto
  then show ?case using 2 utf8_len_le[of c] by auto
qed simp

declare blocks_of.simps [simp del]

definition code_blocks :: "ustr \<Rightarrow> nat \<Rightarrow> ustr" where
  "code_blocks body limit =
     (let fence = replicate (max (backticks 0 body) 2 + 1) 96;
          frame = 2 * (length fence + 1);
          room = limit - frame
      in if frame + ulen body \<le> limit then fence @ [10] @ body @ [10] @ fence
         else if room < 4 then body
         else concat (blocks_of fence room body))"

definition system_text :: "ustr \<Rightarrow> ustr \<Rightarrow> ustr" where
  "system_text label t = (if label = [] then t else code_blocks (label @ t) MAX_REPLY_BYTES)"

definition text_chunks :: "pending_delivery \<Rightarrow> ustr list" where
  "text_chunks p = (if pd_reply p = [] \<and> pd_files p \<noteq> [] then [] else split_utf8 (pd_reply p) MAX_REPLY_BYTES)"

section \<open>Texts of SCV's own\<close>

definition FAILURE_REPLY :: ustr where "FAILURE_REPLY = lit ''SCV could not complete that request.''"
definition BUSY_REPLY :: ustr where
  "BUSY_REPLY = lit ''SCV is still working on your earlier messages. Please send this one again later.''"
definition VOICE_REPLY :: ustr where
  "VOICE_REPLY = lit ''SCV cannot listen to voice messages yet. Please type your message instead.''"
definition ANSWERED_YES :: ustr where "ANSWERED_YES = lit ''OK, going ahead.''"
definition ANSWERED_NO :: ustr where "ANSWERED_NO = lit ''OK, stopped.''"
definition UNRESUMABLE_NOTICE :: ustr where
  "UNRESUMABLE_NOTICE = lit ''SCV could not resume the subscribed job's conversation, so this message is still waiting. It will keep trying. Unsubscribe the thread to stop.''"
definition HELD_HEADER :: ustr where
  "HELD_HEADER = lit ''[Earlier reply that could not be delivered at the time]'' @ [10]"
definition LATEST_HEADER :: ustr where "LATEST_HEADER = lit ''[Reply to your latest message]'' @ [10]"

definition restarted_reply :: "string \<Rightarrow> ustr" where
  "restarted_reply version =
     lit ''SCV restarted to update to v'' @ lit version @ lit '' before finishing this; ask again if you still need it.''"

definition job_agent :: "string \<Rightarrow> string \<Rightarrow> string" where
  "job_agent agent tool =
     (if agent = [] then (case strip_prefix ''agent_'' tool of Some a \<Rightarrow> a | None \<Rightarrow> tool) else agent)"

definition stopped_jobs_notice :: "string option \<Rightarrow> running_job list \<Rightarrow> ustr" where
  "stopped_jobs_notice restart jobs =
     (case restart of
        Some version \<Rightarrow> lit ''SCV restarted to update to v'' @ lit version @
          lit '', which stopped background work that was still running:''
      | None \<Rightarrow> lit ''An unexpected interruption stopped background work that was still running:'') @
     concat (map (\<lambda>j. [10] @ lit ''- '' @ lit (rj_job j) @ lit '' ('' @ lit (job_agent (rj_agent j) (rj_tool j)) @ lit '')'' @
       (if rj_task j = [] then [] else lit '': '' @ rj_task j) @
       (if rj_journal j = [] then []
        else [10] @ lit ''  Review: interrupted by a restart '' @ [183] @ lit '' result unknown, check journal '' @
             lit (rj_journal j) @ lit '' before relying on it'')) jobs) @
     [10] @ lit ''Ask again if you still need it.''"

section \<open>Queueing a message\<close>

definition new_pending :: "(nat \<Rightarrow> string) \<Rightarrow> string \<Rightarrow> string \<Rightarrow> string \<Rightarrow> ustr \<Rightarrow> pending_delivery" where
  "new_pending draw message_id to context reply =
     \<lparr>pd_message_id = message_id, pd_to = to, pd_context = context, pd_reply = reply,
      pd_client_ids = map draw [0 ..< length (split_utf8 reply MAX_REPLY_BYTES)], pd_next_chunk = 0, pd_key = [],
      pd_carried = [], pd_own = None, pd_transient = False, pd_files = [], pd_next_file = 0,
      pd_question = None, pd_notice_key = None, pd_reaction = None\<rparr>"

text \<open>Refused replies, newest first, as far as the limits allow.\<close>

fun keep_newest :: "held_reply list \<Rightarrow> (string \<Rightarrow> nat \<times> nat) \<Rightarrow> nat \<Rightarrow> held_reply list" where
  "keep_newest [] usage n = []"
| "keep_newest (h # hs) usage n =
     (let (count, bytes) = usage (hr_key h)
      in if n < HELD_MAX_TOTAL \<and> count < HELD_MAX_PER_CONVERSATION \<and>
            bytes + ulen (hr_reply h) \<le> HELD_MAX_BYTES_PER_CONVERSATION
         then h # keep_newest hs (usage(hr_key h := (count + 1, bytes + ulen (hr_reply h)))) (n + 1)
         else keep_newest hs usage n)"

definition prune_held :: "nat \<Rightarrow> bridge_state \<Rightarrow> bridge_state" where
  "prune_held now s =
     s\<lparr>bg_held := rev (keep_newest (rev (filter (\<lambda>h. now - hr_held_at h < HELD_MAX_AGE) (bg_held s))) (\<lambda>_. (0, 0)) 0)\<rparr>"

text \<open>The refused replies that ride ahead of a conversation's next one: those kept back, the text
  they make, and those carried.\<close>

fun carry :: "string \<Rightarrow> nat \<Rightarrow> ustr \<Rightarrow> held_reply list \<Rightarrow> held_reply list \<times> ustr \<times> held_reply list" where
  "carry key own_bytes body [] = ([], body, [])"
| "carry key own_bytes body (h # hs) =
     (if hr_key h \<noteq> key
      then case carry key own_bytes body hs of (kept, b, taken) \<Rightarrow> (h # kept, b, taken)
      else if ulen body + (ulen HELD_HEADER + ulen (hr_reply h) + 2) + own_bytes > MAX_REPLY_BYTES
      then (h # hs, body, [])
      else case carry key own_bytes (body @ HELD_HEADER @ hr_reply h @ [10, 10]) hs of
             (kept, b, taken) \<Rightarrow> (kept, b, h # taken))"

definition compose_pending ::
  "(nat \<Rightarrow> string) \<Rightarrow> in_flight \<Rightarrow> ustr \<Rightarrow> nat \<Rightarrow> bridge_state \<Rightarrow> pending_delivery \<times> bridge_state" where
  "compose_pending draw claim own now s0 =
     (let s = prune_held now s0;
          key = conversation_key (if_key claim) (if_to claim);
          (kept, body, carried) = carry key (ulen LATEST_HEADER + ulen own) [] (bg_held s);
          reply = (if carried = [] then own else body @ LATEST_HEADER @ own);
          p = new_pending draw (if_message_id claim) (if_to claim) (if_context claim) reply;
          p = p\<lparr>pd_key := if_key claim, pd_reaction := if_reaction claim\<rparr>
      in (if carried = [] then p else p\<lparr>pd_own := Some own, pd_carried := carried\<rparr>,
          s\<lparr>bg_held := kept\<rparr>))"

definition MARKER :: ustr where "MARKER = [10] @ lit ''[truncated]''"

definition truncate_held :: "ustr \<Rightarrow> ustr" where
  "truncate_held reply =
     (if ulen reply \<le> MAX_HELD_REPLY_BYTES then reply
      else take (chars_within (MAX_HELD_REPLY_BYTES - ulen MARKER) reply) reply @ MARKER)"

definition hold_refused :: "pending_delivery \<Rightarrow> ustr list \<Rightarrow> nat \<Rightarrow> bridge_state \<Rightarrow> bridge_state" where
  "hold_refused p chunks now s =
     (if pd_transient p then s
      else
        let key = conversation_key (pd_key p) (pd_to p);
            back = (if pd_next_chunk p = 0 then pd_carried p else []);
            reply = (if pd_next_chunk p = 0 then (case pd_own p of Some own \<Rightarrow> own | None \<Rightarrow> pd_reply p)
                     else concat (drop (pd_next_chunk p) chunks));
            held = bg_held s @ back @
                     [\<lparr>hr_key = key, hr_to = pd_to p, hr_reply = truncate_held reply, hr_held_at = now\<rparr>]
        in prune_held now (s\<lparr>bg_held := sort_key hr_held_at held\<rparr>))"

section \<open>Recovering what a run left\<close>

definition job_conversation :: "running_job \<Rightarrow> string" where
  "job_conversation j = conversation_key (rj_key j) (rj_to j)"

fun recover_claims :: "(nat \<Rightarrow> nat \<Rightarrow> string) \<Rightarrow> ustr \<Rightarrow> nat \<Rightarrow> in_flight list \<Rightarrow> bridge_state \<Rightarrow> bridge_state" where
  "recover_claims draw reply now [] s = s"
| "recover_claims draw reply now (c # cs) s =
     (case compose_pending (draw 0) c reply now s of
        (p, s') \<Rightarrow> recover_claims (\<lambda>n. draw (Suc n)) reply now cs (s'\<lparr>bg_pending := bg_pending s' @ [p]\<rparr>))"

text \<open>The first job of each conversation, in order.\<close>

fun first_jobs :: "running_job list \<Rightarrow> string list \<Rightarrow> running_job list" where
  "first_jobs [] known = []"
| "first_jobs (j # js) known =
     (if job_conversation j \<in> set known then first_jobs js known
      else j # first_jobs js (job_conversation j # known))"

definition stopped_notice ::
  "(nat \<Rightarrow> string) \<Rightarrow> string option \<Rightarrow> ustr \<Rightarrow> running_job list \<Rightarrow> running_job \<Rightarrow> pending_delivery" where
  "stopped_notice draw restart label jobs j =
     (new_pending draw [] (rj_to j) (rj_reply_to j)
        (system_text label (stopped_jobs_notice restart (filter (\<lambda>k. job_conversation k = job_conversation j) jobs))))
     \<lparr>pd_key := job_conversation j\<rparr>"

text \<open>The state a new run starts from; \<open>draw i j\<close> is the \<open>j\<close>th ID of the \<open>i\<close>th message queued.\<close>

definition recover_interrupted_after ::
  "(nat \<Rightarrow> nat \<Rightarrow> string) \<Rightarrow> string option \<Rightarrow> ustr \<Rightarrow> nat \<Rightarrow> bridge_state \<Rightarrow> bridge_state" where
  "recover_interrupted_after draw restart label now s =
     (if bg_in_flight s = [] \<and> bg_jobs s = [] then s
      else
        let plain = (case restart of None \<Rightarrow> FAILURE_REPLY | Some version \<Rightarrow> restarted_reply version);
            claims = bg_in_flight s;
            s1 = recover_claims draw (system_text label plain) now claims (s\<lparr>bg_in_flight := []\<rparr>);
            notices = map (\<lambda>(n, j). stopped_notice (draw (length claims + n)) restart label (bg_jobs s) j)
                        (enumerate 0 (first_jobs (bg_jobs s) []))
        in s1\<lparr>bg_jobs := [], bg_pending := bg_pending s1 @ notices\<rparr>)"

end
