(* ===== verification/Intake.thy ===== *)
theory Intake
  imports Bridge_State
begin

text \<open>
  What a bridge does with one received message: \<open>intake.rs\<close> of scv-channels. \<open>classify\<close> decides
  from the message, the delivery state and the live conversations; \<open>Bridge\<close> carries it out.

  The table of live conversations is a list of pairs with distinct keys; \<open>evictable\<close> takes the first
  least recently used one in its order, which stands for any order a \<open>HashMap\<close> iterates in.
\<close>

datatype senders = SendersOwner | SendersAnyone

datatype inbound = InText message | InIgnored string

fun inbound_id :: "inbound \<Rightarrow> string" where
  "inbound_id (InText m) = mg_id m"
| "inbound_id (InIgnored i) = i"

record tool_owner =
  to_user_id :: string
  to_turn_timeout :: nat

text \<open>A live conversation as the poller sees it: which runner has its queue.\<close>

record live =
  lv_runner :: nat
  lv_last_used :: nat
  lv_watching :: bool

record intake_view =
  in_state :: bridge_state
  in_conversations :: "(string \<times> live) list"
  in_owner :: "string option"
  in_tool_owner :: "tool_owner option"
  in_senders :: senders
  in_question :: "nat option"

record sender =
  sn_message :: message
  sn_key :: string
  sn_owner_chat :: bool

datatype verdict =
    VIgnore
  | VClaimed
  | VStranger
  | VBusy sender
  | VUnheard sender
  | VAnswer sender bool
  | VTurn sender bool nat "string option"

definition TURN_TIMEOUT :: nat where "TURN_TIMEOUT = 300"
definition MAX_QUEUED_PER_CONVERSATION :: nat where "MAX_QUEUED_PER_CONVERSATION = 8"
definition MAX_CHAT_CLAIMS :: nat where "MAX_CHAT_CLAIMS = 64"
definition MAX_SESSIONS :: nat where "MAX_SESSIONS = 32"

section \<open>Conversation keys\<close>

definition NUL :: string where "NUL = [CHR 0x00]"
definition THREAD_MARK :: string where "THREAD_MARK = NUL @ ''thread'' @ NUL"

definition conversation_of :: "message \<Rightarrow> string" where
  "conversation_of m =
     (let chat = (case mg_group m of None \<Rightarrow> mg_sender m | Some g \<Rightarrow> g @ NUL @ mg_sender m)
      in case mg_thread m of None \<Rightarrow> chat | Some t \<Rightarrow> chat @ THREAD_MARK @ th_id t)"

text \<open>\<open>split_once\<close> on a pattern: what comes before its first occurrence.\<close>

fun before_mark :: "string \<Rightarrow> string \<Rightarrow> string option" where
  "before_mark mark [] = (if mark = [] then Some [] else None)"
| "before_mark mark (c # s) =
     (if prefix mark (c # s) then Some [] else map_option ((#) c) (before_mark mark s))"

definition chat_of :: "string \<Rightarrow> string" where
  "chat_of key = (case before_mark THREAD_MARK key of None \<Rightarrow> key | Some chat \<Rightarrow> chat)"

section \<open>Reading a message\<close>

definition blank_text :: "ustr \<Rightarrow> bool" where
  "blank_text t \<longleftrightarrow> trim t = []"

definition unheard :: "message \<Rightarrow> bool" where
  "unheard m \<longleftrightarrow> blank_text (mg_text m) \<and> mg_media m \<noteq> [] \<and>
     list_all (\<lambda>x. md_kind x = Audio \<and> (case md_transcript x of None \<Rightarrow> True | Some t \<Rightarrow> blank_text t)) (mg_media m)"

definition YES_WORDS :: "ustr list" where
  "YES_WORDS = [lit ''yes'', lit ''y'', [26159], [26159, 30340], [30830, 35748], [21516, 24847]]"

definition NO_WORDS :: "ustr list" where
  "NO_WORDS =
     [lit ''no'', lit ''n'', [21542], [19981], [19981, 35201], [21462, 28040], [31639, 20102], lit ''stop'']"

definition answer :: "ustr \<Rightarrow> bool option" where
  "answer t =
     (let lowered = to_lowercase (trim t);
          w = trim_end (trim_end_matches [46, 33, 12290, 65281] lowered)
      in if w \<in> set YES_WORDS then Some True else if w \<in> set NO_WORDS then Some False else None)"

definition asks_for_new :: "message \<Rightarrow> bool" where
  "asks_for_new m \<longleftrightarrow> mg_media m = [] \<and> mg_reference m = None \<and> eq_ignore_ascii_case (trim (mg_text m)) (lit ''/new'')"

section \<open>The decision\<close>

definition waiting_for :: "bridge_state \<Rightarrow> string \<Rightarrow> nat" where
  "waiting_for s key = length (filter (\<lambda>c. conversation_key (if_key c) (if_to c) = key) (bg_in_flight s))"

definition evictable :: "(string \<times> live) list \<Rightarrow> (string \<Rightarrow> nat) \<Rightarrow> string option" where
  "evictable convs claims =
     map_option fst
       (min_by (\<lambda>(_, c). lv_last_used c) (filter (\<lambda>(key, c). claims key = 0 \<and> \<not> lv_watching c) convs))"

definition known_id :: "bridge_state \<Rightarrow> string \<Rightarrow> bool" where
  "known_id s i \<longleftrightarrow> i \<in> set (map if_message_id (bg_in_flight s)) \<or> i \<in> set (map pd_message_id (bg_pending s))"

definition has_tools :: "message \<Rightarrow> tool_owner option \<Rightarrow> bool" where
  "has_tools m t \<longleftrightarrow> mg_group m = None \<and> (case t of None \<Rightarrow> False | Some g \<Rightarrow> to_user_id g = mg_sender m)"

definition turn_limit :: "message \<Rightarrow> tool_owner option \<Rightarrow> nat" where
  "turn_limit m t = (case t of Some g \<Rightarrow> if has_tools m t then to_turn_timeout g else TURN_TIMEOUT | None \<Rightarrow> TURN_TIMEOUT)"

definition sender_of :: "message \<Rightarrow> string option \<Rightarrow> sender" where
  "sender_of m owner =
     \<lparr>sn_message = m, sn_key = conversation_of m, sn_owner_chat = (mg_group m = None \<and> owner = Some (mg_sender m))\<rparr>"

definition answer_of :: "sender \<Rightarrow> nat option \<Rightarrow> bool option" where
  "answer_of from question =
     (let m = sn_message from
      in case question of
           None \<Rightarrow> None
         | Some asked \<Rightarrow>
             if sn_owner_chat from \<and> mg_thread m = None \<and> mg_media m = [] \<and>
                (case mg_sent_ms m of None \<Rightarrow> False | Some ms \<Rightarrow> asked \<le> ms)
             then answer (mg_text m) else None)"

definition evict_for :: "string \<Rightarrow> intake_view \<Rightarrow> string option" where
  "evict_for key v =
     (let convs = in_conversations v
      in if map_of convs key \<noteq> None \<or> length convs < MAX_SESSIONS then None
         else evictable convs (waiting_for (in_state v)))"

definition room_for :: "string \<Rightarrow> intake_view \<Rightarrow> bool" where
  "room_for key v \<longleftrightarrow>
     length (bg_in_flight (in_state v)) < MAX_CHAT_CLAIMS \<and>
     waiting_for (in_state v) key < MAX_QUEUED_PER_CONVERSATION \<and>
     (map_of (in_conversations v) key \<noteq> None \<or> length (in_conversations v) < MAX_SESSIONS \<or> evict_for key v \<noteq> None)"

definition classify_text :: "message \<Rightarrow> intake_view \<Rightarrow> verdict" where
  "classify_text m v =
     (let from = sender_of m (in_owner v); t = in_tool_owner v
      in case answer_of from (in_question v) of
           Some yes \<Rightarrow> VAnswer from yes
         | None \<Rightarrow>
             if unheard m then VUnheard from
             else if room_for (sn_key from) v then VTurn from (has_tools m t) (turn_limit m t) (evict_for (sn_key from) v)
             else VBusy from)"

definition classify :: "inbound \<Rightarrow> intake_view \<Rightarrow> verdict" where
  "classify inb v =
     (let i = inbound_id inb
      in if i \<in> set (bg_seen (in_state v)) then VIgnore
         else if known_id (in_state v) i then VClaimed
         else case inb of
                InIgnored _ \<Rightarrow> VIgnore
              | InText m \<Rightarrow>
                  if in_senders v = SendersOwner \<and> in_owner v \<noteq> Some (mg_sender m) then VStranger
                  else classify_text m v)"

section \<open>What a verdict shows\<close>

lemma classify_cases:
  assumes "classify inb v = d" and "d \<noteq> VIgnore" and "d \<noteq> VClaimed"
  shows "inbound_id inb \<notin> set (bg_seen (in_state v))" and "\<not> known_id (in_state v) (inbound_id inb)"
    and "d \<noteq> VStranger \<Longrightarrow> \<exists>m. inb = InText m \<and> d = classify_text m v \<and> (in_senders v = SendersOwner \<longrightarrow> in_owner v = Some (mg_sender m))"
  using assms by (auto simp: classify_def Let_def split: if_splits inbound.splits)

lemma classify_text_cases:
  "classify_text m v \<in> {VUnheard (sender_of m (in_owner v)), VBusy (sender_of m (in_owner v))} \<or>
   (\<exists>yes. classify_text m v = VAnswer (sender_of m (in_owner v)) yes \<and> answer_of (sender_of m (in_owner v)) (in_question v) = Some yes) \<or>
   (classify_text m v = VTurn (sender_of m (in_owner v)) (has_tools m (in_tool_owner v)) (turn_limit m (in_tool_owner v))
      (evict_for (conversation_of m) v) \<and> room_for (conversation_of m) v)"
  by (auto simp: classify_text_def Let_def sender_of_def split: option.split)

lemma sender_of_simps [simp]: "sn_message (sender_of m ow) = m" "sn_key (sender_of m ow) = conversation_of m"
  "sn_owner_chat (sender_of m ow) \<longleftrightarrow> mg_group m = None \<and> ow = Some (mg_sender m)"
  by (simp_all add: sender_of_def)

end
