(* ===== verification/Bridge.thy ===== *)
theory Bridge
  imports Intake
begin

text \<open>
  A chat account's bridge: \<open>serve\<close> and \<open>Bridge\<close> of scv-channels' \<open>lib.rs\<close>. Its futures run side by
  side and share the delivery state under one lock, so what each does between taking the lock and its
  next wait is one operation here, and any interleaving of operations is a run.

  An operation says what the memory becomes and whether it is saved (\<open>outcome\<close>). A save succeeds,
  fails before the file is replaced, or fails after (\<open>save_end\<close>); a failure ends the run, and the
  next one starts from the file. What the platform, the session, the hub and the task subscriptions
  answer are arguments. Chat logs, downloads, and the session's own protocol are not modelled.
\<close>

section \<open>A run\<close>

record account =
  ba_label :: ustr
  ba_owner :: "string option"
  ba_tool_owner :: "tool_owner option"
  ba_senders :: senders
  ba_purpose :: purpose
  ba_follow_ups :: bool
  ba_inside :: "string \<Rightarrow> bool"

record job =
  jb_message_id :: string
  jb_text :: ustr
  jb_media :: "media list"
  jb_reference :: "string option"
  jb_origin :: "string option"
  jb_key :: string
  jb_limit :: nat
  jb_new :: bool

record recipient =
  rc_peer :: string
  rc_key :: string
  rc_reply_to :: string

text \<open>A conversation's future: its queue, whether the poller still holds the sending end, the job it
  runs, and whether it was idle so long that it is ending.\<close>

record runner =
  ru_owner :: bool
  ru_recipient :: "recipient option"
  ru_queue :: "job list"
  ru_held :: bool
  ru_job :: "job option"
  ru_ending :: bool

text \<open>Where the poller is: between messages, waiting for a task subscription or for the email accounts,
  or about to queue a job.\<close>

datatype polling =
    Between
  | Offering sender "ustr + (bool \<times> nat \<times> string option)"
  | Commanding message
  | Queueing job bool "recipient option" "string option"

text \<open>The delivery under way: the reply as its loop holds it, whether a part was refused, and whether
  the loop over its text is over.\<close>

record sending =
  sd_pending :: pending_delivery
  sd_refused :: bool
  sd_text_over :: bool

record run =
  rn_account :: account
  rn_state :: bridge_state
  rn_table :: "(string \<times> live) list"
  rn_runners :: "(nat \<times> runner) list"
  rn_next :: nat
  rn_polling :: polling
  rn_sending :: "sending option"

datatype bridge_event =
    Marked string
  | Claimed message "tool_owner option" bool
  | ClaimedReturn string string "tool_owner option" bool
  | Began string bool
  | Replied string
  | Dropped string
  | Answered string bool
  | SentPart string nat ustr
  | Over string bool
  | MailStored string
  | Reacted string string

datatype outcome =
    Quiet run "bridge_event list"
  | Durable run "bridge_event list" "bridge_event list"
  | Tolerant run run
  | Fails

datatype save_end = Saved | Unsaved | Written

record bridge_sys =
  by_disk :: bridge_state
  by_run :: "run option"
  by_trace :: "bridge_event list"

text \<open>A durable operation's first events hold once the file is replaced, its others once the save
  returned.\<close>

fun carry_out :: "save_end \<Rightarrow> outcome \<Rightarrow> bridge_sys \<Rightarrow> bridge_sys" where
  "carry_out w (Quiet r es) s = s\<lparr>by_run := Some r, by_trace := by_trace s @ es\<rparr>"
| "carry_out Saved (Durable r es es') s =
     s\<lparr>by_disk := rn_state r, by_run := Some r, by_trace := by_trace s @ es @ es'\<rparr>"
| "carry_out Unsaved (Durable r es es') s = s\<lparr>by_run := None\<rparr>"
| "carry_out Written (Durable r es es') s =
     s\<lparr>by_disk := rn_state r, by_run := None, by_trace := by_trace s @ es\<rparr>"
| "carry_out Saved (Tolerant r r') s = s\<lparr>by_disk := rn_state r, by_run := Some r\<rparr>"
| "carry_out Unsaved (Tolerant r r') s = s\<lparr>by_run := Some r'\<rparr>"
| "carry_out Written (Tolerant r r') s = s\<lparr>by_disk := rn_state r, by_run := Some r'\<rparr>"
| "carry_out w Fails s = s\<lparr>by_run := None\<rparr>"

definition with_state :: "(bridge_state \<Rightarrow> bridge_state) \<Rightarrow> run \<Rightarrow> run" where
  "with_state f r = r\<lparr>rn_state := f (rn_state r)\<rparr>"

definition push_pending :: "pending_delivery \<Rightarrow> bridge_state \<Rightarrow> bridge_state" where
  "push_pending p s = s\<lparr>bg_pending := bg_pending s @ [p]\<rparr>"

definition push_claim :: "in_flight \<Rightarrow> bridge_state \<Rightarrow> bridge_state" where
  "push_claim c s = s\<lparr>bg_in_flight := bg_in_flight s @ [c]\<rparr>"

definition system :: "run \<Rightarrow> ustr \<Rightarrow> ustr" where
  "system r t = system_text (ba_label (rn_account r)) t"

section \<open>Starting\<close>

text \<open>A save while the run starts: the file, and whether starting goes on.\<close>

fun write_end :: "save_end \<Rightarrow> bridge_state \<Rightarrow> bridge_state \<Rightarrow> bridge_state \<times> bool" where
  "write_end Saved fresh old = (fresh, True)"
| "write_end Unsaved fresh old = (old, False)"
| "write_end Written fresh old = (fresh, False)"

definition bind_state :: "string \<Rightarrow> save_end \<Rightarrow> bridge_state \<Rightarrow> bridge_state \<times> bool" where
  "bind_state fingerprint w s =
     (case bg_fingerprint s of
        Some f \<Rightarrow> (s, f = fingerprint)
      | None \<Rightarrow> write_end w (s\<lparr>bg_fingerprint := Some fingerprint\<rparr>) s)"

definition prepare_mail_chat :: "bool \<Rightarrow> save_end \<Rightarrow> bridge_state \<Rightarrow> bridge_state \<times> bool" where
  "prepare_mail_chat logged w s =
     (if bg_mail_chat s then (s, True)
      else if ordinary s \<or> logged then (s, False)
      else write_end w (s\<lparr>bg_mail_chat := True\<rparr>) s)"

definition fit_purpose :: "purpose \<Rightarrow> bool \<Rightarrow> save_end \<Rightarrow> bridge_state \<Rightarrow> bridge_state \<times> bool" where
  "fit_purpose purp logged w s =
     (if purp = ForMail then prepare_mail_chat logged w s else (s, \<not> bg_mail_chat s))"

definition recover_run ::
  "(nat \<Rightarrow> nat \<Rightarrow> string) \<Rightarrow> string option \<Rightarrow> ustr \<Rightarrow> nat \<Rightarrow> save_end \<Rightarrow> bridge_state \<Rightarrow> bridge_state \<times> bool" where
  "recover_run draw restart label now w s =
     (if bg_in_flight s = [] \<and> bg_jobs s = [] then (s, True)
      else write_end w (recover_interrupted_after draw restart label now s) s)"

definition new_run :: "account \<Rightarrow> bridge_state \<Rightarrow> run" where
  "new_run a s =
     \<lparr>rn_account = a, rn_state = s, rn_table = [], rn_runners = [], rn_next = 0, rn_polling = Between, rn_sending = None\<rparr>"

definition serve_start ::
  "account \<Rightarrow> string \<Rightarrow> bool \<Rightarrow> (nat \<Rightarrow> nat \<Rightarrow> string) \<Rightarrow> string option \<Rightarrow> nat \<Rightarrow> save_end \<times> save_end \<times> save_end \<Rightarrow>
     bridge_sys \<Rightarrow> bridge_sys" where
  "serve_start a fingerprint logged draw restart now w s =
     (case w of (w1, w2, w3) \<Rightarrow>
        let (d1, ok1) = bind_state fingerprint w1 (by_disk s);
            (d2, ok2) = (if ok1 then fit_purpose (ba_purpose a) logged w2 d1 else (d1, False));
            (d3, ok3) = (if ok2 then recover_run draw restart (ba_label a) now w3 d2 else (d2, False))
        in s\<lparr>by_disk := d3, by_run := (if ok3 then Some (new_run a d3) else None)\<rparr>)"

section \<open>Accepting a message\<close>

definition may_deliver_follow_up :: "sender \<Rightarrow> tool_owner option \<Rightarrow> bool" where
  "may_deliver_follow_up from t \<longleftrightarrow>
     sn_owner_chat from \<and> (case t of None \<Rightarrow> False | Some g \<Rightarrow> to_user_id g = mg_sender (sn_message from))"

definition is_offered :: "run \<Rightarrow> sender \<Rightarrow> bool" where
  "is_offered r from \<longleftrightarrow> ba_follow_ups (rn_account r) \<and> may_deliver_follow_up from (ba_tool_owner (rn_account r))"

definition intake_of :: "run \<Rightarrow> nat option \<Rightarrow> intake_view" where
  "intake_of r question =
     \<lparr>in_state = rn_state r, in_conversations = rn_table r, in_owner = ba_owner (rn_account r),
      in_tool_owner = ba_tool_owner (rn_account r), in_senders = ba_senders (rn_account r), in_question = question\<rparr>"

text \<open>A fixed notice instead of a turn.\<close>

definition fixed_notice :: "(nat \<Rightarrow> string) \<Rightarrow> run \<Rightarrow> sender \<Rightarrow> ustr \<Rightarrow> pending_delivery" where
  "fixed_notice draw r from t =
     (let m = sn_message from
      in (new_pending draw (mg_id m) (mg_sender m) (mg_reply_to m) (system r t))\<lparr>pd_key := sn_key from, pd_transient := True\<rparr>)"

definition queue_fixed :: "(nat \<Rightarrow> string) \<Rightarrow> run \<Rightarrow> sender \<Rightarrow> ustr \<Rightarrow> bridge_event list \<Rightarrow> outcome" where
  "queue_fixed draw r from t es =
     Durable ((with_state (push_pending (fixed_notice draw r from t)) r)\<lparr>rn_polling := Between\<rparr>) [] es"

definition job_of :: "sender \<Rightarrow> nat \<Rightarrow> job" where
  "job_of from limit =
     (let m = sn_message from
      in \<lparr>jb_message_id = mg_id m, jb_text = mg_text m, jb_media = mg_media m, jb_reference = mg_reference m,
          jb_origin = (case mg_thread m of None \<Rightarrow> None | Some t \<Rightarrow> th_origin t), jb_key = sn_key from,
          jb_limit = limit, jb_new = asks_for_new m\<rparr>)"

definition recipient_of :: "sender \<Rightarrow> recipient option" where
  "recipient_of from =
     (let m = sn_message from
      in if mg_group m = None
         then Some \<lparr>rc_peer = mg_sender m, rc_key = sn_key from,
                    rc_reply_to = (case mg_thread m of None \<Rightarrow> [] | Some t \<Rightarrow> th_reply_to t)\<rparr>
         else None)"

definition claim_message :: "run \<Rightarrow> sender \<Rightarrow> bool \<Rightarrow> nat \<Rightarrow> string option \<Rightarrow> outcome" where
  "claim_message r from tools limit evict =
     (let m = sn_message from;
          c = \<lparr>if_message_id = mg_id m, if_to = mg_sender m, if_context = mg_reply_to m, if_key = sn_key from,
               if_reaction = None\<rparr>
      in Durable ((with_state (push_claim c) r)
                    \<lparr>rn_polling := Queueing (job_of from limit) tools (recipient_of from) evict\<rparr>)
           [Claimed m (ba_tool_owner (rn_account r)) tools] [])"

definition proceed :: "(nat \<Rightarrow> string) \<Rightarrow> run \<Rightarrow> sender \<Rightarrow> ustr + (bool \<times> nat \<times> string option) \<Rightarrow> outcome" where
  "proceed draw r from turn =
     (case turn of
        Inl t \<Rightarrow> queue_fixed draw r from t []
      | Inr (tools, limit, evict) \<Rightarrow> claim_message r from tools limit evict)"

definition only_seen :: "run \<Rightarrow> string \<Rightarrow> outcome" where
  "only_seen r i = Durable ((with_state (mark_seen i) r)\<lparr>rn_polling := Between\<rparr>) [Marked i] []"

definition offer_or :: "(nat \<Rightarrow> string) \<Rightarrow> run \<Rightarrow> sender \<Rightarrow> ustr + (bool \<times> nat \<times> string option) \<Rightarrow> outcome" where
  "offer_or draw r from turn =
     (if is_offered r from then Quiet (r\<lparr>rn_polling := Offering from turn\<rparr>) [] else proceed draw r from turn)"

definition act_on :: "(nat \<Rightarrow> string) \<Rightarrow> run \<Rightarrow> string \<Rightarrow> verdict \<Rightarrow> outcome" where
  "act_on draw r i v =
     (case v of
        VIgnore \<Rightarrow> only_seen r i
      | VStranger \<Rightarrow> only_seen r i
      | VClaimed \<Rightarrow> Quiet r []
      | VAnswer from yes \<Rightarrow> Quiet r []
      | VBusy from \<Rightarrow> offer_or draw r from (Inl BUSY_REPLY)
      | VUnheard from \<Rightarrow> proceed draw r from (Inl VOICE_REPLY)
      | VTurn from tools limit evict \<Rightarrow> offer_or draw r from (Inr (tools, limit, evict)))"

definition acknowledge :: "(nat \<Rightarrow> string) \<Rightarrow> run \<Rightarrow> sender \<Rightarrow> bool \<Rightarrow> outcome" where
  "acknowledge draw r from yes =
     queue_fixed draw r from (if yes then ANSWERED_YES else ANSWERED_NO) [Answered (mg_id (sn_message from)) yes]"

text \<open>\<open>taken\<close>: the hub still had the question when the answer came.\<close>

definition accept :: "(nat \<Rightarrow> string) \<Rightarrow> nat option \<Rightarrow> bool \<Rightarrow> inbound \<Rightarrow> run \<Rightarrow> outcome" where
  "accept draw question taken inb r =
     (case classify inb (intake_of r question) of
        VAnswer from yes \<Rightarrow>
          if taken then acknowledge draw r from yes
          else act_on draw r (inbound_id inb) (classify inb (intake_of r None))
      | v \<Rightarrow> act_on draw r (inbound_id inb) v)"

datatype follow_up = FuTurn | FuDelivered | FuSettled | FuHeld | FuUnstored | FuUnresumable

text \<open>The task subscription's answer to the message offered to it.\<close>

definition job_took :: "(nat \<Rightarrow> string) \<Rightarrow> follow_up \<Rightarrow> run \<Rightarrow> outcome" where
  "job_took draw follow r =
     (case rn_polling r of
        Offering from turn \<Rightarrow>
          (case follow of
             FuTurn \<Rightarrow> proceed draw r from turn
           | FuUnstored \<Rightarrow> Fails
           | FuUnresumable \<Rightarrow>
               (let i = mg_id (sn_message from); p = fixed_notice draw r from UNRESUMABLE_NOTICE
                in Durable ((with_state (push_pending p \<circ> mark_seen i) r)\<lparr>rn_polling := Between\<rparr>) [Marked i] [])
           | _ \<Rightarrow> only_seen r (mg_id (sn_message from)))
      | _ \<Rightarrow> Quiet r [])"

section \<open>Queueing jobs\<close>

definition open_runner :: "nat \<Rightarrow> run \<Rightarrow> bool" where
  "open_runner n r \<longleftrightarrow> map_of (rn_runners r) n \<noteq> None"

definition release_queue :: "string \<Rightarrow> run \<Rightarrow> run" where
  "release_queue key r =
     (case map_of (rn_table r) key of
        None \<Rightarrow> r
      | Some l \<Rightarrow> r\<lparr>rn_table := AList.delete key (rn_table r),
                   rn_runners := modify (lv_runner l) (\<lambda>u. u\<lparr>ru_held := False\<rparr>) (rn_runners r)\<rparr>)"

definition send_job :: "nat \<Rightarrow> job \<Rightarrow> run \<Rightarrow> run" where
  "send_job n j r = r\<lparr>rn_runners := modify n (\<lambda>u. u\<lparr>ru_queue := ru_queue u @ [j]\<rparr>) (rn_runners r)\<rparr>"

definition start_runner :: "string \<Rightarrow> nat \<Rightarrow> bool \<Rightarrow> recipient option \<Rightarrow> run \<Rightarrow> run" where
  "start_runner key now tools rcp r =
     (let n = rn_next r
      in r\<lparr>rn_next := n + 1,
           rn_table := AList.update key \<lparr>lv_runner = n, lv_last_used = now, lv_watching = False\<rparr> (rn_table r),
           rn_runners := AList.update n
             \<lparr>ru_owner = tools, ru_recipient = rcp, ru_queue = [], ru_held = True, ru_job = None, ru_ending = False\<rparr>
             (rn_runners r)\<rparr>)"

definition queue_on :: "job \<Rightarrow> bool \<Rightarrow> recipient option \<Rightarrow> nat \<Rightarrow> run \<Rightarrow> run" where
  "queue_on j tools rcp now r =
     (let key = jb_key j;
          live = (case map_of (rn_table r) key of None \<Rightarrow> None
                  | Some l \<Rightarrow> if open_runner (lv_runner l) r then Some l else None)
      in case live of
           Some l \<Rightarrow>
             (send_job (lv_runner l) j r)\<lparr>rn_table := AList.update key (l\<lparr>lv_last_used := now\<rparr>) (rn_table r)\<rparr>
         | None \<Rightarrow> send_job (rn_next r) j (start_runner key now tools rcp (release_queue key r)))"

text \<open>After the claim is durable and the working reaction was tried.\<close>

definition queue_job :: "nat \<Rightarrow> run \<Rightarrow> outcome" where
  "queue_job now r =
     (case rn_polling r of
        Queueing j tools rcp evict \<Rightarrow>
          let r1 = (case evict of None \<Rightarrow> r | Some key \<Rightarrow> release_queue key r)
          in Quiet ((queue_on j tools rcp now r1)\<lparr>rn_polling := Between\<rparr>) []
      | _ \<Rightarrow> Quiet r [])"

text \<open>The poller forgets conversations whose futures ended.\<close>

definition retain_open :: "run \<Rightarrow> outcome" where
  "retain_open r = Quiet (r\<lparr>rn_table := filter (\<lambda>(_, l). open_runner (lv_runner l) r) (rn_table r)\<rparr>) []"

definition commit_cursor :: "string option \<Rightarrow> run \<Rightarrow> outcome" where
  "commit_cursor checkpoint r =
     (case checkpoint of
        None \<Rightarrow> Durable r [] []
      | Some c \<Rightarrow> Durable (with_state (\<lambda>s. s\<lparr>bg_cursor := c\<rparr>) r) [] [])"

record returned =
  rt_thread :: string
  rt_message_id :: string
  rt_text :: ustr
  rt_reply_to :: string
  rt_thread_reply :: string

definition returned_turn :: "string \<Rightarrow> string \<Rightarrow> tool_owner option \<Rightarrow> bool \<times> nat" where
  "returned_turn thread owner t =
     (let chat = chat_of thread;
          tools = (case t of None \<Rightarrow> False | Some g \<Rightarrow> to_user_id g = owner \<and> chat = owner)
      in (tools, case t of Some g \<Rightarrow> if tools then to_turn_timeout g else TURN_TIMEOUT | None \<Rightarrow> TURN_TIMEOUT))"

definition enqueue_returned :: "returned \<Rightarrow> run \<Rightarrow> outcome" where
  "enqueue_returned ret r =
     (case ba_owner (rn_account r) of
        None \<Rightarrow> Quiet r []
      | Some owner \<Rightarrow>
          let i = ''return:'' @ rt_message_id ret; s = rn_state r
          in if i \<in> set (bg_seen s) \<or> known_id s i then Quiet r []
             else
               let (tools, limit) = returned_turn (rt_thread ret) owner (ba_tool_owner (rn_account r));
                   c = \<lparr>if_message_id = i, if_to = owner, if_context = rt_reply_to ret, if_key = rt_thread ret,
                        if_reaction = None\<rparr>;
                   j = \<lparr>jb_message_id = i, jb_text = rt_text ret, jb_media = [], jb_reference = None,
                        jb_origin = None, jb_key = rt_thread ret, jb_limit = limit, jb_new = False\<rparr>;
                   rcp = (if CHR 0x00 \<in> set (chat_of (rt_thread ret)) then None
                          else Some \<lparr>rc_peer = owner, rc_key = rt_thread ret, rc_reply_to = rt_thread_reply ret\<rparr>)
               in Durable ((with_state (push_claim c) r)\<lparr>rn_polling := Queueing j tools rcp None\<rparr>)
                    [ClaimedReturn i (rt_thread ret) (ba_tool_owner (rn_account r)) tools] [])"

section \<open>Conversations\<close>

definition set_runner :: "nat \<Rightarrow> (runner \<Rightarrow> runner) \<Rightarrow> run \<Rightarrow> run" where
  "set_runner n f r = r\<lparr>rn_runners := modify n f (rn_runners r)\<rparr>"

definition begin_job :: "nat \<Rightarrow> run \<Rightarrow> outcome" where
  "begin_job n r =
     (case map_of (rn_runners r) n of
        None \<Rightarrow> Quiet r []
      | Some u \<Rightarrow>
          if ru_job u \<noteq> None \<or> ru_ending u then Quiet r []
          else (case ru_queue u of
                  [] \<Rightarrow> Quiet r []
                | j # js \<Rightarrow>
                    Quiet (set_runner n (\<lambda>u. u\<lparr>ru_job := Some j, ru_queue := js\<rparr>) r)
                      (if jb_new j then [] else [Began (jb_message_id j) (ru_owner u)])))"

text \<open>The turn, or \<open>/new\<close>, is over: the claim becomes a pending reply in one write.\<close>

definition end_job :: "(nat \<Rightarrow> string) \<Rightarrow> nat \<Rightarrow> ustr \<Rightarrow> pending_file list \<Rightarrow> nat \<Rightarrow> run \<Rightarrow> outcome" where
  "end_job draw n t files now r =
     (case Option.bind (map_of (rn_runners r) n) ru_job of
        None \<Rightarrow> Quiet r []
      | Some j \<Rightarrow>
          let s = rn_state r
          in case position (\<lambda>c. if_message_id c = jb_message_id j) (bg_in_flight s) of
               None \<Rightarrow> Fails
             | Some i \<Rightarrow>
                 let (p, s1) = compose_pending draw (bg_in_flight s ! i) t now
                                 (s\<lparr>bg_in_flight := remove_at i (bg_in_flight s)\<rparr>)
                 in Durable ((set_runner n (\<lambda>u. u\<lparr>ru_job := None\<rparr>) r)
                               \<lparr>rn_state := push_pending (p\<lparr>pd_files := files\<rparr>) s1\<rparr>)
                      [Replied (jb_message_id j)] [])"

definition queue_unprompted :: "(nat \<Rightarrow> string) \<Rightarrow> recipient \<Rightarrow> ustr \<Rightarrow> pending_file list \<Rightarrow> run \<Rightarrow> outcome" where
  "queue_unprompted draw rcp t files r =
     Durable (with_state (push_pending
        ((new_pending draw [] (rc_peer rcp) (rc_reply_to rcp) t)\<lparr>pd_key := rc_key rcp, pd_files := files\<rparr>)) r) [] []"

definition report_job :: "(nat \<Rightarrow> string) \<Rightarrow> nat \<Rightarrow> ustr \<Rightarrow> pending_file list \<Rightarrow> run \<Rightarrow> outcome" where
  "report_job draw n t files r =
     (case Option.bind (map_of (rn_runners r) n) ru_recipient of
        None \<Rightarrow> Quiet r []
      | Some rcp \<Rightarrow> queue_unprompted draw rcp t files r)"

record job_info =
  ji_job :: string
  ji_tool :: string
  ji_agent :: string
  ji_task :: ustr
  ji_journal :: string

definition recorded_jobs :: "recipient \<Rightarrow> job_info list \<Rightarrow> nat \<Rightarrow> bridge_state \<Rightarrow> bridge_state" where
  "recorded_jobs rcp current now s =
     (let ours = (\<lambda>j. job_conversation j = rc_key rcp);
          kept = map (\<lambda>i. \<lparr>rj_to = rc_peer rcp, rj_key = (if rc_key rcp = rc_peer rcp then [] else rc_key rcp),
                   rj_reply_to = rc_reply_to rcp, rj_job = ji_job i, rj_tool = ji_tool i, rj_agent = ji_agent i,
                   rj_task = ji_task i, rj_journal = ji_journal i,
                   rj_started_at = (case List.find (\<lambda>j. ours j \<and> rj_job j = ji_job i) (bg_jobs s) of
                                      Some j \<Rightarrow> rj_started_at j | None \<Rightarrow> now)\<rparr>) current
      in s\<lparr>bg_jobs := filter (\<lambda>j. \<not> ours j) (bg_jobs s) @ kept\<rparr>)"

definition record_jobs :: "recipient \<Rightarrow> job_info list \<Rightarrow> nat \<Rightarrow> run \<Rightarrow> outcome" where
  "record_jobs rcp current now r =
     (let recorded = map rj_job (filter (\<lambda>j. job_conversation j = rc_key rcp) (bg_jobs (rn_state r)))
      in if length recorded = length current \<and> list_all (\<lambda>i. ji_job i \<in> set recorded) current
         then Quiet r []
         else Durable (with_state (recorded_jobs rcp current now) r) [] [])"

definition track_jobs :: "nat \<Rightarrow> job_info list \<Rightarrow> nat \<Rightarrow> run \<Rightarrow> outcome" where
  "track_jobs n current now r =
     (case Option.bind (map_of (rn_runners r) n) ru_recipient of
        None \<Rightarrow> Quiet r [] | Some rcp \<Rightarrow> record_jobs rcp current now r)"

definition set_watching :: "string \<Rightarrow> bool \<Rightarrow> run \<Rightarrow> outcome" where
  "set_watching key w r = Quiet (r\<lparr>rn_table := modify key (\<lambda>l. l\<lparr>lv_watching := w\<rparr>) (rn_table r)\<rparr>) []"

text \<open>
  The conversation's queue closed, or stayed empty for \<open>SESSION_IDLE\<close>. Without a recipient the
  future ends at once; with one it first waits for the state's lock (\<open>record_jobs\<close>), and what the
  poller sends it meanwhile ends with it (\<open>end_runner\<close>).
\<close>

definition idle_out :: "nat \<Rightarrow> run \<Rightarrow> outcome" where
  "idle_out n r =
     (case map_of (rn_runners r) n of
        None \<Rightarrow> Quiet r []
      | Some u \<Rightarrow>
          if ru_job u \<noteq> None \<or> ru_queue u \<noteq> [] then Quiet r []
          else if ru_recipient u = None then Quiet (r\<lparr>rn_runners := AList.delete n (rn_runners r)\<rparr>) []
          else Quiet (set_runner n (\<lambda>u. u\<lparr>ru_ending := True\<rparr>) r) [])"

definition end_runner :: "nat \<Rightarrow> nat \<Rightarrow> run \<Rightarrow> outcome" where
  "end_runner n now r =
     (case map_of (rn_runners r) n of
        None \<Rightarrow> Quiet r []
      | Some u \<Rightarrow>
          if \<not> ru_ending u then Quiet r []
          else
            let r1 = r\<lparr>rn_runners := AList.delete n (rn_runners r)\<rparr>;
                lost = map (\<lambda>j. Dropped (jb_message_id j)) (ru_queue u)
            in case ru_recipient u of
                 None \<Rightarrow> Quiet r1 lost
               | Some rcp \<Rightarrow>
                   (case record_jobs rcp [] now r1 of
                      Durable r2 es es' \<Rightarrow> Durable r2 es (es' @ lost)
                    | _ \<Rightarrow> Quiet r1 lost))"

section \<open>Notices\<close>

text \<open>\<open>abandoned\<close>: the daemon no longer waits for it.\<close>

definition store_mail_notice :: "(nat \<Rightarrow> string) \<Rightarrow> string \<Rightarrow> ustr \<Rightarrow> string \<Rightarrow> nat \<Rightarrow> run \<Rightarrow> outcome" where
  "store_mail_notice draw to t key now r =
     (let s = rn_state r
      in if key \<in> set (map rk_key (bg_recent_keys s)) \<or> Some key \<in> set (map pd_notice_key (bg_pending s)) then Quiet r []
         else
           let p = (new_pending draw [] to [] t)\<lparr>pd_key := to, pd_transient := True, pd_notice_key := Some key\<rparr>;
               s1 = push_pending p s;
               s2 = s1\<lparr>bg_recent_keys := bg_recent_keys s1 @ [\<lparr>rk_key = key, rk_outcome = Pending, rk_stored_at = now\<rparr>]\<rparr>
           in Durable (r\<lparr>rn_state := prune_recent_keys now s2\<rparr>) [MailStored key] [])"

definition store_notice ::
  "(nat \<Rightarrow> string) \<Rightarrow> string \<Rightarrow> ustr \<Rightarrow> string option \<Rightarrow> string option \<Rightarrow> bool \<Rightarrow> nat \<Rightarrow> run \<Rightarrow> outcome" where
  "store_notice draw to t quest key abandoned now r =
     (if abandoned then Quiet r []
      else if (ba_purpose (rn_account r) = ForMail) \<noteq> (key \<noteq> None) then Quiet r []
      else case key of
             Some k \<Rightarrow> store_mail_notice draw to t k now r
           | None \<Rightarrow>
               Durable (with_state (push_pending ((new_pending draw [] to [] (system r t))
                 \<lparr>pd_key := to, pd_transient := (quest \<noteq> None), pd_question := quest\<rparr>)) r) [] [])"

section \<open>A mail chat's messages\<close>

definition accept_mail :: "inbound \<Rightarrow> run \<Rightarrow> outcome" where
  "accept_mail inb r =
     (let i = inbound_id inb; s = rn_state r
      in if i \<in> set (bg_seen s) \<or> i \<in> set (map pd_message_id (bg_pending s)) then Quiet r []
         else case inb of
                InText m \<Rightarrow>
                  if mg_group m = None \<and> ba_owner (rn_account r) = Some (mg_sender m)
                  then Quiet (r\<lparr>rn_polling := Commanding m\<rparr>) []
                  else only_seen r i
              | InIgnored _ \<Rightarrow> only_seen r i)"

text \<open>The reply, once the email accounts answered; its words are SCV's (\<open>Mail_Chat\<close>, \<open>Hub\<close>).\<close>

definition answer_mail :: "(nat \<Rightarrow> string) \<Rightarrow> ustr \<Rightarrow> run \<Rightarrow> outcome" where
  "answer_mail draw t r =
     (case rn_polling r of
        Commanding m \<Rightarrow>
          (let i = mg_id m; s = rn_state r
           in if i \<in> set (bg_seen s) \<or> i \<in> set (map pd_message_id (bg_pending s))
              then Quiet (r\<lparr>rn_polling := Between\<rparr>) []
              else Durable ((with_state (push_pending
                     ((new_pending draw i (mg_sender m) (mg_reply_to m) (system r t))
                      \<lparr>pd_key := mg_sender m, pd_transient := True\<rparr>)) r)\<lparr>rn_polling := Between\<rparr>) [] [])
      | _ \<Rightarrow> Quiet r [])"

definition accept_any :: "(nat \<Rightarrow> string) \<Rightarrow> nat option \<Rightarrow> bool \<Rightarrow> inbound \<Rightarrow> run \<Rightarrow> outcome" where
  "accept_any draw question taken inb r =
     (if rn_polling r \<noteq> Between then Quiet r []
      else if ba_purpose (rn_account r) = ForMail then accept_mail inb r
      else accept draw question taken inb r)"

section \<open>Delivering\<close>

text \<open>The first pending reply, with a client ID per part; \<open>waits\<close> says whether its question still waits.\<close>

definition begin_delivery :: "(nat \<Rightarrow> string) \<Rightarrow> bool \<Rightarrow> run \<Rightarrow> outcome" where
  "begin_delivery draw waits r =
     (case (rn_sending r, bg_pending (rn_state r)) of
        (None, first # rest) \<Rightarrow>
          if pd_question first \<noteq> None \<and> \<not> waits
          then Durable (with_state (\<lambda>s. s\<lparr>bg_pending := rest\<rparr>) r) [] []
          else
            let chunks = length (text_chunks first);
                missing = chunks - length (pd_client_ids first);
                p = first\<lparr>pd_client_ids := pd_client_ids first @ map draw [0 ..< missing],
                          pd_next_chunk := (if pd_next_chunk first > chunks then 0 else pd_next_chunk first)\<rparr>;
                r1 = (with_state (\<lambda>s. s\<lparr>bg_pending := p # rest\<rparr>) r)
                       \<lparr>rn_sending := Some \<lparr>sd_pending = p, sd_refused = False, sd_text_over = False\<rparr>\<rparr>
            in if p \<noteq> first then Durable r1 [] [] else Quiet r1 []
      | _ \<Rightarrow> Quiet r [])"

datatype send_end = Accepted | Rejected | SendFailed

definition head_pending :: "(pending_delivery \<Rightarrow> pending_delivery) \<Rightarrow> bridge_state \<Rightarrow> bridge_state" where
  "head_pending f s = (case bg_pending s of [] \<Rightarrow> s | p # ps \<Rightarrow> s\<lparr>bg_pending := f p # ps\<rparr>)"

definition send_part :: "send_end \<Rightarrow> run \<Rightarrow> outcome" where
  "send_part e r =
     (case rn_sending r of
        None \<Rightarrow> Quiet r []
      | Some d \<Rightarrow>
          let p = sd_pending d; n = pd_next_chunk p
          in if sd_text_over d \<or> sd_refused d \<or> length (text_chunks p) \<le> n then Quiet r []
             else
               let ev = [SentPart (pd_client_ids p ! n) n (text_chunks p ! n)]
               in case e of
                    SendFailed \<Rightarrow> Quiet (r\<lparr>rn_sending := None\<rparr>) ev
                  | Rejected \<Rightarrow> Quiet (r\<lparr>rn_sending := Some (d\<lparr>sd_refused := True\<rparr>)\<rparr>) ev
                  | Accepted \<Rightarrow>
                      (let r1 = (with_state (head_pending (\<lambda>q. q\<lparr>pd_next_chunk := n + 1\<rparr>)) r)
                                 \<lparr>rn_sending := Some (d\<lparr>sd_pending := p\<lparr>pd_next_chunk := n + 1\<rparr>\<rparr>)\<rparr>
                       in Durable r1 [] []))"

text \<open>The loop over the text ends; the hub hears how a question's text went.\<close>

definition end_text :: "run \<Rightarrow> outcome" where
  "end_text r =
     (case rn_sending r of
        None \<Rightarrow> Quiet r []
      | Some d \<Rightarrow>
          if sd_text_over d \<or> (\<not> sd_refused d \<and> pd_next_chunk (sd_pending d) < length (text_chunks (sd_pending d)))
          then Quiet r []
          else Quiet (r\<lparr>rn_sending := Some (d\<lparr>sd_text_over := True\<rparr>)\<rparr>) [])"

definition send_file :: "send_end \<Rightarrow> run \<Rightarrow> outcome" where
  "send_file e r =
     (case rn_sending r of
        None \<Rightarrow> Quiet r []
      | Some d \<Rightarrow>
          let p = sd_pending d; n = pd_next_file p
          in if \<not> sd_text_over d \<or> sd_refused d \<or> length (pd_files p) \<le> n then Quiet r []
             else if ba_inside (rn_account r) (pf_path (pd_files p ! n)) \<and> e = SendFailed
             then Quiet (r\<lparr>rn_sending := None\<rparr>) []
             else
               let r1 = (with_state (head_pending (\<lambda>q. q\<lparr>pd_next_file := n + 1\<rparr>)) r)
                          \<lparr>rn_sending := Some (d\<lparr>sd_pending := p\<lparr>pd_next_file := n + 1\<rparr>\<rparr>)\<rparr>
               in Durable r1 [] [])"

definition settle_key :: "string option \<Rightarrow> bool \<Rightarrow> nat \<Rightarrow> bridge_state \<Rightarrow> bridge_state" where
  "settle_key key refused now_ms s =
     (case key of
        None \<Rightarrow> s
      | Some k \<Rightarrow>
          (case position (\<lambda>r. rk_key r = k) (bg_recent_keys s) of
             None \<Rightarrow> s
           | Some i \<Rightarrow>
               s\<lparr>bg_recent_keys := (bg_recent_keys s)
                   [i := (bg_recent_keys s ! i)\<lparr>rk_outcome := (if refused then KeyRefused else Delivered now_ms)\<rparr>]\<rparr>))"

definition finished_delivery :: "sending \<Rightarrow> nat \<Rightarrow> nat \<Rightarrow> bridge_state \<Rightarrow> bridge_state" where
  "finished_delivery d now now_ms s =
     (let p = sd_pending d;
          s1 = s\<lparr>bg_pending := tl (bg_pending s)\<rparr>;
          s2 = (case pd_reaction p of None \<Rightarrow> s1
                | Some x \<Rightarrow> s1\<lparr>bg_removing := bg_removing s1 @ [\<lparr>re_message_id = pd_message_id p, re_reaction = x\<rparr>]\<rparr>);
          s3 = (if pd_message_id p = [] then s2 else mark_seen (pd_message_id p) s2);
          s4 = settle_key (pd_notice_key p) (sd_refused d) now_ms s3
      in if sd_refused d then hold_refused p (text_chunks p) now s4 else s4)"

definition end_delivery :: "nat \<Rightarrow> nat \<Rightarrow> run \<Rightarrow> outcome" where
  "end_delivery now now_ms r =
     (case rn_sending r of
        None \<Rightarrow> Quiet r []
      | Some d \<Rightarrow>
          if \<not> sd_text_over d \<or> (\<not> sd_refused d \<and> pd_next_file (sd_pending d) < length (pd_files (sd_pending d)))
          then Quiet r []
          else
            let i = pd_message_id (sd_pending d)
            in Durable ((with_state (finished_delivery d now now_ms) r)\<lparr>rn_sending := None\<rparr>)
                 (if i = [] then [] else [Marked i]) [Over i (sd_refused d)])"

section \<open>Working reactions\<close>

text \<open>A reaction was put on \<open>i\<close>: it is saved with the claim, and taken off at once if the claim is gone.\<close>

definition keep_reaction :: "string \<Rightarrow> string \<Rightarrow> run \<Rightarrow> outcome" where
  "keep_reaction i x r =
     (let s = rn_state r
      in case position (\<lambda>c. if_message_id c = i) (bg_in_flight s) of
           None \<Rightarrow> Quiet r [Reacted i x]
         | Some n \<Rightarrow>
             Tolerant (with_state (\<lambda>s. s\<lparr>bg_in_flight := (bg_in_flight s)[n := (bg_in_flight s ! n)\<lparr>if_reaction := Some x\<rparr>]\<rparr>) r)
               (with_state (\<lambda>s. s\<lparr>bg_in_flight := (bg_in_flight s)[n := (bg_in_flight s ! n)\<lparr>if_reaction := None\<rparr>]\<rparr>) r))"

definition remove_reaction :: "run \<Rightarrow> outcome" where
  "remove_reaction r =
     (if bg_removing (rn_state r) = [] then Quiet r []
      else let r1 = with_state (\<lambda>s. s\<lparr>bg_removing := tl (bg_removing s)\<rparr>) r in Tolerant r1 r1)"

section \<open>The machine\<close>

datatype bridge_op =
    BAccept "nat \<Rightarrow> string" "nat option" bool inbound
  | BOffered "nat \<Rightarrow> string" follow_up
  | BQueue nat
  | BRetain
  | BCursor "string option"
  | BReturned returned
  | BBegin nat
  | BEnd "nat \<Rightarrow> string" nat ustr "pending_file list" nat
  | BReport "nat \<Rightarrow> string" nat ustr "pending_file list"
  | BJobs nat "job_info list" nat
  | BWatching string bool
  | BIdle nat
  | BEndRunner nat nat
  | BNotice "nat \<Rightarrow> string" string ustr "string option" "string option" bool nat
  | BMailAnswer "nat \<Rightarrow> string" ustr
  | BDeliver "nat \<Rightarrow> string" bool
  | BSendPart send_end
  | BEndText
  | BSendFile send_end
  | BEndDelivery nat nat
  | BReact string string
  | BUnreact

fun perform :: "bridge_op \<Rightarrow> run \<Rightarrow> outcome" where
  "perform (BAccept draw q taken inb) r = accept_any draw q taken inb r"
| "perform (BOffered draw f) r = job_took draw f r"
| "perform (BQueue now) r = queue_job now r"
| "perform BRetain r = retain_open r"
| "perform (BCursor c) r = (if rn_polling r = Between then commit_cursor c r else Quiet r [])"
| "perform (BReturned ret) r =
     (if rn_polling r = Between \<and> ba_purpose (rn_account r) = ForChat \<and> ba_follow_ups (rn_account r)
      then enqueue_returned ret r else Quiet r [])"
| "perform (BBegin n) r = begin_job n r"
| "perform (BEnd draw n t fs now) r = end_job draw n t fs now r"
| "perform (BReport draw n t fs) r = report_job draw n t fs r"
| "perform (BJobs n current now) r = track_jobs n current now r"
| "perform (BWatching key w) r = set_watching key w r"
| "perform (BIdle n) r = idle_out n r"
| "perform (BEndRunner n now) r = end_runner n now r"
| "perform (BNotice draw to t q k ab now) r = store_notice draw to t q k ab now r"
| "perform (BMailAnswer draw t) r = answer_mail draw t r"
| "perform (BDeliver draw waits) r = begin_delivery draw waits r"
| "perform (BSendPart e) r = send_part e r"
| "perform BEndText r = end_text r"
| "perform (BSendFile e) r = send_file e r"
| "perform (BEndDelivery now ms) r = end_delivery now ms r"
| "perform (BReact i x) r = keep_reaction i x r"
| "perform BUnreact r = remove_reaction r"

text \<open>The run may also stop at any moment, and a new one start.\<close>

datatype sys_op =
    SStart account string bool "nat \<Rightarrow> nat \<Rightarrow> string" "string option" nat "save_end \<times> save_end \<times> save_end"
  | SOp bridge_op save_end
  | SStop

fun bridge_step :: "sys_op \<Rightarrow> bridge_sys \<Rightarrow> bridge_sys" where
  "bridge_step (SStart a fp logged draw restart now w) s =
     (if by_run s = None then serve_start a fp logged draw restart now w s else s)"
| "bridge_step (SOp op w) s =
     (case by_run s of None \<Rightarrow> s | Some r \<Rightarrow> carry_out w (perform op r) s)"
| "bridge_step SStop s = s\<lparr>by_run := None\<rparr>"

definition new_sys :: bridge_sys where
  "new_sys = \<lparr>by_disk = new_bridge_state, by_run = None, by_trace = []\<rparr>"

end
