(* ===== verification/Bridge_Memory.thy ===== *)
theory Bridge_Memory
  imports Bridge
begin

text \<open>
  What a bridge remembers of the messages it has taken: the invariant of its delivery state, in memory
  and on disk, over any interleaving, failed save, stop and restart. A message that was claimed is
  known from its claim or its reply until its ID is marked seen, and its ID leaves the list of seen
  ones only after 4096 others were marked.
\<close>

section \<open>What the trace says\<close>

fun is_claim :: "string \<Rightarrow> bridge_event \<Rightarrow> bool" where
  "is_claim i (Claimed m t tools) \<longleftrightarrow> mg_id m = i"
| "is_claim i (ClaimedReturn j thread t tools) \<longleftrightarrow> j = i"
| "is_claim i _ \<longleftrightarrow> False"

definition marks :: "bridge_event list \<Rightarrow> string set" where
  "marks tr = {i. Marked i \<in> set tr}"

definition no_claim :: "bridge_event list \<Rightarrow> bool" where
  "no_claim es \<longleftrightarrow> list_all (\<lambda>e. \<forall>i. \<not> is_claim i e) es"

lemma marks_simps [simp]: "marks [] = {}" "marks (a @ b) = marks a \<union> marks b"
  "marks (e # es) = (case e of Marked i \<Rightarrow> {i} | _ \<Rightarrow> {}) \<union> marks es"
  by (auto simp: marks_def split: bridge_event.split)

lemma finite_marks [simp]: "finite (marks tr)"
  by (induction tr) (auto split: bridge_event.split)

lemma no_claim_simps [simp]: "no_claim []" "no_claim (e # es) \<longleftrightarrow> (\<forall>i. \<not> is_claim i e) \<and> no_claim es"
  "no_claim (a @ b) \<longleftrightarrow> no_claim a \<and> no_claim b"
  by (simp_all add: no_claim_def)

lemma no_claim_map [simp]: "no_claim (map (\<lambda>j. Dropped (f j)) js)" "marks (map (\<lambda>j. Dropped (f j)) js) = {}"
  by (induction js) simp_all

text \<open>The IDs marked after \<open>i\<close> in the list of seen ones.\<close>

definition newer :: "string \<Rightarrow> string list \<Rightarrow> string set" where
  "newer i xs = set (takeWhile (\<lambda>x. x \<noteq> i) (rev xs))"

definition remembered :: "string \<Rightarrow> bridge_event list \<Rightarrow> bridge_state \<Rightarrow> bool" where
  "remembered i since s \<longleftrightarrow> known_id s i \<or> (i \<in> set (bg_seen s) \<and> newer i (bg_seen s) \<subseteq> marks since) \<or>
     MAX_SEEN \<le> card (marks since - {i})"

definition covered :: "bridge_event list \<Rightarrow> bridge_state \<Rightarrow> bool" where
  "covered tr s \<longleftrightarrow> (\<forall>i pre e since. i \<noteq> [] \<longrightarrow> tr = pre @ e # since \<longrightarrow> is_claim i e \<longrightarrow> remembered i since s)"

definition claims_spaced :: "bridge_event list \<Rightarrow> bool" where
  "claims_spaced tr \<longleftrightarrow> (\<forall>i pre e mid e' post. i \<noteq> [] \<longrightarrow> tr = pre @ e # mid @ e' # post \<longrightarrow> is_claim i e \<longrightarrow> is_claim i e' \<longrightarrow>
     MAX_SEEN \<le> card (marks mid - {i}))"

section \<open>The list of seen IDs\<close>

lemma newer_snoc: "newer i (xs @ [j]) = (if i = j then {} else insert j (newer i xs))"
  by (auto simp: newer_def)

lemma newer_drop: "i \<in> set (drop n xs) \<Longrightarrow> newer i (drop n xs) = newer i xs"
proof -
  assume i: "i \<in> set (drop n xs)"
  have "rev xs = rev (drop n xs) @ rev (take n xs)" by (metis append_take_drop_id rev_append)
  then show ?thesis using i by (simp add: newer_def takeWhile_append1)
qed

lemma newer_remove: "i \<noteq> j \<Longrightarrow> newer i (filter (\<lambda>x. x \<noteq> j) xs) \<subseteq> newer i xs"
proof (induction xs rule: rev_induct)
  case (snoc x xs)
  then show ?case by (auto simp: newer_snoc)
qed simp

lemma remove_first_distinct:
  assumes "distinct xs"
  shows "(case position (\<lambda>x. x = i) xs of None \<Rightarrow> xs | Some n \<Rightarrow> remove_at n xs) = filter (\<lambda>x. x \<noteq> i) xs"
proof (cases "position (\<lambda>x. x = i) xs")
  case None
  then have "i \<notin> set xs" by (auto simp: position_None_iff)
  then have "filter (\<lambda>x. x \<noteq> i) xs = xs" by (auto simp: filter_id_conv)
  then show ?thesis using None by simp
next
  case (Some n)
  then have n: "n < length xs" "xs ! n = i" by (auto simp: position_Some_iff)
  have xs: "xs = take n xs @ i # drop (Suc n) xs" using n by (metis id_take_nth_drop)
  have "distinct (take n xs @ i # drop (Suc n) xs)" using assms xs by simp
  then have "i \<notin> set (take n xs)" "i \<notin> set (drop (Suc n) xs)" by auto
  then have "filter (\<lambda>x. x \<noteq> i) (take n xs) = take n xs" "filter (\<lambda>x. x \<noteq> i) (drop (Suc n) xs) = drop (Suc n) xs"
    by (metis (mono_tags, lifting) filter_True)+
  then have "filter (\<lambda>x. x \<noteq> i) (take n xs @ i # drop (Suc n) xs) = take n xs @ drop (Suc n) xs" by simp
  then have "filter (\<lambda>x. x \<noteq> i) xs = take n xs @ drop (Suc n) xs" using xs by simp
  then show ?thesis using Some by (simp add: remove_at_def)
qed

definition seen_ok :: "bridge_state \<Rightarrow> bool" where
  "seen_ok s \<longleftrightarrow> distinct (bg_seen s) \<and> length (bg_seen s) \<le> MAX_SEEN"

lemma filter_seen_le: "seen_ok s \<Longrightarrow> length (filter p (bg_seen s)) \<le> MAX_SEEN"
  by (rule le_trans[OF length_filter_le]) (simp add: seen_ok_def)

lemma mark_seen_list:
  assumes "seen_ok s"
  shows "bg_seen (mark_seen j s) =
    (if length (filter (\<lambda>x. x \<noteq> j) (bg_seen s)) < MAX_SEEN then filter (\<lambda>x. x \<noteq> j) (bg_seen s) @ [j]
     else tl (filter (\<lambda>x. x \<noteq> j) (bg_seen s) @ [j]))"
proof -
  let ?f = "filter (\<lambda>x. x \<noteq> j) (bg_seen s)"
  have le: "length ?f \<le> MAX_SEEN" by (rule filter_seen_le[OF assms])
  have seen: "bg_seen (mark_seen j s) = drop (length (?f @ [j]) - MAX_SEEN) (?f @ [j])"
    using assms remove_first_distinct[of "bg_seen s" j] unfolding mark_seen_def seen_ok_def Let_def by simp
  show ?thesis
  proof (cases "length ?f < MAX_SEEN")
    case True
    then have "length (?f @ [j]) - MAX_SEEN = 0" by simp
    then show ?thesis using seen True by (metis drop_0)
  next
    case False
    then have "length (?f @ [j]) - MAX_SEEN = Suc 0" using le by simp
    then show ?thesis using seen False by (metis drop_0 drop_Suc)
  qed
qed

lemma seen_ok_mark:
  assumes "seen_ok s"
  shows "seen_ok (mark_seen j s)"
proof -
  let ?f = "filter (\<lambda>x. x \<noteq> j) (bg_seen s)"
  have "distinct (?f @ [j])" using assms by (simp add: seen_ok_def)
  then have "distinct (bg_seen (mark_seen j s))" using mark_seen_list[OF assms, of j] distinct_tl by metis
  moreover have "length (bg_seen (mark_seen j s)) \<le> MAX_SEEN"
    using mark_seen_list[OF assms, of j] filter_seen_le[OF assms, of "\<lambda>x. x \<noteq> j"] by simp
  ultimately show ?thesis by (simp add: seen_ok_def)
qed

lemma MAX_SEEN_pos [simp]: "0 < MAX_SEEN" "Suc 0 \<le> MAX_SEEN"
  by (simp_all add: MAX_SEEN_def)

lemma seen_mark_new [simp]:
  "seen_ok s \<Longrightarrow> j \<in> set (bg_seen (mark_seen j s))"
  using mark_seen_list[of s j] by (cases "filter (\<lambda>x. x \<noteq> j) (bg_seen s)") simp_all

lemma mark_seen_frame [simp]:
  "bg_pending (mark_seen j s) = bg_pending s" "bg_in_flight (mark_seen j s) = bg_in_flight s"
  "bg_held (mark_seen j s) = bg_held s" "bg_jobs (mark_seen j s) = bg_jobs s" "bg_cursor (mark_seen j s) = bg_cursor s"
  "bg_mail_chat (mark_seen j s) = bg_mail_chat s" "bg_recent_keys (mark_seen j s) = bg_recent_keys s"
  "bg_removing (mark_seen j s) = bg_removing s" "bg_fingerprint (mark_seen j s) = bg_fingerprint s"
  by (simp_all add: mark_seen_def Let_def)

text \<open>An ID that leaves the list leaves it to 4096 newer ones.\<close>

lemma newer_mark:
  assumes ok: "seen_ok s" and "i \<in> set (bg_seen s)" and "i \<noteq> j"
  shows "(i \<in> set (bg_seen (mark_seen j s)) \<and> newer i (bg_seen (mark_seen j s)) \<subseteq> insert j (newer i (bg_seen s))) \<or>
    MAX_SEEN \<le> card (insert j (newer i (bg_seen s)) - {i})"
proof -
  let ?f = "filter (\<lambda>x. x \<noteq> j) (bg_seen s)"
  have i: "i \<in> set ?f" using assms by simp
  have sub: "newer i (?f @ [j]) \<subseteq> insert j (newer i (bg_seen s))"
    using newer_remove[OF assms(3), of "bg_seen s"] assms(3) by (auto simp: newer_snoc)
  show ?thesis
  proof (cases "length ?f < MAX_SEEN")
    case True
    then show ?thesis using mark_seen_list[OF ok, of j] sub i by simp
  next
    case False
    then have len: "length ?f = MAX_SEEN" using filter_seen_le[OF ok, of "\<lambda>x. x \<noteq> j"] by simp
    have seen: "bg_seen (mark_seen j s) = drop 1 (?f @ [j])" using mark_seen_list[OF ok, of j] False by (simp only: drop_Suc drop_0 One_nat_def if_False)
    show ?thesis
    proof (cases "i \<in> set (drop 1 (?f @ [j]))")
      case True
      then show ?thesis using newer_drop[OF True] sub seen by simp
    next
      case False
      obtain x xs where f: "?f = x # xs" using len MAX_SEEN_pos by (metis length_0_conv list.exhaust not_less_zero)
      then have x: "i = x" "i \<notin> set xs" using False i by auto
      have new: "newer i ?f = set xs" using f x by (auto simp: newer_def takeWhile_append)
      have "distinct ?f" using ok by (simp add: seen_ok_def)
      then have "card (set xs) = length xs" using f by (simp add: distinct_card)
      moreover have "j \<notin> set xs"
      proof
        assume "j \<in> set xs"
        then have "j \<in> set ?f" unfolding f by simp
        then show False by simp
      qed
      ultimately have "card (insert j (set xs)) = MAX_SEEN" using len f by simp
      moreover have "insert j (set xs) \<subseteq> insert j (newer i (bg_seen s)) - {i}"
        using newer_remove[OF assms(3), of "bg_seen s"] new x assms(3) by auto
      moreover have "finite (insert j (newer i (bg_seen s)) - {i})" by (simp add: newer_def)
      ultimately show ?thesis using card_mono by metis
    qed
  qed
qed

section \<open>What stays covered\<close>

lemma card_marks_mono: "MAX_SEEN \<le> card (marks a - {i}) \<Longrightarrow> MAX_SEEN \<le> card ((marks a \<union> marks b) - {i})"
  by (erule le_trans, rule card_mono) auto

lemma remembered_keep:
  assumes "remembered i since s" and "bg_seen s' = bg_seen s" and "known_id s i \<Longrightarrow> known_id s' i"
  shows "remembered i (since @ es) s'"
  using assms card_marks_mono[of since i es] by (auto simp: remembered_def)

lemma remembered_mark:
  assumes "remembered i since s" and "seen_ok s" and "bg_seen s' = bg_seen (mark_seen j s)" and "Marked j \<in> set es"
    and "i \<noteq> j \<Longrightarrow> known_id s i \<Longrightarrow> known_id s' i"
  shows "remembered i (since @ es) s'"
proof (cases "i = j")
  case True
  have "newer j (bg_seen (mark_seen j s)) = {}"
  proof (cases "length (filter (\<lambda>x. x \<noteq> j) (bg_seen s)) < MAX_SEEN")
    case False
    then have "filter (\<lambda>x. x \<noteq> j) (bg_seen s) \<noteq> []" by (auto simp: MAX_SEEN_def)
    then show ?thesis using mark_seen_list[OF assms(2), of j] False by (simp add: newer_snoc)
  qed (use mark_seen_list[OF assms(2), of j] in \<open>simp add: newer_snoc\<close>)
  then show ?thesis using True assms(2,3) by (simp add: remembered_def)
next
  case False
  have j: "j \<in> marks es" using assms(4) by (simp add: marks_def)
  from assms(1) consider "known_id s i" | "i \<in> set (bg_seen s)" "newer i (bg_seen s) \<subseteq> marks since"
    | "MAX_SEEN \<le> card (marks since - {i})" by (auto simp: remembered_def)
  then show ?thesis
  proof cases
    case 2
    have sub: "insert j (newer i (bg_seen s)) \<subseteq> marks (since @ es)" using 2(2) j by auto
    then have "MAX_SEEN \<le> card (insert j (newer i (bg_seen s)) - {i}) \<Longrightarrow> MAX_SEEN \<le> card (marks (since @ es) - {i})"
      by (erule_tac le_trans) (rule card_mono, auto)
    then show ?thesis using newer_mark[OF assms(2) 2(1) False] sub assms(3) by (auto simp: remembered_def)
  qed (use assms(5) False card_marks_mono[of since i es] in \<open>auto simp: remembered_def\<close>)
qed

lemma split_snoc:
  assumes "tr @ es = pre @ e # since" and "no_claim es" and "is_claim i e"
  obtains old where "tr = pre @ e # old" and "since = old @ es"
proof -
  from assms(1) consider us where "tr = pre @ us" "us @ es = e # since" | us where "tr @ us = pre" "es = us @ e # since"
    by (auto simp: append_eq_append_conv2)
  then show thesis
  proof cases
    case 1
    then show thesis using that assms(2,3) by (cases us) auto
  next
    case 2
    then show thesis using assms(2,3) by auto
  qed
qed

lemma covered_keep:
  assumes "covered tr s" and "no_claim es" and "bg_seen s' = bg_seen s" and "\<And>i. i \<noteq> [] \<Longrightarrow> known_id s i \<Longrightarrow> known_id s' i"
  shows "covered (tr @ es) s'"
  unfolding covered_def
proof (intro allI impI)
  fix i pre e since
  assume i: "i \<noteq> []" "tr @ es = pre @ e # since" "is_claim i e"
  from split_snoc[OF i(2) assms(2) i(3)] obtain old where "tr = pre @ e # old" "since = old @ es" .
  then show "remembered i since s'"
    using assms(1) i(1,3) remembered_keep[of i old s s' es] assms(3) assms(4)[OF i(1)] by (auto simp: covered_def)
qed

lemma covered_mark:
  assumes "covered tr s" and "no_claim es" and "seen_ok s" and "bg_seen s' = bg_seen (mark_seen j s)" and "Marked j \<in> set es"
    and "\<And>i. i \<noteq> [] \<Longrightarrow> i \<noteq> j \<Longrightarrow> known_id s i \<Longrightarrow> known_id s' i"
  shows "covered (tr @ es) s'"
  unfolding covered_def
proof (intro allI impI)
  fix i pre e since
  assume i: "i \<noteq> []" "tr @ es = pre @ e # since" "is_claim i e"
  from split_snoc[OF i(2) assms(2) i(3)] obtain old where "tr = pre @ e # old" "since = old @ es" .
  then show "remembered i since s'"
    using assms(1) i(1,3) remembered_mark[OF _ assms(3,4,5), of i old] assms(6)[OF i(1)] by (auto simp: covered_def)
qed

lemma covered_claim:
  assumes "covered tr s" and "bg_seen s' = bg_seen s" and "\<And>i. i \<noteq> [] \<Longrightarrow> known_id s i \<Longrightarrow> known_id s' i"
    and "is_claim j e" and "known_id s' j"
  shows "covered (tr @ [e]) s'"
  unfolding covered_def
proof (intro allI impI)
  fix i pre e' since
  assume i: "i \<noteq> []" "tr @ [e] = pre @ e' # since" "is_claim i e'"
  show "remembered i since s'"
  proof (cases since rule: rev_cases)
    case Nil
    then have "i = j" using i(2,3) assms(4) by (cases e') auto
    then show ?thesis using assms(5) by (simp add: remembered_def)
  next
    case (snoc old x)
    then have "tr = pre @ e' # old" "since = old @ [e]" using i(2) by simp_all
    then show ?thesis using assms(1) i(1,3) remembered_keep[of i old s s' "[e]"] assms(2) assms(3)[OF i(1)]
      by (auto simp: covered_def)
  qed
qed

lemma spaced_quiet:
  assumes "claims_spaced tr" and "no_claim es"
  shows "claims_spaced (tr @ es)"
  unfolding claims_spaced_def
proof (intro allI impI)
  fix i pre e mid e' post
  assume i: "i \<noteq> []" "tr @ es = pre @ e # mid @ e' # post" "is_claim i e" "is_claim i e'"
  have "tr @ es = (pre @ e # mid) @ e' # post" using i(2) by simp
  from split_snoc[OF this assms(2) i(4)] obtain old where "tr = (pre @ e # mid) @ e' # old" .
  then have "tr = pre @ e # mid @ e' # old" by simp
  then show "MAX_SEEN \<le> card (marks mid - {i})" using assms(1) i(1,3,4) unfolding claims_spaced_def by blast
qed

text \<open>A message that is neither known nor seen may be claimed.\<close>

lemma spaced_claim:
  assumes "claims_spaced tr" and "covered tr s" and "is_claim j e" and "j \<noteq> [] \<Longrightarrow> \<not> known_id s j \<and> j \<notin> set (bg_seen s)"
  shows "claims_spaced (tr @ [e])"
  unfolding claims_spaced_def
proof (intro allI impI)
  fix i pre e1 mid e2 post
  assume i: "i \<noteq> []" "tr @ [e] = pre @ e1 # mid @ e2 # post" "is_claim i e1" "is_claim i e2"
  show "MAX_SEEN \<le> card (marks mid - {i})"
  proof (cases post rule: rev_cases)
    case Nil
    then have "tr = pre @ e1 # mid" "e = e2" using i(2) by (simp_all flip: append_Cons append_assoc)
    moreover have "i = j" using i(4) assms(3) \<open>e = e2\<close> by (cases e2) auto
    ultimately show ?thesis using assms(2,4) i(1,3) by (auto simp: covered_def remembered_def)
  next
    case (snoc old x)
    then have "tr = pre @ e1 # mid @ e2 # old" using i(2) by (simp flip: append_Cons append_assoc)
    then show ?thesis using assms(1) i(1,3,4) unfolding claims_spaced_def by blast
  qed
qed

end
