(* ===== verification/Bridge_Runs.thy ===== *)
theory Bridge_Runs
  imports Bridge_Memory
begin

text \<open>
  Proving a property of every run of a bridge, across failed saves, stops and restarts: a locale with
  what the operations, the saves and a start must keep, and its first use, for what a bridge remembers
  and the place of the delivery loop.
\<close>

section \<open>What a run must keep\<close>

fun neutral_event :: "bridge_event \<Rightarrow> bool" where
  "neutral_event (Marked i) = False"
| "neutral_event (Claimed m t tools) = False"
| "neutral_event (ClaimedReturn i thread t tools) = False"
| "neutral_event (MailStored k) = False"
| "neutral_event e = True"

definition neutral :: "bridge_event list \<Rightarrow> bool" where
  "neutral es \<longleftrightarrow> list_all neutral_event es"

lemma neutral_simps [simp]: "neutral []" "neutral (e # es) \<longleftrightarrow> neutral_event e \<and> neutral es"
  "neutral (a @ b) \<longleftrightarrow> neutral a \<and> neutral b" "neutral (map (\<lambda>j. Dropped (f j)) js)"
  by (simp_all add: neutral_def list.pred_map comp_def list.pred_True)

lemma neutral_marks: "neutral es \<Longrightarrow> marks es = {}"
  by (induction es) (auto split: bridge_event.splits)

lemma neutral_no_claim: "neutral es \<Longrightarrow> no_claim es"
proof (induction es)
  case (Cons e es)
  then show ?case by (cases e) simp_all
qed simp

text \<open>A predicate on what follows an operation: the events so far, the state, and the run.\<close>

fun after :: "(bridge_event list \<Rightarrow> bool) \<Rightarrow> (bridge_event list \<Rightarrow> bridge_state \<Rightarrow> bool) \<Rightarrow>
    (bridge_event list \<Rightarrow> run \<Rightarrow> bool) \<Rightarrow> bridge_event list \<Rightarrow> outcome \<Rightarrow> bool" where
  "after T S R tr (Quiet r es) \<longleftrightarrow> T (tr @ es) \<and> S (tr @ es) (rn_state r) \<and> R (tr @ es) r"
| "after T S R tr (Durable r es es') \<longleftrightarrow> T (tr @ es) \<and> S (tr @ es) (rn_state r) \<and> T (tr @ es @ es') \<and> R (tr @ es @ es') r"
| "after T S R tr (Tolerant r r') \<longleftrightarrow> S tr (rn_state r) \<and> R tr r \<and> S tr (rn_state r') \<and> R tr r'"
| "after T S R tr Fails \<longleftrightarrow> True"

lemma after_conj:
  "after T S R tr out \<Longrightarrow> after T' S' R' tr out \<Longrightarrow>
   after (\<lambda>tr. T tr \<and> T' tr) (\<lambda>tr s. S tr s \<and> S' tr s) (\<lambda>tr r. R tr r \<and> R' tr r) tr out"
  by (cases out) simp_all

fun neutral_after :: "outcome \<Rightarrow> bool" where
  "neutral_after (Quiet r es) \<longleftrightarrow> neutral es"
| "neutral_after (Durable r es es') \<longleftrightarrow> neutral es'"
| "neutral_after _ \<longleftrightarrow> True"

lemmas op_defs = accept_any_def accept_mail_def accept_def act_on_def acknowledge_def offer_or_def proceed_def only_seen_def
  queue_fixed_def claim_message_def job_took_def queue_job_def retain_open_def commit_cursor_def enqueue_returned_def
  begin_job_def end_job_def report_job_def queue_unprompted_def track_jobs_def record_jobs_def set_watching_def
  idle_out_def end_runner_def store_notice_def store_mail_notice_def answer_mail_def begin_delivery_def
  send_part_def end_text_def send_file_def end_delivery_def keep_reaction_def remove_reaction_def

lemma perform_neutral: "neutral_after (perform op r)"
proof (cases op)
  case (BAccept draw q taken inb)
  have "neutral_after (act_on draw r i v)" for i v
    by (cases v) (simp_all add: act_on_def only_seen_def offer_or_def proceed_def queue_fixed_def claim_message_def Let_def
        split: sum.split prod.split)
  then show ?thesis
    by (simp add: BAccept accept_any_def accept_mail_def accept_def acknowledge_def queue_fixed_def only_seen_def Let_def
        split: verdict.split inbound.split)
next
  case (BOffered draw f)
  then show ?thesis
    by (simp add: job_took_def proceed_def queue_fixed_def claim_message_def only_seen_def Let_def
        split: polling.split follow_up.split sum.split prod.split)
next
  case (BEndRunner n now)
  then show ?thesis
    by (simp add: end_runner_def record_jobs_def Let_def split: option.split)
qed (simp_all add: queue_job_def retain_open_def commit_cursor_def enqueue_returned_def begin_job_def end_job_def
    report_job_def queue_unprompted_def track_jobs_def record_jobs_def set_watching_def idle_out_def store_notice_def
    store_mail_notice_def answer_mail_def begin_delivery_def send_part_def end_text_def send_file_def end_delivery_def
    keep_reaction_def remove_reaction_def Let_def split: option.split polling.split prod.split list.split send_end.split)

section \<open>Composing and recovering\<close>

lemma compose_frame:
  "pd_message_id (fst (compose_pending draw c own now s)) = if_message_id c"
  "pd_question (fst (compose_pending draw c own now s)) = None"
  "pd_notice_key (fst (compose_pending draw c own now s)) = None"
  "bg_pending (snd (compose_pending draw c own now s)) = bg_pending s"
  "bg_in_flight (snd (compose_pending draw c own now s)) = bg_in_flight s"
  "bg_seen (snd (compose_pending draw c own now s)) = bg_seen s"
  "bg_jobs (snd (compose_pending draw c own now s)) = bg_jobs s"
  "bg_mail_chat (snd (compose_pending draw c own now s)) = bg_mail_chat s"
  by (simp_all add: compose_pending_def new_pending_def prune_held_def Let_def split: prod.split)

definition addressed :: "pending_delivery \<Rightarrow> bool" where
  "addressed p \<longleftrightarrow> (pd_question p \<noteq> None \<or> pd_notice_key p \<noteq> None \<longrightarrow> pd_message_id p = [])"

lemma recover_claims_frame:
  "bg_in_flight (recover_claims draw reply now cs s) = bg_in_flight s \<and>
   bg_seen (recover_claims draw reply now cs s) = bg_seen s \<and>
   bg_mail_chat (recover_claims draw reply now cs s) = bg_mail_chat s \<and>
   (\<exists>ps. bg_pending (recover_claims draw reply now cs s) = bg_pending s @ ps \<and>
      map pd_message_id ps = map if_message_id cs \<and> list_all addressed ps)"
proof (induction cs arbitrary: draw s)
  case (Cons c cs)
  obtain p s' where p: "compose_pending (draw 0) c reply now s = (p, s')" by fastforce
  then show ?case
    using Cons.IH[of "\<lambda>n. draw (Suc n)" "s'\<lparr>bg_pending := bg_pending s' @ [p]\<rparr>"] compose_frame[of "draw 0" c reply now s]
    by (auto simp: addressed_def)
qed simp

lemma recover_frame:
  "bg_seen (recover_interrupted_after draw restart label now s) = bg_seen s"
  "bg_mail_chat (recover_interrupted_after draw restart label now s) = bg_mail_chat s"
  "bg_in_flight (recover_interrupted_after draw restart label now s) = []"
  "\<exists>ps ns. bg_pending (recover_interrupted_after draw restart label now s) = bg_pending s @ ps @ ns \<and>
     map pd_message_id ps = map if_message_id (bg_in_flight s) \<and> list_all addressed (ps @ ns)"
proof -
  have notices: "list_all addressed (map (\<lambda>(n, j). stopped_notice (draw (k + n)) restart label js j) es)" for k js es
    by (induction es) (auto simp: stopped_notice_def new_pending_def addressed_def)
  show "\<exists>ps ns. bg_pending (recover_interrupted_after draw restart label now s) = bg_pending s @ ps @ ns \<and>
     map pd_message_id ps = map if_message_id (bg_in_flight s) \<and> list_all addressed (ps @ ns)"
  proof (cases "bg_in_flight s = [] \<and> bg_jobs s = []")
    case False
    let ?reply = "system_text label (case restart of None \<Rightarrow> FAILURE_REPLY | Some v \<Rightarrow> restarted_reply v)"
    let ?ns = "map (\<lambda>(n, j). stopped_notice (draw (length (bg_in_flight s) + n)) restart label (bg_jobs s) j)
      (enumerate 0 (first_jobs (bg_jobs s) []))"
    obtain ps where ps: "bg_pending (recover_claims draw ?reply now (bg_in_flight s) (s\<lparr>bg_in_flight := []\<rparr>)) = bg_pending s @ ps"
      "map pd_message_id ps = map if_message_id (bg_in_flight s)" "list_all addressed ps"
      using recover_claims_frame[of draw ?reply now "bg_in_flight s" "s\<lparr>bg_in_flight := []\<rparr>"] by auto
    have "bg_pending (recover_interrupted_after draw restart label now s) = bg_pending s @ ps @ ?ns"
      using False ps(1) unfolding recover_interrupted_after_def Let_def by (simp only: if_False append_assoc) simp
    moreover have "list_all addressed (ps @ ?ns)" using ps(3) notices by (simp add: list_all_append)
    ultimately show ?thesis using ps(2) by blast
  qed (simp add: recover_interrupted_after_def)
qed (simp_all add: recover_interrupted_after_def Let_def recover_claims_frame)

locale bridge_law =
  fixes allowed :: "sys_op \<Rightarrow> bool"
    and T :: "bridge_event list \<Rightarrow> bool"
    and S :: "bridge_event list \<Rightarrow> bridge_state \<Rightarrow> bool"
    and R :: "bridge_event list \<Rightarrow> run \<Rightarrow> bool"
  assumes fresh: "T []" "S [] new_bridge_state"
    and stable: "S tr s \<Longrightarrow> neutral es \<Longrightarrow> S (tr @ es) s"
    and op_keeps: "T tr \<Longrightarrow> S tr (rn_state r) \<Longrightarrow> R tr r \<Longrightarrow> allowed (SOp op w) \<Longrightarrow> after T S R tr (perform op r)"
    and bound: "S tr s \<Longrightarrow> S tr (s\<lparr>bg_fingerprint := f\<rparr>)"
    and mailed: "S tr s \<Longrightarrow> \<not> ordinary s \<Longrightarrow> \<not> bg_mail_chat s \<Longrightarrow> S tr (s\<lparr>bg_mail_chat := True\<rparr>)"
    and recovered: "S tr s \<Longrightarrow> S tr (recover_interrupted_after draw restart label now s)"
    and started: "T tr \<Longrightarrow> S tr s \<Longrightarrow> allowed (SStart a fp logged draw restart now ws) \<Longrightarrow>
      (ba_purpose a = ForMail \<longleftrightarrow> bg_mail_chat s) \<Longrightarrow> bg_in_flight s = [] \<Longrightarrow> R tr (new_run a s)"
begin

definition lawful :: "bridge_sys \<Rightarrow> bool" where
  "lawful s \<longleftrightarrow> T (by_trace s) \<and> S (by_trace s) (by_disk s) \<and>
     (\<forall>r. by_run s = Some r \<longrightarrow> S (by_trace s) (rn_state r) \<and> R (by_trace s) r)"

lemma write_keeps: "write_end w s' s = (d, ok) \<Longrightarrow> S tr s \<Longrightarrow> S tr s' \<Longrightarrow> S tr d"
  by (cases w) auto

lemma write_done: "write_end w s' s = (d, True) \<Longrightarrow> d = s'"
  by (cases w) auto

lemma start_keeps:
  assumes "lawful s" and "allowed (SStart a fp logged draw restart now ws)"
  shows "lawful (serve_start a fp logged draw restart now ws s)"
proof -
  obtain w1 w2 w3 where ws: "ws = (w1, w2, w3)" by (cases ws)
  obtain d1 ok1 where b: "bind_state fp w1 (by_disk s) = (d1, ok1)" by fastforce
  obtain d2 ok2 where p: "(if ok1 then fit_purpose (ba_purpose a) logged w2 d1 else (d1, False)) = (d2, ok2)" by fastforce
  obtain d3 ok3 where c: "(if ok2 then recover_run draw restart (ba_label a) now w3 d2 else (d2, False)) = (d3, ok3)" by fastforce
  have s': "serve_start a fp logged draw restart now ws s =
      s\<lparr>by_disk := d3, by_run := (if ok3 then Some (new_run a d3) else None)\<rparr>"
    using b p c by (simp add: serve_start_def ws)
  have law: "T (by_trace s)" "S (by_trace s) (by_disk s)" using assms(1) by (simp_all add: lawful_def)
  have 1: "S (by_trace s) d1"
    using b law(2) bound[OF law(2)] write_keeps by (auto simp: bind_state_def split: option.splits)
  have 2: "S (by_trace s) d2 \<and> (ok2 \<longrightarrow> (ba_purpose a = ForMail \<longleftrightarrow> bg_mail_chat d2))"
  proof (cases "ok1 \<and> ba_purpose a = ForMail \<and> \<not> bg_mail_chat d1 \<and> \<not> (ordinary d1 \<or> logged)")
    case True
    then have w: "write_end w2 (d1\<lparr>bg_mail_chat := True\<rparr>) d1 = (d2, ok2)"
      using p by (simp add: fit_purpose_def prepare_mail_chat_def)
    moreover have "S (by_trace s) (d1\<lparr>bg_mail_chat := True\<rparr>)" using mailed[OF 1] True by simp
    ultimately show ?thesis using write_keeps[OF w 1] write_done True by fastforce
  qed (use p 1 in \<open>auto simp: fit_purpose_def prepare_mail_chat_def split: if_splits\<close>)
  note flag = recover_frame(2,3)[of draw restart "ba_label a" now d2]
  have 3: "S (by_trace s) d3 \<and> (ok3 \<longrightarrow> (ba_purpose a = ForMail \<longleftrightarrow> bg_mail_chat d3) \<and> bg_in_flight d3 = [])"
  proof (cases "ok2 \<and> \<not> (bg_in_flight d2 = [] \<and> bg_jobs d2 = [])")
    case True
    then have w: "write_end w3 (recover_interrupted_after draw restart (ba_label a) now d2) d2 = (d3, ok3)"
      using c by (auto simp: recover_run_def)
    then show ?thesis using write_keeps[OF w] recovered 2 write_done True flag by fastforce
  qed (use c 2 in \<open>auto simp: recover_run_def split: if_splits\<close>)
  show ?thesis using s' law(1) 3 started[OF law(1) _ assms(2)] by (auto simp: lawful_def new_run_def)
qed

lemma step_keeps:
  assumes "lawful s" and "allowed op"
  shows "lawful (bridge_step op s)"
proof (cases op)
  case (SStart a fp logged draw restart now ws)
  then show ?thesis using assms start_keeps by simp
next
  case (SOp o' w)
  show ?thesis
  proof (cases "by_run s")
    case (Some r)
    have law: "T (by_trace s)" "S (by_trace s) (by_disk s)" "S (by_trace s) (rn_state r)" "R (by_trace s) r"
      using assms(1) Some by (simp_all add: lawful_def)
    have aft: "after T S R (by_trace s) (perform o' r)" using op_keeps law(1,3,4) assms(2) SOp by blast
    have neu: "neutral_after (perform o' r)" by (rule perform_neutral)
    have st: "S (tr @ es) x \<Longrightarrow> neutral es' \<Longrightarrow> S (tr @ es @ es') x" for tr es es' x
      using stable[of "tr @ es" x es'] by simp
    show ?thesis
      using aft neu law SOp Some stable st
      by (cases "perform o' r"; cases w) (auto simp: lawful_def)
  qed (use assms(1) SOp in simp)
next
  case SStop
  then show ?thesis using assms(1) by (simp add: lawful_def)
qed

lemma run_keeps:
  assumes "\<And>op. op \<in> set ops \<Longrightarrow> allowed op"
  shows "lawful (fold bridge_step ops new_sys)"
proof -
  have "lawful s \<Longrightarrow> lawful (fold bridge_step ops s)" for s
    using assms by (induction ops arbitrary: s) (auto intro: step_keeps)
  moreover have "lawful new_sys" using fresh by (simp add: lawful_def new_sys_def)
  ultimately show ?thesis by blast
qed

end

end
