(* ===== verification/Bridge_Invariant.thy ===== *)
theory Bridge_Invariant
  imports Bridge_Runs
begin

text \<open>
  Each of a bridge's operations, and starting one, keeps what \<open>Bridge_Memory\<close> states of the delivery
  state, and the delivery loop's copy of the reply it sends is the first pending reply.
\<close>

declare after.simps [simp del]

section \<open>What is remembered, and where delivery is\<close>

definition state_ok :: "bridge_event list \<Rightarrow> bridge_state \<Rightarrow> bool" where
  "state_ok tr s \<longleftrightarrow> seen_ok s \<and> covered tr s \<and> (marks tr \<noteq> {} \<longrightarrow> bg_seen s \<noteq> []) \<and>
     list_all addressed (bg_pending s) \<and> distinct (map if_message_id (bg_in_flight s))"

text \<open>The loop's copy of the first pending reply is that reply.\<close>

definition sending_ok :: "run \<Rightarrow> bool" where
  "sending_ok r \<longleftrightarrow> (case rn_sending r of None \<Rightarrow> True
     | Some d \<Rightarrow> \<exists>ps. bg_pending (rn_state r) = sd_pending d # ps \<and>
         length (text_chunks (sd_pending d)) \<le> length (pd_client_ids (sd_pending d)))"

definition new_id :: "bridge_state \<Rightarrow> string \<Rightarrow> bool" where
  "new_id s i \<longleftrightarrow> i \<notin> set (map if_message_id (bg_in_flight s)) \<and> (i \<noteq> [] \<longrightarrow> \<not> known_id s i \<and> i \<notin> set (bg_seen s))"

definition offering_ok :: "run \<Rightarrow> bool" where
  "offering_ok r \<longleftrightarrow> (case rn_polling r of Offering from turn \<Rightarrow> new_id (rn_state r) (mg_id (sn_message from)) | _ \<Rightarrow> True)"

definition memory_ok :: "bridge_event list \<Rightarrow> run \<Rightarrow> bool" where
  "memory_ok tr r \<longleftrightarrow> sending_ok r \<and> offering_ok r"

abbreviation keeps_memory :: "bridge_event list \<Rightarrow> outcome \<Rightarrow> bool" where
  "keeps_memory \<equiv> after claims_spaced state_ok memory_ok"

lemma state_ok_keep:
  assumes "state_ok tr s" and "no_claim es" and "marks es = {}" and "bg_seen s' = bg_seen s"
    and "\<And>i. i \<noteq> [] \<Longrightarrow> known_id s i \<Longrightarrow> known_id s' i"
    and "list_all addressed (bg_pending s')" and "distinct (map if_message_id (bg_in_flight s'))"
  shows "state_ok (tr @ es) s'"
  using assms covered_keep[of tr s es s'] by (simp add: state_ok_def seen_ok_def)

lemma state_ok_mark:
  assumes "state_ok tr s" and "bg_seen s' = bg_seen (mark_seen j s)"
    and "\<And>i. i \<noteq> [] \<Longrightarrow> i \<noteq> j \<Longrightarrow> known_id s i \<Longrightarrow> known_id s' i"
    and "list_all addressed (bg_pending s')" and "distinct (map if_message_id (bg_in_flight s'))"
  shows "state_ok (tr @ [Marked j]) s'"
proof -
  have ok: "seen_ok s" "covered tr s" using assms(1) by (simp_all add: state_ok_def)
  have "covered (tr @ [Marked j]) s'" using covered_mark[OF ok(2) _ ok(1) assms(2)] assms(3) by simp
  moreover have "seen_ok s'" "bg_seen s' \<noteq> []"
    using seen_ok_mark[OF ok(1), of j] seen_mark_new[OF ok(1), of j] assms(2) by (auto simp: seen_ok_def)
  ultimately show ?thesis using assms(4,5) by (simp add: state_ok_def)
qed

lemma state_ok_claim:
  assumes "state_ok tr s" and "bg_seen s' = bg_seen s" and "bg_pending s' = bg_pending s"
    and "bg_in_flight s' = bg_in_flight s @ [c]" and "is_claim (if_message_id c) e" and "new_id s (if_message_id c)"
    and "marks [e] = {}"
  shows "state_ok (tr @ [e]) s'"
proof -
  have "covered (tr @ [e]) s'"
    using assms covered_claim[of tr s s' "if_message_id c" e] by (simp add: state_ok_def known_id_def)
  then show ?thesis using assms by (auto simp: state_ok_def seen_ok_def new_id_def)
qed

lemma state_same: "state_ok tr (rn_state r) \<Longrightarrow> neutral es \<Longrightarrow> rn_state r' = rn_state r \<Longrightarrow> state_ok (tr @ es) (rn_state r')"
  by (rule state_ok_keep) (auto simp: state_ok_def neutral_no_claim neutral_marks)

lemma push_frame [simp]:
  "bg_seen (push_pending p s) = bg_seen s" "bg_in_flight (push_pending p s) = bg_in_flight s"
  "bg_pending (push_pending p s) = bg_pending s @ [p]" "bg_mail_chat (push_pending p s) = bg_mail_chat s"
  "known_id (push_pending p s) i \<longleftrightarrow> known_id s i \<or> i = pd_message_id p"
  "bg_seen (push_claim c s) = bg_seen s" "bg_in_flight (push_claim c s) = bg_in_flight s @ [c]"
  "bg_pending (push_claim c s) = bg_pending s" "bg_mail_chat (push_claim c s) = bg_mail_chat s"
  by (auto simp: push_pending_def push_claim_def known_id_def)

lemma with_state_frame [simp]:
  "rn_state (with_state f r) = f (rn_state r)" "rn_account (with_state f r) = rn_account r"
  "rn_table (with_state f r) = rn_table r" "rn_runners (with_state f r) = rn_runners r"
  "rn_polling (with_state f r) = rn_polling r" "rn_sending (with_state f r) = rn_sending r" "rn_next (with_state f r) = rn_next r"
  by (simp_all add: with_state_def)

lemma new_pending_fields [simp]:
  "pd_message_id (new_pending draw i to ctx t) = i" "pd_question (new_pending draw i to ctx t) = None"
  "pd_notice_key (new_pending draw i to ctx t) = None"
  by (simp_all add: new_pending_def)

text \<open>A pending reply is added, and nothing else changes that matters here.\<close>

lemma state_ok_push:
  "state_ok tr s \<Longrightarrow> addressed p \<Longrightarrow> state_ok tr (push_pending p s)"
  using state_ok_keep[of tr s "[]" "push_pending p s"] by (simp add: state_ok_def)

lemma new_id_same:
  "bg_pending s' = bg_pending s \<Longrightarrow> bg_in_flight s' = bg_in_flight s \<Longrightarrow> bg_seen s' = bg_seen s \<Longrightarrow> new_id s' = new_id s"
  by (simp add: new_id_def known_id_def fun_eq_iff)

lemma memory_same:
  assumes "memory_ok tr r" and "bg_pending (rn_state r') = bg_pending (rn_state r)"
    and "bg_in_flight (rn_state r') = bg_in_flight (rn_state r)" and "bg_seen (rn_state r') = bg_seen (rn_state r)"
    and "rn_sending r' = rn_sending r \<or> rn_sending r' = None"
    and "rn_polling r' = rn_polling r \<or> (\<forall>f t. rn_polling r' \<noteq> Offering f t)"
  shows "memory_ok tr' r'"
proof -
  have "sending_ok r'" using assms(1,2,5) by (elim disjE) (auto simp add: memory_ok_def sending_ok_def split: option.splits)
  moreover have "offering_ok r'" using assms(1,6) new_id_same[OF assms(2-4)]
    by (elim disjE) (auto simp: memory_ok_def offering_ok_def split: polling.split)
  ultimately show ?thesis by (simp add: memory_ok_def)
qed

lemma memory_grown:
  assumes "memory_ok tr r" and "bg_pending (rn_state r') = bg_pending (rn_state r) @ ps" and "rn_sending r' = rn_sending r"
    and "(\<forall>f t. rn_polling r' \<noteq> Offering f t) \<or> (rn_polling r' = rn_polling r \<and> (\<forall>p \<in> set ps. pd_message_id p = []) \<and>
      bg_in_flight (rn_state r') = bg_in_flight (rn_state r) \<and> bg_seen (rn_state r') = bg_seen (rn_state r))"
  shows "memory_ok tr' r'"
proof -
  have "sending_ok r'" using assms(1-3) by (auto simp: memory_ok_def sending_ok_def split: option.splits)
  moreover have "offering_ok r'" using assms(4)
  proof
    assume "rn_polling r' = rn_polling r \<and> (\<forall>p \<in> set ps. pd_message_id p = []) \<and>
      bg_in_flight (rn_state r') = bg_in_flight (rn_state r) \<and> bg_seen (rn_state r') = bg_seen (rn_state r)"
    then have "new_id (rn_state r) i \<Longrightarrow> new_id (rn_state r') i" "rn_polling r' = rn_polling r" for i
      using assms(2) by (auto simp: new_id_def known_id_def)
    then show ?thesis using assms(1) by (auto simp: memory_ok_def offering_ok_def split: polling.splits)
  qed (auto simp: offering_ok_def split: polling.split)
  ultimately show ?thesis by (simp add: memory_ok_def)
qed

lemma sending_same:
  "memory_ok tr r \<Longrightarrow> bg_pending (rn_state r') = bg_pending (rn_state r) @ ps \<Longrightarrow> rn_sending r' = rn_sending r \<Longrightarrow> sending_ok r'"
  by (auto simp: memory_ok_def sending_ok_def split: option.splits)

section \<open>Each operation keeps it\<close>

lemma keeps_fixed:
  assumes "claims_spaced tr" "state_ok tr (rn_state r)" "memory_ok tr r" "neutral es"
  shows "keeps_memory tr (queue_fixed draw r from t es)"
proof -
  let ?r = "(with_state (push_pending (fixed_notice draw r from t)) r)\<lparr>rn_polling := Between\<rparr>"
  have "state_ok tr (rn_state ?r)" using assms(2) by (simp add: state_ok_push fixed_notice_def Let_def addressed_def)
  moreover have "memory_ok (tr @ es) ?r" by (rule memory_grown[OF assms(3)]) simp_all
  ultimately show ?thesis using assms(1) spaced_quiet[OF assms(1) neutral_no_claim[OF assms(4)]]
    by (simp add: queue_fixed_def after.simps)
qed

lemma keeps_only_seen:
  assumes "claims_spaced tr" "state_ok tr (rn_state r)" "memory_ok tr r"
  shows "keeps_memory tr (only_seen r i)"
proof -
  have "state_ok (tr @ [Marked i]) (mark_seen i (rn_state r))"
    using assms(2) by (intro state_ok_mark[OF assms(2)]) (auto simp: known_id_def state_ok_def)
  moreover have "sending_ok ((with_state (mark_seen i) r)\<lparr>rn_polling := Between\<rparr>)"
    using sending_same[OF assms(3), of _ "[]"] by simp
  ultimately show ?thesis using spaced_quiet[OF assms(1), of "[Marked i]"]
    by (simp add: only_seen_def memory_ok_def offering_ok_def after.simps)
qed

lemma keeps_claim:
  assumes "claims_spaced tr" "state_ok tr (rn_state r)" "memory_ok tr r"
    and "is_claim (if_message_id c) e" "marks [e] = {}" "new_id (rn_state r) (if_message_id c)"
    and "rn_state r' = push_claim c (rn_state r)" "rn_sending r' = rn_sending r" "rn_polling r' = Queueing j tools rcp ev"
  shows "keeps_memory tr (Durable r' [e] [])"
proof -
  have "claims_spaced (tr @ [e])"
    using assms(1,2,4,6) by (intro spaced_claim[of tr "rn_state r" "if_message_id c"]) (auto simp: state_ok_def new_id_def)
  moreover have "state_ok (tr @ [e]) (rn_state r')"
    using assms(4-7) by (intro state_ok_claim[OF assms(2)]) auto
  moreover have "memory_ok tr' r'" for tr'
    using sending_same[OF assms(3), of r' "[]"] assms(7-9) by (simp add: memory_ok_def offering_ok_def)
  ultimately show ?thesis by (simp add: after.simps)
qed

lemma keeps_proceed:
  assumes "claims_spaced tr" "state_ok tr (rn_state r)" "memory_ok tr r" "new_id (rn_state r) (mg_id (sn_message from))"
  shows "keeps_memory tr (proceed draw r from turn)"
proof (cases turn)
  case (Inl t)
  then show ?thesis using keeps_fixed[OF assms(1-3), of "[]"] by (simp add: proceed_def)
next
  case (Inr b)
  then obtain tools limit evict where "b = (tools, limit, evict)" by (cases b)
  then have out: "proceed draw r from turn = claim_message r from tools limit evict" using Inr by (simp add: proceed_def)
  show ?thesis unfolding out claim_message_def Let_def
    by (rule keeps_claim[OF assms(1-3)]) (use assms(4) in simp_all)
qed

lemma keeps_quiet:
  assumes "claims_spaced tr" "state_ok tr (rn_state r)" "neutral es" "rn_state r' = rn_state r" "memory_ok (tr @ es) r'"
  shows "keeps_memory tr (Quiet r' es)"
  using assms(5) spaced_quiet[OF assms(1) neutral_no_claim[OF assms(3)]] state_same[OF assms(2-4)] by (simp add: after.simps)

lemma classify_new:
  assumes "classify inb (intake_of r q) = d" and "d = VBusy f \<or> d = VUnheard f \<or> d = VAnswer f y \<or> d = VTurn f a b c"
  shows "new_id (rn_state r) (mg_id (sn_message f))"
proof -
  have d: "d \<noteq> VIgnore" "d \<noteq> VClaimed" "d \<noteq> VStranger" using assms(2) by auto
  from classify_cases[OF assms(1) d(1,2)] d(3) obtain m where
    m: "inb = InText m" "d = classify_text m (intake_of r q)" "mg_id m \<notin> set (bg_seen (rn_state r))" "\<not> known_id (rn_state r) (mg_id m)"
    by (auto simp: intake_of_def)
  have "sn_message f = m" using classify_text_cases[of m "intake_of r q"] m(2) assms(2) by auto
  then show ?thesis using m(3,4) by (auto simp: new_id_def known_id_def)
qed

lemma keeps_act_on:
  assumes "claims_spaced tr" "state_ok tr (rn_state r)" "memory_ok tr r" "classify inb (intake_of r q) = d"
  shows "keeps_memory tr (act_on draw r i d)"
proof -
  have offer: "keeps_memory tr (offer_or draw r frm turn)" if "new_id (rn_state r) (mg_id (sn_message frm))" for frm turn
  proof (cases "is_offered r frm")
    case True
    have "memory_ok (tr @ []) (r\<lparr>rn_polling := Offering frm turn\<rparr>)"
      using sending_same[OF assms(3), of _ "[]"] that by (simp add: memory_ok_def offering_ok_def)
    then show ?thesis using True keeps_quiet[OF assms(1,2), of "[]" "r\<lparr>rn_polling := Offering frm turn\<rparr>"] by (simp add: offer_or_def)
  qed (use keeps_proceed[OF assms(1-3) that] in \<open>simp add: offer_or_def\<close>)
  have quiet: "keeps_memory tr (Quiet r [])" using assms(1-3) by (simp add: after.simps)
  show ?thesis
    using keeps_only_seen[OF assms(1-3)] offer quiet keeps_proceed[OF assms(1-3)] classify_new[OF assms(4)]
    by (cases d) (simp_all add: act_on_def)
qed

lemma keeps_accept:
  assumes "claims_spaced tr" "state_ok tr (rn_state r)" "memory_ok tr r"
  shows "keeps_memory tr (accept_any draw q taken inb r)"
proof -
  have quiet: "keeps_memory tr (Quiet r [])" using assms by (simp add: after.simps)
  have command: "keeps_memory tr (Quiet (r\<lparr>rn_polling := Commanding m\<rparr>) [])" for m
    by (rule keeps_quiet[OF assms(1,2)]) (auto intro: memory_same[OF assms(3)])
  have "keeps_memory tr (accept_mail inb r)"
    using keeps_only_seen[OF assms] quiet command by (auto simp: accept_mail_def Let_def split: inbound.split)
  moreover have "keeps_memory tr (accept draw q taken inb r)"
    using keeps_fixed[OF assms] by (auto simp: accept_def acknowledge_def split: verdict.split intro: keeps_act_on[OF assms])
  ultimately show ?thesis using quiet by (simp add: accept_any_def)
qed


lemma keeps_offered:
  assumes "claims_spaced tr" "state_ok tr (rn_state r)" "memory_ok tr r"
  shows "keeps_memory tr (job_took draw follow r)"
proof (cases "rn_polling r")
  case (Offering frm turn)
  let ?i = "mg_id (sn_message frm)"
  have new: "new_id (rn_state r) ?i" using assms(3) Offering by (simp add: memory_ok_def offering_ok_def)
  let ?s = "push_pending (fixed_notice draw r frm UNRESUMABLE_NOTICE) (mark_seen ?i (rn_state r))"
  have ok: "state_ok (tr @ [Marked ?i]) ?s"
    using assms(2) by (intro state_ok_mark[OF assms(2)])
      (auto simp: known_id_def state_ok_def fixed_notice_def Let_def addressed_def)
  have mem: "memory_ok (tr @ [Marked ?i]) ((with_state (push_pending (fixed_notice draw r frm UNRESUMABLE_NOTICE) \<circ> mark_seen ?i) r)
      \<lparr>rn_polling := Between\<rparr>)"
    by (rule memory_grown[OF assms(3)]) simp_all
  show ?thesis
    using Offering keeps_proceed[OF assms new] keeps_only_seen[OF assms] ok mem spaced_quiet[OF assms(1), of "[Marked ?i]"]
    by (cases follow) (simp_all add: job_took_def Let_def after.simps)
qed (use assms in \<open>simp_all add: job_took_def after.simps\<close>)

text \<open>A save of a state whose seen list and known messages only grow by what is not a message's.\<close>

lemma keeps_durable:
  assumes "claims_spaced tr" "state_ok tr (rn_state r)" "memory_ok tr r"
    and "no_claim es" "marks es = {}" "neutral es'"
    and "bg_seen (rn_state r') = bg_seen (rn_state r)" "bg_in_flight (rn_state r') = bg_in_flight (rn_state r)"
    and "bg_pending (rn_state r') = bg_pending (rn_state r) @ ps" "list_all addressed ps"
    and "\<forall>p \<in> set ps. pd_message_id p = []" "rn_sending r' = rn_sending r" "rn_polling r' = rn_polling r"
  shows "keeps_memory tr (Durable r' es es')"
proof -
  have "state_ok (tr @ es) (rn_state r')"
    using assms(2,7-10) by (intro state_ok_keep[OF assms(2,4,5)]) (auto simp: known_id_def state_ok_def)
  moreover have "memory_ok (tr @ es @ es') r'"
    using assms(11-13) assms(7,8) by (intro memory_grown[OF assms(3,9)]) auto
  moreover have "claims_spaced (tr @ es)" "claims_spaced (tr @ es @ es')"
    using spaced_quiet[OF assms(1), of es] spaced_quiet[OF assms(1), of "es @ es'"] assms(4) neutral_no_claim[OF assms(6)] by simp_all
  ultimately show ?thesis by (simp add: after.simps)
qed

lemma keeps_same_state:
  assumes "claims_spaced tr" "state_ok tr (rn_state r)" "memory_ok tr r" "neutral es"
    and "rn_state r' = rn_state r" "rn_sending r' = rn_sending r \<or> rn_sending r' = None"
    and "rn_polling r' = rn_polling r \<or> (\<forall>f t. rn_polling r' \<noteq> Offering f t)"
  shows "keeps_memory tr (Quiet r' es)"
  using assms(4-7) by (intro keeps_quiet[OF assms(1,2)] memory_same[OF assms(3)]) simp_all

lemma runner_frame [simp]:
  "rn_state (release_queue key r) = rn_state r" "rn_sending (release_queue key r) = rn_sending r" "rn_polling (release_queue key r) = rn_polling r"
  "rn_state (send_job n j r) = rn_state r" "rn_sending (send_job n j r) = rn_sending r" "rn_polling (send_job n j r) = rn_polling r"
  "rn_state (start_runner key now tools rcp r) = rn_state r" "rn_sending (start_runner key now tools rcp r) = rn_sending r"
  "rn_polling (start_runner key now tools rcp r) = rn_polling r"
  "rn_state (queue_on j tools rcp now r) = rn_state r" "rn_sending (queue_on j tools rcp now r) = rn_sending r"
  "rn_polling (queue_on j tools rcp now r) = rn_polling r"
  "rn_state (set_runner n f r) = rn_state r" "rn_sending (set_runner n f r) = rn_sending r"
  "rn_polling (set_runner n f r) = rn_polling r" "rn_account (set_runner n f r) = rn_account r"
proof -
  show rel: "rn_state (release_queue key r) = rn_state r" "rn_sending (release_queue key r) = rn_sending r"
    "rn_polling (release_queue key r) = rn_polling r" for key and r :: run by (simp_all add: release_queue_def split: option.split)
  show send: "rn_state (send_job n j r) = rn_state r" "rn_sending (send_job n j r) = rn_sending r"
    "rn_polling (send_job n j r) = rn_polling r" for n j and r :: run by (simp_all add: send_job_def)
  show start: "rn_state (start_runner key now tools rcp r) = rn_state r" "rn_sending (start_runner key now tools rcp r) = rn_sending r"
    "rn_polling (start_runner key now tools rcp r) = rn_polling r" for key now tools rcp and r :: run
    by (simp_all add: start_runner_def Let_def)
  show "rn_state (queue_on j tools rcp now r) = rn_state r" "rn_sending (queue_on j tools rcp now r) = rn_sending r"
    "rn_polling (queue_on j tools rcp now r) = rn_polling r"
    by (simp_all add: queue_on_def Let_def rel send start split: option.split)
  show "rn_state (set_runner n f r) = rn_state r" "rn_sending (set_runner n f r) = rn_sending r"
    "rn_polling (set_runner n f r) = rn_polling r" "rn_account (set_runner n f r) = rn_account r" by (simp_all add: set_runner_def)
qed

lemma keeps_conversations:
  assumes "claims_spaced tr" "state_ok tr (rn_state r)" "memory_ok tr r"
  shows "keeps_memory tr (queue_job now r)" "keeps_memory tr (retain_open r)" "keeps_memory tr (begin_job n r)"
    "keeps_memory tr (set_watching key w r)" "keeps_memory tr (idle_out n r)"
  using keeps_same_state[OF assms]
  by (auto simp: queue_job_def retain_open_def begin_job_def set_watching_def idle_out_def Let_def
      split: polling.split option.split list.split)


lemma new_id_mono:
  "new_id s i \<Longrightarrow> bg_in_flight s' = bg_in_flight s \<Longrightarrow> bg_seen s' = bg_seen s \<Longrightarrow>
   set (map pd_message_id (bg_pending s')) \<subseteq> insert [] (set (map pd_message_id (bg_pending s))) \<Longrightarrow> new_id s' i"
  by (auto simp: new_id_def known_id_def)

lemma memory_delivery:
  assumes "memory_ok tr r" and "sending_ok r'" and "rn_polling r' = rn_polling r"
    and "bg_in_flight (rn_state r') = bg_in_flight (rn_state r)" and "bg_seen (rn_state r') = bg_seen (rn_state r)"
    and "set (map pd_message_id (bg_pending (rn_state r'))) \<subseteq> insert [] (set (map pd_message_id (bg_pending (rn_state r))))"
  shows "memory_ok tr' r'"
  using assms(1-3) new_id_mono[OF _ assms(4-6)] by (auto simp: memory_ok_def offering_ok_def split: polling.splits)

text \<open>An operation of the delivery loop that keeps the messages pending.\<close>

lemma keeps_delivery:
  assumes "claims_spaced tr" "state_ok tr (rn_state r)" "memory_ok tr r" "neutral es" "neutral es'"
    and "sending_ok r'" and "rn_polling r' = rn_polling r" and "bg_seen (rn_state r') = bg_seen (rn_state r)"
    and "bg_in_flight (rn_state r') = bg_in_flight (rn_state r)" and "list_all addressed (bg_pending (rn_state r'))"
    and "set (map pd_message_id (bg_pending (rn_state r'))) = set (map pd_message_id (bg_pending (rn_state r))) \<or>
         insert [] (set (map pd_message_id (bg_pending (rn_state r')))) = insert [] (set (map pd_message_id (bg_pending (rn_state r))))"
  shows "keeps_memory tr (Durable r' es es')" and "keeps_memory tr (Quiet r' es)"
proof -
  have known: "i \<noteq> [] \<Longrightarrow> known_id (rn_state r) i \<Longrightarrow> known_id (rn_state r') i" for i
    using assms(9,11) unfolding known_id_def by (metis insert_iff)
  have st: "state_ok (tr @ es) (rn_state r')"
    using assms(2,4,8,9,10) by (intro state_ok_keep[OF assms(2)] known) (auto simp: state_ok_def neutral_no_claim neutral_marks)
  have mem: "memory_ok tr' r'" for tr' using assms(11) by (intro memory_delivery[OF assms(3,6,7,9,8)]) blast
  have "claims_spaced (tr @ es)" "claims_spaced (tr @ es @ es')"
    using spaced_quiet[OF assms(1), of es] spaced_quiet[OF assms(1), of "es @ es'"] neutral_no_claim assms(4,5) by simp_all
  then show "keeps_memory tr (Durable r' es es')" "keeps_memory tr (Quiet r' es)" using st mem by (simp_all add: after.simps)
qed

lemma text_chunks_same: "pd_reply p = pd_reply q \<Longrightarrow> pd_files p = pd_files q \<Longrightarrow> text_chunks p = text_chunks q"
  by (simp add: text_chunks_def)

lemma keeps_begin_delivery:
  assumes "claims_spaced tr" "state_ok tr (rn_state r)" "memory_ok tr r"
  shows "keeps_memory tr (begin_delivery draw waits r)"
proof (cases "rn_sending r = None \<and> bg_pending (rn_state r) \<noteq> []")
  case True
  then obtain first rest where q: "bg_pending (rn_state r) = first # rest" by (cases "bg_pending (rn_state r)") auto
  have adr: "addressed first" "list_all addressed rest" using assms(2) q by (simp_all add: state_ok_def)
  show ?thesis
  proof (cases "pd_question first \<noteq> None \<and> \<not> waits")
    case dead: True
    let ?r = "with_state (\<lambda>s. s\<lparr>bg_pending := rest\<rparr>) r"
    have "keeps_memory tr (Durable ?r [] [])"
      using True q adr dead by (intro keeps_delivery(1)[OF assms]) (auto simp: sending_ok_def addressed_def)
    then show ?thesis using True q dead by (simp add: begin_delivery_def)
  next
    case False
    define p where "p = first\<lparr>pd_client_ids := pd_client_ids first @ map draw [0 ..< length (text_chunks first) - length (pd_client_ids first)],
        pd_next_chunk := (if pd_next_chunk first > length (text_chunks first) then 0 else pd_next_chunk first)\<rparr>"
    let ?r = "(with_state (\<lambda>s. s\<lparr>bg_pending := p # rest\<rparr>) r)
       \<lparr>rn_sending := Some \<lparr>sd_pending = p, sd_refused = False, sd_text_over = False\<rparr>\<rparr>"
    have chunks: "text_chunks p = text_chunks first" by (rule text_chunks_same) (simp_all add: p_def)
    have "sending_ok ?r" unfolding sending_ok_def by (simp add: chunks) (simp add: p_def)
    moreover have "addressed p" "pd_message_id p = pd_message_id first" using adr(1) by (simp_all add: p_def addressed_def)
    ultimately have "keeps_memory tr (Durable ?r [] [])" "keeps_memory tr (Quiet ?r [])"
      using q adr by (intro keeps_delivery[OF assms, where es' = "[]"]; simp)+
    moreover have "begin_delivery draw waits r = (if p \<noteq> first then Durable ?r [] [] else Quiet ?r [])"
      using True q False by (simp only: begin_delivery_def Let_def p_def option.case prod.case list.case if_False)
    ultimately show ?thesis by presburger
  qed
qed (use assms in \<open>auto simp: begin_delivery_def after.simps split: option.split list.split\<close>)

lemma keeps_sending:
  assumes "claims_spaced tr" "state_ok tr (rn_state r)" "memory_ok tr r"
  shows "keeps_memory tr (send_part e r)" "keeps_memory tr (end_text r)" "keeps_memory tr (send_file e r)"
proof -
  have quiet: "keeps_memory tr (Quiet r [])" using assms by (simp add: after.simps)
  have stop: "keeps_memory tr (Quiet (r\<lparr>rn_sending := None\<rparr>) es)" if "neutral es" for es
    using that by (intro keeps_same_state[OF assms]) simp_all
  have adr: "list_all addressed (bg_pending (rn_state r))" using assms(2) by (simp add: state_ok_def)
  have at: "\<exists>ps. bg_pending (rn_state r) = sd_pending d # ps \<and> length (text_chunks (sd_pending d)) \<le> length (pd_client_ids (sd_pending d))"
    if "rn_sending r = Some d" for d using assms(3) that by (simp add: memory_ok_def sending_ok_def)
  have flags: "keeps_memory tr (Quiet (r\<lparr>rn_sending := Some d'\<rparr>) es)"
    if "rn_sending r = Some d" "sd_pending d' = sd_pending d" "neutral es" for d d' es
    using at[OF that(1)] that adr by (intro keeps_delivery(2)[OF assms, where es' = "[]"]) (auto simp: sending_ok_def)
  have moved: "keeps_memory tr (Durable ((with_state (head_pending f) r)\<lparr>rn_sending := Some (d\<lparr>sd_pending := f (sd_pending d)\<rparr>)\<rparr>) [] [])"
    if "rn_sending r = Some d" and f: "\<And>p. pd_message_id (f p) = pd_message_id p" "\<And>p. pd_question (f p) = pd_question p"
      "\<And>p. pd_notice_key (f p) = pd_notice_key p" "\<And>p. text_chunks (f p) = text_chunks p" "\<And>p. pd_client_ids (f p) = pd_client_ids p"
    for d f
    using at[OF that(1)] adr f by (intro keeps_delivery(1)[OF assms]) (auto simp: sending_ok_def head_pending_def addressed_def)
  have chunk: "text_chunks (p\<lparr>pd_next_chunk := n\<rparr>) = text_chunks p" "text_chunks (p\<lparr>pd_next_file := n\<rparr>) = text_chunks p" for p n
    by (simp_all add: text_chunks_def)
  show "keeps_memory tr (send_part e r)"
    using quiet stop flags moved[of _ "\<lambda>q. q\<lparr>pd_next_chunk := _\<rparr>"] chunk
    by (cases "rn_sending r"; cases e) (auto simp: send_part_def Let_def)
  show "keeps_memory tr (end_text r)" using quiet flags by (cases "rn_sending r") (auto simp: end_text_def)
  show "keeps_memory tr (send_file e r)"
    using quiet stop moved[of _ "\<lambda>q. q\<lparr>pd_next_file := _\<rparr>"] chunk
    by (cases "rn_sending r"; cases e) (auto simp: send_file_def Let_def)
qed


lemma settle_key_frame [simp]:
  "bg_pending (settle_key k rf ms s) = bg_pending s" "bg_in_flight (settle_key k rf ms s) = bg_in_flight s"
  "bg_seen (settle_key k rf ms s) = bg_seen s" "bg_mail_chat (settle_key k rf ms s) = bg_mail_chat s"
  "bg_held (settle_key k rf ms s) = bg_held s"
  by (simp_all add: settle_key_def split: option.split)

lemma hold_refused_frame [simp]:
  "bg_pending (hold_refused p chunks now s) = bg_pending s" "bg_in_flight (hold_refused p chunks now s) = bg_in_flight s"
  "bg_seen (hold_refused p chunks now s) = bg_seen s" "bg_mail_chat (hold_refused p chunks now s) = bg_mail_chat s"
  by (simp_all add: hold_refused_def prune_held_def Let_def)

lemma mark_seen_cong: "bg_seen s = bg_seen s' \<Longrightarrow> bg_seen (mark_seen i s) = bg_seen (mark_seen i s')"
  by (cases "position (\<lambda>x. x = i) (bg_seen s')") (simp_all add: mark_seen_def Let_def)

lemma finished_frame:
  "bg_pending (finished_delivery d now ms s) = tl (bg_pending s)"
  "bg_in_flight (finished_delivery d now ms s) = bg_in_flight s"
  "bg_mail_chat (finished_delivery d now ms s) = bg_mail_chat s"
  "bg_seen (finished_delivery d now ms s) =
     (if pd_message_id (sd_pending d) = [] then bg_seen s else bg_seen (mark_seen (pd_message_id (sd_pending d)) s))"
  by (auto simp: finished_delivery_def Let_def split: option.split intro!: mark_seen_cong)

lemma keeps_end_delivery:
  assumes "claims_spaced tr" "state_ok tr (rn_state r)" "memory_ok tr r"
  shows "keeps_memory tr (end_delivery now ms r)"
proof (cases "rn_sending r")
  case (Some d)
  let ?i = "pd_message_id (sd_pending d)" and ?r = "(with_state (finished_delivery d now ms) r)\<lparr>rn_sending := None\<rparr>"
  obtain ps where ps: "bg_pending (rn_state r) = sd_pending d # ps"
    using assms(3) Some by (auto simp: memory_ok_def sending_ok_def)
  have adr: "list_all addressed ps" "distinct (map if_message_id (bg_in_flight (rn_state r)))" "seen_ok (rn_state r)"
    using assms(2) ps by (simp_all add: state_ok_def)
  have quiet: "keeps_memory tr (Quiet r [])" using assms by (simp add: after.simps)
  have "keeps_memory tr (Durable ?r (if ?i = [] then [] else [Marked ?i]) [Over ?i (sd_refused d)])"
  proof (cases "?i = []")
    case True
    have "keeps_memory tr (Durable ?r [] [Over ?i (sd_refused d)])"
      using ps adr True by (intro keeps_delivery(1)[OF assms]) (auto simp: sending_ok_def finished_frame)
    then show ?thesis using True by simp
  next
    case False
    have "state_ok (tr @ [Marked ?i]) (rn_state ?r)"
      using ps adr False by (intro state_ok_mark[OF assms(2)]) (auto simp: finished_frame known_id_def)
    moreover have "memory_ok tr' ?r" for tr'
    proof -
      have "new_id (rn_state ?r) j" if "new_id (rn_state r) j" for j
      proof -
        have "j \<noteq> [] \<Longrightarrow> j \<noteq> ?i" using that ps by (auto simp: new_id_def known_id_def)
        moreover have "set (bg_seen (mark_seen ?i (rn_state r))) \<subseteq> insert ?i (set (bg_seen (rn_state r)))"
          using mark_seen_list[OF adr(3), of ?i] by (auto split: if_splits dest: list.set_sel(2)[rotated])
        ultimately show ?thesis using that ps False by (auto simp: new_id_def known_id_def finished_frame)
      qed
      then show ?thesis using assms(3) by (auto simp: memory_ok_def sending_ok_def offering_ok_def split: polling.splits)
    qed
    moreover have "claims_spaced (tr @ [Marked ?i])" "claims_spaced (tr @ [Marked ?i] @ [Over ?i (sd_refused d)])"
      by (intro spaced_quiet[OF assms(1)]; simp)+
    ultimately show ?thesis using False by (simp add: after.simps)
  qed
  then show ?thesis using Some quiet by (auto simp: end_delivery_def Let_def)
qed (use assms in \<open>simp add: end_delivery_def after.simps\<close>)

text \<open>The claim becomes a reply.\<close>

lemma in_flight_removed:
  assumes "position (\<lambda>c. if_message_id c = i) cs = Some n"
  shows "n < length cs" "if_message_id (cs ! n) = i"
    "set (map if_message_id cs) = insert i (set (map if_message_id (remove_at n cs)))"
    "distinct (map if_message_id cs) \<Longrightarrow> distinct (map if_message_id (remove_at n cs))"
    "distinct (map if_message_id cs) \<Longrightarrow> set (map if_message_id (remove_at n cs)) = set (map if_message_id cs) - {i}"
proof -
  show n: "n < length cs" "if_message_id (cs ! n) = i" using assms by (auto simp: position_Some_iff)
  have cs: "cs = take n cs @ cs ! n # drop (Suc n) cs" using n(1) by (rule id_take_nth_drop)
  have ms: "map if_message_id cs = map if_message_id (take n cs) @ i # map if_message_id (drop (Suc n) cs)"
    using n(2) by (subst cs) simp
  have rm: "map if_message_id (remove_at n cs) = map if_message_id (take n cs) @ map if_message_id (drop (Suc n) cs)"
    by (simp add: remove_at_def)
  show "set (map if_message_id cs) = insert i (set (map if_message_id (remove_at n cs)))" unfolding ms rm by simp
  show "distinct (map if_message_id cs) \<Longrightarrow> distinct (map if_message_id (remove_at n cs))" unfolding ms rm by auto
  show "distinct (map if_message_id cs) \<Longrightarrow> set (map if_message_id (remove_at n cs)) = set (map if_message_id cs) - {i}"
    unfolding ms rm by auto
qed

lemma keeps_end_job:
  assumes "claims_spaced tr" "state_ok tr (rn_state r)" "memory_ok tr r"
  shows "keeps_memory tr (end_job draw n t files now r)"
proof (cases "Option.bind (map_of (rn_runners r) n) ru_job")
  case (Some j)
  let ?s = "rn_state r" and ?i = "jb_message_id j"
  show ?thesis
  proof (cases "position (\<lambda>c. if_message_id c = ?i) (bg_in_flight ?s)")
    case None
    then show ?thesis using Some by (simp add: end_job_def Let_def after.simps)
  next
    case pos: (Some k)
    let ?cut = "?s\<lparr>bg_in_flight := remove_at k (bg_in_flight ?s)\<rparr>"
    obtain p s1 where p: "compose_pending draw (bg_in_flight ?s ! k) t now ?cut = (p, s1)" by fastforce
    let ?p = "p\<lparr>pd_files := files\<rparr>"
    let ?r = "(set_runner n (\<lambda>u. u\<lparr>ru_job := None\<rparr>) r)\<lparr>rn_state := push_pending ?p s1\<rparr>"
    note rem = in_flight_removed[OF pos]
    have cf: "pd_message_id p = ?i" "pd_question p = None" "pd_notice_key p = None" "bg_pending s1 = bg_pending ?s"
      "bg_in_flight s1 = remove_at k (bg_in_flight ?s)" "bg_seen s1 = bg_seen ?s"
      using compose_frame[of draw "bg_in_flight ?s ! k" t now ?cut] rem(2) p by simp_all
    have dist: "distinct (map if_message_id (bg_in_flight ?s))" "list_all addressed (bg_pending ?s)"
      using assms(2) by (simp_all add: state_ok_def)
    have "state_ok (tr @ [Replied ?i]) (rn_state ?r)"
      using cf rem dist by (intro state_ok_keep[OF assms(2)]) (auto simp: known_id_def addressed_def)
    moreover have "memory_ok tr' ?r" for tr'
    proof -
      have "new_id (rn_state ?r) i" if "new_id ?s i" for i
        using that cf rem(3) by (auto simp: new_id_def known_id_def)
      moreover have "sending_ok ?r" using sending_same[OF assms(3), of ?r "[?p]"] cf by simp
      ultimately show ?thesis using assms(3) by (auto simp: memory_ok_def offering_ok_def split: polling.splits)
    qed
    moreover have "claims_spaced (tr @ [Replied ?i])" by (intro spaced_quiet[OF assms(1)]) simp
    ultimately show ?thesis using Some pos p by (simp add: end_job_def Let_def after.simps)
  qed
qed (use assms in \<open>simp add: end_job_def after.simps\<close>)


lemma keeps_jobs:
  assumes "claims_spaced tr" "state_ok tr (rn_state r)" "memory_ok tr r" "neutral es'" "rn_state r' = rn_state r"
    "rn_sending r' = rn_sending r" "rn_polling r' = rn_polling r"
  shows "keeps_memory tr (Durable (with_state (recorded_jobs rcp current now) r') [] es')"
  using assms(4-7) by (intro keeps_durable[OF assms(1-3), where ps = "[]"]) (simp_all add: recorded_jobs_def Let_def)

lemma keeps_others:
  assumes "claims_spaced tr" "state_ok tr (rn_state r)" "memory_ok tr r"
  shows "keeps_memory tr (commit_cursor c r)" "keeps_memory tr (report_job draw n t files r)"
    "keeps_memory tr (track_jobs n current now r)" "keeps_memory tr (end_runner n now r)"
    "keeps_memory tr (store_notice draw to t q key ab now r)" "keeps_memory tr (answer_mail draw t r)"
    "keeps_memory tr (remove_reaction r)" "keeps_memory tr (keep_reaction i x r)"
proof -
  have quiet: "keeps_memory tr (Quiet r [])" using assms by (simp add: after.simps)
  show "keeps_memory tr (commit_cursor c r)"
    by (cases c) (auto simp: commit_cursor_def intro!: keeps_durable[OF assms, where ps = "[]"])
  show "keeps_memory tr (report_job draw n t files r)"
    using quiet by (auto simp: report_job_def queue_unprompted_def addressed_def split: option.split intro!: keeps_durable[OF assms])
  show "keeps_memory tr (track_jobs n current now r)"
    using quiet keeps_jobs[OF assms, of "[]"] by (auto simp: track_jobs_def record_jobs_def Let_def split: option.split)
  show "keeps_memory tr (end_runner n now r)"
    using quiet keeps_same_state[OF assms] keeps_jobs[OF assms]
    by (auto simp: end_runner_def record_jobs_def Let_def split: option.split)
  show "keeps_memory tr (answer_mail draw t r)"
  proof (cases "rn_polling r")
    case (Commanding m)
    let ?p = "(new_pending draw (mg_id m) (mg_sender m) (mg_reply_to m) (system r t))\<lparr>pd_key := mg_sender m, pd_transient := True\<rparr>"
    let ?r = "(with_state (push_pending ?p) r)\<lparr>rn_polling := Between\<rparr>"
    have "state_ok tr (rn_state ?r)" using assms(2) by (simp add: state_ok_push addressed_def)
    moreover have "memory_ok tr ?r" by (rule memory_grown[OF assms(3)]) simp_all
    ultimately have "keeps_memory tr (Durable ?r [] [])" using assms(1) by (simp add: after.simps)
    then show ?thesis using Commanding keeps_same_state[OF assms] by (simp add: answer_mail_def Let_def)
  qed (use quiet in \<open>simp_all add: answer_mail_def\<close>)
  show "keeps_memory tr (store_notice draw to t q key ab now r)"
    using quiet
    by (auto simp: store_notice_def store_mail_notice_def Let_def prune_recent_keys_def addressed_def split: option.split
        intro!: keeps_durable[OF assms])
  have state: "state_ok tr s'" if "bg_seen s' = bg_seen (rn_state r)" "bg_pending s' = bg_pending (rn_state r)"
    "map if_message_id (bg_in_flight s') = map if_message_id (bg_in_flight (rn_state r))" for s'
  proof -
    have "set (map if_message_id (bg_in_flight s')) = set (map if_message_id (bg_in_flight (rn_state r)))" by (simp only: that(3))
    then have "known_id s' = known_id (rn_state r)" using that(2) by (simp add: known_id_def fun_eq_iff)
    then show ?thesis using assms(2) that state_ok_keep[OF assms(2), of "[]" s'] by (simp add: state_ok_def)
  qed
  have mem: "memory_ok tr (with_state f r)" if "bg_seen (f (rn_state r)) = bg_seen (rn_state r)"
    "bg_pending (f (rn_state r)) = bg_pending (rn_state r)"
    "map if_message_id (bg_in_flight (f (rn_state r))) = map if_message_id (bg_in_flight (rn_state r))" for f
  proof -
    have "set (map if_message_id (bg_in_flight (f (rn_state r)))) = set (map if_message_id (bg_in_flight (rn_state r)))"
      by (simp only: that(3))
    then have "new_id (f (rn_state r)) = new_id (rn_state r)" using that(1,2) by (simp add: new_id_def known_id_def fun_eq_iff)
    then show ?thesis using assms(3) that(2)
      by (auto simp: memory_ok_def sending_ok_def offering_ok_def split: option.splits polling.splits)
  qed
  show "keeps_memory tr (remove_reaction r)"
    using quiet assms(1) state mem by (simp add: remove_reaction_def Let_def after.simps)
  show "keeps_memory tr (keep_reaction i x r)"
  proof (cases "position (\<lambda>c. if_message_id c = i) (bg_in_flight (rn_state r))")
    case (Some n)
    then have n: "n < length (bg_in_flight (rn_state r))" by (simp add: position_Some_iff)
    have ids: "map if_message_id ((bg_in_flight (rn_state r))[n := (bg_in_flight (rn_state r) ! n)\<lparr>if_reaction := y\<rparr>])
        = map if_message_id (bg_in_flight (rn_state r))" for y
      using n by (intro nth_equalityI) (auto simp: nth_list_update)
    show ?thesis using Some assms(1) state mem ids by (simp add: keep_reaction_def Let_def after.simps)
  next
    case None
    then show ?thesis using keeps_same_state[OF assms, of "[Reacted i x]" r] by (simp add: keep_reaction_def)
  qed
qed

lemma keeps_returned:
  assumes "claims_spaced tr" "state_ok tr (rn_state r)" "memory_ok tr r"
  shows "keeps_memory tr (enqueue_returned ret r)"
proof (cases "ba_owner (rn_account r)")
  case (Some owner)
  let ?i = "''return:'' @ rt_message_id ret" and ?s = "rn_state r"
  show ?thesis
  proof (cases "?i \<in> set (bg_seen ?s) \<or> known_id ?s ?i")
    case True
    then show ?thesis using Some assms by (simp add: enqueue_returned_def Let_def after.simps)
  next
    case False
    then have new: "new_id ?s ?i" by (simp add: new_id_def known_id_def)
    obtain tools limit where rt: "returned_turn (rt_thread ret) owner (ba_tool_owner (rn_account r)) = (tools, limit)" by fastforce
    show ?thesis
      by (simp only: enqueue_returned_def Let_def Some option.case False if_False rt prod.case)
        (rule keeps_claim[OF assms]; use new in simp)
  qed
qed (use assms in \<open>simp add: enqueue_returned_def after.simps\<close>)

lemma keeps_memory_op:
  assumes "claims_spaced tr" "state_ok tr (rn_state r)" "memory_ok tr r"
  shows "keeps_memory tr (perform op r)"
proof -
  have quiet: "keeps_memory tr (Quiet r [])" using assms by (simp add: after.simps)
  show ?thesis
    using quiet keeps_accept[OF assms] keeps_offered[OF assms] keeps_conversations[OF assms] keeps_others[OF assms]
      keeps_returned[OF assms] keeps_end_job[OF assms] keeps_begin_delivery[OF assms] keeps_sending[OF assms]
      keeps_end_delivery[OF assms]
    by (cases op) simp_all
qed

lemma state_ok_cong:
  "state_ok tr s \<Longrightarrow> bg_seen s' = bg_seen s \<Longrightarrow> bg_pending s' = bg_pending s \<Longrightarrow> bg_in_flight s' = bg_in_flight s \<Longrightarrow> state_ok tr s'"
  using state_ok_keep[of tr s "[]" s'] by (simp add: state_ok_def known_id_def)

lemma state_ok_recovered:
  assumes "state_ok tr s"
  shows "state_ok tr (recover_interrupted_after draw restart label now s)"
proof -
  let ?s = "recover_interrupted_after draw restart label now s"
  obtain ps ns where p: "bg_pending ?s = bg_pending s @ ps @ ns" "map pd_message_id ps = map if_message_id (bg_in_flight s)"
    "list_all addressed (ps @ ns)" using recover_frame(4) by blast
  have "set (map pd_message_id ps) = set (map if_message_id (bg_in_flight s))" using p(2) by simp
  then have known: "known_id s i \<Longrightarrow> known_id ?s i" for i unfolding known_id_def p(1) by auto
  have "list_all addressed (bg_pending s)" using assms by (simp add: state_ok_def)
  then have adr: "list_all addressed (bg_pending ?s)" unfolding p(1) using p(3) by simp
  have "state_ok (tr @ []) ?s"
    by (rule state_ok_keep[OF assms]) (simp_all add: known adr recover_frame)
  then show ?thesis by simp
qed

interpretation memory: bridge_law "\<lambda>op. True" claims_spaced state_ok memory_ok
proof (unfold_locales, goal_cases)
  case 1 show ?case by (simp add: claims_spaced_def)
next
  case 2 show ?case by (simp add: state_ok_def seen_ok_def covered_def new_bridge_state_def)
next
  case (3 tr s es) then show ?case using state_ok_keep[of tr s es s] by (simp add: state_ok_def neutral_no_claim neutral_marks)
next
  case (4 tr r op w) then show ?case using keeps_memory_op by blast
next
  case (5 tr s f) then show ?case by (rule state_ok_cong) simp_all
next
  case (6 tr s) then show ?case using state_ok_cong[of tr s "s\<lparr>bg_mail_chat := True\<rparr>"] by simp
next
  case (7 tr s draw restart label now) then show ?case by (rule state_ok_recovered)
next
  case (8 tr s a fp logged draw restart now ws)
  show ?case by (simp add: memory_ok_def sending_ok_def offering_ok_def new_run_def)
qed

end
