(* ===== verification/Bridge_Jobs.thy ===== *)
theory Bridge_Jobs
  imports Bridge_Invariant Hub_Theorems
begin

text \<open>
  The jobs of a bridge's run: each claim has exactly one, which waits to be queued, waits in its
  conversation's queue, or runs, unless it was sent to a conversation that was ending.
\<close>

section \<open>Sums over the runners\<close>

definition total :: "('b \<Rightarrow> 'c :: comm_monoid_add) \<Rightarrow> ('a \<times> 'b) list \<Rightarrow> 'c" where
  "total f m = sum_list (map (f \<circ> snd) m)"

lemma total_simps [simp]: "total f [] = 0" "total f (p # m) = f (snd p) + total f m"
  by (simp_all add: total_def)

lemma update_new: "map_of m n = None \<Longrightarrow> AList.update n u m = m @ [(n, u)]"
  by (induction m) (auto split: if_splits)

lemma total_new: "map_of m n = None \<Longrightarrow> total f (AList.update n u m) = total f m + f u"
  by (simp add: update_new total_def)

lemma total_update:
  "map_of m n = Some u \<Longrightarrow> total f (AList.update n v m) + f u = total f m + f v"
  by (induction m) (auto simp: add_ac split: if_splits)

lemma total_modify:
  "map_of m n = Some u \<Longrightarrow> total f (modify n g m) + f u = total f m + f (g u)"
  by (simp add: modify_def total_update)

lemma delete_absent: "map_of m n = None \<Longrightarrow> AList.delete n m = m"
  by (induction m) (auto split: if_splits)

lemma total_delete:
  "distinct (map fst m) \<Longrightarrow> map_of m n = Some u \<Longrightarrow> total f (AList.delete n m) + f u = total f m"
proof (induction m)
  case (Cons p m)
  show ?case
  proof (cases "fst p = n")
    case True
    then have "map_of m n = None" using Cons.prems(1) by (metis distinct.simps(2) list.simps(9) map_of_eq_None_iff set_map)
    then show ?thesis using True Cons.prems(2) delete_absent[of m n] by (cases p) (auto simp: add_ac)
  next
    case False
    then show ?thesis using Cons by (cases p) (auto simp: add_ac)
  qed
qed simp

section \<open>Jobs\<close>

definition queued_of :: "runner \<Rightarrow> string multiset" where
  "queued_of u = mset (map jb_message_id (ru_queue u))"

definition job_ids_of :: "runner \<Rightarrow> string multiset" where
  "job_ids_of u = (case ru_job u of None \<Rightarrow> {#} | Some j \<Rightarrow> {#jb_message_id j#}) + queued_of u"

definition to_queue :: "run \<Rightarrow> string multiset" where
  "to_queue r = (case rn_polling r of Queueing j tools rcp evict \<Rightarrow> {#jb_message_id j#} | _ \<Rightarrow> {#})"

text \<open>The messages with a job, and those whose job has not begun.\<close>

definition job_ids :: "run \<Rightarrow> string multiset" where
  "job_ids r = to_queue r + total job_ids_of (rn_runners r)"

definition waiting_ids :: "run \<Rightarrow> string multiset" where
  "waiting_ids r = to_queue r + total queued_of (rn_runners r)"

fun is_began :: "string \<Rightarrow> bridge_event \<Rightarrow> bool" where
  "is_began i (Began j tools) \<longleftrightarrow> j = i"
| "is_began i _ \<longleftrightarrow> False"

definition began_once :: "bridge_event list \<Rightarrow> bool" where
  "began_once tr \<longleftrightarrow> (\<forall>i. events (is_began i) tr \<le> events (is_claim i) tr)"

definition begun_counted :: "bridge_event list \<Rightarrow> run \<Rightarrow> bool" where
  "begun_counted tr r \<longleftrightarrow> (\<forall>i. events (is_began i) tr + count (waiting_ids r) i \<le> events (is_claim i) tr)"

definition runners_ok :: "run \<Rightarrow> bool" where
  "runners_ok r \<longleftrightarrow> distinct (map fst (rn_runners r)) \<and> (\<forall>n \<in> set (map fst (rn_runners r)). n < rn_next r) \<and>
     (\<forall>(n, u) \<in> set (rn_runners r). ru_ending u \<longrightarrow> ru_job u = None)"

definition claims_tracked :: "bridge_event list \<Rightarrow> run \<Rightarrow> bool" where
  "claims_tracked tr r \<longleftrightarrow> (\<exists>lost. job_ids r + lost = mset (map if_message_id (bg_in_flight (rn_state r))) \<and>
     set_mset lost \<subseteq> {i. Dropped i \<in> set tr})"

definition jobs_ok :: "bridge_event list \<Rightarrow> run \<Rightarrow> bool" where
  "jobs_ok tr r \<longleftrightarrow> runners_ok r \<and> begun_counted tr r \<and> claims_tracked tr r"

text \<open>Neither a claim nor the start of a turn.\<close>

fun is_idle :: "bridge_event \<Rightarrow> bool" where
  "is_idle (Claimed m t tools) = False"
| "is_idle (ClaimedReturn i thread t tools) = False"
| "is_idle (Began i tools) = False"
| "is_idle e = True"

lemma idle_events: "list_all is_idle es \<Longrightarrow> events (is_began i) es = 0 \<and> events (is_claim i) es = 0"
proof (induction es)
  case (Cons e es)
  then show ?case by (cases e) simp_all
qed simp

abbreviation keeps_jobs_ok :: "bridge_event list \<Rightarrow> outcome \<Rightarrow> bool" where
  "keeps_jobs_ok \<equiv> after began_once (\<lambda>tr s. True) jobs_ok"

text \<open>An operation that leaves the jobs and the claims alone.\<close>

definition same_jobs :: "run \<Rightarrow> run \<Rightarrow> bool" where
  "same_jobs r r' \<longleftrightarrow> job_ids r' = job_ids r \<and> waiting_ids r' = waiting_ids r \<and> runners_ok r' \<and>
     map if_message_id (bg_in_flight (rn_state r')) = map if_message_id (bg_in_flight (rn_state r))"

lemma jobs_ok_same:
  assumes "jobs_ok tr r" and "same_jobs r r'" and "list_all is_idle es"
  shows "jobs_ok (tr @ es) r'"
  using assms idle_events[OF assms(3)]
  by (auto simp: jobs_ok_def same_jobs_def begun_counted_def claims_tracked_def)

lemma began_once_idle: "began_once tr \<Longrightarrow> list_all is_idle es \<Longrightarrow> began_once (tr @ es)"
  using idle_events by (simp add: began_once_def)

lemma keeps_jobs_same:
  assumes "began_once tr" "jobs_ok tr r" "same_jobs r r'" "list_all is_idle es" "list_all is_idle es'"
  shows "keeps_jobs_ok tr (Durable r' es es')" "keeps_jobs_ok tr (Quiet r' es)"
  using assms began_once_idle[OF assms(1), of es] began_once_idle[OF assms(1), of "es @ es'"]
    jobs_ok_same[OF assms(2,3), of "es @ es'"] jobs_ok_same[OF assms(2,3), of es]
  by (simp_all add: after.simps)

lemma same_jobs_polling:
  assumes "runners_ok r" "rn_runners r' = rn_runners r" "rn_next r' = rn_next r"
    "map if_message_id (bg_in_flight (rn_state r')) = map if_message_id (bg_in_flight (rn_state r))"
    "rn_polling r' = rn_polling r \<or> (to_queue r = {#} \<and> to_queue r' = {#})"
  shows "same_jobs r r'"
  using assms by (auto simp: same_jobs_def job_ids_def waiting_ids_def runners_ok_def to_queue_def)

lemma keeps_jobs_quiet: "began_once tr \<Longrightarrow> jobs_ok tr r \<Longrightarrow> keeps_jobs_ok tr (Quiet r [])"
  by (simp add: after.simps)

lemma keeps_jobs_claim:
  assumes "began_once tr" "jobs_ok tr r" "rn_state r' = push_claim c (rn_state r)" "rn_runners r' = rn_runners r"
    "rn_next r' = rn_next r" "rn_polling r' = Queueing j tools rcp ev" "jb_message_id j = if_message_id c"
    "\<And>i. is_claim i e \<longleftrightarrow> i = if_message_id c" "\<And>i. \<not> is_began i e" "to_queue r = {#}"
  shows "keeps_jobs_ok tr (Durable r' [e] [])"
proof -
  obtain lost where lost: "job_ids r + lost = mset (map if_message_id (bg_in_flight (rn_state r)))"
    "set_mset lost \<subseteq> {i. Dropped i \<in> set tr}" using assms(2) by (auto simp: jobs_ok_def claims_tracked_def)
  have ids: "job_ids r' = add_mset (if_message_id c) (job_ids r)" "waiting_ids r' = add_mset (if_message_id c) (waiting_ids r)"
    using assms(4,6,7,10) by (simp_all add: job_ids_def waiting_ids_def to_queue_def)
  have "claims_tracked (tr @ [e]) r'" unfolding claims_tracked_def
    using lost ids assms(3) by (intro exI[of _ lost]) auto
  moreover have "runners_ok r'" using assms(2,4,5) by (simp add: jobs_ok_def runners_ok_def)
  moreover have "begun_counted (tr @ [e]) r'" "began_once (tr @ [e])"
    using assms(1,2,8,9) ids(2) by (auto simp: jobs_ok_def begun_counted_def began_once_def intro: le_SucI)
  ultimately show ?thesis by (simp add: after.simps jobs_ok_def)
qed


section \<open>The poller\<close>

lemma to_queue_simps [simp]:
  "rn_polling r = Between \<Longrightarrow> to_queue r = {#}" "rn_polling r = Offering f t \<Longrightarrow> to_queue r = {#}"
  "rn_polling r = Commanding m \<Longrightarrow> to_queue r = {#}"
  "rn_polling r = Queueing j tools rcp ev \<Longrightarrow> to_queue r = {#jb_message_id j#}"
  by (simp_all add: to_queue_def)

lemma keeps_jobs_saved:
  assumes "began_once tr" "jobs_ok tr r" "list_all is_idle es" "list_all is_idle es'"
    "rn_runners r' = rn_runners r" "rn_next r' = rn_next r"
    "map if_message_id (bg_in_flight (rn_state r')) = map if_message_id (bg_in_flight (rn_state r))"
    "rn_polling r' = rn_polling r \<or> (to_queue r = {#} \<and> to_queue r' = {#})"
  shows "keeps_jobs_ok tr (Durable r' es es')" "keeps_jobs_ok tr (Quiet r' es)"
  using assms(2) keeps_jobs_same[OF assms(1,2) same_jobs_polling[OF _ assms(5-8)] assms(3,4)] by (simp_all add: jobs_ok_def)

lemma keeps_jobs_proceed:
  assumes "began_once tr" "jobs_ok tr r" "to_queue r = {#}"
  shows "keeps_jobs_ok tr (queue_fixed draw r frm t [])" "keeps_jobs_ok tr (proceed draw r frm turn)"
    "keeps_jobs_ok tr (only_seen r i)" "keeps_jobs_ok tr (offer_or draw r frm turn)"
    "keeps_jobs_ok tr (acknowledge draw r frm yes)"
proof -
  show fixed: "keeps_jobs_ok tr (queue_fixed draw r frm t [])" for t
    unfolding queue_fixed_def by (rule keeps_jobs_saved(1)[OF assms(1,2)]) (use assms(3) in simp_all)
  show "keeps_jobs_ok tr (acknowledge draw r frm yes)"
    unfolding acknowledge_def queue_fixed_def by (rule keeps_jobs_saved(1)[OF assms(1,2)]) (use assms(3) in simp_all)
  show "keeps_jobs_ok tr (only_seen r i)"
    unfolding only_seen_def by (rule keeps_jobs_saved(1)[OF assms(1,2)]) (use assms(3) in simp_all)
  show proceed: "keeps_jobs_ok tr (proceed draw r frm turn)"
  proof (cases turn)
    case (Inl t)
    then show ?thesis using fixed by (simp add: proceed_def)
  next
    case (Inr b)
    then obtain tools limit evict where "b = (tools, limit, evict)" by (cases b)
    then have out: "proceed draw r frm turn = claim_message r frm tools limit evict" using Inr by (simp add: proceed_def)
    show ?thesis unfolding out claim_message_def Let_def
      by (rule keeps_jobs_claim[OF assms(1,2)]) (use assms(3) in \<open>auto simp: job_of_def Let_def\<close>)
  qed
  have "keeps_jobs_ok tr (Quiet (r\<lparr>rn_polling := Offering frm turn\<rparr>) [])"
    by (rule keeps_jobs_saved(2)[OF assms(1,2), where es' = "[]"]) (use assms(3) in simp_all)
  then show "keeps_jobs_ok tr (offer_or draw r frm turn)" using proceed by (simp add: offer_or_def)
qed

lemma keeps_jobs_poll:
  assumes "began_once tr" "jobs_ok tr r"
  shows "keeps_jobs_ok tr (accept_any draw q taken inb r)" "keeps_jobs_ok tr (job_took draw follow r)"
    "keeps_jobs_ok tr (answer_mail draw t r)"
    "rn_polling r = Between \<Longrightarrow> keeps_jobs_ok tr (enqueue_returned ret r)"
    "rn_polling r = Between \<Longrightarrow> keeps_jobs_ok tr (commit_cursor c r)"
proof -
  note quiet = keeps_jobs_quiet[OF assms]
  have act: "keeps_jobs_ok tr (act_on draw r i v)" if "rn_polling r = Between" for i v
    using quiet keeps_jobs_proceed[OF assms] that by (cases v) (simp_all add: act_on_def)
  have "keeps_jobs_ok tr (accept_mail inb r)" if "rn_polling r = Between"
  proof -
    have "keeps_jobs_ok tr (Quiet (r\<lparr>rn_polling := Commanding m\<rparr>) [])" for m
      by (rule keeps_jobs_saved(2)[OF assms, where es' = "[]"]) (use that in simp_all)
    then show ?thesis using quiet keeps_jobs_proceed(3)[OF assms] that by (auto simp: accept_mail_def Let_def split: inbound.split)
  qed
  then show "keeps_jobs_ok tr (accept_any draw q taken inb r)"
    using quiet act keeps_jobs_proceed(5)[OF assms] by (auto simp: accept_any_def accept_def split: verdict.split)
  show "keeps_jobs_ok tr (job_took draw follow r)"
  proof (cases "rn_polling r")
    case (Offering frm turn)
    let ?p = "fixed_notice draw r frm UNRESUMABLE_NOTICE" and ?i = "mg_id (sn_message frm)"
    have "keeps_jobs_ok tr (Durable ((with_state (push_pending ?p \<circ> mark_seen ?i) r)\<lparr>rn_polling := Between\<rparr>) [Marked ?i] [])"
      by (rule keeps_jobs_saved(1)[OF assms]) (use Offering in simp_all)
    then show ?thesis using Offering keeps_jobs_proceed(2,3)[OF assms]
      by (cases follow) (simp_all add: job_took_def Let_def after.simps)
  qed (use quiet in \<open>simp_all add: job_took_def\<close>)
  show "keeps_jobs_ok tr (answer_mail draw t r)"
  proof (cases "rn_polling r")
    case (Commanding m)
    have "keeps_jobs_ok tr (Quiet (r\<lparr>rn_polling := Between\<rparr>) [])"
      by (rule keeps_jobs_saved(2)[OF assms, where es' = "[]"]) (use Commanding in simp_all)
    moreover have "keeps_jobs_ok tr (Durable ((with_state (push_pending p) r)\<lparr>rn_polling := Between\<rparr>) [] [])" for p
      by (rule keeps_jobs_saved(1)[OF assms]) (use Commanding in simp_all)
    ultimately show ?thesis using Commanding by (simp add: answer_mail_def Let_def)
  qed (use quiet in \<open>simp_all add: answer_mail_def\<close>)
  show "keeps_jobs_ok tr (commit_cursor c r)" if "rn_polling r = Between"
    by (cases c) (auto simp: commit_cursor_def intro!: keeps_jobs_saved(1)[OF assms])
  show "keeps_jobs_ok tr (enqueue_returned ret r)" if "rn_polling r = Between"
  proof (cases "ba_owner (rn_account r)")
    case (Some owner)
    let ?i = "''return:'' @ rt_message_id ret"
    obtain tools limit where rt: "returned_turn (rt_thread ret) owner (ba_tool_owner (rn_account r)) = (tools, limit)" by fastforce
    show ?thesis
    proof (cases "?i \<in> set (bg_seen (rn_state r)) \<or> known_id (rn_state r) ?i")
      case False
      show ?thesis
        by (simp only: enqueue_returned_def Let_def Some option.case False if_False rt prod.case, rule keeps_jobs_claim[OF assms])
          (use that in auto)
    qed (use Some quiet in \<open>simp add: enqueue_returned_def Let_def\<close>)
  qed (use quiet in \<open>simp add: enqueue_returned_def\<close>)
qed

section \<open>The conversations\<close>

lemma modify_absent: "map_of m n = None \<Longrightarrow> modify n g m = m"
  by (simp add: modify_def)

lemma set_modify:
  "distinct (map fst m) \<Longrightarrow> (k, v) \<in> set (modify n g m) \<Longrightarrow> (k, v) \<in> set m \<or> (\<exists>u. k = n \<and> v = g u \<and> (n, u) \<in> set m)"
  using set_modify_distinct[of m] by fastforce

lemma runners_ok_modify:
  assumes "runners_ok r" "rn_runners r' = modify n g (rn_runners r)" "rn_next r' = rn_next r"
    "\<And>u. map_of (rn_runners r) n = Some u \<Longrightarrow> ru_ending u \<longrightarrow> ru_job u = None \<Longrightarrow> ru_ending (g u) \<longrightarrow> ru_job (g u) = None"
  shows "runners_ok r'"
proof -
  have d: "distinct (map fst (rn_runners r))" using assms(1) by (simp add: runners_ok_def)
  have "ru_ending u \<longrightarrow> ru_job u = None" if "(k, u) \<in> set (modify n g (rn_runners r))" for k u
    using set_modify[OF d that] assms(1,4) d by (fastforce simp: runners_ok_def map_of_eq_Some_iff)
  then show ?thesis using assms(1-3) by (auto simp: runners_ok_def)
qed

lemma total_modify_same:
  assumes "\<And>u. map_of m n = Some u \<Longrightarrow> f (g u) = f u"
  shows "total f (modify n g m) = (total f m :: 'c :: cancel_comm_monoid_add)"
proof (cases "map_of m n")
  case (Some u)
  then show ?thesis using total_modify[OF Some, of f g] assms by simp
qed (simp add: modify_absent)

lemma release_jobs:
  assumes "runners_ok r"
  shows "runners_ok (release_queue key r)" "total job_ids_of (rn_runners (release_queue key r)) = total job_ids_of (rn_runners r)"
    "total queued_of (rn_runners (release_queue key r)) = total queued_of (rn_runners r)" "rn_next (release_queue key r) = rn_next r"
    "map_of (rn_runners (release_queue key r)) n = None \<longleftrightarrow> map_of (rn_runners r) n = None"
proof -
  show "runners_ok (release_queue key r)"
  proof (cases "map_of (rn_table r) key")
    case (Some l)
    then show ?thesis by (intro runners_ok_modify[OF assms, of _ "lv_runner l" "\<lambda>u. u\<lparr>ru_held := False\<rparr>"]) (simp_all add: release_queue_def)
  qed (simp add: release_queue_def assms)
  show "total job_ids_of (rn_runners (release_queue key r)) = total job_ids_of (rn_runners r)"
    "total queued_of (rn_runners (release_queue key r)) = total queued_of (rn_runners r)" "rn_next (release_queue key r) = rn_next r"
    "map_of (rn_runners (release_queue key r)) n = None \<longleftrightarrow> map_of (rn_runners r) n = None"
    by (auto simp: release_queue_def total_modify_same job_ids_of_def queued_of_def map_of_modify split: option.split)
qed

text \<open>A job sent to a runner that is there joins its queue.\<close>

lemma send_jobs:
  assumes "runners_ok r" "map_of (rn_runners r) n = Some u"
  shows "runners_ok (send_job n j r)"
    "total job_ids_of (rn_runners (send_job n j r)) = add_mset (jb_message_id j) (total job_ids_of (rn_runners r))"
    "total queued_of (rn_runners (send_job n j r)) = add_mset (jb_message_id j) (total queued_of (rn_runners r))"
proof -
  show "runners_ok (send_job n j r)"
    by (rule runners_ok_modify[OF assms(1), of _ n "\<lambda>u. u\<lparr>ru_queue := ru_queue u @ [j]\<rparr>"]) (simp_all add: send_job_def)
  show "total job_ids_of (rn_runners (send_job n j r)) = add_mset (jb_message_id j) (total job_ids_of (rn_runners r))"
    "total queued_of (rn_runners (send_job n j r)) = add_mset (jb_message_id j) (total queued_of (rn_runners r))"
    using total_modify[OF assms(2), of job_ids_of "\<lambda>u. u\<lparr>ru_queue := ru_queue u @ [j]\<rparr>"]
      total_modify[OF assms(2), of queued_of "\<lambda>u. u\<lparr>ru_queue := ru_queue u @ [j]\<rparr>"]
    by (simp_all add: send_job_def job_ids_of_def queued_of_def)
qed

lemma fresh_runner: "runners_ok r \<Longrightarrow> map_of (rn_runners r) (rn_next r) = None"
  by (force simp: runners_ok_def map_of_eq_None_iff)

lemma start_jobs:
  assumes "runners_ok r"
  shows "runners_ok (start_runner key now tools rcp r)"
    "total job_ids_of (rn_runners (start_runner key now tools rcp r)) = total job_ids_of (rn_runners r)"
    "total queued_of (rn_runners (start_runner key now tools rcp r)) = total queued_of (rn_runners r)"
    "\<exists>u. map_of (rn_runners (start_runner key now tools rcp r)) (rn_next r) = Some u"
proof -
  let ?u = "\<lparr>ru_owner = tools, ru_recipient = rcp, ru_queue = [], ru_held = True, ru_job = None, ru_ending = False\<rparr>"
  have new: "map_of (rn_runners r) (rn_next r) = None" by (rule fresh_runner[OF assms])
  have runners: "rn_runners (start_runner key now tools rcp r) = rn_runners r @ [(rn_next r, ?u)]"
    "rn_next (start_runner key now tools rcp r) = rn_next r + 1"
    using new by (simp_all add: start_runner_def Let_def update_new)
  have "rn_next r \<notin> set (map fst (rn_runners r))" using assms by (auto simp: runners_ok_def)
  then show "runners_ok (start_runner key now tools rcp r)" using assms unfolding runners_ok_def runners by fastforce
  show "total job_ids_of (rn_runners (start_runner key now tools rcp r)) = total job_ids_of (rn_runners r)"
    "total queued_of (rn_runners (start_runner key now tools rcp r)) = total queued_of (rn_runners r)"
    unfolding runners by (simp_all add: total_def job_ids_of_def queued_of_def)
  show "\<exists>u. map_of (rn_runners (start_runner key now tools rcp r)) (rn_next r) = Some u"
    unfolding runners using new by (simp add: map_add_def)
qed

lemma queue_jobs:
  assumes "runners_ok r"
  shows "runners_ok (queue_on j tools rcp now r)"
    "total job_ids_of (rn_runners (queue_on j tools rcp now r)) = add_mset (jb_message_id j) (total job_ids_of (rn_runners r))"
    "total queued_of (rn_runners (queue_on j tools rcp now r)) = add_mset (jb_message_id j) (total queued_of (rn_runners r))"
proof -
  have new: "runners_ok x \<and> total job_ids_of (rn_runners x) = add_mset (jb_message_id j) (total job_ids_of (rn_runners r)) \<and>
      total queued_of (rn_runners x) = add_mset (jb_message_id j) (total queued_of (rn_runners r))"
    if "x = send_job (rn_next r) j (start_runner (jb_key j) now tools rcp (release_queue (jb_key j) r))" for x
  proof -
    let ?a = "release_queue (jb_key j) r"
    note rel = release_jobs[OF assms, of "jb_key j"]
    note st = start_jobs[OF rel(1), of "jb_key j" now tools rcp]
    obtain u where u: "map_of (rn_runners (start_runner (jb_key j) now tools rcp ?a)) (rn_next r) = Some u" using st(4) rel(4) by auto
    show ?thesis unfolding that using send_jobs[OF st(1) u, of j] st(2,3) rel(2,3) by simp
  qed
  have old: "runners_ok (x\<lparr>rn_table := t\<rparr>) \<and> total job_ids_of (rn_runners (x\<lparr>rn_table := t\<rparr>)) = add_mset (jb_message_id j) (total job_ids_of (rn_runners r)) \<and>
      total queued_of (rn_runners (x\<lparr>rn_table := t\<rparr>)) = add_mset (jb_message_id j) (total queued_of (rn_runners r))"
    if "x = send_job n j r" "map_of (rn_runners r) n = Some u" for x t n u
    using send_jobs[OF assms that(2), of j] that(1) by (simp add: runners_ok_def)
  show "runners_ok (queue_on j tools rcp now r)"
    "total job_ids_of (rn_runners (queue_on j tools rcp now r)) = add_mset (jb_message_id j) (total job_ids_of (rn_runners r))"
    "total queued_of (rn_runners (queue_on j tools rcp now r)) = add_mset (jb_message_id j) (total queued_of (rn_runners r))"
    using new old by (auto simp: queue_on_def Let_def open_runner_def split: option.split)
qed


lemma jobs_parts:
  "jobs_ok tr r \<Longrightarrow> runners_ok r" "jobs_ok tr r \<Longrightarrow> begun_counted tr r" "jobs_ok tr r \<Longrightarrow> claims_tracked tr r"
  by (simp_all add: jobs_ok_def)

lemma keeps_jobs_queue:
  assumes "began_once tr" "jobs_ok tr r"
  shows "keeps_jobs_ok tr (queue_job now r)"
proof (cases "rn_polling r")
  case (Queueing j tools rcp evict)
  let ?a = "case evict of None \<Rightarrow> r | Some key \<Rightarrow> release_queue key r"
  let ?r = "(queue_on j tools rcp now ?a)\<lparr>rn_polling := Between\<rparr>"
  have ok: "runners_ok ?a" "total job_ids_of (rn_runners ?a) = total job_ids_of (rn_runners r)"
    "total queued_of (rn_runners ?a) = total queued_of (rn_runners r)" "rn_state ?a = rn_state r"
    using jobs_parts(1)[OF assms(2)] release_jobs[OF jobs_parts(1)[OF assms(2)]] by (cases evict; simp)+
  note q = queue_jobs[OF ok(1), of j tools rcp now]
  have "runners_ok ?r" using q(1) by (simp add: runners_ok_def)
  then have "same_jobs r ?r" using q(2,3) ok Queueing by (simp add: same_jobs_def job_ids_def waiting_ids_def)
  then show ?thesis using keeps_jobs_same(2)[OF assms, of ?r "[]" "[]"] Queueing by (simp add: queue_job_def Let_def)
qed (use keeps_jobs_quiet[OF assms] in \<open>simp_all add: queue_job_def\<close>)

lemma keeps_jobs_begin:
  assumes "began_once tr" "jobs_ok tr r"
  shows "keeps_jobs_ok tr (begin_job n r)"
proof (cases "map_of (rn_runners r) n")
  case (Some u)
  note quiet = keeps_jobs_quiet[OF assms]
  show ?thesis
  proof (cases "ru_job u = None \<and> \<not> ru_ending u \<and> ru_queue u \<noteq> []")
    case True
    then obtain j js where q: "ru_queue u = j # js" by (cases "ru_queue u") auto
    let ?g = "\<lambda>u. u\<lparr>ru_job := Some j, ru_queue := js\<rparr>" and ?i = "jb_message_id j"
    let ?r = "set_runner n ?g r"
    have run: "runners_ok ?r"
      by (rule runners_ok_modify[OF jobs_parts(1)[OF assms(2)], of _ n ?g]) (use True Some in \<open>simp_all add: set_runner_def\<close>)
    have jobs: "total job_ids_of (rn_runners ?r) = total job_ids_of (rn_runners r)"
      using total_modify[OF Some, of job_ids_of ?g] True q by (simp add: set_runner_def job_ids_of_def queued_of_def)
    have wait: "total queued_of (rn_runners r) = add_mset ?i (total queued_of (rn_runners ?r))"
      using total_modify[OF Some, of queued_of ?g] q by (simp add: set_runner_def queued_of_def)
    have ids: "job_ids ?r = job_ids r" "waiting_ids r = add_mset ?i (waiting_ids ?r)"
      using jobs wait by (simp_all add: job_ids_def waiting_ids_def to_queue_def)
    have "jobs_ok (tr @ es) ?r" "began_once (tr @ es)" if "es = (if jb_new j then [] else [Began ?i (ru_owner u)])" for es
    proof -
      have cl: "events (is_claim i) (tr @ es) = events (is_claim i) tr" for i using that by simp
      have bg: "events (is_began i) (tr @ es) \<le> events (is_began i) tr + (if i = ?i then 1 else 0)" for i using that by simp
      have "begun_counted (tr @ es) ?r" unfolding begun_counted_def
      proof
        fix i
        have "events (is_began i) tr + count (waiting_ids r) i \<le> events (is_claim i) tr"
          using jobs_parts(2)[OF assms(2)] by (simp add: begun_counted_def)
        then show "events (is_began i) (tr @ es) + count (waiting_ids ?r) i \<le> events (is_claim i) (tr @ es)"
          using bg[of i] cl[of i] ids(2) by (cases "i = ?i") simp_all
      qed
      moreover have "claims_tracked (tr @ es) ?r"
        using jobs_parts(3)[OF assms(2)] ids(1) by (auto simp: claims_tracked_def)
      ultimately show "jobs_ok (tr @ es) ?r" using run by (simp add: jobs_ok_def)
      then show "began_once (tr @ es)" unfolding jobs_ok_def begun_counted_def began_once_def using add_leD1 by blast
    qed
    then show ?thesis using Some True q by (simp add: begin_job_def after.simps)
  qed (use Some quiet in \<open>auto simp: begin_job_def split: list.split\<close>)
qed (use keeps_jobs_quiet[OF assms] in \<open>simp add: begin_job_def\<close>)

text \<open>The job that ends is its claim's.\<close>

lemma keeps_jobs_end:
  assumes "began_once tr" "jobs_ok tr r" "state_ok tr (rn_state r)"
  shows "keeps_jobs_ok tr (end_job draw n t files now r)"
proof (cases "Option.bind (map_of (rn_runners r) n) ru_job")
  case (Some j)
  then obtain u where u: "map_of (rn_runners r) n = Some u" "ru_job u = Some j" by (auto simp: bind_eq_Some_conv)
  let ?s = "rn_state r" and ?i = "jb_message_id j" and ?g = "\<lambda>u. u\<lparr>ru_job := None\<rparr>"
  show ?thesis
  proof (cases "position (\<lambda>c. if_message_id c = ?i) (bg_in_flight ?s)")
    case None
    then show ?thesis using Some by (simp add: end_job_def Let_def after.simps)
  next
    case pos: (Some k)
    let ?cut = "?s\<lparr>bg_in_flight := remove_at k (bg_in_flight ?s)\<rparr>"
    obtain p s1 where p: "compose_pending draw (bg_in_flight ?s ! k) t now ?cut = (p, s1)" by fastforce
    let ?r = "(set_runner n ?g r)\<lparr>rn_state := push_pending (p\<lparr>pd_files := files\<rparr>) s1\<rparr>"
    have k: "k < length (bg_in_flight ?s)" "if_message_id (bg_in_flight ?s ! k) = ?i" using in_flight_removed(1,2)[OF pos] .
    have fl: "bg_in_flight s1 = remove_at k (bg_in_flight ?s)"
      using compose_frame[of draw "bg_in_flight ?s ! k" t now ?cut] p by simp
    have ms: "mset (map if_message_id (bg_in_flight ?s)) = add_mset ?i (mset (map if_message_id (bg_in_flight (rn_state ?r))))"
      using arg_cong[OF mset_remove_at[OF k(1)], of "image_mset if_message_id"] k(2) fl by simp
    have run: "runners_ok ?r"
      by (rule runners_ok_modify[OF jobs_parts(1)[OF assms(2)], of _ n ?g]) (simp_all add: set_runner_def)
    have "job_ids_of u = add_mset ?i (job_ids_of (?g u))" "queued_of (?g u) = queued_of u"
      using u(2) by (simp_all add: job_ids_of_def queued_of_def)
    then have "total job_ids_of (rn_runners r) = add_mset ?i (total job_ids_of (rn_runners ?r))"
      "total queued_of (rn_runners ?r) = total queued_of (rn_runners r)"
      using total_modify[OF u(1), of job_ids_of ?g] total_modify[OF u(1), of queued_of ?g] by (simp_all add: set_runner_def)
    then have ids: "job_ids r = add_mset ?i (job_ids ?r)" "waiting_ids ?r = waiting_ids r"
      by (simp_all add: job_ids_def waiting_ids_def to_queue_def)
    obtain lost where lost: "job_ids r + lost = mset (map if_message_id (bg_in_flight ?s))" "set_mset lost \<subseteq> {i. Dropped i \<in> set tr}"
      using jobs_parts(3)[OF assms(2)] by (auto simp: claims_tracked_def)
    have "job_ids ?r + lost = mset (map if_message_id (bg_in_flight (rn_state ?r)))" using lost(1) ids(1) ms by simp
    then have "claims_tracked (tr @ [Replied ?i]) ?r" unfolding claims_tracked_def using lost(2) by fastforce
    then have "jobs_ok (tr @ [Replied ?i]) ?r" "began_once (tr @ [Replied ?i])"
      using run ids(2) jobs_parts(2)[OF assms(2)] assms(1) by (simp_all add: jobs_ok_def begun_counted_def began_once_def)
    then show ?thesis using Some pos p by (simp add: end_job_def Let_def after.simps)
  qed
qed (use keeps_jobs_quiet[OF assms(1,2)] in \<open>simp add: end_job_def\<close>)

lemma runners_ok_delete:
  "runners_ok r \<Longrightarrow> runners_ok (r\<lparr>rn_runners := AList.delete n (rn_runners r)\<rparr>)"
  by (auto simp: runners_ok_def set_delete distinct_delete)

lemma keeps_jobs_idle:
  assumes "began_once tr" "jobs_ok tr r"
  shows "keeps_jobs_ok tr (idle_out n r)"
proof (cases "map_of (rn_runners r) n")
  case (Some u)
  note run = jobs_parts(1)[OF assms(2)]
  have d: "distinct (map fst (rn_runners r))" using run by (simp add: runners_ok_def)
  show ?thesis
  proof (cases "ru_job u \<noteq> None \<or> ru_queue u \<noteq> []")
    case False
    let ?a = "r\<lparr>rn_runners := AList.delete n (rn_runners r)\<rparr>" and ?b = "set_runner n (\<lambda>u. u\<lparr>ru_ending := True\<rparr>) r"
    have "runners_ok ?b"
      by (rule runners_ok_modify[OF run, of _ n "\<lambda>u. u\<lparr>ru_ending := True\<rparr>"]) (use Some False in \<open>simp_all add: set_runner_def\<close>)
    then have "same_jobs r ?b"
      by (simp add: same_jobs_def job_ids_def waiting_ids_def to_queue_def set_runner_def total_modify_same job_ids_of_def queued_of_def)
    moreover have "same_jobs r ?a"
      using total_delete[OF d Some, of job_ids_of] total_delete[OF d Some, of queued_of] False runners_ok_delete[OF run]
      by (simp add: same_jobs_def job_ids_def waiting_ids_def to_queue_def job_ids_of_def queued_of_def)
    ultimately show ?thesis
      using Some False keeps_jobs_same(2)[OF assms, of _ "[]" "[]"] by (simp add: idle_out_def)
  qed (use Some keeps_jobs_quiet[OF assms] in \<open>simp add: idle_out_def\<close>)
qed (use keeps_jobs_quiet[OF assms] in \<open>simp add: idle_out_def\<close>)

text \<open>What waits in an ending conversation is dropped with it.\<close>

lemma dropped_ended:
  assumes "jobs_ok tr r" "map_of (rn_runners r) n = Some u" "ru_ending u" "rn_runners r' = AList.delete n (rn_runners r)"
    "rn_next r' = rn_next r" "rn_polling r' = rn_polling r" "bg_in_flight (rn_state r') = bg_in_flight (rn_state r)"
  shows "jobs_ok (tr @ map (\<lambda>j. Dropped (jb_message_id j)) (ru_queue u)) r'"
proof -
  let ?es = "map (\<lambda>j. Dropped (jb_message_id j)) (ru_queue u)"
  have run: "runners_ok r" "distinct (map fst (rn_runners r))" using assms(1) by (simp_all add: jobs_ok_def runners_ok_def)
  have "(n, u) \<in> set (rn_runners r)" using assms(2) by (rule map_of_SomeD)
  then have "ru_job u = None" using run(1) assms(3) by (auto simp: runners_ok_def)
  then have ids: "job_ids r' + queued_of u = job_ids r" "waiting_ids r' + queued_of u = waiting_ids r"
    using total_delete[OF run(2) assms(2), of job_ids_of] total_delete[OF run(2) assms(2), of queued_of] assms(4,6)
    by (simp_all add: job_ids_def waiting_ids_def to_queue_def job_ids_of_def union_assoc)
  obtain lost where lost: "job_ids r + lost = mset (map if_message_id (bg_in_flight (rn_state r)))" "set_mset lost \<subseteq> {i. Dropped i \<in> set tr}"
    using assms(1) by (auto simp: jobs_ok_def claims_tracked_def)
  have idle: "list_all is_idle ?es" by (simp add: list_all_iff)
  have "claims_tracked (tr @ ?es) r'" unfolding claims_tracked_def
    using lost ids(1) assms(7) by (intro exI[of _ "queued_of u + lost"]) (auto simp: queued_of_def add_ac)
  moreover have "runners_ok r'" using runners_ok_delete[OF run(1), of n] assms(4,5) by (simp add: runners_ok_def)
  moreover have "begun_counted (tr @ ?es) r'" unfolding begun_counted_def
  proof
    fix i
    have "count (waiting_ids r') i \<le> count (waiting_ids r) i" using ids(2) by (metis count_union le_add1)
    moreover have "events (is_began i) tr + count (waiting_ids r) i \<le> events (is_claim i) tr"
      using assms(1) by (simp add: jobs_ok_def begun_counted_def)
    ultimately show "events (is_began i) (tr @ ?es) + count (waiting_ids r') i \<le> events (is_claim i) (tr @ ?es)"
      using idle_events[OF idle, of i] by simp
  qed
  ultimately show ?thesis by (simp add: jobs_ok_def)
qed

lemma keeps_jobs_ended:
  assumes "began_once tr" "jobs_ok tr r"
  shows "keeps_jobs_ok tr (end_runner n now r)"
proof (cases "map_of (rn_runners r) n")
  case (Some u)
  let ?a = "r\<lparr>rn_runners := AList.delete n (rn_runners r)\<rparr>" and ?es = "map (\<lambda>j. Dropped (jb_message_id j)) (ru_queue u)"
  have idle: "list_all is_idle ?es" by (simp add: list_all_iff)
  have quiet: "keeps_jobs_ok tr (Quiet ?a ?es)" if "ru_ending u"
    using dropped_ended[OF assms(2) Some that, of ?a] began_once_idle[OF assms(1) idle] by (simp add: after.simps)
  have durable: "keeps_jobs_ok tr (Durable (with_state (recorded_jobs rcp [] now) ?a) [] ?es)" if "ru_ending u" for rcp
    using dropped_ended[OF assms(2) Some that, of "with_state (recorded_jobs rcp [] now) ?a"] began_once_idle[OF assms(1) idle] assms(1)
    by (simp add: after.simps recorded_jobs_def Let_def)
  show ?thesis using quiet durable Some keeps_jobs_quiet[OF assms]
    by (simp add: end_runner_def record_jobs_def Let_def split: option.split)
qed (use keeps_jobs_quiet[OF assms] in \<open>simp add: end_runner_def\<close>)

section \<open>Everything else\<close>

lemma keeps_jobs_rest:
  assumes "began_once tr" "jobs_ok tr r"
  shows "keeps_jobs_ok tr (retain_open r)" "keeps_jobs_ok tr (set_watching key w r)"
    "keeps_jobs_ok tr (report_job draw n t files r)" "keeps_jobs_ok tr (track_jobs n current now r)"
    "keeps_jobs_ok tr (store_notice draw to t q key' ab now r)" "keeps_jobs_ok tr (begin_delivery draw waits r)"
    "keeps_jobs_ok tr (send_part e r)" "keeps_jobs_ok tr (end_text r)" "keeps_jobs_ok tr (send_file e r)"
    "keeps_jobs_ok tr (end_delivery now ms r)" "keeps_jobs_ok tr (remove_reaction r)" "keeps_jobs_ok tr (keep_reaction i x r)"
proof -
  note quiet = keeps_jobs_quiet[OF assms]
  note saved = keeps_jobs_saved[OF assms] keeps_jobs_saved(2)[OF assms, where es' = "[]"]
  have head: "bg_in_flight (head_pending f s) = bg_in_flight s" for f s by (simp add: head_pending_def split: list.split)
  show "keeps_jobs_ok tr (retain_open r)" "keeps_jobs_ok tr (set_watching key w r)"
    unfolding retain_open_def set_watching_def by (rule saved(3); simp)+
  show "keeps_jobs_ok tr (report_job draw n t files r)"
    using quiet by (auto simp: report_job_def queue_unprompted_def split: option.split intro!: saved(1))
  show "keeps_jobs_ok tr (track_jobs n current now r)"
    using quiet by (auto simp: track_jobs_def record_jobs_def recorded_jobs_def Let_def split: option.split intro!: saved(1))
  show "keeps_jobs_ok tr (store_notice draw to t q key' ab now r)"
    using quiet by (auto simp: store_notice_def store_mail_notice_def prune_recent_keys_def Let_def split: option.split intro!: saved(1))
  show "keeps_jobs_ok tr (begin_delivery draw waits r)"
    using quiet by (auto simp: begin_delivery_def Let_def split: option.split list.split intro!: saved(1,3))
  show "keeps_jobs_ok tr (send_part e r)"
    using quiet by (auto simp: send_part_def Let_def head split: option.split send_end.split intro!: saved(1,3))
  show "keeps_jobs_ok tr (end_text r)" using quiet by (auto simp: end_text_def split: option.split intro!: saved(3))
  show "keeps_jobs_ok tr (send_file e r)"
    using quiet by (auto simp: send_file_def Let_def head split: option.split intro!: saved(1,3))
  show "keeps_jobs_ok tr (end_delivery now ms r)"
    using quiet by (auto simp: end_delivery_def Let_def finished_frame split: option.split intro!: saved(1))
  have tolerant: "jobs_ok tr r'" if "rn_runners r' = rn_runners r" "rn_next r' = rn_next r" "rn_polling r' = rn_polling r"
    "map if_message_id (bg_in_flight (rn_state r')) = map if_message_id (bg_in_flight (rn_state r))" for r'
    using jobs_ok_same[OF assms(2) same_jobs_polling[OF jobs_parts(1)[OF assms(2)], of r'], of "[]"] that by simp
  show "keeps_jobs_ok tr (remove_reaction r)"
    using quiet tolerant by (simp add: remove_reaction_def Let_def after.simps)
  have ids: "n < length cs \<Longrightarrow> map if_message_id (cs[n := (cs ! n)\<lparr>if_reaction := y\<rparr>]) = map if_message_id cs" for n cs y
    by (intro nth_equalityI) (auto simp: nth_list_update)
  show "keeps_jobs_ok tr (keep_reaction i x r)"
  proof (cases "position (\<lambda>c. if_message_id c = i) (bg_in_flight (rn_state r))")
    case (Some n)
    then have n: "n < length (bg_in_flight (rn_state r))" by (simp add: position_Some_iff)
    have "jobs_ok tr (with_state (\<lambda>s. s\<lparr>bg_in_flight := (bg_in_flight s)[n := (bg_in_flight s ! n)\<lparr>if_reaction := y\<rparr>]\<rparr>) r)" for y
      by (rule tolerant) (use ids[OF n] in simp_all)
    then show ?thesis using Some by (simp add: keep_reaction_def Let_def after.simps)
  next
    case None
    then show ?thesis by (simp add: keep_reaction_def) (rule saved(3); simp)
  qed
qed

lemma keeps_jobs_op:
  assumes "began_once tr" "jobs_ok tr r" "state_ok tr (rn_state r)"
  shows "keeps_jobs_ok tr (perform op r)"
  using keeps_jobs_quiet[OF assms(1,2)] keeps_jobs_poll[OF assms(1,2)] keeps_jobs_queue[OF assms(1,2)] keeps_jobs_begin[OF assms(1,2)]
    keeps_jobs_end[OF assms] keeps_jobs_idle[OF assms(1,2)] keeps_jobs_ended[OF assms(1,2)] keeps_jobs_rest[OF assms(1,2)]
  by (cases op) simp_all

interpretation jobs: bridge_law "\<lambda>op. True" "\<lambda>tr. claims_spaced tr \<and> began_once tr" state_ok
  "\<lambda>tr r. memory_ok tr r \<and> (jobs_ok tr r \<and> distinct (map if_message_id (bg_in_flight (rn_state r))))"
proof (unfold_locales, goal_cases)
  case (4 tr r op w)
  then have "keeps_memory tr (perform op r)" "keeps_jobs_ok tr (perform op r)"
    using keeps_memory_op[of tr r op] keeps_jobs_op[of tr r op] by blast+
  then show ?case by (cases "perform op r") (auto simp: after.simps state_ok_def)
next
  case (7 tr s draw restart label now) then show ?case using memory.recovered by blast
next
  case (8 tr s a fp logged draw restart now ws)
  then have "memory_ok tr (new_run a s)" using memory.started by blast
  moreover have "jobs_ok tr (new_run a s)"
    using 8(1,5) by (auto simp: jobs_ok_def runners_ok_def begun_counted_def began_once_def claims_tracked_def new_run_def
        job_ids_def waiting_ids_def to_queue_def)
  ultimately show ?case using 8(5) by (simp add: new_run_def)
qed (use memory.fresh memory.stable memory.bound memory.mailed in \<open>auto simp: began_once_def\<close>)

end
