(* ===== verification/Bridge_Mail.thy ===== *)
theory Bridge_Mail
  imports Bridge_Jobs
begin

text \<open>
  A mail chat and a chat with turns never share a delivery state: an account that ever stored a mail
  notice never claims a message for a turn, and one that ever did never becomes a mail chat.
\<close>

definition mail_ok :: "bridge_event list \<Rightarrow> bridge_state \<Rightarrow> bool" where
  "mail_ok tr s \<longleftrightarrow> ((\<exists>k. MailStored k \<in> set tr) \<longrightarrow> bg_mail_chat s) \<and>
     (bg_mail_chat s \<longrightarrow> (\<forall>i. i \<noteq> [] \<longrightarrow> events (is_claim i) tr = 0))"

definition mail_run_ok :: "bridge_event list \<Rightarrow> run \<Rightarrow> bool" where
  "mail_run_ok tr r \<longleftrightarrow> (ba_purpose (rn_account r) = ForMail \<longleftrightarrow> bg_mail_chat (rn_state r)) \<and>
     (case rn_polling r of Offering from turn \<Rightarrow> \<not> bg_mail_chat (rn_state r) | _ \<Rightarrow> True)"

abbreviation keeps_mail :: "bridge_event list \<Rightarrow> outcome \<Rightarrow> bool" where
  "keeps_mail \<equiv> after (\<lambda>tr. True) mail_ok mail_run_ok"

text \<open>What an operation leaves of the account, the flag and the poller's offer, with the events it adds.\<close>

definition same_chat :: "bridge_event list \<Rightarrow> run \<Rightarrow> run \<Rightarrow> bool" where
  "same_chat es r r' \<longleftrightarrow> rn_account r' = rn_account r \<and> bg_mail_chat (rn_state r') = bg_mail_chat (rn_state r) \<and>
     (\<forall>from turn. rn_polling r' = Offering from turn \<longrightarrow> rn_polling r = Offering from turn \<or> ba_purpose (rn_account r) \<noteq> ForMail) \<and>
     (ba_purpose (rn_account r) = ForMail \<longrightarrow> (\<forall>i. i \<noteq> [] \<longrightarrow> events (is_claim i) es = 0)) \<and>
     (ba_purpose (rn_account r) \<noteq> ForMail \<longrightarrow> (\<forall>k. MailStored k \<notin> set es))"

fun leaves_chat :: "run \<Rightarrow> outcome \<Rightarrow> bool" where
  "leaves_chat r (Quiet r' es) \<longleftrightarrow> same_chat es r r'"
| "leaves_chat r (Durable r' es es') \<longleftrightarrow> same_chat (es @ es') r r'"
| "leaves_chat r (Tolerant r' r'') \<longleftrightarrow> same_chat [] r r' \<and> same_chat [] r r''"
| "leaves_chat r Fails \<longleftrightarrow> True"

lemma same_chat_keeps:
  assumes "same_chat es r r'" "mail_ok tr (rn_state r)" "mail_run_ok tr r"
  shows "mail_ok (tr @ es) (rn_state r')" "mail_run_ok (tr @ es) r'"
proof -
  have "bg_mail_chat (rn_state r') = bg_mail_chat (rn_state r)" "rn_account r' = rn_account r"
    using assms(1) by (simp_all add: same_chat_def)
  then show "mail_ok (tr @ es) (rn_state r')" "mail_run_ok (tr @ es) r'"
    using assms by (auto simp: same_chat_def mail_ok_def mail_run_ok_def split: polling.splits)
qed

lemma leaves_chat_keeps:
  assumes "leaves_chat r out" "mail_ok tr (rn_state r)" "mail_run_ok tr r" "neutral_after out"
  shows "keeps_mail tr out"
  using assms same_chat_keeps[OF _ assms(2,3)]
proof (cases out)
  case (Durable r' es es')
  have "same_chat es r r'" using assms(1) Durable by (auto simp: same_chat_def)
  then show ?thesis using Durable assms(1) same_chat_keeps[OF _ assms(2,3)] by (simp add: after.simps)
qed (auto simp: after.simps dest: same_chat_keeps[OF _ assms(2,3)])

lemma settle_flag [simp]: "bg_mail_chat (settle_key k b ms s) = bg_mail_chat s"
  by (simp add: settle_key_def split: option.split)

lemma hold_flag [simp]: "bg_mail_chat (hold_refused p cs now s) = bg_mail_chat s"
  by (simp add: hold_refused_def prune_held_def Let_def)

lemma finished_flag [simp]: "bg_mail_chat (finished_delivery d now ms s) = bg_mail_chat s"
  by (simp add: finished_delivery_def Let_def split: option.split)

lemma head_flag [simp]: "bg_mail_chat (head_pending f s) = bg_mail_chat s"
  by (simp add: head_pending_def split: list.split)

lemma recorded_flag [simp]: "bg_mail_chat (recorded_jobs rcp current now s) = bg_mail_chat s"
  by (simp add: recorded_jobs_def Let_def)

lemma prune_flag [simp]: "bg_mail_chat (prune_recent_keys now s) = bg_mail_chat s"
  by (simp add: prune_recent_keys_def Let_def)

lemma push_accounts [simp]: "rn_account (queue_on j tools rcp now r) = rn_account r" "rn_state (queue_on j tools rcp now r) = rn_state r"
  "rn_account (release_queue key r) = rn_account r" "rn_state (release_queue key r) = rn_state r"
  by (simp_all add: queue_on_def send_job_def start_runner_def release_queue_def Let_def split: option.split)

lemma leaves_proceed:
  assumes "ba_purpose (rn_account r) \<noteq> ForMail"
  shows "leaves_chat r (proceed draw r from turn)" "leaves_chat r (offer_or draw r from turn)"
    "leaves_chat r (acknowledge draw r from yes)" "leaves_chat r (queue_fixed draw r from t [])"
  using assms by (auto simp: proceed_def offer_or_def acknowledge_def queue_fixed_def claim_message_def same_chat_def Let_def
      split: sum.split prod.split)

lemma leaves_only_seen: "leaves_chat r (only_seen r i)"
  by (simp add: only_seen_def same_chat_def)

lemma leaves_quiet: "leaves_chat r (Quiet r [])"
  by (simp add: same_chat_def)

lemma leaves_accept: "leaves_chat r (accept_any draw q taken inb r)"
proof -
  have "leaves_chat r (act_on draw r i v)" if "ba_purpose (rn_account r) \<noteq> ForMail" for i v
    using leaves_proceed[OF that] leaves_only_seen leaves_quiet by (cases v) (simp_all add: act_on_def)
  then show ?thesis
    using leaves_proceed(3) leaves_only_seen leaves_quiet
    by (auto simp: accept_any_def accept_def accept_mail_def Let_def same_chat_def split: verdict.split inbound.split)
qed

lemma leaves_others:
  "leaves_chat r (queue_job now r)" "leaves_chat r (retain_open r)" "leaves_chat r (commit_cursor c r)"
  "leaves_chat r (begin_job n r)" "leaves_chat r (end_job draw n t files now r)" "leaves_chat r (report_job draw n t files r)"
  "leaves_chat r (track_jobs n current now r)" "leaves_chat r (set_watching key w r)" "leaves_chat r (idle_out n r)"
  "leaves_chat r (answer_mail draw t r)" "leaves_chat r (keep_reaction i x r)" "leaves_chat r (remove_reaction r)"
proof -
  show "leaves_chat r (queue_job now r)"
    by (auto simp: queue_job_def same_chat_def Let_def split: polling.split option.split)
  show "leaves_chat r (retain_open r)" by (simp add: retain_open_def same_chat_def)
  show "leaves_chat r (commit_cursor c r)" by (simp add: commit_cursor_def same_chat_def split: option.split)
  show "leaves_chat r (begin_job n r)"
    by (auto simp: begin_job_def same_chat_def set_runner_def split: option.split list.split)
  have "bg_mail_chat s1 = bg_mail_chat s" if "compose_pending d c t now s = (p, s1)" for d c t now s p s1
    using compose_frame(8)[of d c t now s] that by simp
  then show "leaves_chat r (end_job draw n t files now r)"
    by (fastforce simp: end_job_def same_chat_def set_runner_def Let_def split: option.split prod.split)
  show "leaves_chat r (report_job draw n t files r)"
    by (simp add: report_job_def queue_unprompted_def same_chat_def split: option.split)
  show "leaves_chat r (track_jobs n current now r)"
    by (simp add: track_jobs_def record_jobs_def same_chat_def Let_def split: option.split)
  show "leaves_chat r (set_watching key w r)" by (simp add: set_watching_def same_chat_def)
  show "leaves_chat r (idle_out n r)" by (simp add: idle_out_def same_chat_def set_runner_def split: option.split)
  show "leaves_chat r (answer_mail draw t r)"
    by (simp add: answer_mail_def same_chat_def Let_def split: polling.split)
  show "leaves_chat r (keep_reaction i x r)" by (simp add: keep_reaction_def same_chat_def Let_def split: option.split)
  show "leaves_chat r (remove_reaction r)" by (simp add: remove_reaction_def same_chat_def Let_def)
qed

lemma leaves_delivery:
  "leaves_chat r (begin_delivery draw waits r)" "leaves_chat r (send_part e r)" "leaves_chat r (end_text r)"
  "leaves_chat r (send_file e r)" "leaves_chat r (end_delivery now ms r)"
  by (auto simp: begin_delivery_def send_part_def end_text_def send_file_def end_delivery_def same_chat_def Let_def
      split: option.split list.split send_end.split)

lemma leaves_notice: "leaves_chat r (store_notice draw to t q key ab now r)"
  by (auto simp: store_notice_def store_mail_notice_def same_chat_def Let_def split: option.split)

lemma dropped_no_claim [simp]: "events (is_claim i) (map (\<lambda>j. Dropped (f j)) js) = 0"
  by (induction js) simp_all

lemma leaves_end_runner: "leaves_chat r (end_runner n now r)"
  by (auto simp: end_runner_def record_jobs_def same_chat_def Let_def split: option.split)

lemma leaves_returned: "ba_purpose (rn_account r) = ForChat \<Longrightarrow> leaves_chat r (enqueue_returned ret r)"
  by (auto simp: enqueue_returned_def same_chat_def Let_def split: option.split prod.split)

lemma leaves_offered: "mail_run_ok tr r \<Longrightarrow> leaves_chat r (job_took draw f r)"
proof (cases "rn_polling r")
  case (Offering frm turn)
  assume "mail_run_ok tr r"
  then have "ba_purpose (rn_account r) \<noteq> ForMail" using Offering by (simp add: mail_run_ok_def)
  then show ?thesis using leaves_proceed leaves_only_seen Offering
    by (cases f) (simp_all add: job_took_def Let_def same_chat_def)
qed (simp_all add: job_took_def same_chat_def)

lemma keeps_mail_op:
  assumes "mail_ok tr (rn_state r)" "mail_run_ok tr r"
  shows "keeps_mail tr (perform op r)"
proof -
  have "leaves_chat r (perform op r)"
    using leaves_accept leaves_others leaves_delivery leaves_notice leaves_end_runner leaves_returned leaves_quiet
      leaves_offered[OF assms(2)] by (cases op) simp_all
  then show ?thesis using leaves_chat_keeps assms perform_neutral by blast
qed

text \<open>Only a state that holds nothing of an ordinary chat becomes a mail chat's.\<close>

lemma claimed_ordinary:
  assumes "state_ok tr s" "is_claim i e" "e \<in> set tr" "i \<noteq> []"
  shows "ordinary s"
proof -
  obtain pre since where "tr = pre @ e # since" using split_list[OF assms(3)] by blast
  then have "remembered i since s" using assms by (auto simp: state_ok_def covered_def)
  then consider "known_id s i" | "i \<in> set (bg_seen s)" | "MAX_SEEN \<le> card (marks since - {i})" by (auto simp: remembered_def)
  then show ?thesis
  proof cases
    case 3
    then have "marks since \<noteq> {}" using MAX_SEEN_pos by fastforce
    then have "marks tr \<noteq> {}" using \<open>tr = pre @ e # since\<close> by auto
    then show ?thesis using assms(1) by (simp add: state_ok_def ordinary_def)
  qed (auto simp: known_id_def ordinary_def)
qed

interpretation chats: bridge_law "\<lambda>op. True" claims_spaced "\<lambda>tr s. state_ok tr s \<and> mail_ok tr s"
  "\<lambda>tr r. memory_ok tr r \<and> mail_run_ok tr r"
proof (unfold_locales, goal_cases)
  case (4 tr r op w)
  then have "keeps_memory tr (perform op r)" "keeps_mail tr (perform op r)"
    using keeps_memory_op[of tr r op] keeps_mail_op[of tr r op] by blast+
  then have "after (\<lambda>tr. claims_spaced tr \<and> True) (\<lambda>tr s. state_ok tr s \<and> mail_ok tr s)
      (\<lambda>tr r. memory_ok tr r \<and> mail_run_ok tr r) tr (perform op r)" by (rule after_conj)
  then show ?case by simp
next
  case (3 tr s es)
  then have "state_ok (tr @ es) s" using memory.stable by blast
  moreover have "MailStored k \<notin> set es" "events (is_claim i) es = 0" for i k
    using 3(2) neutral_no_claim[OF 3(2)] by (auto simp: neutral_def list_all_iff no_claim_def events_def filter_empty_conv)
  ultimately show ?case using 3(1) by (auto simp: mail_ok_def)
next
  case (6 tr s)
  have "events (is_claim i) tr = 0" if "i \<noteq> []" for i
    using claimed_ordinary[of tr s i] 6 that by (auto simp: events_def filter_empty_conv)
  then show ?case using 6 memory.mailed by (auto simp: mail_ok_def)
next
  case (7 tr s draw restart label now) then show ?case using memory.recovered by (simp add: mail_ok_def recover_frame)
next
  case (8 tr s a fp logged draw restart now ws)
  then show ?case using memory.started[of tr s a] by (auto simp: mail_run_ok_def new_run_def)
qed (use memory.fresh memory.bound in \<open>auto simp: mail_ok_def new_bridge_state_def\<close>)

end
