(* ===== verification/Bridge_Tools.thy ===== *)
theory Bridge_Tools
  imports Bridge_Jobs
begin

text \<open>
  Whose turns a bridge gives the tools of an unattended session: a conversation's key names its chat,
  so a session with tools only ever gets the owner's own direct messages.
\<close>

section \<open>Keys\<close>

text \<open>The platforms' IDs have no NUL in them, which the keys join their parts with.\<close>

definition plain :: "string \<Rightarrow> bool" where
  "plain s \<longleftrightarrow> CHR 0x00 \<notin> set s"

definition plain_message :: "message \<Rightarrow> bool" where
  "plain_message m \<longleftrightarrow> plain (mg_sender m) \<and> (case mg_group m of None \<Rightarrow> True | Some g \<Rightarrow> plain g) \<and>
     (case mg_thread m of None \<Rightarrow> True | Some t \<Rightarrow> plain (th_id t))"

text \<open>The keys of a user's direct chat and its threads.\<close>

definition direct_key :: "string \<Rightarrow> string \<Rightarrow> bool" where
  "direct_key u K \<longleftrightarrow> K = u \<or> (prefix (u @ THREAD_MARK) K \<and> plain (drop (length u + length THREAD_MARK) K))"

definition first_part :: "string \<Rightarrow> string" where
  "first_part K = takeWhile (\<lambda>c. c \<noteq> CHR 0x00) K"

lemma first_part_plain: "plain u \<Longrightarrow> first_part u = u" "plain u \<Longrightarrow> first_part (u @ CHR 0x00 # rest) = u"
  by (induction u) (auto simp: first_part_def plain_def)

lemma mark_simps: "THREAD_MARK = CHR 0x00 # ''thread'' @ [CHR 0x00]" "NUL = [CHR 0x00]"
  by (simp_all add: THREAD_MARK_def NUL_def)

lemma direct_key_first: "plain u \<Longrightarrow> direct_key u K \<Longrightarrow> first_part K = u"
  using first_part_plain[of u] by (auto simp: direct_key_def mark_simps prefix_def)

lemma direct_key_cases:
  "direct_key u K \<longleftrightarrow> K = u \<or> (\<exists>t. K = u @ CHR 0x00 # ''thread'' @ CHR 0x00 # t \<and> plain t)"
  by (auto simp: direct_key_def mark_simps prefix_def)

lemma direct_key_of: "plain_message m \<Longrightarrow> mg_group m = None \<Longrightarrow> direct_key (mg_sender m) (conversation_of m)"
  by (auto simp: conversation_of_def direct_key_cases plain_message_def mark_simps Let_def split: option.splits)

text \<open>Only a direct message of the user's has such a key: a group's names the group and the sender.\<close>

lemma direct_key_message:
  assumes m: "plain_message m" and u: "plain u" and K: "direct_key u (conversation_of m)"
  shows "mg_group m = None \<and> mg_sender m = u"
proof (cases "mg_group m")
  case None
  have "first_part (conversation_of m) = mg_sender m"
    using m None first_part_plain[of "mg_sender m"]
    by (auto simp: conversation_of_def plain_message_def mark_simps Let_def split: option.split)
  then show ?thesis using direct_key_first[OF u K] None by simp
next
  case (Some g)
  have plain: "plain g" "plain (mg_sender m)" using m Some by (simp_all add: plain_message_def)
  obtain rest where rest: "conversation_of m = g @ CHR 0x00 # mg_sender m @ rest"
    "rest = [] \<or> (\<exists>t. rest = CHR 0x00 # ''thread'' @ CHR 0x00 # t \<and> plain t)"
    using m Some by (auto simp: conversation_of_def plain_message_def mark_simps Let_def split: option.splits)
  have "g = u" using direct_key_first[OF u K] first_part_plain(2)[OF plain(1)] rest(1) by simp
  then obtain t where t: "mg_sender m @ rest = ''thread'' @ CHR 0x00 # t" "plain t"
    using K rest(1) by (auto simp: direct_key_cases)
  have thread: "plain ''thread''" by (simp add: plain_def)
  have "rest \<noteq> []" using t(1) plain(2) by (auto simp: plain_def)
  then obtain t' where t': "rest = CHR 0x00 # ''thread'' @ CHR 0x00 # t'" using rest(2) by blast
  then have "mg_sender m = ''thread''"
    using first_part_plain(2)[OF plain(2), of "''thread'' @ CHR 0x00 # t'"] first_part_plain(2)[OF thread, of t] t(1) by simp
  then have "t = ''thread'' @ CHR 0x00 # t'" using t(1) t' by simp
  then show ?thesis using t(2) by (simp add: plain_def)
qed

lemma before_mark_some: "before_mark mark s = Some p \<Longrightarrow> mark \<noteq> [] \<Longrightarrow> prefix (p @ mark) s"
proof (induction s arbitrary: p)
  case (Cons c s)
  then show ?case by (auto simp: prefix_def split: if_splits)
qed simp

lemma before_mark_plain: "plain u \<Longrightarrow> before_mark (CHR 0x00 # m) (u @ (CHR 0x00 # m) @ rest) = Some u"
  by (induction u) (auto simp: plain_def)

lemma before_mark_none: "plain u \<Longrightarrow> before_mark (CHR 0x00 # m) u = None"
  by (induction u) (auto simp: plain_def)

lemma chat_of_direct: "plain u \<Longrightarrow> direct_key u K \<Longrightarrow> chat_of K = u"
  using before_mark_plain[of u "''thread'' @ [CHR 0x00]"] before_mark_none[of u "''thread'' @ [CHR 0x00]"]
  by (auto simp: direct_key_cases chat_of_def mark_simps)

section \<open>Owners' jobs\<close>

text \<open>A direct message of the tools' owner, or what a followed task returned to the owner's direct chat or a thread in it.\<close>

fun owners_event :: "string \<Rightarrow> bridge_event \<Rightarrow> bool" where
  "owners_event i (Claimed m t tools) \<longleftrightarrow>
     mg_id m = i \<and> mg_group m = None \<and> (case t of None \<Rightarrow> False | Some g \<Rightarrow> to_user_id g = mg_sender m)"
| "owners_event i (ClaimedReturn j thread t tools) \<longleftrightarrow>
     j = i \<and> (case t of None \<Rightarrow> False | Some g \<Rightarrow> direct_key (to_user_id g) thread)"
| "owners_event i _ \<longleftrightarrow> False"

definition owners_job :: "bridge_event list \<Rightarrow> string \<Rightarrow> bool" where
  "owners_job tr i \<longleftrightarrow> list_ex (owners_event i) tr"

lemma owners_job_more [simp]: "owners_job tr i \<Longrightarrow> owners_job (tr @ es) i"
  by (simp add: owners_job_def)

definition tools_owned :: "bridge_event list \<Rightarrow> bool" where
  "tools_owned tr \<longleftrightarrow> (\<forall>i. Began i True \<in> set tr \<longrightarrow> owners_job tr i)"

text \<open>
  The tools' owner is the account's, and no ID has a NUL; what comes back names the conversation of a message, of a
  group or not, whose sender's ID is not the word the keys mark their threads with.
\<close>

definition account_fit :: "account \<Rightarrow> bool" where
  "account_fit a \<longleftrightarrow> (case ba_tool_owner a of None \<Rightarrow> True | Some g \<Rightarrow> ba_owner a = Some (to_user_id g) \<and> plain (to_user_id g))"

definition returns_to :: "string \<Rightarrow> bool" where
  "returns_to K \<longleftrightarrow> (\<exists>m. plain_message m \<and> mg_sender m \<noteq> ''thread'' \<and> K = conversation_of m)"

lemma returns_to_direct:
  assumes "returns_to K" "plain u"
  shows "chat_of K = u \<longleftrightarrow> direct_key u K"
proof
  assume u: "chat_of K = u"
  obtain m where m: "plain_message m" "mg_sender m \<noteq> ''thread''" "K = conversation_of m" using assms(1) by (auto simp: returns_to_def)
  show "direct_key u K"
  proof (cases "mg_group m")
    case None
    then have "direct_key (mg_sender m) K" using direct_key_of m by simp
    moreover have "plain (mg_sender m)" using m(1) by (simp add: plain_message_def)
    ultimately show ?thesis using chat_of_direct u by simp
  next
    case (Some g)
    have plain: "plain g" "plain (mg_sender m)" using m(1) Some by (simp_all add: plain_message_def)
    obtain rest where K: "K = g @ CHR 0x00 # mg_sender m @ rest" "rest = [] \<or> (\<exists>t. rest = CHR 0x00 # t)"
      using Some m(3) by (auto simp: conversation_of_def mark_simps Let_def split: option.splits)
    have "K \<noteq> u" using K(1) assms(2) by (auto simp: plain_def)
    then have "before_mark THREAD_MARK K = Some u" using u by (auto simp: chat_of_def split: option.splits)
    then obtain t where t: "K = u @ CHR 0x00 # ''thread'' @ CHR 0x00 # t"
      using before_mark_some[of THREAD_MARK K u] by (auto simp: mark_simps prefix_def)
    then have "u = g" using K(1) first_part_plain(2)[OF assms(2)] first_part_plain(2)[OF plain(1)] by metis
    then have "mg_sender m @ rest = ''thread'' @ CHR 0x00 # t" using t K(1) by simp
    moreover have "first_part (mg_sender m @ rest) = mg_sender m" using K(2) first_part_plain plain(2) by auto
    moreover have "plain ''thread''" by (simp add: plain_def)
    ultimately show ?thesis using first_part_plain(2)[of "''thread''" t] m(2) by metis
  qed
qed (rule chat_of_direct[OF assms(2)])

fun plain_op :: "sys_op \<Rightarrow> bool" where
  "plain_op (SStart a fp logged draw restart now w) \<longleftrightarrow> account_fit a"
| "plain_op (SOp (BAccept draw q taken (InText m)) w) \<longleftrightarrow> plain_message m"
| "plain_op (SOp (BReturned ret) w) \<longleftrightarrow> returns_to (rt_thread ret)"
| "plain_op _ \<longleftrightarrow> True"

definition owner_key :: "run \<Rightarrow> string \<Rightarrow> bool" where
  "owner_key r K \<longleftrightarrow> (case ba_tool_owner (rn_account r) of None \<Rightarrow> False | Some g \<Rightarrow> direct_key (to_user_id g) K)"

definition runner_owned :: "bridge_event list \<Rightarrow> runner \<Rightarrow> bool" where
  "runner_owned tr u \<longleftrightarrow> (ru_owner u \<longrightarrow> list_all (\<lambda>j. owners_job tr (jb_message_id j)) (ru_queue u))"

definition table_owned :: "run \<Rightarrow> bool" where
  "table_owned r \<longleftrightarrow> (\<forall>(K, l) \<in> set (rn_table r). lv_runner l < rn_next r \<and>
     (\<forall>u. map_of (rn_runners r) (lv_runner l) = Some u \<longrightarrow> ru_owner u \<longrightarrow> owner_key r K))"

definition polling_owned :: "bridge_event list \<Rightarrow> run \<Rightarrow> bool" where
  "polling_owned tr r \<longleftrightarrow>
     (case rn_polling r of
        Queueing j tools rcp evict \<Rightarrow> (tools \<longrightarrow> owner_key r (jb_key j)) \<and> (owner_key r (jb_key j) \<longrightarrow> owners_job tr (jb_message_id j))
      | Offering frm turn \<Rightarrow> plain_message (sn_message frm) \<and> sn_key frm = conversation_of (sn_message frm) \<and>
          (case turn of Inl t \<Rightarrow> True | Inr (tools, limit, evict) \<Rightarrow> tools = has_tools (sn_message frm) (ba_tool_owner (rn_account r)))
      | _ \<Rightarrow> True)"

definition pool_ok :: "bridge_event list \<Rightarrow> run \<Rightarrow> bool" where
  "pool_ok tr r \<longleftrightarrow> (\<forall>n u. map_of (rn_runners r) n = Some u \<longrightarrow> runner_owned tr u) \<and> table_owned r"

definition tools_ok :: "bridge_event list \<Rightarrow> run \<Rightarrow> bool" where
  "tools_ok tr r \<longleftrightarrow> account_fit (rn_account r) \<and> pool_ok tr r \<and> polling_owned tr r"

abbreviation keeps_tools :: "bridge_event list \<Rightarrow> outcome \<Rightarrow> bool" where
  "keeps_tools \<equiv> after tools_owned (\<lambda>tr s. True) tools_ok"

lemma has_tools_key: "account_fit a \<Longrightarrow> plain_message m \<Longrightarrow> has_tools m (ba_tool_owner a) \<Longrightarrow>
    (case ba_tool_owner a of None \<Rightarrow> False | Some g \<Rightarrow> direct_key (to_user_id g) (conversation_of m))"
  using direct_key_of[of m] by (auto simp: has_tools_def split: option.splits)

lemma runner_owned_more: "runner_owned tr u \<Longrightarrow> runner_owned (tr @ es) u"
  by (auto simp: runner_owned_def list_all_iff)

lemma tools_ok_more:
  assumes "tools_ok tr r" "rn_account r' = rn_account r" "rn_runners r' = rn_runners r" "rn_table r' = rn_table r" "rn_next r' = rn_next r"
    "rn_polling r' = rn_polling r \<or> (\<forall>f t. rn_polling r' \<noteq> Offering f t) \<and> (\<forall>j t rcp ev. rn_polling r' \<noteq> Queueing j t rcp ev)"
  shows "tools_ok (tr @ es) r'"
proof -
  have key: "owner_key r' = owner_key r" using assms(2) by (simp add: owner_key_def fun_eq_iff)
  have "polling_owned tr r" using assms(1) by (simp add: tools_ok_def)
  then have "polling_owned (tr @ es) r'"
    using assms(6) key assms(2) by (auto simp: polling_owned_def split: polling.splits sum.splits)
  moreover have "pool_ok (tr @ es) r'"
    using assms(1,3,4,5) key runner_owned_more unfolding tools_ok_def pool_ok_def table_owned_def by simp
  ultimately show ?thesis using assms(1,2) by (simp add: tools_ok_def)
qed

fun not_began :: "bridge_event \<Rightarrow> bool" where
  "not_began (Began i tools) = False"
| "not_began _ = True"

lemma tools_owned_more: "tools_owned tr \<Longrightarrow> list_all not_began es \<Longrightarrow> tools_owned (tr @ es)"
  by (fastforce simp: tools_owned_def list_all_iff)

lemma keeps_tools_same:
  assumes "tools_owned tr" "tools_ok tr r" "list_all not_began es" "list_all not_began es'"
    "rn_account r' = rn_account r" "rn_runners r' = rn_runners r" "rn_table r' = rn_table r" "rn_next r' = rn_next r"
    "rn_polling r' = rn_polling r \<or> (\<forall>f t. rn_polling r' \<noteq> Offering f t) \<and> (\<forall>j t rcp ev. rn_polling r' \<noteq> Queueing j t rcp ev)"
  shows "keeps_tools tr (Durable r' es es')" "keeps_tools tr (Quiet r' es)"
  using assms(1-4) tools_owned_more[of tr es] tools_owned_more[of tr "es @ es'"] tools_ok_more[OF assms(2,5-9)]
  by (simp_all add: after.simps)

section \<open>The conversations\<close>

lemma pool_ok_modify:
  assumes "pool_ok tr r" "rn_account r' = rn_account r" "rn_next r' = rn_next r" "rn_runners r' = modify n g (rn_runners r)"
    "\<And>K l. (K, l) \<in> set (rn_table r') \<Longrightarrow> \<exists>l'. (K, l') \<in> set (rn_table r) \<and> lv_runner l' = lv_runner l"
    "\<And>u. map_of (rn_runners r) n = Some u \<Longrightarrow> ru_owner (g u) = ru_owner u \<and> runner_owned (tr @ es) (g u)"
  shows "pool_ok (tr @ es) r'"
proof -
  have key: "owner_key r' = owner_key r" using assms(2) by (simp add: owner_key_def fun_eq_iff)
  have "\<exists>u. map_of (rn_runners r) k = Some u \<and> ru_owner u = ru_owner v \<and> runner_owned (tr @ es) v"
    if "map_of (rn_runners r') k = Some v" for k v
    using that assms(1,4,6) runner_owned_more by (auto simp: pool_ok_def map_of_modify split: option.splits if_splits)
  note older = this
  have "table_owned r'" unfolding table_owned_def
  proof (intro ballI, clarify)
    fix K l
    assume "(K, l) \<in> set (rn_table r')"
    from assms(5)[OF this] obtain l' where l': "(K, l') \<in> set (rn_table r)" "lv_runner l' = lv_runner l" by blast
    then have old: "lv_runner l < rn_next r" "map_of (rn_runners r) (lv_runner l) = Some u \<Longrightarrow> ru_owner u \<Longrightarrow> owner_key r K" for u
      using assms(1) by (auto simp: pool_ok_def table_owned_def)
    show "lv_runner l < rn_next r' \<and> (\<forall>u. map_of (rn_runners r') (lv_runner l) = Some u \<longrightarrow> ru_owner u \<longrightarrow> owner_key r' K)"
      using old older[of "lv_runner l"] assms(3) key by auto
  qed
  then show ?thesis using older unfolding pool_ok_def by blast
qed

lemma update_same: "map_of m n = Some u \<Longrightarrow> AList.update n u m = m"
  by (induction m) (auto split: if_splits)

lemma modify_id [simp]: "modify n (\<lambda>u. u) m = m"
  by (cases "map_of m n") (auto simp: modify_def update_same)

lemma set_update: "p \<in> set (AList.update k v m) \<Longrightarrow> p = (k, v) \<or> p \<in> set m"
  by (induction m) (auto split: if_splits)

lemma set_modify_table: "(k, v) \<in> set (modify n g m) \<Longrightarrow> (k, v) \<in> set m \<or> (\<exists>u. k = n \<and> v = g u \<and> (n, u) \<in> set m)"
  by (auto simp: modify_def split: option.splits dest!: map_of_SomeD dest: set_update)

lemma pool_release:
  assumes "pool_ok tr r"
  shows "pool_ok tr (release_queue key r)"
proof (cases "map_of (rn_table r) key")
  case (Some l)
  have sub: "set (AList.delete key (rn_table r)) \<subseteq> set (rn_table r)" by (simp add: set_delete)
  have "pool_ok (tr @ []) (release_queue key r)"
    by (rule pool_ok_modify[OF assms, of _ "lv_runner l" "\<lambda>u. u\<lparr>ru_held := False\<rparr>"])
      (use Some sub assms in \<open>auto simp: release_queue_def pool_ok_def runner_owned_def\<close>)
  then show ?thesis by simp
qed (use assms in \<open>simp add: release_queue_def\<close>)

lemma pool_send:
  assumes "pool_ok tr r" "\<And>u. map_of (rn_runners r) n = Some u \<Longrightarrow> ru_owner u \<Longrightarrow> owners_job tr (jb_message_id j)"
  shows "pool_ok tr (send_job n j r)"
proof -
  have "pool_ok (tr @ []) (send_job n j r)"
    by (rule pool_ok_modify[OF assms(1), of _ n "\<lambda>u. u\<lparr>ru_queue := ru_queue u @ [j]\<rparr>"])
      (use assms in \<open>auto simp: send_job_def pool_ok_def runner_owned_def\<close>)
  then show ?thesis by simp
qed

lemma pool_start:
  assumes "pool_ok tr r" "tools \<longrightarrow> owner_key r key"
  shows "pool_ok tr (start_runner key now tools rcp r)"
    "map_of (rn_runners (start_runner key now tools rcp r)) (rn_next r) = Some u \<Longrightarrow> ru_owner u = tools"
proof -
  let ?r = "start_runner key now tools rcp r"
  have runners: "map_of (rn_runners ?r) = (map_of (rn_runners r))(rn_next r \<mapsto>
      \<lparr>ru_owner = tools, ru_recipient = rcp, ru_queue = [], ru_held = True, ru_job = None, ru_ending = False\<rparr>)"
    by (simp add: start_runner_def Let_def update_conv')
  then show "map_of (rn_runners ?r) (rn_next r) = Some u \<Longrightarrow> ru_owner u = tools" by auto
  have key: "owner_key ?r = owner_key r" by (simp add: owner_key_def start_runner_def Let_def fun_eq_iff)
  have "lv_runner l < Suc (rn_next r) \<and> (\<forall>u. map_of (rn_runners ?r) (lv_runner l) = Some u \<longrightarrow> ru_owner u \<longrightarrow> owner_key r K)"
    if "(K, l) \<in> set (rn_table ?r)" for K l
  proof (cases "(K, l) \<in> set (rn_table r)")
    case True
    then show ?thesis using assms(1) runners by (force simp: pool_ok_def table_owned_def)
  next
    case False
    then have "K = key" "lv_runner l = rn_next r"
      using that by (auto simp: start_runner_def Let_def dest: set_update)
    then show ?thesis using runners assms(2) by auto
  qed
  then have "table_owned ?r" using key by (auto simp: table_owned_def start_runner_def Let_def)
  then show "pool_ok tr ?r" using assms(1) runners by (auto simp: pool_ok_def runner_owned_def)
qed

lemma queue_on_frame: "rn_account (queue_on j tools rcp now r) = rn_account r" "rn_account (release_queue key r) = rn_account r"
  "rn_next (release_queue key r) = rn_next r"
  by (simp_all add: queue_on_def send_job_def start_runner_def release_queue_def Let_def split: option.split)

lemma pool_queue:
  assumes "pool_ok tr r" "tools \<longrightarrow> owner_key r (jb_key j)" "owner_key r (jb_key j) \<longrightarrow> owners_job tr (jb_message_id j)"
  shows "pool_ok tr (queue_on j tools rcp now r)"
proof -
  let ?a = "release_queue (jb_key j) r"
  have "tools \<longrightarrow> owner_key ?a (jb_key j)" using assms(2) by (simp add: owner_key_def queue_on_frame)
  note st = pool_start[OF pool_release[OF assms(1)] this, of now rcp]
  have new: "pool_ok tr (send_job (rn_next r) j (start_runner (jb_key j) now tools rcp ?a))"
    by (rule pool_send[OF st(1)]) (use st(2) assms(2,3) queue_on_frame(3) in metis)
  have old: "pool_ok tr ((send_job (lv_runner l) j r)\<lparr>rn_table := AList.update (jb_key j) (l\<lparr>lv_last_used := now\<rparr>) (rn_table r)\<rparr>)"
    if l: "map_of (rn_table r) (jb_key j) = Some l" for l
  proof -
    have mem: "(jb_key j, l) \<in> set (rn_table r)" using l by (rule map_of_SomeD)
    have "pool_ok tr (send_job (lv_runner l) j r)"
      by (rule pool_send[OF assms(1)]) (use mem assms(1,3) in \<open>auto simp: pool_ok_def table_owned_def\<close>)
    then show ?thesis using mem
      by (fastforce simp: pool_ok_def table_owned_def send_job_def owner_key_def dest: set_update)
  qed
  show ?thesis using new old by (auto simp: queue_on_def Let_def split: option.split)
qed

lemma keeps_tools_pool:
  assumes "tools_owned tr" "tools_ok tr r" "list_all not_began es" "list_all not_began es'" "pool_ok (tr @ es @ es') r'"
    "rn_account r' = rn_account r" "es' \<noteq> [] \<Longrightarrow> es = []"
    "rn_polling r' = rn_polling r \<or> (\<forall>f t. rn_polling r' \<noteq> Offering f t) \<and> (\<forall>j t rcp ev. rn_polling r' \<noteq> Queueing j t rcp ev)"
  shows "keeps_tools tr (Durable r' es es')" "es' = [] \<Longrightarrow> keeps_tools tr (Quiet r' es)"
proof -
  have key: "owner_key r' = owner_key r" using assms(6) by (simp add: owner_key_def fun_eq_iff)
  have "polling_owned tr r" using assms(2) by (simp add: tools_ok_def)
  then have "polling_owned (tr @ es @ es') r'"
    using assms(8) key assms(6) by (auto simp: polling_owned_def split: polling.splits sum.splits)
  then have "tools_ok (tr @ es @ es') r'" using assms(2,5,6) by (simp add: tools_ok_def)
  then show "keeps_tools tr (Durable r' es es')" "es' = [] \<Longrightarrow> keeps_tools tr (Quiet r' es)"
    using assms(1,3,4) tools_owned_more[of tr es] tools_owned_more[of tr "es @ es'"] by (simp_all add: after.simps)
qed

lemma tools_parts: "tools_ok tr r \<Longrightarrow> account_fit (rn_account r)" "tools_ok tr r \<Longrightarrow> pool_ok tr r" "tools_ok tr r \<Longrightarrow> polling_owned tr r"
  by (simp_all add: tools_ok_def)

lemma pool_more: "pool_ok tr r \<Longrightarrow> pool_ok (tr @ es) r"
  by (simp add: pool_ok_def runner_owned_more)

lemma pool_delete: "pool_ok tr r \<Longrightarrow> pool_ok tr (r\<lparr>rn_runners := AList.delete n (rn_runners r)\<rparr>)"
  by (auto simp: pool_ok_def table_owned_def delete_conv' owner_key_def split: if_splits)

lemma pool_state: "pool_ok tr (with_state f r) \<longleftrightarrow> pool_ok tr r" "pool_ok tr (r\<lparr>rn_state := s\<rparr>) \<longleftrightarrow> pool_ok tr r"
  "pool_ok tr (r\<lparr>rn_polling := p\<rparr>) \<longleftrightarrow> pool_ok tr r"
  by (simp_all add: pool_ok_def table_owned_def owner_key_def with_state_def)

lemma keeps_tools_queue:
  assumes "tools_owned tr" "tools_ok tr r"
  shows "keeps_tools tr (queue_job now r)"
proof (cases "rn_polling r")
  case (Queueing j tools rcp evict)
  let ?a = "case evict of None \<Rightarrow> r | Some key \<Rightarrow> release_queue key r"
  have a: "pool_ok tr ?a" "rn_account ?a = rn_account r"
    using tools_parts(2)[OF assms(2)] pool_release[of tr r] by (simp_all add: queue_on_frame split: option.split)
  have "tools \<longrightarrow> owner_key ?a (jb_key j)" "owner_key ?a (jb_key j) \<longrightarrow> owners_job tr (jb_message_id j)"
    using tools_parts(3)[OF assms(2)] Queueing a(2) by (simp_all add: polling_owned_def owner_key_def)
  then have "pool_ok tr (queue_on j tools rcp now ?a)" by (rule pool_queue[OF a(1)])
  then have "keeps_tools tr (Quiet ((queue_on j tools rcp now ?a)\<lparr>rn_polling := Between\<rparr>) [])"
    by (intro keeps_tools_pool(2)[OF assms, where es' = "[]"]) (simp_all add: pool_state queue_on_frame a(2))
  then show ?thesis using Queueing by (simp add: queue_job_def Let_def)
qed (use keeps_tools_same(2)[OF assms, where es' = "[]"] in \<open>simp_all add: queue_job_def\<close>)

lemma keeps_tools_runner:
  assumes "tools_owned tr" "tools_ok tr r" "list_all not_began es"
    "\<And>u. map_of (rn_runners r) n = Some u \<Longrightarrow> ru_owner (g u) = ru_owner u \<and> set (ru_queue (g u)) \<subseteq> set (ru_queue u)"
  shows "keeps_tools tr (Quiet (set_runner n g r) es)" "keeps_tools tr (Durable ((set_runner n g r)\<lparr>rn_state := s\<rparr>) es [])"
proof -
  have "pool_ok (tr @ es) (set_runner n g r)"
    by (rule pool_ok_modify[OF tools_parts(2)[OF assms(2)], of _ n g])
      (use assms(4) tools_parts(2)[OF assms(2)] in \<open>fastforce simp: set_runner_def pool_ok_def runner_owned_def list_all_iff\<close>)+
  then show "keeps_tools tr (Quiet (set_runner n g r) es)" "keeps_tools tr (Durable ((set_runner n g r)\<lparr>rn_state := s\<rparr>) es [])"
    by (intro keeps_tools_pool(2)[OF assms(1-3), where es' = "[]"] keeps_tools_pool(1)[OF assms(1-3)];
        simp add: pool_state set_runner_def)+
qed

lemma keeps_tools_begin:
  assumes "tools_owned tr" "tools_ok tr r"
  shows "keeps_tools tr (begin_job n r)"
proof (cases "map_of (rn_runners r) n")
  case (Some u)
  show ?thesis
  proof (cases "ru_job u = None \<and> \<not> ru_ending u \<and> ru_queue u \<noteq> []")
    case True
    then obtain j js where q: "ru_queue u = j # js" by (cases "ru_queue u") auto
    let ?g = "\<lambda>u. u\<lparr>ru_job := Some j, ru_queue := js\<rparr>"
    let ?es = "if jb_new j then [] else [Began (jb_message_id j) (ru_owner u)]"
    have "runner_owned tr u" using tools_parts(2)[OF assms(2)] Some by (simp add: pool_ok_def)
    then have owned: "ru_owner u \<Longrightarrow> owners_job tr (jb_message_id j)" using q by (simp add: runner_owned_def)
    have "keeps_tools tr (Quiet (set_runner n ?g r) [])"
      by (rule keeps_tools_runner(1)[OF assms]) (use Some q in auto)
    then have "tools_ok tr (set_runner n ?g r)" by (simp add: after.simps)
    then have "tools_ok (tr @ ?es) (set_runner n ?g r)" by (rule tools_ok_more) simp_all
    moreover have "tools_owned (tr @ ?es)" using assms(1) owned by (auto simp: tools_owned_def)
    ultimately show ?thesis using Some True q by (simp add: begin_job_def after.simps)
  qed (use Some assms in \<open>auto simp: begin_job_def after.simps split: list.split\<close>)
qed (use assms in \<open>simp add: begin_job_def after.simps\<close>)

lemma keeps_tools_conversations:
  assumes "tools_owned tr" "tools_ok tr r"
  shows "keeps_tools tr (retain_open r)" "keeps_tools tr (set_watching key w r)"
    "keeps_tools tr (end_job draw n t files now r)" "keeps_tools tr (idle_out n r)" "keeps_tools tr (end_runner n now r)"
proof -
  have quiet: "keeps_tools tr (Quiet r [])" using assms by (simp add: after.simps)
  have "pool_ok tr (r\<lparr>rn_table := filter P (rn_table r)\<rparr>)" for P
    using tools_parts(2)[OF assms(2)] by (auto simp: pool_ok_def table_owned_def owner_key_def)
  then show "keeps_tools tr (retain_open r)"
    unfolding retain_open_def by (intro keeps_tools_pool(2)[OF assms, where es' = "[]"]) simp_all
  have "pool_ok tr (r\<lparr>rn_table := modify key (\<lambda>l. l\<lparr>lv_watching := w\<rparr>) (rn_table r)\<rparr>)"
    using tools_parts(2)[OF assms(2)] by (fastforce simp: pool_ok_def table_owned_def owner_key_def dest: set_modify_table)
  then show "keeps_tools tr (set_watching key w r)"
    unfolding set_watching_def by (intro keeps_tools_pool(2)[OF assms, where es' = "[]"]) simp_all
  show "keeps_tools tr (end_job draw n t files now r)"
    using quiet keeps_tools_runner(2)[OF assms, of _ n "\<lambda>u. u\<lparr>ru_job := None\<rparr>"]
    by (auto simp: end_job_def Let_def after.simps(4) split: option.split prod.split)
  have deleted: "keeps_tools tr (Quiet (r\<lparr>rn_runners := AList.delete n (rn_runners r)\<rparr>) es)" if "list_all not_began es" for es
    using that pool_more[OF pool_delete[OF tools_parts(2)[OF assms(2)]]]
    by (intro keeps_tools_pool(2)[OF assms, where es' = "[]"]) simp_all
  show "keeps_tools tr (idle_out n r)"
    using quiet deleted[of "[]"] keeps_tools_runner(1)[OF assms, of "[]" n "\<lambda>u. u\<lparr>ru_ending := True\<rparr>"]
    by (auto simp: idle_out_def split: option.split)
  have dropped: "list_all not_began (map (\<lambda>j. Dropped (jb_message_id j)) js)" for js by (simp add: list_all_iff)
  have "keeps_tools tr (Durable (with_state f (r\<lparr>rn_runners := AList.delete n (rn_runners r)\<rparr>)) [] (map (\<lambda>j. Dropped (jb_message_id j)) js))" for f js
    using dropped pool_more[OF pool_delete[OF tools_parts(2)[OF assms(2)]]]
    by (intro keeps_tools_pool(1)[OF assms]) (simp_all add: pool_state)
  then show "keeps_tools tr (end_runner n now r)"
    using quiet deleted[OF dropped] by (auto simp: end_runner_def record_jobs_def Let_def split: option.split)
qed

section \<open>The poller\<close>

lemma keeps_tools_claim:
  assumes "tools_owned tr" "tools_ok tr r" "rn_polling r' = Queueing j tools rcp ev" "rn_account r' = rn_account r"
    "rn_runners r' = rn_runners r" "rn_table r' = rn_table r" "rn_next r' = rn_next r" "not_began e" "tools \<longrightarrow> owner_key r (jb_key j)"
    "owner_key r (jb_key j) \<longrightarrow> owners_event (jb_message_id j) e"
  shows "keeps_tools tr (Durable r' [e] [])"
proof -
  have "owner_key r' = owner_key r" using assms(4) by (simp add: owner_key_def fun_eq_iff)
  moreover have "pool_ok (tr @ [e]) r" by (rule pool_more[OF tools_parts(2)[OF assms(2)]])
  ultimately have "tools_ok (tr @ [e]) r'"
    using assms by (auto simp: tools_ok_def pool_ok_def table_owned_def polling_owned_def owners_job_def)
  moreover have "tools_owned (tr @ [e])" using tools_owned_more[OF assms(1), of "[e]"] assms(8) by simp
  ultimately show ?thesis by (simp add: after.simps)
qed

lemma job_of_key: "jb_key (job_of frm limit) = sn_key frm" "jb_message_id (job_of frm limit) = mg_id (sn_message frm)"
  by (simp_all add: job_of_def Let_def)

lemma keeps_tools_proceed:
  assumes "tools_owned tr" "tools_ok tr r" "plain_message (sn_message frm)" "sn_key frm = conversation_of (sn_message frm)"
    "case turn of Inl t \<Rightarrow> True | Inr (tools, limit, evict) \<Rightarrow> tools = has_tools (sn_message frm) (ba_tool_owner (rn_account r))"
  shows "keeps_tools tr (proceed draw r frm turn)" "keeps_tools tr (offer_or draw r frm turn)"
proof -
  let ?m = "sn_message frm"
  show proceed: "keeps_tools tr (proceed draw r frm turn)"
  proof (cases turn)
    case (Inl t)
    show ?thesis unfolding Inl proceed_def queue_fixed_def sum.case by (rule keeps_tools_same(1)[OF assms(1,2)]) simp_all
  next
    case (Inr b)
    then obtain tools limit evict where b: "b = (tools, limit, evict)" by (cases b)
    have fit: "account_fit (rn_account r)" by (rule tools_parts(1)[OF assms(2)])
    have key: "tools \<longrightarrow> owner_key r (conversation_of ?m)"
      using has_tools_key[OF fit assms(3)] assms(5) Inr b by (simp add: owner_key_def)
    have "owners_event (mg_id ?m) (Claimed ?m (ba_tool_owner (rn_account r)) tools)" if K: "owner_key r (conversation_of ?m)"
    proof -
      obtain g where g: "ba_tool_owner (rn_account r) = Some g" "direct_key (to_user_id g) (conversation_of ?m)"
        using K by (auto simp: owner_key_def split: option.splits)
      then have "plain (to_user_id g)" using fit by (simp add: account_fit_def)
      then show ?thesis using direct_key_message[OF assms(3) _ g(2)] g(1) by simp
    qed
    note owned = this
    show ?thesis unfolding Inr b proceed_def claim_message_def Let_def sum.case prod.case
      by (rule keeps_tools_claim[OF assms(1,2)], simp) (use owned key assms(4) in \<open>simp_all add: job_of_key\<close>)
  qed
  have "tools_ok tr (r\<lparr>rn_polling := Offering frm turn\<rparr>)"
    using assms(2-5) by (auto simp: tools_ok_def pool_state polling_owned_def split: sum.splits)
  then show "keeps_tools tr (offer_or draw r frm turn)"
    using proceed assms(1) by (simp add: offer_or_def after.simps)
qed

lemma keeps_tools_seen: "tools_owned tr \<Longrightarrow> tools_ok tr r \<Longrightarrow> keeps_tools tr (only_seen r i)"
  unfolding only_seen_def by (rule keeps_tools_same(1)) simp_all

lemma keeps_tools_accept:
  assumes "tools_owned tr" "tools_ok tr r" "\<And>m. inb = InText m \<Longrightarrow> plain_message m"
  shows "keeps_tools tr (accept_any draw q taken inb r)"
proof -
  have quiet: "keeps_tools tr (Quiet r [])" using assms by (simp add: after.simps)
  have tool_owner: "in_tool_owner (intake_of r q') = ba_tool_owner (rn_account r)" for q' by (simp add: intake_of_def)
  have act: "keeps_tools tr (act_on draw r i (classify inb (intake_of r q')))" for i q'
  proof (cases "classify inb (intake_of r q') \<in> {VIgnore, VClaimed, VStranger}")
    case False
    then obtain m where m: "inb = InText m" "classify inb (intake_of r q') = classify_text m (intake_of r q')"
      using classify_cases(3)[OF refl, of inb "intake_of r q'"] by auto
    let ?f = "sender_of m (in_owner (intake_of r q'))" and ?t = "ba_tool_owner (rn_account r)"
    have plain: "plain_message (sn_message ?f)" using assms(3)[OF m(1)] by simp
    note go = keeps_tools_proceed[OF assms(1,2) plain]
    have "keeps_tools tr (proceed draw r ?f (Inl VOICE_REPLY))" "keeps_tools tr (offer_or draw r ?f (Inl BUSY_REPLY))"
      "keeps_tools tr (offer_or draw r ?f (Inr (has_tools m ?t, limit, evict)))" for limit evict
      using go(1)[where turn = "Inl VOICE_REPLY"] go(2)[where turn = "Inl BUSY_REPLY"]
        go(2)[where turn = "Inr (has_tools m ?t, limit, evict)"] by simp_all
    then show ?thesis
      using classify_text_cases[of m "intake_of r q'"] quiet tool_owner unfolding m(2)
      by (elim disjE insertE exE conjE) (simp_all add: act_on_def)
  qed (use quiet keeps_tools_seen[OF assms(1,2)] in \<open>auto simp: act_on_def\<close>)
  have ack: "keeps_tools tr (acknowledge draw r frm yes)" for frm yes
    unfolding acknowledge_def queue_fixed_def by (rule keeps_tools_same(1)[OF assms(1,2)]) simp_all
  have "keeps_tools tr (accept draw q taken inb r)"
    using act[of "inbound_id inb" q] act[of "inbound_id inb" None] ack by (cases "classify inb (intake_of r q)") (simp_all add: accept_def)
  moreover have "keeps_tools tr (Quiet (r\<lparr>rn_polling := Commanding m\<rparr>) [])" for m
    by (rule keeps_tools_same(2)[OF assms(1,2), where es' = "[]"]) simp_all
  then have "keeps_tools tr (accept_mail inb r)"
    using quiet keeps_tools_seen[OF assms(1,2)] by (auto simp: accept_mail_def Let_def split: inbound.split)
  ultimately show ?thesis using quiet by (simp add: accept_any_def)
qed

lemma keeps_tools_offered:
  assumes "tools_owned tr" "tools_ok tr r"
  shows "keeps_tools tr (job_took draw f r)"
proof (cases "rn_polling r")
  case (Offering frm turn)
  have "polling_owned tr r" by (rule tools_parts(3)[OF assms(2)])
  then have "keeps_tools tr (proceed draw r frm turn)"
    using Offering by (intro keeps_tools_proceed(1)[OF assms]) (simp_all add: polling_owned_def)
  moreover have "keeps_tools tr (Durable ((with_state g r)\<lparr>rn_polling := Between\<rparr>) [Marked i] [])" for g i
    by (rule keeps_tools_same(1)[OF assms]) simp_all
  ultimately show ?thesis using Offering keeps_tools_seen[OF assms]
    by (cases f) (simp_all add: job_took_def Let_def after.simps(4))
qed (use assms in \<open>simp_all add: job_took_def after.simps\<close>)

lemma keeps_tools_returned:
  assumes "tools_owned tr" "tools_ok tr r" "returns_to (rt_thread ret)"
  shows "keeps_tools tr (enqueue_returned ret r)"
proof (cases "ba_owner (rn_account r)")
  case (Some owner)
  let ?i = "''return:'' @ rt_message_id ret" and ?K = "rt_thread ret"
  obtain tools limit where rt: "returned_turn ?K owner (ba_tool_owner (rn_account r)) = (tools, limit)" by fastforce
  show ?thesis
  proof (cases "?i \<in> set (bg_seen (rn_state r)) \<or> known_id (rn_state r) ?i")
    case False
    have fit: "account_fit (rn_account r)" by (rule tools_parts(1)[OF assms(2)])
    have "tools = owner_key r ?K"
    proof (cases "ba_tool_owner (rn_account r)")
      case None
      then show ?thesis using rt by (simp add: returned_turn_def owner_key_def Let_def)
    next
      case g: (Some g)
      then have o: "to_user_id g = owner" "plain owner" using fit Some by (simp_all add: account_fit_def)
      have "chat_of ?K = owner \<longleftrightarrow> direct_key owner ?K"
        by (rule returns_to_direct[OF assms(3) o(2)])
      then show ?thesis using rt g o(1) by (simp add: returned_turn_def owner_key_def Let_def)
    qed
    note owned = this
    show ?thesis
      by (simp only: enqueue_returned_def Let_def Some option.case False if_False rt prod.case,
          rule keeps_tools_claim[OF assms(1,2)], simp) (use owned in \<open>auto simp: owner_key_def split: option.splits\<close>)
  qed (use Some assms in \<open>simp add: enqueue_returned_def Let_def after.simps\<close>)
qed (use assms in \<open>simp add: enqueue_returned_def after.simps\<close>)

lemma keeps_tools_rest:
  assumes "tools_owned tr" "tools_ok tr r"
  shows "keeps_tools tr (report_job draw n t files r)" "keeps_tools tr (track_jobs n current now r)"
    "keeps_tools tr (store_notice draw to t q key' ab now r)" "keeps_tools tr (begin_delivery draw waits r)"
    "keeps_tools tr (send_part e r)" "keeps_tools tr (end_text r)" "keeps_tools tr (send_file e r)"
    "keeps_tools tr (end_delivery now ms r)" "keeps_tools tr (remove_reaction r)" "keeps_tools tr (keep_reaction i x r)"
    "keeps_tools tr (answer_mail draw t r)" "keeps_tools tr (commit_cursor c r)"
proof -
  have quiet: "keeps_tools tr (Quiet r [])" using assms by (simp add: after.simps)
  note same = keeps_tools_same[OF assms] keeps_tools_same(2)[OF assms, where es' = "[]"]
  show "keeps_tools tr (report_job draw n t files r)"
    using quiet by (auto simp: report_job_def queue_unprompted_def split: option.split intro!: same(1))
  show "keeps_tools tr (track_jobs n current now r)"
    using quiet by (auto simp: track_jobs_def record_jobs_def Let_def split: option.split intro!: same(1))
  show "keeps_tools tr (store_notice draw to t q key' ab now r)"
    using quiet by (auto simp: store_notice_def store_mail_notice_def Let_def split: option.split intro!: same(1))
  show "keeps_tools tr (begin_delivery draw waits r)"
    using quiet by (auto simp: begin_delivery_def Let_def split: option.split list.split intro!: same(1,3))
  show "keeps_tools tr (send_part e r)"
    using quiet by (auto simp: send_part_def Let_def split: option.split send_end.split intro!: same(1,3))
  show "keeps_tools tr (end_text r)" using quiet by (auto simp: end_text_def split: option.split intro!: same(3))
  show "keeps_tools tr (send_file e r)"
    using quiet by (auto simp: send_file_def Let_def split: option.split intro!: same(1,3))
  show "keeps_tools tr (end_delivery now ms r)"
    using quiet by (auto simp: end_delivery_def Let_def split: option.split intro!: same(1))
  show "keeps_tools tr (answer_mail draw t r)"
    using quiet by (auto simp: answer_mail_def Let_def split: polling.split intro!: same(1,3))
  show "keeps_tools tr (commit_cursor c r)" by (auto simp: commit_cursor_def split: option.split intro!: same(1))
  have tolerant: "tools_ok tr (with_state g r)" for g
    using tools_ok_more[OF assms(2), of "with_state g r" "[]"] by simp
  show "keeps_tools tr (remove_reaction r)" using quiet tolerant by (simp add: remove_reaction_def Let_def after.simps)
  have "keeps_tools tr (Quiet r [Reacted i x])" by (rule same(3)) simp_all
  then show "keeps_tools tr (keep_reaction i x r)"
    using tolerant by (simp add: keep_reaction_def Let_def after.simps(3) split: option.split)
qed

lemma keeps_tools_op:
  assumes "tools_owned tr" "tools_ok tr r" "plain_op (SOp op w)"
  shows "keeps_tools tr (perform op r)"
proof (cases op)
  case (BAccept draw q taken inb)
  then show ?thesis using keeps_tools_accept[OF assms(1,2), of inb] assms(3) by (cases inb) simp_all
next
  case (BReturned ret)
  then show ?thesis using keeps_tools_returned[OF assms(1,2)] assms by (simp add: after.simps)
qed (use assms(1,2) keeps_tools_offered keeps_tools_queue keeps_tools_begin keeps_tools_conversations keeps_tools_rest
    in \<open>simp_all add: after.simps\<close>)

interpretation tools: bridge_law plain_op tools_owned "\<lambda>tr s. True" tools_ok
proof (unfold_locales, goal_cases)
  case (4 tr r op w) then show ?case using keeps_tools_op by blast
next
  case (8 tr s a fp logged draw restart now ws)
  then show ?case by (simp add: tools_ok_def pool_ok_def table_owned_def polling_owned_def new_run_def)
qed (simp_all add: tools_owned_def)

end
