(* ===== verification/Bridge_Texts.thy ===== *)
theory Bridge_Texts
  imports Bridge_State
begin

text \<open>
  What a bridge's messages look like and what it keeps of refused ones: a text is cut into parts that
  fit and lose nothing, SCV's own texts come as closed code blocks, one per part, and the replies the
  platform refused stay within their limits and ride ahead of the next reply.
\<close>

section \<open>Parts\<close>

lemma ulen_chars_within: "ulen (take (chars_within n s) s) \<le> n"
proof (induction s arbitrary: n)
  case (Cons c s)
  have "utf8_len c + ulen (take (chars_within (n - utf8_len c) s) s) \<le> n" if "utf8_len c \<le> n"
    using Cons.IH[of "n - utf8_len c"] that by linarith
  then show ?case by simp
qed simp

lemma chars_within_pos: "s \<noteq> [] \<Longrightarrow> 4 \<le> n \<Longrightarrow> 0 < chars_within n s"
  using utf8_len_le order_trans by (cases s) fastforce+

lemma chars_within_exact: "ulen b = n \<Longrightarrow> chars_within n (b @ extra) = length b"
proof (induction b arbitrary: n)
  case Nil
  then show ?case by (cases extra) simp_all
qed auto

lemma split_rest_concat: "concat (split_rest limit v) = v"
proof (induction limit v rule: split_rest.induct)
  case (1 limit v)
  then show ?case by (subst split_rest.simps) (auto simp: Let_def)
qed

lemma split_rest_bound: "list_all (\<lambda>p. ulen p \<le> max limit 4) (split_rest limit v)"
proof (induction limit v rule: split_rest.induct)
  case (1 limit v)
  have "ulen (take (max 1 (chars_within limit v)) v) \<le> max limit 4"
    using ulen_chars_within[of limit v] utf8_len_le by (cases v; cases "chars_within limit v") (auto simp: le_max_iff_disj)
  then show ?case using 1 by (subst split_rest.simps) (auto simp: Let_def)
qed

lemma split_utf8_parts:
  "concat (split_utf8 v limit) = v" "list_all (\<lambda>p. ulen p \<le> max limit 4) (split_utf8 v limit)" "split_utf8 v limit \<noteq> []"
proof -
  have "max (max limit 1) 4 = max limit 4" by simp
  then have parts: "list_all (\<lambda>p. ulen p \<le> max limit 4) (split_rest (max limit 1) v)" "concat (split_rest (max limit 1) v) = v"
    using split_rest_bound[of "max limit 1" v] split_rest_concat by simp_all
  show "concat (split_utf8 v limit) = v" "list_all (\<lambda>p. ulen p \<le> max limit 4) (split_utf8 v limit)" "split_utf8 v limit \<noteq> []"
    using parts unfolding split_utf8_def by (cases "split_rest (max limit 1) v"; simp)+
qed

lemma split_rest_filled:
  assumes "ulen b = limit" "b \<noteq> []" "c \<noteq> []"
  shows "split_rest limit (b @ c) = b # split_rest limit c"
proof -
  have "0 < ulen c" using assms(3) ulen_eq_0 by (metis gr0I)
  moreover have "max 1 (chars_within limit (b @ c)) = length b"
    using chars_within_exact[OF assms(1), of c] assms(2) by (cases b) simp_all
  ultimately show ?thesis using assms(1) by (subst split_rest.simps) (simp add: Let_def)
qed

section \<open>Code blocks\<close>

lemma backticks_ge: "n \<le> backticks n s" "m \<le> n \<Longrightarrow> backticks m s \<le> backticks n s"
  by (induction s arbitrary: m n) (auto simp: le_max_iff_disj max.coboundedI1 intro: order_trans[OF _ Suc_leD])

lemma backticks_take: "backticks n (take k s) \<le> backticks n s"
proof (induction s arbitrary: n k)
  case (Cons c s)
  have "n \<le> backticks (Suc n) s" using backticks_ge(1)[of "Suc n" s] by simp
  then show ?case using Cons by (cases k) (auto simp: max.coboundedI2)
qed simp

lemma backticks_drop: "backticks 0 (drop k s) \<le> backticks n s"
proof (induction s arbitrary: n k)
  case (Cons c s)
  show ?case
  proof (cases k)
    case 0
    then show ?thesis using backticks_ge(2)[of 0 n "c # s"] by simp
  next
    case (Suc k')
    then show ?thesis using Cons.IH[of k' "Suc n"] Cons.IH[of k' 0] by (simp add: max.coboundedI2)
  qed
qed simp

definition block :: "nat \<Rightarrow> ustr \<Rightarrow> nat \<Rightarrow> ustr" where
  "block f c pad = replicate f 96 @ [10] @ c @ [10] @ replicate f 96 @ replicate pad 32"

lemma ulen_replicate: "ulen (replicate k c) = k * utf8_len c"
  by (induction k) simp_all

lemma ulen_block: "ulen (block f c pad) = 2 * (f + 1) + ulen c + pad"
  by (simp add: block_def ulen_replicate utf8_len_def)

text \<open>Blocks as parts: what each holds, closed by a fence longer than any run of backticks in it.\<close>

definition blocks :: "nat \<Rightarrow> nat \<Rightarrow> ustr \<Rightarrow> ustr list \<Rightarrow> bool" where
  "blocks f limit body parts \<longleftrightarrow>
     (\<exists>cs. parts = map (\<lambda>(c, pad). block f c pad) cs \<and> concat (map fst cs) = body \<and>
        list_all (\<lambda>(c, pad). backticks 0 c < f) cs \<and> list_all (\<lambda>p. ulen p \<le> limit) parts)"

lemma blocks_of_blocks:
  assumes "4 \<le> room" "backticks 0 rest < f"
  shows "blocks f (2 * (f + 1) + room) rest (blocks_of (replicate f 96) room rest) \<and>
    split_rest (2 * (f + 1) + room) (concat (blocks_of (replicate f 96) room rest)) = blocks_of (replicate f 96) room rest"
  using assms(2)
proof (induction "length rest" arbitrary: rest rule: less_induct)
  case less
  let ?l = "2 * (f + 1) + room"
  show ?case
  proof (cases "ulen rest > room")
    case True
    let ?n = "chars_within room rest"
    let ?b = "block f (take ?n rest) (room - ulen (take ?n rest))" and ?bs = "blocks_of (replicate f 96) room (drop ?n rest)"
    have rest: "rest \<noteq> []" using True by auto
    have eq: "blocks_of (replicate f 96) room rest = ?b # ?bs"
      using True assms(1) by (subst blocks_of.simps) (simp add: Let_def block_def)
    have "length (drop ?n rest) < length rest" "backticks 0 (drop ?n rest) < f"
      using chars_within_pos[OF rest assms(1)] rest backticks_drop[of ?n rest 0] less(2) by simp_all
    note IH = less(1)[OF this]
    have len: "ulen ?b = ?l" using ulen_chars_within[of room rest] by (simp add: ulen_block)
    have ne: "concat ?bs \<noteq> []" by (subst blocks_of.simps) (simp add: Let_def)
    have "split_rest ?l (?b @ concat ?bs) = ?b # split_rest ?l (concat ?bs)"
      by (rule split_rest_filled[OF len _ ne]) (simp add: block_def)
    then have split: "split_rest ?l (concat (?b # ?bs)) = ?b # ?bs" using IH by simp
    obtain cs where cs: "?bs = map (\<lambda>(c, pad). block f c pad) cs" "concat (map fst cs) = drop ?n rest"
      "list_all (\<lambda>(c, pad). backticks 0 c < f) cs" "list_all (\<lambda>p. ulen p \<le> ?l) ?bs"
      using IH by (auto simp: blocks_def)
    have "blocks f ?l rest (?b # ?bs)" unfolding blocks_def
      using cs len less(2) backticks_take[of 0 ?n rest]
      by (intro exI[of _ "(take ?n rest, room - ulen (take ?n rest)) # cs"]) (simp add: order.strict_trans1)
    then show ?thesis using split eq by simp
  next
    case False
    have eq: "blocks_of (replicate f 96) room rest = [block f rest 0]"
      using False by (subst blocks_of.simps) (simp add: block_def)
    have le: "ulen (block f rest 0) \<le> ?l" using False by (simp add: ulen_block)
    have "blocks f ?l rest [block f rest 0]" unfolding blocks_def
      using le less(2) by (intro exI[of _ "[(rest, 0)]"]) simp
    moreover have "split_rest ?l (block f rest 0) = [block f rest 0]"
      using le by (subst split_rest.simps) (simp add: block_def)
    ultimately show ?thesis using eq by simp
  qed
qed

lemma code_blocks_parts:
  assumes "f = max (backticks 0 body) 2 + 1" "2 * (f + 1) + 4 \<le> limit"
  shows "blocks f limit body (split_utf8 (code_blocks body limit) limit)"
proof (cases "2 * (f + 1) + ulen body \<le> limit")
  case True
  have code: "code_blocks body limit = block f body 0" using True assms(1) by (simp add: code_blocks_def block_def Let_def)
  have le: "ulen (block f body 0) \<le> limit" using True by (simp add: ulen_block)
  then have "split_utf8 (block f body 0) limit = [block f body 0]"
    unfolding split_utf8_def by (subst split_rest.simps) (simp add: block_def)
  then show ?thesis using le assms(1) unfolding code blocks_def by (intro exI[of _ "[(body, 0)]"]) simp
next
  case False
  let ?room = "limit - 2 * (f + 1)"
  have room: "4 \<le> ?room" "2 * (f + 1) + ?room = limit" using assms(2) by simp_all
  have code: "code_blocks body limit = concat (blocks_of (replicate f 96) ?room body)"
    using False room(1) unfolding code_blocks_def Let_def assms(1)[symmetric] by simp
  have "backticks 0 body < f" using assms(1) by simp
  note parts = blocks_of_blocks[OF room(1) this, unfolded room(2)]
  have "blocks_of (replicate f 96) ?room body \<noteq> []" by (subst blocks_of.simps) (simp add: Let_def)
  then have "split_utf8 (code_blocks body limit) limit = blocks_of (replicate f 96) ?room body"
    using parts assms(2) unfolding split_utf8_def code by (simp add: max_def split: list.split)
  then show ?thesis using parts by simp
qed

section \<open>Refused replies\<close>

lemma ulen_MARKER: "ulen MARKER = 12"
  by (simp add: MARKER_def lit_def utf8_len_def)

lemma truncate_held_bound: "ulen (truncate_held t) \<le> MAX_HELD_REPLY_BYTES"
  using ulen_chars_within[of "MAX_HELD_REPLY_BYTES - ulen MARKER" t]
  by (simp add: truncate_held_def ulen_MARKER MAX_HELD_REPLY_BYTES_def MAX_REPLY_BYTES_def)

definition of_conversation :: "string \<Rightarrow> held_reply list \<Rightarrow> held_reply list" where
  "of_conversation key hs = filter (\<lambda>h. hr_key h = key) hs"

definition held_bytes :: "held_reply list \<Rightarrow> nat" where
  "held_bytes hs = sum_list (map (\<lambda>h. ulen (hr_reply h)) hs)"

definition held_ok :: "nat \<Rightarrow> held_reply list \<Rightarrow> bool" where
  "held_ok now hs \<longleftrightarrow> length hs \<le> HELD_MAX_TOTAL \<and>
     (\<forall>key. length (of_conversation key hs) \<le> HELD_MAX_PER_CONVERSATION \<and>
        held_bytes (of_conversation key hs) \<le> HELD_MAX_BYTES_PER_CONVERSATION) \<and>
     list_all (\<lambda>h. now - hr_held_at h < HELD_MAX_AGE) hs"

lemma keep_newest_bounds:
  assumes "n \<le> HELD_MAX_TOTAL"
    and "\<And>key. fst (usage key) \<le> HELD_MAX_PER_CONVERSATION \<and> snd (usage key) \<le> HELD_MAX_BYTES_PER_CONVERSATION"
  shows "n + length (keep_newest hs usage n) \<le> HELD_MAX_TOTAL \<and>
    fst (usage key) + length (of_conversation key (keep_newest hs usage n)) \<le> HELD_MAX_PER_CONVERSATION \<and>
    snd (usage key) + held_bytes (of_conversation key (keep_newest hs usage n)) \<le> HELD_MAX_BYTES_PER_CONVERSATION \<and>
    set (keep_newest hs usage n) \<subseteq> set hs"
  using assms
proof (induction hs arbitrary: usage n)
  case Nil
  then show ?case by (simp add: of_conversation_def held_bytes_def)
next
  case (Cons h hs)
  obtain c b where u: "usage (hr_key h) = (c, b)" by fastforce
  show ?case
  proof (cases "n < HELD_MAX_TOTAL \<and> c < HELD_MAX_PER_CONVERSATION \<and> b + ulen (hr_reply h) \<le> HELD_MAX_BYTES_PER_CONVERSATION")
    case True
    let ?u = "usage(hr_key h := (c + 1, b + ulen (hr_reply h)))"
    have "fst (?u k) \<le> HELD_MAX_PER_CONVERSATION \<and> snd (?u k) \<le> HELD_MAX_BYTES_PER_CONVERSATION" for k
      using Cons.prems(2)[of k] True by simp
    then have IH: "Suc n + length (keep_newest hs ?u (Suc n)) \<le> HELD_MAX_TOTAL \<and>
      fst (?u key) + length (of_conversation key (keep_newest hs ?u (Suc n))) \<le> HELD_MAX_PER_CONVERSATION \<and>
      snd (?u key) + held_bytes (of_conversation key (keep_newest hs ?u (Suc n))) \<le> HELD_MAX_BYTES_PER_CONVERSATION \<and>
      set (keep_newest hs ?u (Suc n)) \<subseteq> set hs"
      using True by (intro Cons.IH) simp_all
    have "keep_newest (h # hs) usage n = h # keep_newest hs ?u (Suc n)" using True u by simp
    moreover have "?u key = (if key = hr_key h then (c + 1, b + ulen (hr_reply h)) else usage key)" by simp
    ultimately show ?thesis using IH u
      by (cases "hr_key h = key") (auto simp: of_conversation_def held_bytes_def simp del: fun_upd_apply keep_newest.simps)
  next
    case False
    then have "keep_newest (h # hs) usage n = keep_newest hs usage n" using u by auto
    then show ?thesis using Cons.IH[of n usage, OF Cons.prems] by (auto simp del: keep_newest.simps)
  qed
qed

lemma of_conversation_rev: "of_conversation key (rev hs) = rev (of_conversation key hs)" "held_bytes (rev hs) = held_bytes hs"
  by (simp_all add: of_conversation_def rev_filter held_bytes_def rev_map[symmetric])

lemma prune_held_ok: "held_ok now (bg_held (prune_held now s))"
proof -
  let ?fs = "filter (\<lambda>h. now - hr_held_at h < HELD_MAX_AGE) (bg_held s)"
  note b = keep_newest_bounds[of 0 "\<lambda>_. (0, 0)" "rev ?fs"]
  show ?thesis using b by (fastforce simp: held_ok_def prune_held_def of_conversation_rev list_all_iff)
qed

text \<open>
  What the limits let stay of a conversation list, oldest first: a reply stays when it is younger than a week and
  the newer ones that stay leave it room, overall and in its conversation.
\<close>

definition fits_held :: "nat \<Rightarrow> held_reply \<Rightarrow> held_reply list \<Rightarrow> bool" where
  "fits_held now h ls \<longleftrightarrow> now - hr_held_at h < HELD_MAX_AGE \<and> length ls < HELD_MAX_TOTAL \<and>
     length (of_conversation (hr_key h) ls) < HELD_MAX_PER_CONVERSATION \<and>
     held_bytes (of_conversation (hr_key h) ls) + ulen (hr_reply h) \<le> HELD_MAX_BYTES_PER_CONVERSATION"

fun retained :: "nat \<Rightarrow> held_reply list \<Rightarrow> held_reply list" where
  "retained now [] = []"
| "retained now (h # hs) = (if fits_held now h (retained now hs) then h # retained now hs else retained now hs)"

lemma of_conversation_simps [simp]:
  "of_conversation k [] = []" "of_conversation k (h # hs) = (if hr_key h = k then h # of_conversation k hs else of_conversation k hs)"
  "of_conversation k (xs @ ys) = of_conversation k xs @ of_conversation k ys"
  "held_bytes [] = 0" "held_bytes (h # hs) = ulen (hr_reply h) + held_bytes hs"
  "held_bytes (xs @ ys) = held_bytes xs + held_bytes ys"
  by (simp_all add: of_conversation_def held_bytes_def)

lemma keep_newest_last:
  "keep_newest (xs @ [h]) u n =
   (let ks = keep_newest xs u n; k = hr_key h
    in if n + length ks < HELD_MAX_TOTAL \<and> fst (u k) + length (of_conversation k ks) < HELD_MAX_PER_CONVERSATION \<and>
          snd (u k) + held_bytes (of_conversation k ks) + ulen (hr_reply h) \<le> HELD_MAX_BYTES_PER_CONVERSATION
       then ks @ [h] else ks)"
proof (induction xs arbitrary: u n)
  case Nil
  then show ?case by (simp add: split_beta Let_def)
next
  case (Cons x xs)
  define v where "v = u(hr_key x := (fst (u (hr_key x)) + 1, snd (u (hr_key x)) + ulen (hr_reply x)))"
  have v: "v (hr_key h) = (if hr_key x = hr_key h then (fst (u (hr_key x)) + 1, snd (u (hr_key x)) + ulen (hr_reply x))
      else u (hr_key h))" by (simp add: v_def)
  let ?room = "n < HELD_MAX_TOTAL \<and> fst (u (hr_key x)) < HELD_MAX_PER_CONVERSATION \<and>
    snd (u (hr_key x)) + ulen (hr_reply x) \<le> HELD_MAX_BYTES_PER_CONVERSATION"
  have step: "keep_newest (x # ys) u n = (if ?room then x # keep_newest ys v (Suc n) else keep_newest ys u n)" for ys
    by (simp add: split_beta v_def)
  show ?case
  proof (cases ?room)
    case True
    then have here: "keep_newest (x # xs @ [h]) u n = x # keep_newest (xs @ [h]) v (Suc n)"
      "keep_newest (x # xs) u n = x # keep_newest xs v (Suc n)" using step by presburger+
    show ?thesis unfolding append_Cons here Let_def Cons.IH[of v "Suc n"] v by (auto simp: add.assoc)
  next
    case False
    then have here: "keep_newest (x # xs @ [h]) u n = keep_newest (xs @ [h]) u n" "keep_newest (x # xs) u n = keep_newest xs u n"
      using step by presburger+
    show ?thesis unfolding append_Cons here by (rule Cons.IH)
  qed
qed

lemma prune_held_retained: "bg_held (prune_held now s) = retained now (bg_held s)"
proof -
  have "rev (keep_newest (rev (filter (\<lambda>h. now - hr_held_at h < HELD_MAX_AGE) hs)) (\<lambda>_. (0, 0)) 0) = retained now hs" for hs
  proof (induction hs)
    case (Cons h hs)
    let ?ks = "keep_newest (rev (filter (\<lambda>h. now - hr_held_at h < HELD_MAX_AGE) hs)) (\<lambda>_. (0, 0)) 0"
    have "?ks = rev (retained now hs)" using Cons.IH by (metis rev_rev_ident)
    then show ?case by (simp add: keep_newest_last fits_held_def of_conversation_rev Let_def)
  qed simp
  then show ?thesis by (simp add: prune_held_def)
qed

lemma held_ok_tail: "held_ok now (h # hs) \<Longrightarrow> held_ok now hs"
proof -
  assume ok: "held_ok now (h # hs)"
  have "length (of_conversation k hs) \<le> length (of_conversation k (h # hs))"
    "held_bytes (of_conversation k hs) \<le> held_bytes (of_conversation k (h # hs))" for k by simp_all
  then have "length (of_conversation k hs) \<le> HELD_MAX_PER_CONVERSATION \<and>
    held_bytes (of_conversation k hs) \<le> HELD_MAX_BYTES_PER_CONVERSATION" for k
    using ok unfolding held_ok_def by (meson le_trans)
  then show ?thesis using ok by (simp add: held_ok_def)
qed

lemma retained_all: "held_ok now hs \<Longrightarrow> retained now hs = hs"
proof (induction hs)
  case (Cons h hs)
  have "fits_held now h hs" using Cons.prems by (auto simp: held_ok_def fits_held_def dest!: spec[of _ "hr_key h"])
  then show ?case using Cons.IH[OF held_ok_tail[OF Cons.prems]] by simp
qed simp

lemma retained_subseq: "set (retained now hs) \<subseteq> set hs"
  by (induction hs) auto

lemma retained_ok: "held_ok now (retained now hs)"
  using prune_held_ok[of now "new_bridge_state\<lparr>bg_held := hs\<rparr>"] by (simp add: prune_held_retained)

lemma insort_last: "f a \<le> f x \<Longrightarrow> insort_key f a (ys @ [x]) = insort_key f a ys @ [x]"
  by (induction ys) auto

lemma sort_last: "\<forall>a \<in> set xs. f a \<le> f x \<Longrightarrow> sort_key f (xs @ [x]) = sort_key f xs @ [x]"
proof -
  have "\<forall>a \<in> set xs. f a \<le> f x \<Longrightarrow> foldr (insort_key f) xs (ys @ [x]) = foldr (insort_key f) xs ys @ [x]" for ys
    by (induction xs) (simp_all add: insort_last)
  from this[of "[]"] show "\<forall>a \<in> set xs. f a \<le> f x \<Longrightarrow> sort_key f (xs @ [x]) = sort_key f xs @ [x]"
    by (simp add: sort_key_def)
qed

text \<open>What of a reply did not go out: its own text, or what is left of the whole message once a part went out.\<close>

definition unsent_text :: "pending_delivery \<Rightarrow> ustr" where
  "unsent_text p =
     (if pd_next_chunk p = 0 then (case pd_own p of Some own \<Rightarrow> own | None \<Rightarrow> pd_reply p)
      else drop (length (concat (take (pd_next_chunk p) (text_chunks p)))) (pd_reply p))"

definition just_refused :: "pending_delivery \<Rightarrow> nat \<Rightarrow> held_reply" where
  "just_refused p now =
     \<lparr>hr_key = conversation_key (pd_key p) (pd_to p), hr_to = pd_to p, hr_reply = truncate_held (unsent_text p), hr_held_at = now\<rparr>"

lemma concat_text_chunks: "concat (text_chunks p) = pd_reply p"
  by (auto simp: text_chunks_def split_utf8_parts)

lemma unsent_chunks: "concat (drop n (text_chunks p)) = drop (length (concat (take n (text_chunks p)))) (pd_reply p)"
  by (metis append_eq_conv_conj append_take_drop_id concat_append concat_text_chunks)

lemma retained_last: 
  "ulen (hr_reply h) \<le> MAX_HELD_REPLY_BYTES \<Longrightarrow> hr_held_at h = now \<Longrightarrow> \<exists>ks. retained now (hs @ [h]) = ks @ [h]"
proof (induction hs)
  case Nil
  then show ?case
    by (simp add: fits_held_def HELD_MAX_TOTAL_def HELD_MAX_PER_CONVERSATION_def HELD_MAX_BYTES_PER_CONVERSATION_def HELD_MAX_AGE_def)
next
  case (Cons x hs)
  then obtain ks where "retained now (hs @ [h]) = ks @ [h]" by blast
  then have "retained now ((x # hs) @ [h]) = (if fits_held now x (ks @ [h]) then x # ks else ks) @ [h]" by simp
  then show ?case by blast
qed

lemma held_after:
  assumes "\<not> pd_transient p" "\<forall>h \<in> set (bg_held s @ pd_carried p). hr_held_at h \<le> now"
  shows "bg_held (hold_refused p (text_chunks p) now s) =
    retained now (sort_key hr_held_at (bg_held s @ (if pd_next_chunk p = 0 then pd_carried p else [])) @ [just_refused p now])"
proof -
  let ?old = "bg_held s @ (if pd_next_chunk p = 0 then pd_carried p else [])"
  have "sort_key hr_held_at (?old @ [just_refused p now]) = sort_key hr_held_at ?old @ [just_refused p now]"
    using assms(2) by (intro sort_last) (auto simp: just_refused_def)
  moreover have "hold_refused p (text_chunks p) now s = prune_held now (s\<lparr>bg_held := sort_key hr_held_at (?old @ [just_refused p now])\<rparr>)"
    using assms(1) by (simp add: hold_refused_def Let_def just_refused_def unsent_text_def unsent_chunks)
  ultimately show ?thesis by (simp add: prune_held_retained)
qed

lemma chars_within_most: "n < ulen t \<Longrightarrow> n < ulen (take (chars_within n t) t) + 4"
proof (induction t arbitrary: n)
  case (Cons c t)
  show ?case
  proof (cases "utf8_len c \<le> n")
    case True
    have "n - utf8_len c < ulen t" using Cons.prems True by simp
    from Cons.IH[OF this] True show ?thesis by simp
  next
    case False
    then show ?thesis using utf8_len_le[of c] by simp
  qed
qed simp

lemma truncate_held_cut:
  assumes "MAX_HELD_REPLY_BYTES < ulen t"
  shows "\<exists>kept rest. t = kept @ rest \<and> truncate_held t = kept @ MARKER \<and> MAX_HELD_REPLY_BYTES < ulen (truncate_held t) + 4"
proof -
  let ?n = "chars_within (MAX_HELD_REPLY_BYTES - ulen MARKER) t"
  have "MAX_HELD_REPLY_BYTES - ulen MARKER < ulen t" using assms by simp
  from chars_within_most[OF this] have "MAX_HELD_REPLY_BYTES < ulen (take ?n t @ MARKER) + 4"
    by (simp add: ulen_MARKER MAX_HELD_REPLY_BYTES_def MAX_REPLY_BYTES_def)
  then show ?thesis using assms by (intro exI[of _ "take ?n t"] exI[of _ "drop ?n t"]) (simp add: truncate_held_def)
qed

lemma carry_spec:
  assumes "carry key own body hs = (kept, b, taken)"
  shows "mset kept + mset taken = mset hs \<and> list_all (\<lambda>h. hr_key h = key) taken \<and>
    b = body @ concat (map (\<lambda>h. HELD_HEADER @ hr_reply h @ [10, 10]) taken) \<and> (taken \<noteq> [] \<longrightarrow> ulen b + own \<le> MAX_REPLY_BYTES)"
  using assms
proof (induction hs arbitrary: body kept b taken)
  case (Cons h hs)
  let ?body = "body @ HELD_HEADER @ hr_reply h @ [10, 10]"
  consider "hr_key h \<noteq> key"
    | "hr_key h = key" "ulen body + (ulen HELD_HEADER + ulen (hr_reply h) + 2) + own > MAX_REPLY_BYTES"
    | "hr_key h = key" "ulen body + (ulen HELD_HEADER + ulen (hr_reply h) + 2) + own \<le> MAX_REPLY_BYTES" by linarith
  then show ?case
  proof cases
    case 1
    then obtain kept' where "carry key own body hs = (kept', b, taken)" "kept = h # kept'"
      using Cons.prems by (auto split: prod.splits)
    then show ?thesis using Cons.IH by auto
  next
    case 2
    then show ?thesis using Cons.prems by auto
  next
    case 3
    then obtain taken' where t: "carry key own ?body hs = (kept, b, taken')" "taken = h # taken'"
      using Cons.prems by (auto split: prod.splits)
    have "ulen [10, 10] = 2" by (simp add: utf8_len_def)
    then show ?thesis using Cons.IH[OF t(1)] t(2) 3 by (cases "taken' = []") (auto simp: utf8_len_def)
  qed
qed simp

lemma carry_order:
  assumes "carry key own body hs = (kept, b, taken)"
  shows "of_conversation k hs = (if k = key then taken else []) @ of_conversation k kept"
  using assms
proof (induction hs arbitrary: body kept b taken)
  case (Cons h hs)
  then show ?case by (cases "k = key") (auto split: if_splits prod.splits)
qed simp

lemma carry_full:
  assumes "carry key own body hs = (kept, b, taken)" "of_conversation key kept = h # more_held"
  shows "MAX_REPLY_BYTES < ulen b + (ulen HELD_HEADER + ulen (hr_reply h) + 2) + own"
  using assms
proof (induction hs arbitrary: body kept b taken)
  case (Cons h hs)
  then show ?case by (auto split: if_splits prod.splits)
qed simp

end
