(* ===== verification/Bridge_Theorems.thy ===== *)
theory Bridge_Theorems
  imports Bridge_Mail Bridge_Tools Bridge_Texts
begin

text \<open>
  The properties of a chat bridge: of every run of its machine, from an empty state, across failed
  saves, stops and restarts, and of the texts it sends and keeps.
\<close>

lemma reachable:
  assumes "s = fold bridge_step ops new_sys"
  shows "claims_spaced (by_trace s)" "began_once (by_trace s)" "state_ok (by_trace s) (by_disk s)"
    "by_run s = Some r \<Longrightarrow> memory_ok (by_trace s) r \<and> jobs_ok (by_trace s) r \<and> state_ok (by_trace s) (rn_state r)"
    "by_run s = Some r \<Longrightarrow> distinct (map if_message_id (bg_in_flight (rn_state r)))"
  using jobs.run_keeps[of ops] assms by (simp_all add: jobs.lawful_def)

lemma in_total: "(n, u) \<in> set m \<Longrightarrow> x \<in># f u \<Longrightarrow> x \<in># total f m"
  by (induction m) auto

section \<open>A run to evaluate\<close>

definition a_chat :: account where
  "a_chat =
     \<lparr>ba_label = [], ba_owner = Some ''u'', ba_tool_owner = Some \<lparr>to_user_id = ''u'', to_turn_timeout = 600\<rparr>,
      ba_senders = SendersAnyone, ba_purpose = ForChat, ba_follow_ups = False, ba_inside = (\<lambda>_. True)\<rparr>"

definition a_message :: "string \<Rightarrow> message" where
  "a_message i =
     \<lparr>mg_id = i, mg_sender = ''u'', mg_text = [104], mg_reply_to = [], mg_group = None, mg_media = [],
      mg_reference = None, mg_sent_ms = None, mg_quoted = False, mg_thread = None\<rparr>"

definition a_start :: sys_op where
  "a_start = SStart a_chat ''f'' False (\<lambda>_ _. []) None 0 (Saved, Saved, Saved)"

definition an_op :: "bridge_op \<Rightarrow> sys_op" where
  "an_op op = SOp op Saved"

text \<open>One message is claimed, queued and begun.\<close>

definition a_turn :: "string \<Rightarrow> sys_op list" where
  "a_turn i = [an_op (BAccept (\<lambda>_. []) None False (InText (a_message i))), an_op (BQueue 1), an_op (BBegin 0)]"

lemma not_new: "asks_for_new (a_message i) = False"
  by (simp add: asks_for_new_def a_message_def eq_ignore_ascii_case_def trim_def trim_start_def trim_end_def is_whitespace_def
      to_ascii_uppercase_def lit_def)

lemma accepted:
  assumes "rn_account r = a_chat" "rn_polling r = Between" "bg_in_flight (rn_state r) = []" "length (rn_table r) < MAX_SESSIONS"
    "i \<notin> set (bg_seen (rn_state r))" "i \<notin> set (map pd_message_id (bg_pending (rn_state r)))"
  shows "perform (BAccept (\<lambda>_. []) None False (InText (a_message i))) r =
   claim_message r (sender_of (a_message i) (Some ''u'')) True 600 None"
  using assms
  by (simp add: accept_any_def accept_def act_on_def offer_or_def proceed_def classify_def classify_text_def a_chat_def a_message_def intake_of_def
      known_id_def sender_of_def answer_of_def unheard_def room_for_def evict_for_def waiting_for_def has_tools_def turn_limit_def
      is_offered_def MAX_CHAT_CLAIMS_def MAX_QUEUED_PER_CONVERSATION_def Let_def)

lemma claimed_job: "job_of (sender_of (a_message i) ow) l =
    \<lparr>jb_message_id = i, jb_text = [104], jb_media = [], jb_reference = None, jb_origin = None, jb_key = ''u'', jb_limit = l, jb_new = False\<rparr>"
  "recipient_of (sender_of (a_message i) ow) = Some \<lparr>rc_peer = ''u'', rc_key = ''u'', rc_reply_to = []\<rparr>"
  using not_new[of i] by (simp_all add: job_of_def recipient_of_def conversation_of_def a_message_def)

lemma a_message_simps: "mg_id (a_message i) = i" "mg_sender (a_message i) = ''u''" "mg_reply_to (a_message i) = []"
  "conversation_of (a_message i) = ''u''"
  by (simp_all add: a_message_def conversation_of_def)

lemma a_chat_simps: "ba_purpose a_chat = ForChat" "ba_label a_chat = []"
  by (simp_all add: a_chat_def)

lemmas eval_defs = accepted claimed_job a_message_simps a_chat_simps claim_message_def queue_job_def queue_on_def release_queue_def send_job_def start_runner_def
  open_runner_def modify_def set_runner_def with_state_def push_claim_def push_pending_def begin_job_def MAX_SESSIONS_def Let_def

definition a_turn_run :: "sys_op list" where
  "a_turn_run = a_start # a_turn ''m''"

definition a_begun :: run where
  "a_begun = \<lparr>rn_account = a_chat,
     rn_state = new_bridge_state\<lparr>bg_fingerprint := Some ''f'', bg_in_flight := [\<lparr>if_message_id = ''m'', if_to = ''u'', if_context = [], if_key = ''u'', if_reaction = None\<rparr>]\<rparr>,
     rn_table = [(''u'', \<lparr>lv_runner = 0, lv_last_used = 1, lv_watching = False\<rparr>)],
     rn_runners = [(0, \<lparr>ru_owner = True, ru_recipient = Some \<lparr>rc_peer = ''u'', rc_key = ''u'', rc_reply_to = []\<rparr>, ru_queue = [], ru_held = True,
       ru_job = Some (job_of (sender_of (a_message ''m'') (Some ''u'')) 600), ru_ending = False\<rparr>)],
     rn_next = 1, rn_polling = Between, rn_sending = None\<rparr>"

lemma begun:
  "fold bridge_step a_turn_run new_sys =
   \<lparr>by_disk = rn_state a_begun, by_run = Some a_begun, by_trace = [Claimed (a_message ''m'') (ba_tool_owner a_chat) True, Began ''m'' True]\<rparr>"
proof -
  let ?s = "new_bridge_state\<lparr>bg_fingerprint := Some ''f''\<rparr>"
  have start: "bridge_step a_start new_sys = \<lparr>by_disk = ?s, by_run = Some (new_run a_chat ?s), by_trace = []\<rparr>"
    by (simp add: a_start_def new_sys_def serve_start_def bind_state_def fit_purpose_def recover_run_def new_bridge_state_def a_chat_def)
  show ?thesis
    by (simp add: start a_turn_run_def a_turn_def an_op_def del: perform.simps(1))
      (simp add: eval_defs new_run_def new_bridge_state_def a_begun_def del: perform.simps(1))
qed


text \<open>
  A second message reaches a conversation that ends for want of work, after it was decided and before
  the future is gone: its claim is durable, and no conversation has its job.
\<close>

definition a_lost_message :: "sys_op list" where
  "a_lost_message =
     a_start # a_turn ''m'' @ [an_op (BEnd (\<lambda>_. []) 0 [111] [] 2), an_op (BIdle 0),
       an_op (BAccept (\<lambda>_. []) None False (InText (a_message ''n''))), an_op (BQueue 3), an_op (BEndRunner 0 4)]"

lemma lost_message:
  "by_trace (fold bridge_step a_lost_message new_sys) =
     [Claimed (a_message ''m'') (ba_tool_owner a_chat) True, Began ''m'' True, Replied ''m'',
      Claimed (a_message ''n'') (ba_tool_owner a_chat) True, Dropped ''n''] \<and>
   map_option (\<lambda>r. (map if_message_id (bg_in_flight (rn_state r)), rn_runners r, rn_polling r))
     (by_run (fold bridge_step a_lost_message new_sys)) = Some ([''n''], [], Between)"
proof -
  have "fold bridge_step a_lost_message new_sys =
    fold bridge_step [an_op (BEnd (\<lambda>_. []) 0 [111] [] 2), an_op (BIdle 0),
       an_op (BAccept (\<lambda>_. []) None False (InText (a_message ''n''))), an_op (BQueue 3), an_op (BEndRunner 0 4)]
     \<lparr>by_disk = rn_state a_begun, by_run = Some a_begun, by_trace = [Claimed (a_message ''m'') (ba_tool_owner a_chat) True, Began ''m'' True]\<rparr>"
    unfolding a_lost_message_def begun[symmetric] a_turn_run_def by simp
  then show ?thesis
    by (simp add: an_op_def del: perform.simps(1))
      (simp add: eval_defs end_job_def idle_out_def end_runner_def record_jobs_def compose_pending_def prune_held_def new_pending_def
        conversation_key_def remove_at_def new_bridge_state_def a_begun_def del: perform.simps(1))
qed


text \<open>The reply is on its way.\<close>

definition a_delivery :: "sys_op list" where
  "a_delivery = a_start # a_turn ''m'' @ [an_op (BEnd (\<lambda>_. []) 0 [111] [] 2), an_op (BDeliver (\<lambda>_. []) False)]"

lemma delivering: "\<exists>r d. by_run (fold bridge_step a_delivery new_sys) = Some r \<and> rn_sending r = Some d"
proof -
  have "fold bridge_step a_delivery new_sys =
    fold bridge_step [an_op (BEnd (\<lambda>_. []) 0 [111] [] 2), an_op (BDeliver (\<lambda>_. []) False)]
     \<lparr>by_disk = rn_state a_begun, by_run = Some a_begun, by_trace = [Claimed (a_message ''m'') (ba_tool_owner a_chat) True, Began ''m'' True]\<rparr>"
    unfolding a_delivery_def begun[symmetric] a_turn_run_def by simp
  then show ?thesis
    by (simp add: an_op_def eval_defs end_job_def compose_pending_def prune_held_def new_pending_def begin_delivery_def
        conversation_key_def remove_at_def new_bridge_state_def a_begun_def)
qed

text \<open>A mail chat stores a notice.\<close>

definition a_mail_notice :: "sys_op list" where
  "a_mail_notice =
     [SStart (a_chat\<lparr>ba_purpose := ForMail\<rparr>) ''f'' False (\<lambda>_ _. []) None 0 (Saved, Saved, Saved),
      an_op (BNotice (\<lambda>_. []) ''u'' [104] None (Some ''k'') False 1)]"

lemma mail_stored: "MailStored ''k'' \<in> set (by_trace (fold bridge_step a_mail_notice new_sys))"
  by (simp add: a_mail_notice_def an_op_def new_sys_def serve_start_def bind_state_def fit_purpose_def prepare_mail_chat_def ordinary_def
      recover_run_def new_bridge_state_def a_chat_def new_run_def store_notice_def store_mail_notice_def Let_def)

section \<open>Claims and jobs\<close>

text \<open>
  C13. A message is claimed for a turn at most once while it is remembered: after its claim, across failed saves,
  stops and restarts, its ID is claimed again only once 4096 other IDs have been marked seen since; and a turn
  begins at most once per claim.
\<close>

theorem message_claimed_once:
  assumes "by_trace (fold bridge_step ops new_sys) = pre @ e # since" and "is_claim i e" and "i \<noteq> []"
    and "card (marks since - {i}) < MAX_SEEN"
  shows "events (is_claim i) since = 0 \<and> events (is_began i) (pre @ e # since) \<le> Suc (events (is_claim i) pre)"
proof -
  have none: "\<not> is_claim i e'" if "e' \<in> set since" for e'
  proof
    assume "is_claim i e'"
    from split_list[OF that] obtain mid post where since: "since = mid @ e' # post" by blast
    then have "MAX_SEEN \<le> card (marks mid - {i})"
      using reachable(1)[OF refl, of ops] assms(1-3) \<open>is_claim i e'\<close> unfolding claims_spaced_def by metis
    moreover have "card (marks mid - {i}) \<le> card (marks since - {i})" by (rule card_mono) (simp, auto simp: since)
    ultimately show False using assms(4) by simp
  qed
  then have "events (is_claim i) since = 0" by (simp add: events_def filter_empty_conv)
  moreover have "events (is_began i) (pre @ e # since) \<le> events (is_claim i) (pre @ e # since)"
    using reachable(2)[OF refl, of ops] unfolding assms(1) began_once_def by blast
  ultimately show ?thesis using assms(2) by simp
qed

theorem message_claimed_once_witness:
  "events (is_claim ''m'') [Began ''m'' True] = 0 \<and>
   events (is_began ''m'') ([] @ Claimed (a_message ''m'') (ba_tool_owner a_chat) True # [Began ''m'' True]) \<le> Suc (events (is_claim ''m'') [])"
  by (rule message_claimed_once[of a_turn_run]) (simp_all add: begun a_message_simps)

text \<open>
  C16. Each claim has one job, in the poller's hands, in its conversation's queue or running, unless it was sent to a
  conversation that was ending; no claim is there twice; so a job that ends finds its claim, and
  \<open>end_job\<close> never fails for want of it.
\<close>

theorem every_job_has_its_claim:
  assumes "by_run (fold bridge_step ops new_sys) = Some r"
  shows "distinct (map if_message_id (bg_in_flight (rn_state r))) \<and>
    job_ids r \<subseteq># mset (map if_message_id (bg_in_flight (rn_state r))) \<and>
    set_mset (mset (map if_message_id (bg_in_flight (rn_state r))) - job_ids r)
      \<subseteq> {i. Dropped i \<in> set (by_trace (fold bridge_step ops new_sys))} \<and>
    end_job draw n t files now r \<noteq> Fails"
proof -
  let ?ids = "map if_message_id (bg_in_flight (rn_state r))"
  obtain lost where lost: "job_ids r + lost = mset ?ids"
    "set_mset lost \<subseteq> {i. Dropped i \<in> set (by_trace (fold bridge_step ops new_sys))}"
    using reachable(4)[OF refl assms] by (auto simp: jobs_ok_def claims_tracked_def)
  then have sub: "job_ids r \<subseteq># mset ?ids" "mset ?ids - job_ids r = lost" by (metis mset_subset_eq_add_left, metis add_diff_cancel_left')
  have "end_job draw n t files now r \<noteq> Fails"
  proof (cases "Option.bind (map_of (rn_runners r) n) ru_job")
    case (Some j)
    then obtain u where u: "(n, u) \<in> set (rn_runners r)" "ru_job u = Some j" by (auto simp: bind_eq_Some_conv dest: map_of_SomeD)
    have "jb_message_id j \<in># total job_ids_of (rn_runners r)"
      using in_total[OF u(1), of _ job_ids_of] u(2) by (simp add: job_ids_of_def)
    then have "jb_message_id j \<in> set ?ids" using sub(1) by (auto simp: job_ids_def dest: mset_subset_eqD)
    then have "position (\<lambda>c. if_message_id c = jb_message_id j) (bg_in_flight (rn_state r)) \<noteq> None"
      by (auto simp: position_None_iff)
    then obtain k where "position (\<lambda>c. if_message_id c = jb_message_id j) (bg_in_flight (rn_state r)) = Some k" by blast
    then show ?thesis using Some by (simp add: end_job_def Let_def split: prod.split)
  qed (simp add: end_job_def)
  then show ?thesis using reachable(5)[OF refl assms] sub lost(2) by simp
qed

theorem every_job_has_its_claim_witness:
  "job_ids a_begun \<subseteq># mset (map if_message_id (bg_in_flight (rn_state a_begun))) \<and> end_job (\<lambda>_. []) 0 [111] [] 2 a_begun \<noteq> Fails"
  using every_job_has_its_claim[of a_turn_run a_begun "\<lambda>_. []" 0 "[111]" "[]" 2] by (simp add: begun)

text \<open>
  C33. While a reply is being delivered it stays the first pending one, as the delivery loop last saved it, with a
  client ID for each of its parts: what the loop counts is what is stored.
\<close>

theorem delivery_keeps_its_place:
  assumes "by_run (fold bridge_step ops new_sys) = Some r" and "rn_sending r = Some d"
  shows "\<exists>ps. bg_pending (rn_state r) = sd_pending d # ps \<and>
    length (text_chunks (sd_pending d)) \<le> length (pd_client_ids (sd_pending d))"
  using reachable(4)[OF refl assms(1)] assms(2) by (simp add: memory_ok_def sending_ok_def)

theorem delivery_keeps_its_place_witness:
  "\<exists>r d ps. by_run (fold bridge_step a_delivery new_sys) = Some r \<and> rn_sending r = Some d \<and> bg_pending (rn_state r) = sd_pending d # ps \<and>
     length (text_chunks (sd_pending d)) \<le> length (pd_client_ids (sd_pending d))"
proof -
  obtain r d where r: "by_run (fold bridge_step a_delivery new_sys) = Some r" "rn_sending r = Some d" using delivering by blast
  from delivery_keeps_its_place[OF r] r show ?thesis by blast
qed

section \<open>Tools and mail\<close>

text \<open>A followed task hands a message of the owner's direct chat back, and its turn begins.\<close>

definition a_return :: returned where
  "a_return = \<lparr>rt_thread = ''u'', rt_message_id = ''m'', rt_text = [104], rt_reply_to = [], rt_thread_reply = []\<rparr>"

definition a_return_chat :: account where
  "a_return_chat = a_chat\<lparr>ba_follow_ups := True\<rparr>"

definition a_return_start :: sys_op where
  "a_return_start = SStart a_return_chat ''f'' False (\<lambda>_ _. []) None 0 (Saved, Saved, Saved)"

definition a_return_run :: "sys_op list" where
  "a_return_run =
     [a_return_start, an_op (BReturned a_return), an_op (BQueue 1), an_op (BBegin 0)]"

lemma returned_begun:
  "by_trace (fold bridge_step a_return_run new_sys) =
     [ClaimedReturn ''return:m'' ''u'' (ba_tool_owner a_chat) True, Began ''return:m'' True]"
proof -
  let ?s = "new_bridge_state\<lparr>bg_fingerprint := Some ''f''\<rparr>"
  have start: "bridge_step a_return_start new_sys =
      \<lparr>by_disk = ?s, by_run = Some (new_run a_return_chat ?s), by_trace = []\<rparr>"
    by (simp add: a_return_start_def new_sys_def serve_start_def bind_state_def fit_purpose_def recover_run_def new_bridge_state_def a_return_chat_def a_chat_def)
  have chat: "chat_of ''u'' = ''u''" by (simp add: chat_of_def THREAD_MARK_def NUL_def)
  show ?thesis
    by (simp add: start a_return_run_def an_op_def)
      (simp add: eval_defs new_run_def new_bridge_state_def a_return_def enqueue_returned_def returned_turn_def known_id_def chat a_return_chat_def a_chat_def)
qed

text \<open>
  C14. A turn with an unattended session's tools only ever answers a direct message of the tools' owner, or a message
  a followed task handed back to the owner's own direct chat or a thread in it: no group message, no other sender, and
  no thread of theirs reaches the owner's session. It holds as long as no platform ID has a NUL in it, the tools' owner
  is the account's, and each thread handed back is the conversation of some message, of a group too, whose sender's ID
  is not the word thread.
\<close>

theorem tools_only_for_owner:
  assumes "list_all plain_op ops" and "Began i True \<in> set (by_trace (fold bridge_step ops new_sys))"
  shows "list_ex (owners_event i) (by_trace (fold bridge_step ops new_sys))"
  using tools.run_keeps[of ops] assms by (auto simp: tools.lawful_def tools_owned_def owners_job_def list_all_iff)

theorem tools_only_for_owner_witness:
  "list_ex (owners_event ''return:m'') (by_trace (fold bridge_step a_return_run new_sys))"
proof (rule tools_only_for_owner)
  have "plain_message (a_message ''m'')" "mg_sender (a_message ''m'') \<noteq> ''thread''" "conversation_of (a_message ''m'') = ''u''"
    by (simp_all add: plain_message_def plain_def a_message_def conversation_of_def)
  then have "returns_to ''u''" unfolding returns_to_def by metis
  then show "list_all plain_op a_return_run"
    by (simp add: a_return_run_def a_return_start_def an_op_def account_fit_def a_return_chat_def a_chat_def plain_def a_return_def)
qed (simp add: returned_begun)

text \<open>
  C15. A mail chat never turns into a chat with turns, nor the other way round: once a mail notice was stored for an
  account, in whatever run, none of its messages is or was ever claimed for a turn, and no turn begins.
\<close>

theorem mail_never_meets_turns:
  assumes "MailStored k \<in> set (by_trace (fold bridge_step ops new_sys))" and "i \<noteq> []"
  shows "events (is_claim i) (by_trace (fold bridge_step ops new_sys)) = 0 \<and>
    events (is_began i) (by_trace (fold bridge_step ops new_sys)) = 0"
proof -
  let ?s = "fold bridge_step ops new_sys"
  have "mail_ok (by_trace ?s) (by_disk ?s)" using chats.run_keeps[of ops] by (simp add: chats.lawful_def)
  then have none: "events (is_claim i) (by_trace ?s) = 0" using assms by (auto simp: mail_ok_def)
  moreover have "events (is_began i) (by_trace ?s) \<le> events (is_claim i) (by_trace ?s)"
    using reachable(2)[OF refl, of ops] by (simp add: began_once_def)
  ultimately show ?thesis by simp
qed

theorem mail_never_meets_turns_witness:
  "events (is_claim ''m'') (by_trace (fold bridge_step a_mail_notice new_sys)) = 0"
  using mail_never_meets_turns[where k = "''k''" and ops = a_mail_notice and i = "''m''"] mail_stored by simp

section \<open>Texts\<close>

text \<open>Cutting a message into parts loses nothing and makes at least one part, none over the platform's limit (or
  over one character's four bytes).\<close>

theorem parts_lose_nothing:
  "concat (split_utf8 v limit) = v \<and> split_utf8 v limit \<noteq> [] \<and> list_all (\<lambda>p. ulen p \<le> max limit 4) (split_utf8 v limit)"
  using split_utf8_parts[where v = v and limit = limit] by simp

text \<open>
  C34. Each part of a labelled text of SCV's own is one code block, closed in that part by a fence longer than any
  run of backticks in what it holds; the blocks hold the label and the text, in order and unchanged, and each part
  fits the limit.
\<close>

theorem system_text_parts:
  assumes "label \<noteq> []" and "f = max (backticks 0 (label @ t)) 2 + 1" and "2 * (f + 1) + 4 \<le> MAX_REPLY_BYTES"
  shows "\<exists>cs. split_utf8 (system_text label t) MAX_REPLY_BYTES = map (\<lambda>(c, pad). block f c pad) cs \<and>
    concat (map fst cs) = label @ t \<and> list_all (\<lambda>(c, pad). backticks 0 c < f) cs \<and>
    list_all (\<lambda>p. ulen p \<le> MAX_REPLY_BYTES) (split_utf8 (system_text label t) MAX_REPLY_BYTES)"
  using code_blocks_parts[OF assms(2,3)] assms(1) by (auto simp: blocks_def system_text_def)

theorem system_text_parts_witness:
  "\<exists>cs. split_utf8 (system_text [91, 83, 93] [96, 96, 96, 104]) MAX_REPLY_BYTES = map (\<lambda>(c, pad). block 4 c pad) cs \<and>
    concat (map fst cs) = [91, 83, 93, 96, 96, 96, 104]"
  using system_text_parts[of "[91, 83, 93]" 4 "[96, 96, 96, 104]"] by (auto simp: MAX_REPLY_BYTES_def)

section \<open>Refused replies\<close>

text \<open>
  C35. A reply the platform refused, unless it was one of SCV's passing texts, is held as the newest: what of it did
  not go out (its own text, or the rest of the message once a part went out), whole up to 8 KiB and its start with a
  mark beyond. The replies it carried ahead of it come back with it when no part went out. What is then held is what
  the limits let stay of those before, those back and this one, within 128 replies, four and 32 KiB per
  conversation and a week.
\<close>

theorem refused_reply_held:
  assumes "\<not> pd_transient p" and "list_all (\<lambda>h. hr_held_at h \<le> now) (bg_held s @ pd_carried p)"
  shows "held_ok now (bg_held (hold_refused p (text_chunks p) now s)) \<and>
    bg_held (hold_refused p (text_chunks p) now s) =
      retained now (sort_key hr_held_at (bg_held s @ (if pd_next_chunk p = 0 then pd_carried p else [])) @ [just_refused p now]) \<and>
    (\<exists>hs. bg_held (hold_refused p (text_chunks p) now s) = hs @ [just_refused p now]) \<and>
    ulen (hr_reply (just_refused p now)) \<le> MAX_HELD_REPLY_BYTES \<and>
    (if ulen (unsent_text p) \<le> MAX_HELD_REPLY_BYTES then hr_reply (just_refused p now) = unsent_text p
     else \<exists>kept rest. unsent_text p = kept @ rest \<and> hr_reply (just_refused p now) = kept @ MARKER \<and>
       MAX_HELD_REPLY_BYTES < ulen (kept @ MARKER) + 4)"
proof -
  have "\<forall>h \<in> set (bg_held s @ pd_carried p). hr_held_at h \<le> now" using assms(2) by (auto simp: list_all_iff)
  note after = held_after[OF assms(1) this]
  have cut: "hr_reply (just_refused p now) = truncate_held (unsent_text p)" by (simp add: just_refused_def)
  then have bound: "ulen (hr_reply (just_refused p now)) \<le> MAX_HELD_REPLY_BYTES" by (simp add: truncate_held_bound)
  then have "\<exists>hs. bg_held (hold_refused p (text_chunks p) now s) = hs @ [just_refused p now]"
    unfolding after by (rule retained_last) (simp add: just_refused_def)
  moreover have "if ulen (unsent_text p) \<le> MAX_HELD_REPLY_BYTES then hr_reply (just_refused p now) = unsent_text p
     else \<exists>kept rest. unsent_text p = kept @ rest \<and> hr_reply (just_refused p now) = kept @ MARKER \<and>
       MAX_HELD_REPLY_BYTES < ulen (kept @ MARKER) + 4"
    using truncate_held_cut[of "unsent_text p"] unfolding cut
    by (cases "ulen (unsent_text p) \<le> MAX_HELD_REPLY_BYTES") (auto simp: truncate_held_def not_le)
  moreover have "held_ok now (bg_held (hold_refused p (text_chunks p) now s))" unfolding after by (rule retained_ok)
  ultimately show ?thesis using after bound by blast
qed

definition a_refused :: pending_delivery where
  "a_refused = (new_pending (\<lambda>_. []) ''m'' ''u'' [] [104, 105])
     \<lparr>pd_carried := [\<lparr>hr_key = ''u'', hr_to = ''u'', hr_reply = [106], hr_held_at = 3\<rparr>], pd_own := Some [105]\<rparr>"

lemma a_refused_now: "just_refused a_refused 9 = \<lparr>hr_key = ''u'', hr_to = ''u'', hr_reply = [105], hr_held_at = 9\<rparr>"
  by (simp add: a_refused_def just_refused_def unsent_text_def new_pending_def conversation_key_def truncate_held_def utf8_len_def
      MAX_HELD_REPLY_BYTES_def MAX_REPLY_BYTES_def)

theorem refused_reply_held_witness:
  "\<exists>hs. bg_held (hold_refused a_refused (text_chunks a_refused) 9 new_bridge_state) =
     hs @ [\<lparr>hr_key = ''u'', hr_to = ''u'', hr_reply = [105], hr_held_at = 9\<rparr>]"
proof -
  have "\<not> pd_transient a_refused" "list_all (\<lambda>h. hr_held_at h \<le> 9) (bg_held new_bridge_state @ pd_carried a_refused)"
    by (simp_all add: a_refused_def new_pending_def new_bridge_state_def)
  from refused_reply_held[OF this] show ?thesis unfolding a_refused_now by blast
qed

text \<open>
  C36. Composing a reply loses no refused one but those the limits drop, and none of a held list within its limits:
  for every conversation the held replies that stay are, in the order they were refused, the ones that ride ahead of
  the reply, for its own conversation, and then the ones still held. The message is those, each under its header, and
  the reply under its own, or just the reply when none rides; it fits one message of 16 KiB when any rides;
  and the oldest reply left behind would not have fitted.
\<close>

theorem composing_keeps_held:
  "case compose_pending draw c own now s of (p, s') \<Rightarrow>
     (\<forall>k. of_conversation k (retained now (bg_held s)) =
        (if k = conversation_key (if_key c) (if_to c) then pd_carried p else []) @ of_conversation k (bg_held s')) \<and>
     (held_ok now (bg_held s) \<longrightarrow> retained now (bg_held s) = bg_held s) \<and>
     pd_reply p = (if pd_carried p = [] then own
       else concat (map (\<lambda>h. HELD_HEADER @ hr_reply h @ [10, 10]) (pd_carried p)) @ LATEST_HEADER @ own) \<and>
     (pd_carried p \<noteq> [] \<longrightarrow> ulen (pd_reply p) \<le> MAX_REPLY_BYTES \<and> pd_own p = Some own) \<and>
     (\<forall>h hs. of_conversation (conversation_key (if_key c) (if_to c)) (bg_held s') = h # hs \<longrightarrow>
        MAX_REPLY_BYTES < ulen (concat (map (\<lambda>h. HELD_HEADER @ hr_reply h @ [10, 10]) (pd_carried p @ [h])) @ LATEST_HEADER @ own))"
proof -
  let ?key = "conversation_key (if_key c) (if_to c)"
  obtain kept b taken where cr: "carry ?key (ulen LATEST_HEADER + ulen own) [] (retained now (bg_held s)) = (kept, b, taken)"
    by (metis prod_cases3)
  obtain p s' where c: "compose_pending draw c own now s = (p, s')" by fastforce
  from c cr have parts: "pd_carried p = taken" "bg_held s' = kept" "pd_reply p = (if taken = [] then own else b @ LATEST_HEADER @ own)"
    "taken \<noteq> [] \<Longrightarrow> pd_own p = Some own"
    by (auto simp: compose_pending_def Let_def new_pending_def prune_held_retained split: if_splits)
  note spec = carry_spec[OF cr]
  have "ulen [10, 10] = 2" by (simp add: utf8_len_def)
  then have "\<forall>h hs. of_conversation ?key kept = h # hs \<longrightarrow>
      MAX_REPLY_BYTES < ulen (concat (map (\<lambda>h. HELD_HEADER @ hr_reply h @ [10, 10]) (taken @ [h])) @ LATEST_HEADER @ own)"
    using carry_full[OF cr] spec by (fastforce simp: utf8_len_def)
  then show ?thesis
    using carry_order[OF cr] spec parts retained_all[of now "bg_held s"] unfolding c by auto
qed

definition a_held_list :: "held_reply list" where
  "a_held_list = [\<lparr>hr_key = ''u'', hr_to = ''u'', hr_reply = [104], hr_held_at = 3\<rparr>, \<lparr>hr_key = ''v'', hr_to = ''v'', hr_reply = [105], hr_held_at = 4\<rparr>,
     \<lparr>hr_key = ''u'', hr_to = ''u'', hr_reply = [106], hr_held_at = 5\<rparr>]"

lemma a_held_list_ok: "held_ok 9 a_held_list"
proof -
  have "length (of_conversation k a_held_list) \<le> 3" "held_bytes (of_conversation k a_held_list) \<le> 3" for k
    by (simp_all add: a_held_list_def utf8_len_def)
  then have "length (of_conversation k a_held_list) \<le> HELD_MAX_PER_CONVERSATION"
    "held_bytes (of_conversation k a_held_list) \<le> HELD_MAX_BYTES_PER_CONVERSATION" for k
    by (simp_all add: HELD_MAX_PER_CONVERSATION_def HELD_MAX_BYTES_PER_CONVERSATION_def MAX_HELD_REPLY_BYTES_def
        MAX_REPLY_BYTES_def order_trans[of _ 3])
  then show ?thesis by (simp add: held_ok_def) (simp add: a_held_list_def HELD_MAX_TOTAL_def HELD_MAX_AGE_def)
qed

theorem composing_keeps_held_witness:
  "case compose_pending (\<lambda>_. []) \<lparr>if_message_id = ''m'', if_to = ''u'', if_context = [], if_key = [], if_reaction = None\<rparr> [107] 9
      (new_bridge_state\<lparr>bg_held := a_held_list\<rparr>) of (p, s') \<Rightarrow>
     pd_carried p @ of_conversation ''u'' (bg_held s') = of_conversation ''u'' a_held_list \<and>
     of_conversation ''v'' (bg_held s') = of_conversation ''v'' a_held_list"
  using composing_keeps_held[where draw = "\<lambda>_. []" and own = "[107]" and now = 9 and s = "new_bridge_state\<lparr>bg_held := a_held_list\<rparr>"
      and c = "\<lparr>if_message_id = ''m'', if_to = ''u'', if_context = [], if_key = [], if_reaction = None\<rparr>"] a_held_list_ok
  by (auto simp: conversation_key_def split: prod.splits)

end
