(* ===== verification/Spec2Isabelle.thy ===== *)
theory Spec2Isabelle
  imports Framing Mail_Theorems Mail_Plan Hub_Theorems Gate_Theorems Confirm Bridge_Theorems
begin

text \<open>
  SCV is one daemon that holds agent sessions, tools and approvals, and that people reach from a
  terminal, from chat apps and through mail. This development models the parts of it that decide: who
  may make a tool run, which message gets a turn, what the model is sent, what happens to a mail
  action, and what survives a crash.

  \<^bold>\<open>Parts and how they interact.\<close> A client or bridge talks to the daemon in lines of JSON
  (\<open>Framing\<close>). A session runs turns of an agent (\<open>Core_Runtime\<close>) over its history
  (\<open>Core_History\<close>), cut to the model's window (\<open>Core_Context\<close>); each tool call passes the approval
  gates (\<open>Gate\<close>). A chat account's bridge (\<open>Bridge\<close>) takes the platform's messages, decides with
  \<open>Intake\<close> which gets a turn, and keeps claims and replies durable. The hub (\<open>Hub\<close>) is what bridges,
  email accounts and the daemon share: notices, the owner's questions (\<open>Confirm\<close>), and the commands a
  mail chat's owner sends (\<open>Mail_Chat\<close>). An email account keeps a ledger (\<open>Mail_Ledger\<close>,
  \<open>Mail_Queue\<close>) of mail actions, each previewed in the mail chat and executed only once approved
  (\<open>Mail_Actions\<close>); a plan (\<open>Mail_Plan\<close>) decides when the chat hears of new mail.

  \<^bold>\<open>Which theory models what\<close> (paths under \<^verbatim>\<open>src/crates\<close>).
  \<^item> \<open>Prelude\<close>: Rust's integers, strings and collections as the model writes them, shared lemmas, and
    the locale for machines with an invariant.
  \<^item> \<open>Framing\<close>: \<^verbatim>\<open>scv-protocol/src/frame.rs\<close>, \<open>FrameDecoder\<close>, \<open>read_frame\<close> and \<open>encode\<close>.
  \<^item> \<open>Mail_Types\<close>, \<open>Mail_Content\<close>: the action records and the canonical encoding under their digest
    (\<^verbatim>\<open>scv-channels/src/email/content.rs\<close> and \<^verbatim>\<open>ledger.rs\<close>).
  \<^item> \<open>Mail_Queue\<close>, \<open>Mail_Policy\<close>, \<open>Mail_Ledger\<close>, \<open>Mail_Actions\<close>: the ledger and its actions
    (\<^verbatim>\<open>ledger.rs\<close>, \<^verbatim>\<open>ledger/actions.rs\<close>), one definition per method, each a function from the state to
    a result and the state; a write that fails leaves the state as it was.
  \<^item> \<open>Mail_Safety\<close>: the ledger with one executor (\<^verbatim>\<open>executor.rs\<close>) as a state machine with failed writes,
    crashes and restarts; \<open>Mail_Invariants\<close> and \<open>Mail_Theorems\<close>: its invariants and properties.
  \<^item> \<open>Mail_Plan\<close>: \<^verbatim>\<open>email/plan.rs\<close>, with the settings it reads. \<open>Mail_Chat\<close>: \<^verbatim>\<open>mail_chat.rs\<close> and
    \<^verbatim>\<open>mail_chat/codes.rs\<close>.
  \<^item> \<open>Hub\<close>, \<open>Hub_Theorems\<close>: \<^verbatim>\<open>scv-channels/src/hub.rs\<close>. \<open>Confirm\<close>: \<^verbatim>\<open>scv-server/src/confirm.rs\<close>.
  \<^item> \<open>Core_History\<close>, \<open>Core_Context\<close>, \<open>Core_Runtime\<close>, \<open>Core_Turn\<close>: scv-core's \<^verbatim>\<open>message.rs\<close>,
    \<^verbatim>\<open>history.rs\<close>, \<^verbatim>\<open>context.rs\<close> and \<^verbatim>\<open>runtime.rs\<close>.
  \<^item> \<open>Gate\<close>, \<open>Gate_Theorems\<close>: \<^verbatim>\<open>scv-server/src/approval.rs\<close>.
  \<^item> \<open>Bridge_State\<close>, \<open>Bridge_Texts\<close>: the delivery state of \<^verbatim>\<open>scv-channels/src/state.rs\<close> and the
    functions of \<^verbatim>\<open>lib.rs\<close> that change it without waiting. \<open>Intake\<close>: \<^verbatim>\<open>intake.rs\<close>. \<open>Bridge\<close>: \<open>serve\<close> and
    the futures it polls side by side, an operation for each stretch between taking the state's lock
    and the next wait, in any order. \<open>Bridge_Memory\<close>, \<open>Bridge_Runs\<close>, \<open>Bridge_Invariant\<close>,
    \<open>Bridge_Jobs\<close>, \<open>Bridge_Mail\<close>, \<open>Bridge_Tools\<close> and \<open>Bridge_Theorems\<close>: what every run keeps.

  \<^bold>\<open>How it is written.\<close> Fallible functions return a sum or an option; machine integers that can wrap or
  saturate do so in the model; texts are lists of code points measured in UTF-8 bytes, other strings
  are byte strings. Loops are structural, have a measure, or take a list of what each round is
  answered, so no function here can run without end. A loop over a network or a clock takes the
  answers as arguments, and the theorems hold for all of them.

  Interfaces are locales: \<open>invariant_machine\<close> and \<open>step_machine\<close> (a step keeps an invariant),
  \<open>context_policy\<close> (what selecting a turn's history promises), \<open>approval_gate\<close> (what a gate promises a
  turn), and \<open>bridge_law\<close> (what the operations, saves, starts and recoveries of a bridge must keep), each
  interpreted on the model's definitions where they are proved.

  \<^bold>\<open>What the lemmas show.\<close> For mail: a message is sent at most once, whatever fails; nothing is acted
  on without an approval of exactly what was shown; an action answered with a 401 is never tried again; a choice is used
  once per group; what is over stays over; a write succeeds whole or changes nothing. For the agent: a turn's tools run
  only when the gates allow; no turn runs a plainly spelled \<^verbatim>\<open>git push\<close> that forces \<^verbatim>\<open>main\<close>, and only the owner lets a
  plainly spelled \<^verbatim>\<open>cargo publish\<close> through. (The gate is a guardrail: a wrapper's argument named git, a line continuation,
  a shell the command runs and a push without refspecs pass it, as \<open>wrapper_named_git_hides\<close> and \<open>continuation_hides\<close> of
  \<open>Gate_Theorems\<close> show of the first two.) A failed turn leaves no trace in the history, and every request fits the window
  and holds the whole turn so far. For chat: a message gets at most one turn while 4096 later ones are remembered; each
  claim has its job; the tools of an unattended session answer only the owner; mail notices and turns
  never meet in one account; what is sent is what was composed, part by part; refused replies are kept
  within bounds, and composing a reply loses none that the bounds keep. For the hub: mail notices reach only mail chats, a question is answered once and by
  its owner, an approval goes to the account that holds its code.

  \<^bold>\<open>Parameters and hypotheses.\<close> SHA-256, JSON sizes, drawn IDs and codes, clocks, whether a save
  succeeds, and what platforms, providers, mail servers and task subscriptions answer are arguments.
  Where a theorem needs more it is stated: the digest does not collide on the contents compared; the
  platforms' IDs have no NUL in them and no sender's is the word thread; a subscription returns work to the
  conversation of a message.

  \<^bold>\<open>Bounds.\<close> The limits are the source's (8 queued messages per conversation, 64 claims, 32 sessions,
  4096 seen IDs, 128 held replies, 16 KiB a part, and the ledger's). No fuel is used: the loops of the
  source that wait are steps of a machine.

  \<^bold>\<open>Not modelled.\<close> The terminal, command line and client library; the model providers' HTTP; the
  transports of Feishu, Slack and WeChat; IMAP, SMTP, Gmail, Graph and OAuth; mail parsing, triage and
  the worker's timing; a bridge's session client, chat log and media files; the built-in tools and their
  sandbox; delegated agents with their journals, subscriptions and reviews; the server's sockets,
  configuration, session files, upgrades and restarts. They are input and output around the parts above,
  or, for delegated agents and restarts, components of their own that nothing here depends on but
  through the arguments named.
\<close>

end
